(* ===== verification/Prelude.thy ===== *)
theory Prelude
  imports "HOL-Library.Word"
begin

text \<open>
  Shared vocabulary of the development: bytes and C strings, the byte codec
  interface that the packet format rests on, the result type of fallible
  operations, and generic facts on lists, options and words that the component
  theories use through the collections declared here.
\<close>

named_theorems codec_simps \<open>length and round-trip facts of the byte encoders\<close>
named_theorems length_simps \<open>length facts of decoders, used by termination proofs\<close>

section \<open>Bytes and C strings\<close>

type_synonym byte = "8 word"
type_synonym bytes = "byte list"

text \<open>
  A C string is the list of its bytes before the terminating NUL.  Text that the
  program only compares and copies is a \<open>string\<close> (a character list).
\<close>

type_synonym cstring = "byte list"

definition bytes_of :: "string \<Rightarrow> bytes" where
  "bytes_of s = map of_char s"

definition nul_free :: "cstring \<Rightarrow> bool" where
  "nul_free s \<longleftrightarrow> 0 \<notin> set s"

text \<open>What \<open>strlen\<close>/\<open>strdup\<close> read at a pointer: the bytes up to the first NUL,
  \<open>None\<close> when the buffer ends before one (the C code would read past it).\<close>

fun take_cstr :: "bytes \<Rightarrow> (cstring \<times> bytes) option" where
  "take_cstr [] = None"
| "take_cstr (b # bs) =
     (if b = 0 then Some ([], bs)
      else map_option (\<lambda>(s, rest). (b # s, rest)) (take_cstr bs))"

definition take_bytes :: "nat \<Rightarrow> bytes \<Rightarrow> (bytes \<times> bytes) option" where
  "take_bytes n bs = (if n \<le> length bs then Some (take n bs, drop n bs) else None)"

fun take_byte :: "bytes \<Rightarrow> (byte \<times> bytes) option" where
  "take_byte [] = None"
| "take_byte (b # bs) = Some (b, bs)"

lemma take_cstr_enc [codec_simps]:
  "nul_free s \<Longrightarrow> take_cstr (s @ 0 # rest) = Some (s, rest)"
  by (induction s) (auto simp: nul_free_def)

lemma take_cstr_length [length_simps]:
  "take_cstr bs = Some (s, rest) \<Longrightarrow> length bs = Suc (length s + length rest)"
  by (induction bs arbitrary: s) (auto split: if_splits)

lemma take_cstr_nul_free: "take_cstr bs = Some (s, rest) \<Longrightarrow> nul_free s"
  by (induction bs arbitrary: s) (auto simp: nul_free_def split: if_splits)

lemma take_cstr_split: "take_cstr bs = Some (s, rest) \<Longrightarrow> bs = s @ 0 # rest"
  by (induction bs arbitrary: s) (auto split: if_splits)

lemma take_bytes_enc [codec_simps]:
  "length xs = n \<Longrightarrow> take_bytes n (xs @ rest) = Some (xs, rest)"
  by (auto simp: take_bytes_def)

lemma take_bytes_length [length_simps]:
  "take_bytes n bs = Some (xs, rest) \<Longrightarrow> length bs = n + length rest \<and> length xs = n"
  by (auto simp: take_bytes_def split: if_splits)

lemma take_byte_length [length_simps]:
  "take_byte bs = Some (b, rest) \<Longrightarrow> length bs = Suc (length rest)"
  by (cases bs) auto

text \<open>The value of a wider integer stored in a C \<open>int\<close>.\<close>

definition to_int :: "int \<Rightarrow> int" where
  "to_int v = sint (word_of_int v :: 32 word)"

section \<open>Results\<close>

text \<open>Sequencing of operations that can fail: the first error ends the sequence.\<close>

fun bindE :: "'e + 'a \<Rightarrow> ('a \<Rightarrow> 'e + 'b) \<Rightarrow> 'e + 'b" where
  "bindE (Inl e) f = Inl e"
| "bindE (Inr x) f = f x"

lemma bindE_Inr [simp]: "bindE m f = Inr y \<longleftrightarrow> (\<exists>x. m = Inr x \<and> f x = Inr y)"
  by (cases m) auto

lemma bindE_cong [fundef_cong]:
  "m = m' \<Longrightarrow> (\<And>x. m' = Inr x \<Longrightarrow> f x = f' x) \<Longrightarrow> bindE m f = bindE m' f'"
  by (cases m') auto

lemma bindE_Inl [simp]: "bindE m f = Inl e \<longleftrightarrow> m = Inl e \<or> (\<exists>x. m = Inr x \<and> f x = Inl e)"
  by (cases m) auto

fun foldE :: "('a \<Rightarrow> 's \<Rightarrow> 'e + 's) \<Rightarrow> 'a list \<Rightarrow> 's \<Rightarrow> 'e + 's" where
  "foldE f [] s = Inr s"
| "foldE f (x # xs) s = bindE (f x s) (foldE f xs)"

lemma foldE_invariant:
  assumes "\<And>x s s'. x \<in> set xs \<Longrightarrow> P s \<Longrightarrow> f x s = Inr s' \<Longrightarrow> P s'" "P s" "foldE f xs s = Inr s'"
  shows "P s'"
  using assms by (induction xs arbitrary: s) auto

lemma foldE_append: "foldE f (xs @ ys) s = bindE (foldE f xs s) (foldE f ys)"
proof (induction xs arbitrary: s)
  case (Cons x xs)
  then show ?case by (cases "f x s") auto
qed simp

section \<open>Network byte order\<close>


text \<open>\<open>htons\<close>/\<open>htonl\<close> followed by a byte copy: most significant byte first.\<close>

definition be16 :: "16 word \<Rightarrow> bytes" where
  "be16 w = [ucast (drop_bit 8 w), ucast w]"

definition be32 :: "32 word \<Rightarrow> bytes" where
  "be32 w = [ucast (drop_bit 24 w), ucast (drop_bit 16 w), ucast (drop_bit 8 w), ucast w]"

fun un_be16 :: "bytes \<Rightarrow> 16 word" where
  "un_be16 [a, b] = or (push_bit 8 (ucast a)) (ucast b)"
| "un_be16 _ = 0"

fun un_be32 :: "bytes \<Rightarrow> 32 word" where
  "un_be32 [a, b, c, d] =
     or (push_bit 24 (ucast a)) (or (push_bit 16 (ucast b)) (or (push_bit 8 (ucast c)) (ucast d)))"
| "un_be32 _ = 0"

lemma be16_length [codec_simps, simp]: "length (be16 w) = 2"
  by (simp add: be16_def)

lemma be32_length [codec_simps, simp]: "length (be32 w) = 4"
  by (simp add: be32_def)

lemma un_be16_be16 [codec_simps, simp]: "un_be16 (be16 w) = w"
proof (rule bit_word_eqI)
  fix n assume "n < LENGTH(16)"
  then show "bit (un_be16 (be16 w)) n = bit w n"
    by (cases "n < 8") (auto simp: be16_def bit_simps)
qed

lemma un_be32_be32 [codec_simps, simp]: "un_be32 (be32 w) = w"
proof (rule bit_word_eqI)
  fix n assume n: "n < LENGTH(32)"
  show "bit (un_be32 (be32 w)) n = bit w n"
  proof -
    consider "n < 8" | "8 \<le> n \<and> n < 16" | "16 \<le> n \<and> n < 24" | "24 \<le> n \<and> n < 32"
      using n by fastforce
    then show ?thesis
      using n by cases (auto simp: be32_def bit_simps)
  qed
qed

section \<open>Lists split at the first occurrence of a separator\<close>

lemma split_at_first_in:
  "bs @ t = u @ x # rest \<Longrightarrow> x \<notin> set u \<Longrightarrow> x \<in> set bs \<Longrightarrow> \<exists>zs. bs = u @ x # zs"
proof (induction bs arbitrary: u)
  case (Cons b bs)
  then show ?case by (cases u) auto
qed simp

lemma split_at_first_out:
  "bs @ t = u @ x # rest \<Longrightarrow> x \<notin> set u \<Longrightarrow> x \<notin> set bs \<Longrightarrow> \<exists>v. u = bs @ v \<and> v @ x # rest = t"
proof (induction bs arbitrary: u)
  case (Cons b bs)
  then show ?case by (cases u) auto
qed simp

lemmas split_at_first = split_at_first_in split_at_first_out

section \<open>The byte codec interface\<close>

text \<open>
  Every field of an rplay packet is written by an encoder and read back by a
  decoder that returns the rest of the buffer.  \<open>ok\<close> holds for the values the
  field can carry.
\<close>

locale field_codec =
  fixes enc :: "'a \<Rightarrow> bytes"
    and dec :: "bytes \<Rightarrow> ('a \<times> bytes) option"
    and ok :: "'a \<Rightarrow> bool"
  assumes dec_enc: "ok x \<Longrightarrow> dec (enc x @ rest) = Some (x, rest)"
begin

lemma dec_enc_nil: "ok x \<Longrightarrow> dec (enc x) = Some (x, [])"
  using dec_enc [of x "[]"] by simp

lemma enc_prefix_inject:
  assumes "ok x" "ok y" "enc x @ r = enc y @ s"
  shows "x = y \<and> r = s"
proof -
  have "Some (x, r) = Some (y, s)"
    using assms dec_enc by metis
  then show ?thesis by simp
qed

lemma enc_inject: "ok x \<Longrightarrow> ok y \<Longrightarrow> enc x = enc y \<longleftrightarrow> x = y"
  using enc_prefix_inject [of x y "[]" "[]"] by auto

end

end
