(* ===== verification/Packet.thy ===== *)
theory Packet
  imports Prelude
begin

text \<open>
  The rplay object and its UDP packet format (\<open>src/librplay/rplay.c\<close>,
  \<open>src/include/rplay.h\<close>): creation, packing into the growing buffer,
  unpacking, and the codec interface with its interpretations on the field
  encoders of the packet.  The object edited through pointers by
  \<open>rplay_set\<close> is in theory \<open>RplaySet\<close>.  The size of \<open>unsigned long\<close> and the
  byte order of the host are parameters, because the code copies \<open>long\<close>
  variables byte by byte.  Allocation is assumed to succeed.
\<close>

section \<open>Constants of rplay.h\<close>

abbreviation "RPLAY_NULL \<equiv> (0 :: byte)"
abbreviation "RPLAY_PACKET_ID \<equiv> (30 :: byte)"
abbreviation "RPLAY_PLAY \<equiv> (1 :: int)"
abbreviation "RPLAY_STOP \<equiv> (2 :: int)"
abbreviation "RPLAY_PAUSE \<equiv> (3 :: int)"
abbreviation "RPLAY_CONTINUE \<equiv> (4 :: int)"
abbreviation "RPLAY_SOUND \<equiv> (5 :: byte)"
abbreviation "RPLAY_VOLUME \<equiv> (6 :: byte)"
abbreviation "RPLAY_COUNT \<equiv> (13 :: byte)"
abbreviation "RPLAY_LIST_COUNT \<equiv> (14 :: byte)"
abbreviation "RPLAY_PRIORITY \<equiv> (15 :: byte)"
abbreviation "RPLAY_PING \<equiv> (17 :: int)"
abbreviation "RPLAY_RPTP_SERVER \<equiv> (18 :: byte)"
abbreviation "RPLAY_RPTP_SERVER_PORT \<equiv> (19 :: byte)"
abbreviation "RPLAY_RPTP_SEARCH \<equiv> (20 :: byte)"
abbreviation "RPLAY_SAMPLE_RATE \<equiv> (22 :: byte)"
abbreviation "RPLAY_RESET \<equiv> (23 :: int)"
abbreviation "RPLAY_DONE \<equiv> (24 :: int)"
abbreviation "RPLAY_CLIENT_DATA \<equiv> (25 :: byte)"
abbreviation "RPLAY_LIST_NAME \<equiv> (26 :: byte)"
abbreviation "RPLAY_PUT \<equiv> (27 :: int)"
abbreviation "RPLAY_ID \<equiv> (28 :: byte)"
abbreviation "RPLAY_SEQUENCE \<equiv> (29 :: byte)"
abbreviation "RPLAY_DATA \<equiv> (30 :: byte)"
abbreviation "RPLAY_DATA_SIZE \<equiv> (31 :: byte)"
abbreviation "RPLAY_LEFT_VOLUME \<equiv> (32 :: byte)"
abbreviation "RPLAY_RIGHT_VOLUME \<equiv> (33 :: byte)"

abbreviation "RPLAY_DEFAULT_VOLUME \<equiv> (127 :: int)"
abbreviation "RPLAY_DEFAULT_PRIORITY \<equiv> (0 :: int)"
abbreviation "RPLAY_DEFAULT_COUNT \<equiv> (1 :: int)"
abbreviation "RPLAY_DEFAULT_LIST_COUNT \<equiv> (1 :: int)"
abbreviation "RPLAY_DEFAULT_RANDOM_SOUND \<equiv> (-1 :: int)"
abbreviation "RPLAY_DEFAULT_SAMPLE_RATE \<equiv> (0 :: nat)"
abbreviation "RPTP_PORT \<equiv> (5556 :: 16 word)"

abbreviation "COPY_SIZE \<equiv> (128 :: nat)"
abbreviation "MAX_PACKET \<equiv> (8192 :: nat)"

datatype rplay_error =
    RPLAY_ERROR_NONE | RPLAY_ERROR_MEMORY | RPLAY_ERROR_HOST | RPLAY_ERROR_CONNECT
  | RPLAY_ERROR_SOCKET | RPLAY_ERROR_WRITE | RPLAY_ERROR_CLOSE | RPLAY_ERROR_PACKET_SIZE
  | RPLAY_ERROR_BROADCAST | RPLAY_ERROR_ATTRIBUTE | RPLAY_ERROR_COMMAND
  | RPLAY_ERROR_INDEX | RPLAY_ERROR_MODIFIER

text \<open>
  What an operation can do besides succeeding: return an error of the
  \<open>rplay_errno\<close> table, or run into behaviour C leaves undefined (a read past the
  packet, a write past the allocated buffer, a \<open>va_arg\<close> of the wrong type, a
  remainder by zero), or follow a cyclic list that never reaches NULL.
\<close>

datatype fault = ReadOverrun | HeapOverflow | BadVararg | DivideByZero | EndlessList

datatype perror = Errno rplay_error | Undef fault

section \<open>The rplay object\<close>

text \<open>The parts of the C ABI the packet format depends on.\<close>

record host_abi =
  long_size :: nat   \<comment> \<open>sizeof (unsigned long)\<close>
  little :: bool     \<comment> \<open>little-endian host\<close>

definition ilp32 :: host_abi where "ilp32 = \<lparr>long_size = 4, little = True\<rparr>"
definition lp64 :: host_abi where "lp64 = \<lparr>long_size = 8, little = True\<rparr>"

record rplay_attrs =
  a_sound :: cstring
  a_volume_l :: int
  a_volume_r :: int
  a_count :: int
  a_rptp_server :: "cstring option"
  a_rptp_server_port :: "16 word"
  a_rptp_search :: int
  a_sample_rate :: nat
  a_client_data :: cstring

text \<open>\<open>buf\<close>, \<open>len\<close> and \<open>size\<close> of the object, and the number of bytes
  really allocated for \<open>buf\<close>.\<close>

record packet_buf =
  pb_buf :: bytes
  pb_size :: nat
  pb_cap :: nat

definition pb_len :: "packet_buf \<Rightarrow> nat" where
  "pb_len b = length (pb_buf b)"

text \<open>The fields of \<open>RPLAY\<close> other than the list of attributes.\<close>

record rplay_hdr =
  r_pbuf :: packet_buf
  r_command :: int
  r_nsounds :: int
  r_count :: int
  r_priority :: int
  r_random_sound :: int
  r_list_name :: cstring
  r_id :: int
  r_sequence :: nat
  r_data_size :: "16 word"
  r_data :: "bytes option"

text \<open>The object with its linked list read as the list of its nodes.\<close>

record rplay = rplay_hdr +
  r_attrs :: "rplay_attrs list"

definition rplay_attrs_create :: rplay_attrs where
  "rplay_attrs_create = \<lparr>a_sound = [], a_volume_l = RPLAY_DEFAULT_VOLUME,
     a_volume_r = RPLAY_DEFAULT_VOLUME, a_count = RPLAY_DEFAULT_COUNT,
     a_rptp_server = None, a_rptp_server_port = RPTP_PORT, a_rptp_search = 1,
     a_sample_rate = RPLAY_DEFAULT_SAMPLE_RATE, a_client_data = []\<rparr>"

definition ulong_max :: "host_abi \<Rightarrow> nat" where
  "ulong_max abi = 2 ^ (8 * long_size abi) - 1"

definition new_packet_buf :: packet_buf where
  "new_packet_buf = \<lparr>pb_buf = [], pb_size = 0, pb_cap = COPY_SIZE\<rparr>"

definition rplay_commands :: "int list" where
  "rplay_commands = [RPLAY_PLAY, RPLAY_STOP, RPLAY_PAUSE, RPLAY_CONTINUE, RPLAY_PING,
     RPLAY_RESET, RPLAY_DONE, RPLAY_PUT]"

definition rplay_create :: "host_abi \<Rightarrow> int \<Rightarrow> rplay_error + rplay_hdr" where
  "rplay_create abi command =
     (let rp = \<lparr>r_pbuf = new_packet_buf, r_command = 0, r_nsounds = 0,
                r_count = RPLAY_DEFAULT_LIST_COUNT, r_priority = RPLAY_DEFAULT_PRIORITY,
                r_random_sound = RPLAY_DEFAULT_RANDOM_SOUND, r_list_name = [], r_id = 0,
                r_sequence = ulong_max abi, r_data_size = 0, r_data = None\<rparr>
      in if command \<in> set rplay_commands then Inr (rp\<lparr>r_command := command\<rparr>)
         else Inl RPLAY_ERROR_COMMAND)"

section \<open>The growing packet buffer: the COPY macro\<close>

text \<open>The \<open>while\<close> loop that grows \<open>size\<close> in steps of \<open>COPY_SIZE\<close>; on the error
  exit \<open>size\<close> has already been advanced past \<open>MAX_PACKET\<close>.\<close>

function grow_size :: "nat \<Rightarrow> nat \<Rightarrow> nat + nat" where
  "grow_size need sz =
     (if need > sz then
        (let sz' = sz + COPY_SIZE
         in if sz' > MAX_PACKET then Inl sz' else grow_size need sz')
      else Inr sz)"
  by auto
termination
  by (relation "measure (\<lambda>(need, sz). need - sz)") auto

declare grow_size.simps [simp del]

text \<open>One \<open>COPY\<close>: grow if needed (\<open>realloc\<close> sets the capacity to the new size),
  then \<open>memcpy\<close> into the buffer, which overflows when the allocation is smaller
  than \<open>size\<close> claims.\<close>

definition copy_chunk :: "bytes \<Rightarrow> packet_buf \<Rightarrow> packet_buf \<times> perror option" where
  "copy_chunk p b =
     (case grow_size (pb_len b + length p) (pb_size b) of
        Inl size' \<Rightarrow> (b\<lparr>pb_size := size'\<rparr>, Some (Errno RPLAY_ERROR_PACKET_SIZE))
      | Inr size' \<Rightarrow>
          (let b' = (if size' \<noteq> pb_size b then b\<lparr>pb_size := size', pb_cap := size'\<rparr> else b)
           in if pb_len b' + length p > pb_cap b' then (b', Some (Undef HeapOverflow))
              else (b'\<lparr>pb_buf := pb_buf b' @ p\<rparr>, None)))"

fun copy_chunks :: "bytes list \<Rightarrow> packet_buf \<Rightarrow> packet_buf \<times> perror option" where
  "copy_chunks [] b = (b, None)"
| "copy_chunks (p # ps) b =
     (case copy_chunk p b of
        (b', Some e) \<Rightarrow> (b', Some e)
      | (b', None) \<Rightarrow> copy_chunks ps b')"

section \<open>Field encoders\<close>

definition enc_cstr :: "cstring \<Rightarrow> bytes" where
  "enc_cstr s = s @ [0]"

definition dec_be16 :: "bytes \<Rightarrow> (16 word \<times> bytes) option" where
  "dec_be16 bs = map_option (\<lambda>(x, rest). (un_be16 x, rest)) (take_bytes 2 bs)"

text \<open>\<open>lval = htonl(x); COPY(rp, &lval, sizeof(lval))\<close>: all the bytes of the
  \<open>unsigned long\<close> that holds the 32-bit network-order value.\<close>

definition enc_long :: "host_abi \<Rightarrow> 32 word \<Rightarrow> bytes" where
  "enc_long abi w =
     (let pad = replicate (long_size abi - 4) 0
      in if little abi then be32 w @ pad else pad @ be32 w)"

text \<open>\<open>memcpy(&v, packet, sizeof(unsigned long)); v = ntohl(v)\<close>.\<close>

definition dec_ulong :: "host_abi \<Rightarrow> bytes \<Rightarrow> (nat \<times> bytes) option" where
  "dec_ulong abi bs =
     map_option (\<lambda>(x, rest).
       (unat (un_be32 (if little abi then take 4 x else drop (long_size abi - 4) x)), rest))
     (take_bytes (long_size abi) bs)"

definition enc_ulong :: "host_abi \<Rightarrow> nat \<Rightarrow> bytes" where
  "enc_ulong abi x = enc_long abi (of_nat x)"

text \<open>\<open>memcpy(&rp->id, packet, sizeof(int)); rp->id = ntohl(rp->id)\<close>.\<close>

definition dec_int :: "bytes \<Rightarrow> (int \<times> bytes) option" where
  "dec_int bs = map_option (\<lambda>(x, rest). (sint (un_be32 x), rest)) (take_bytes 4 bs)"

definition dec_uchar :: "bytes \<Rightarrow> (int \<times> bytes) option" where
  "dec_uchar bs = map_option (\<lambda>(b, rest). (uint b, rest)) (take_byte bs)"

definition enc_uchar :: "int \<Rightarrow> bytes" where
  "enc_uchar x = [word_of_int x]"

lemmas dec_defs = dec_be16_def dec_ulong_def dec_int_def dec_uchar_def

lemma dec_length [length_simps]:
  "dec_be16 bs = Some (p, rest) \<Longrightarrow> length rest < length bs"
  "dec_int bs = Some (v, rest) \<Longrightarrow> length rest < length bs"
  "dec_uchar bs = Some (v, rest) \<Longrightarrow> length rest < length bs"
  "dec_ulong abi bs = Some (u, rest) \<Longrightarrow> length rest \<le> length bs"
  by (auto simp: dec_defs dest!: take_bytes_length take_byte_length)

interpretation cstr_field: field_codec enc_cstr take_cstr nul_free
  by unfold_locales (simp add: enc_cstr_def codec_simps)

interpretation port_field: field_codec be16 dec_be16 "\<lambda>_. True"
  by unfold_locales (simp add: dec_be16_def codec_simps)

interpretation uchar_field: field_codec enc_uchar dec_uchar "\<lambda>x. 0 \<le> x \<and> x < 256"
  by unfold_locales (auto simp: enc_uchar_def dec_uchar_def uint_word_of_int)

definition abi_ok :: "host_abi \<Rightarrow> bool" where
  "abi_ok abi \<longleftrightarrow> 4 \<le> long_size abi"

lemma enc_long_length [codec_simps]: "abi_ok abi \<Longrightarrow> length (enc_long abi w) = long_size abi"
  by (simp add: enc_long_def abi_ok_def Let_def)

lemma dec_ulong_enc_long [codec_simps]:
  assumes "abi_ok abi"
  shows "dec_ulong abi (enc_long abi w @ rest) = Some (unat w, rest)"
proof -
  have "take_bytes (long_size abi) (enc_long abi w @ rest) = Some (enc_long abi w, rest)"
    using assms by (simp add: codec_simps)
  then show ?thesis
    by (auto simp: dec_ulong_def enc_long_def Let_def)
qed

interpretation ulong_field: field_codec "enc_ulong abi" "dec_ulong abi"
  "\<lambda>x. abi_ok abi \<and> x < 2 ^ 32" for abi
  by unfold_locales (simp add: enc_ulong_def codec_simps unat_of_nat)

text \<open>\<open>RPLAY_ID\<close> is written as a \<open>long\<close> and read as an \<open>int\<close>: a codec only where
  both have four bytes.\<close>

definition enc_id :: "host_abi \<Rightarrow> int \<Rightarrow> bytes" where
  "enc_id abi x = enc_long abi (word_of_int x)"

definition int_range :: "int \<Rightarrow> bool" where
  "int_range x \<longleftrightarrow> - (2 ^ 31) \<le> x \<and> x < 2 ^ 31"

lemma sint_word_of_int32: "int_range x \<Longrightarrow> sint (word_of_int x :: 32 word) = x"
  unfolding int_range_def by (simp add: signed_of_int signed_take_bit_int_eq_self)

interpretation id_field: field_codec "enc_id abi" dec_int
  "\<lambda>x. long_size abi = 4 \<and> int_range x" for abi
  by unfold_locales
    (simp add: enc_id_def enc_long_def dec_int_def Let_def codec_simps sint_word_of_int32)

section \<open>rplay_pack\<close>

definition byte_of :: "int \<Rightarrow> byte" where
  "byte_of x = word_of_int x"

text \<open>The sequence of \<open>COPY\<close> arguments of \<open>rplay_pack\<close>; it does not depend on
  the buffer, so packing is running the copies in this order.\<close>

definition pack_header :: "host_abi \<Rightarrow> 'a rplay_hdr_scheme \<Rightarrow> bytes list" where
  "pack_header abi rp =
     [[RPLAY_PACKET_ID], [byte_of (r_command rp)]]
     @ (if r_count rp \<noteq> RPLAY_DEFAULT_LIST_COUNT
        then [[RPLAY_LIST_COUNT], enc_uchar (r_count rp)] else [])
     @ (if r_priority rp \<noteq> RPLAY_DEFAULT_PRIORITY
        then [[RPLAY_PRIORITY], enc_uchar (r_priority rp)] else [])
     @ (if r_list_name rp \<noteq> []
        then [[RPLAY_LIST_NAME], enc_cstr (r_list_name rp)] else [])
     @ (if r_id rp \<noteq> 0 then [[RPLAY_ID], enc_id abi (r_id rp)] else [])
     @ (if r_sequence rp \<noteq> ulong_max abi
        then [[RPLAY_SEQUENCE], enc_ulong abi (r_sequence rp)] else [])
     @ (case r_data rp of
          Some d \<Rightarrow> if r_data_size rp > 0
                    then [[RPLAY_DATA_SIZE], be16 (r_data_size rp),
                          [RPLAY_DATA], take (unat (r_data_size rp)) d]
                    else []
        | None \<Rightarrow> [])"

definition pack_attrs :: "host_abi \<Rightarrow> rplay_attrs \<Rightarrow> bytes list" where
  "pack_attrs abi a =
     (if a_sound a \<noteq> [] then [[RPLAY_SOUND], enc_cstr (a_sound a)] else [])
     @ (if a_volume_l a \<noteq> RPLAY_DEFAULT_VOLUME
        then [[RPLAY_LEFT_VOLUME], enc_uchar (a_volume_l a)] else [])
     @ (if a_volume_r a \<noteq> RPLAY_DEFAULT_VOLUME
        then [[RPLAY_RIGHT_VOLUME], enc_uchar (a_volume_r a)] else [])
     @ (if a_count a \<noteq> RPLAY_DEFAULT_COUNT
        then [[RPLAY_COUNT], enc_uchar (a_count a)] else [])
     @ (case a_rptp_server a of
          Some s \<Rightarrow> [[RPLAY_RPTP_SERVER], enc_cstr s]
        | None \<Rightarrow> [])
     @ (if a_rptp_server_port a \<noteq> RPTP_PORT
        then [[RPLAY_RPTP_SERVER_PORT], be16 (a_rptp_server_port a)] else [])
     @ (if a_rptp_search a = 0
        then [[RPLAY_RPTP_SEARCH], enc_uchar (a_rptp_search a)] else [])
     @ (if a_sample_rate a \<noteq> RPLAY_DEFAULT_SAMPLE_RATE
        then [[RPLAY_SAMPLE_RATE], enc_ulong abi (a_sample_rate a)] else [])
     @ (if a_client_data a \<noteq> []
        then [[RPLAY_CLIENT_DATA], enc_cstr (a_client_data a)] else [])
     @ [[RPLAY_NULL]]"

text \<open>The \<open>for\<close> loop over the attributes: a random sound restricts it to the
  node of that index.\<close>

fun pack_list :: "host_abi \<Rightarrow> int \<Rightarrow> int \<Rightarrow> rplay_attrs list \<Rightarrow> bytes list" where
  "pack_list abi random_sound i [] = []"
| "pack_list abi random_sound i (a # as) =
     (if random_sound \<noteq> RPLAY_DEFAULT_RANDOM_SOUND \<and> i \<noteq> random_sound then []
      else pack_attrs abi a)
     @ pack_list abi random_sound (i + 1) as"

definition pack_chunks :: "host_abi \<Rightarrow> 'a rplay_hdr_scheme \<Rightarrow> rplay_attrs list \<Rightarrow> bytes list" where
  "pack_chunks abi rp as =
     pack_header abi rp @ pack_list abi (r_random_sound rp) 0 as
     @ (if as = [] then [[RPLAY_NULL]] else []) @ [[RPLAY_NULL]]"

definition rplay_pack ::
  "host_abi \<Rightarrow> 'a rplay_hdr_scheme \<Rightarrow> rplay_attrs list \<Rightarrow> 'a rplay_hdr_scheme \<times> perror option" where
  "rplay_pack abi rp as =
     (let b = (r_pbuf rp)\<lparr>pb_buf := []\<rparr>;
          (b', e) = copy_chunks (pack_chunks abi rp as) b
      in (rp\<lparr>r_pbuf := b'\<rparr>, e))"

section \<open>rplay_unpack\<close>

text \<open>One attribute of the packet after its tag, other than \<open>RPLAY_NULL\<close>; the
  current node is \<open>*rp->attrsp\<close>.\<close>

type_synonym unpack_field_result = "perror + (rplay_hdr \<times> rplay_attrs \<times> bytes)"

fun read_field :: "('v \<times> bytes) option \<Rightarrow> ('v \<Rightarrow> rplay_hdr \<times> rplay_attrs) \<Rightarrow> unpack_field_result" where
  "read_field None f = Inl (Undef ReadOverrun)"
| "read_field (Some (v, rest)) f = (case f v of (rp, a) \<Rightarrow> Inr (rp, a, rest))"

definition unpack_field ::
  "host_abi \<Rightarrow> byte \<Rightarrow> bytes \<Rightarrow> rplay_hdr \<Rightarrow> rplay_attrs \<Rightarrow> unpack_field_result" where
  "unpack_field abi tag p rp a =
     (if tag = RPLAY_LIST_COUNT then
        read_field (dec_uchar p) (\<lambda>v. (rp\<lparr>r_count := v\<rparr>, a))
      else if tag = RPLAY_LIST_NAME then
        read_field (take_cstr p) (\<lambda>v. (rp\<lparr>r_list_name := v\<rparr>, a))
      else if tag = RPLAY_PRIORITY then
        read_field (dec_uchar p) (\<lambda>v. (rp\<lparr>r_priority := v\<rparr>, a))
      else if tag = RPLAY_SOUND then
        read_field (take_cstr p) (\<lambda>v. (rp, a\<lparr>a_sound := v\<rparr>))
      else if tag = RPLAY_VOLUME then
        read_field (dec_uchar p) (\<lambda>v. (rp, a\<lparr>a_volume_l := v, a_volume_r := v\<rparr>))
      else if tag = RPLAY_LEFT_VOLUME then
        read_field (dec_uchar p) (\<lambda>v. (rp, a\<lparr>a_volume_l := v\<rparr>))
      else if tag = RPLAY_RIGHT_VOLUME then
        read_field (dec_uchar p) (\<lambda>v. (rp, a\<lparr>a_volume_r := v\<rparr>))
      else if tag = RPLAY_COUNT then
        read_field (dec_uchar p) (\<lambda>v. (rp, a\<lparr>a_count := v\<rparr>))
      else if tag = RPLAY_RPTP_SERVER then
        read_field (take_cstr p) (\<lambda>v. (rp, a\<lparr>a_rptp_server := Some v\<rparr>))
      else if tag = RPLAY_RPTP_SERVER_PORT then
        read_field (dec_be16 p) (\<lambda>v. (rp, a\<lparr>a_rptp_server_port := v\<rparr>))
      else if tag = RPLAY_RPTP_SEARCH then
        read_field (dec_uchar p) (\<lambda>v. (rp, a\<lparr>a_rptp_search := v\<rparr>))
      else if tag = RPLAY_SAMPLE_RATE then
        read_field (dec_ulong abi p) (\<lambda>v. (rp, a\<lparr>a_sample_rate := v\<rparr>))
      else if tag = RPLAY_CLIENT_DATA then
        read_field (take_cstr p) (\<lambda>v. (rp, a\<lparr>a_client_data := v\<rparr>))
      else if tag = RPLAY_ID then
        read_field (dec_int p) (\<lambda>v. (rp\<lparr>r_id := v\<rparr>, a))
      else if tag = RPLAY_SEQUENCE then
        read_field (dec_ulong abi p) (\<lambda>v. (rp\<lparr>r_sequence := v\<rparr>, a))
      else if tag = RPLAY_DATA_SIZE then
        read_field (dec_be16 p) (\<lambda>v. (rp\<lparr>r_data_size := v\<rparr>, a))
      else if tag = RPLAY_DATA then
        read_field (take_bytes (unat (r_data_size rp)) p) (\<lambda>v. (rp\<lparr>r_data := Some v\<rparr>, a))
      else Inl (Errno RPLAY_ERROR_ATTRIBUTE))"

lemma read_field_length:
  "read_field d f = Inr (rp, a, rest) \<Longrightarrow> \<exists>v. d = Some (v, rest)"
  by (cases "(d, f)" rule: read_field.cases) (auto split: prod.splits)

lemma unpack_field_length [length_simps]:
  "unpack_field abi tag p rp a = Inr (rp', a', rest) \<Longrightarrow> length rest \<le> length p"
  by (auto simp: unpack_field_def dest!: read_field_length split: if_splits)
    (auto dest!: length_simps)

text \<open>The loop: \<open>done\<close> holds the finished nodes of the list, \<open>a\<close> the current
  one.  \<open>RPLAY_NULL\<close> finishes a node; a second one ends the packet.\<close>

function unpack_loop ::
  "host_abi \<Rightarrow> bytes \<Rightarrow> rplay_hdr \<Rightarrow> rplay_attrs list \<Rightarrow> rplay_attrs
     \<Rightarrow> perror + (rplay_hdr \<times> rplay_attrs list)" where
  "unpack_loop abi [] rp as a = Inl (Undef ReadOverrun)"
| "unpack_loop abi (tag # p) rp as a =
     (if tag = RPLAY_NULL then
        (let rp' = rp\<lparr>r_nsounds := r_nsounds rp + 1\<rparr>; as' = as @ [a]
         in case p of
              [] \<Rightarrow> Inl (Undef ReadOverrun)
            | b # _ \<Rightarrow> if b = RPLAY_NULL then Inr (rp', as')
                       else unpack_loop abi p rp' as' rplay_attrs_create)
      else
        (case unpack_field abi tag p rp a of
           Inl e \<Rightarrow> Inl e
         | Inr (rp', a', rest) \<Rightarrow> unpack_loop abi rest rp' as a'))"
  by pat_completeness auto
termination
  by (relation "measure (\<lambda>(_, p, _). length p)") (auto dest!: unpack_field_length)

definition rplay_unpack :: "host_abi \<Rightarrow> bytes \<Rightarrow> perror + rplay" where
  "rplay_unpack abi packet =
     (case take_byte packet of
        None \<Rightarrow> Inl (Undef ReadOverrun)
      | Some (version, p1) \<Rightarrow>
          (case take_byte p1 of
             None \<Rightarrow> Inl (Undef ReadOverrun)
           | Some (command, p2) \<Rightarrow>
               (case rplay_create abi (sint command) of
                  Inl e \<Rightarrow> Inl (Errno RPLAY_ERROR_MEMORY)
                | Inr rp \<Rightarrow>
                    map_sum id (\<lambda>(rp', as). rplay_hdr.extend rp' (rplay.fields as))
                      (unpack_loop abi p2 rp [] rplay_attrs_create))))"

section \<open>Packing: the buffer\<close>

definition pbuf_ok :: "packet_buf \<Rightarrow> bool" where
  "pbuf_ok b \<longleftrightarrow> pb_size b \<le> pb_cap b \<and> pb_size b \<le> MAX_PACKET
     \<and> COPY_SIZE dvd pb_size b \<and> pb_len b \<le> pb_size b"

definition chunks_size :: "bytes list \<Rightarrow> nat" where
  "chunks_size ps = length (concat ps)"

lemma chunks_size_simps [simp]:
  "chunks_size [] = 0" "chunks_size (p # ps) = length p + chunks_size ps"
  "chunks_size (ps @ qs) = chunks_size ps + chunks_size qs"
  by (simp_all add: chunks_size_def)

lemma grow_size_fits:
  assumes "COPY_SIZE dvd sz" "sz \<le> MAX_PACKET" "need \<le> MAX_PACKET"
  shows "\<exists>sz'. grow_size need sz = Inr sz' \<and> need \<le> sz' \<and> sz' \<le> MAX_PACKET
    \<and> COPY_SIZE dvd sz' \<and> sz \<le> sz'"
  using assms
proof (induction need sz rule: grow_size.induct)
  case (1 need sz)
  show ?case
  proof (cases "need > sz")
    case True
    have "sz < MAX_PACKET" "COPY_SIZE dvd (MAX_PACKET :: nat)"
      using True 1(4) by auto
    then have "sz + COPY_SIZE \<le> MAX_PACKET"
      using 1(2) by (auto elim!: dvdE)
    moreover have "COPY_SIZE dvd sz + COPY_SIZE"
      using 1(2) by (simp add: dvd_add)
    ultimately show ?thesis
      using 1(1) [OF True refl] True 1(4) by (auto simp: grow_size.simps [of need sz] Let_def)
  next
    case False
    then show ?thesis using 1 by (simp add: grow_size.simps)
  qed
qed

lemma grow_size_too_big:
  assumes "COPY_SIZE dvd sz" "sz \<le> MAX_PACKET" "need > MAX_PACKET"
  shows "grow_size need sz = Inl (MAX_PACKET + COPY_SIZE)"
  using assms
proof (induction need sz rule: grow_size.induct)
  case (1 need sz)
  have gt: "need > sz" using 1(3,4) by simp
  show ?case
  proof (cases "sz = MAX_PACKET")
    case True
    then show ?thesis using gt by (simp add: grow_size.simps)
  next
    case False
    then have "sz + COPY_SIZE \<le> MAX_PACKET" "COPY_SIZE dvd sz + COPY_SIZE"
      using 1(2,3) by (auto elim!: dvdE)
    then show ?thesis
      using 1(1) [OF gt refl] 1(4) gt by (simp add: grow_size.simps [of need sz])
  qed
qed

lemma grow_size_enough: "need \<le> sz \<Longrightarrow> grow_size need sz = Inr sz"
  by (simp add: grow_size.simps)

lemma copy_chunk_fits:
  assumes "pbuf_ok b" "pb_len b + length p \<le> MAX_PACKET"
  shows "\<exists>b'. copy_chunk p b = (b', None) \<and> pbuf_ok b' \<and> pb_buf b' = pb_buf b @ p"
proof -
  obtain sz' where g: "grow_size (pb_len b + length p) (pb_size b) = Inr sz'"
    "pb_len b + length p \<le> sz'" "sz' \<le> MAX_PACKET" "COPY_SIZE dvd sz'" "pb_size b \<le> sz'"
    using grow_size_fits assms unfolding pbuf_ok_def by meson
  then show ?thesis
    using assms by (auto simp: copy_chunk_def Let_def pbuf_ok_def pb_len_def)
qed

lemma copy_chunk_too_big:
  assumes "pbuf_ok b" "pb_len b + length p > MAX_PACKET"
  shows "copy_chunk p b = (b\<lparr>pb_size := MAX_PACKET + COPY_SIZE\<rparr>, Some (Errno RPLAY_ERROR_PACKET_SIZE))"
  using grow_size_too_big [of "pb_size b" "pb_len b + length p"] assms
  by (simp add: copy_chunk_def pbuf_ok_def)

lemma copy_chunks_fits:
  assumes "pbuf_ok b" "pb_len b + chunks_size ps \<le> MAX_PACKET"
  shows "\<exists>b'. copy_chunks ps b = (b', None) \<and> pbuf_ok b' \<and> pb_buf b' = pb_buf b @ concat ps"
  using assms
proof (induction ps arbitrary: b)
  case (Cons p ps)
  from copy_chunk_fits [of b p] Cons.prems obtain b1 where b1:
    "copy_chunk p b = (b1, None)" "pbuf_ok b1" "pb_buf b1 = pb_buf b @ p"
    by auto
  then show ?case
    using Cons.IH [of b1] Cons.prems by (auto simp: pb_len_def)
qed simp

lemma copy_chunks_too_big:
  assumes "pbuf_ok b" "pb_len b + chunks_size ps > MAX_PACKET"
  shows "\<exists>b'. copy_chunks ps b = (b', Some (Errno RPLAY_ERROR_PACKET_SIZE))
    \<and> pb_size b' = MAX_PACKET + COPY_SIZE"
  using assms
proof (induction ps arbitrary: b)
  case Nil
  then show ?case by (simp add: pbuf_ok_def)
next
  case (Cons p ps)
  show ?case
  proof (cases "pb_len b + length p \<le> MAX_PACKET")
    case True
    from copy_chunk_fits [OF Cons.prems(1) this] obtain b1 where
      "copy_chunk p b = (b1, None)" "pbuf_ok b1" "pb_buf b1 = pb_buf b @ p" by auto
    then show ?thesis
      using Cons.IH [of b1] Cons.prems by (auto simp: pb_len_def)
  next
    case False
    then show ?thesis
      using copy_chunk_too_big [OF Cons.prems(1), of p] by auto
  qed
qed

text \<open>Once \<open>size\<close> has run ahead of the allocation, no \<open>COPY\<close> grows the buffer
  until it is full, and the copies write past the allocation.\<close>

lemma copy_chunks_overflow:
  assumes "pb_size b = MAX_PACKET + COPY_SIZE" "pb_len b \<le> pb_cap b"
    "pb_len b + chunks_size ps > pb_cap b" "pb_len b + chunks_size ps \<le> MAX_PACKET"
  shows "\<exists>b'. copy_chunks ps b = (b', Some (Undef HeapOverflow))"
  using assms
proof (induction ps arbitrary: b)
  case (Cons p ps)
  have g: "grow_size (pb_len b + length p) (pb_size b) = Inr (pb_size b)"
    using Cons.prems by (intro grow_size_enough) simp
  show ?case
  proof (cases "pb_len b + length p > pb_cap b")
    case True
    then show ?thesis using g by (simp add: copy_chunk_def)
  next
    case False
    then show ?thesis
      using g Cons.prems Cons.IH [of "b\<lparr>pb_buf := pb_buf b @ p\<rparr>"]
      by (simp add: copy_chunk_def pb_len_def)
  qed
qed simp



section \<open>Packing and unpacking\<close>

text \<open>The objects whose fields fit their encodings.  \<open>RPLAY_ID\<close> needs a \<open>long\<close> of
  four bytes.\<close>

definition attrs_ok :: "host_abi \<Rightarrow> rplay_attrs \<Rightarrow> bool" where
  "attrs_ok abi a \<longleftrightarrow> nul_free (a_sound a) \<and> nul_free (a_client_data a)
     \<and> (\<forall>s \<in> set_option (a_rptp_server a). nul_free s)
     \<and> 0 \<le> a_volume_l a \<and> a_volume_l a < 256 \<and> 0 \<le> a_volume_r a \<and> a_volume_r a < 256
     \<and> 0 \<le> a_count a \<and> a_count a < 256
     \<and> (a_rptp_search a = 0 \<or> a_rptp_search a = 1)
     \<and> a_sample_rate a < 2 ^ 32"

definition hdr_ok :: "host_abi \<Rightarrow> 'a rplay_hdr_scheme \<Rightarrow> bool" where
  "hdr_ok abi rp \<longleftrightarrow> r_command rp \<in> set rplay_commands
     \<and> 0 \<le> r_count rp \<and> r_count rp < 256 \<and> 0 \<le> r_priority rp \<and> r_priority rp < 256
     \<and> r_random_sound rp = RPLAY_DEFAULT_RANDOM_SOUND
     \<and> nul_free (r_list_name rp)
     \<and> int_range (r_id rp)
     \<and> (r_sequence rp < 2 ^ 32 \<or> r_sequence rp = ulong_max abi)
     \<and> (case r_data rp of None \<Rightarrow> r_data_size rp = 0
        | Some d \<Rightarrow> 0 < r_data_size rp \<and> length d = unat (r_data_size rp))"

lemmas ok_defs = attrs_ok_def hdr_ok_def

text \<open>Reading one optional field back.  Each rule moves the loop over the bytes
  the packer wrote for the field, when the object still holds its default.\<close>

named_theorems unpack_step \<open>unpack_loop over the bytes of one field\<close>

lemma update_same:
  "r_count rp = v0 \<Longrightarrow> rp\<lparr>r_count := v0\<rparr> = rp"
  "r_priority rp = v1 \<Longrightarrow> rp\<lparr>r_priority := v1\<rparr> = rp"
  "r_list_name rp = v2 \<Longrightarrow> rp\<lparr>r_list_name := v2\<rparr> = rp"
  "r_id rp = v3 \<Longrightarrow> rp\<lparr>r_id := v3\<rparr> = rp"
  "r_sequence rp = v4 \<Longrightarrow> rp\<lparr>r_sequence := v4\<rparr> = rp"
  "r_data_size rp = v5 \<Longrightarrow> rp\<lparr>r_data_size := v5\<rparr> = rp"
  "r_data rp = v6 \<Longrightarrow> rp\<lparr>r_data := v6\<rparr> = rp"
  "a_sound a = w0 \<Longrightarrow> a\<lparr>a_sound := w0\<rparr> = a"
  "a_volume_l a = w1 \<Longrightarrow> a\<lparr>a_volume_l := w1\<rparr> = a"
  "a_volume_r a = w2 \<Longrightarrow> a\<lparr>a_volume_r := w2\<rparr> = a"
  "a_count a = w3 \<Longrightarrow> a\<lparr>a_count := w3\<rparr> = a"
  "a_rptp_server a = w4 \<Longrightarrow> a\<lparr>a_rptp_server := w4\<rparr> = a"
  "a_rptp_server_port a = w5 \<Longrightarrow> a\<lparr>a_rptp_server_port := w5\<rparr> = a"
  "a_rptp_search a = w6 \<Longrightarrow> a\<lparr>a_rptp_search := w6\<rparr> = a"
  "a_sample_rate a = w7 \<Longrightarrow> a\<lparr>a_sample_rate := w7\<rparr> = a"
  "a_client_data a = w8 \<Longrightarrow> a\<lparr>a_client_data := w8\<rparr> = a"
  by auto

lemma unpack_loop_field:
  assumes "unpack_field abi tag (p @ rest) rp a = Inr (rp', a', rest)" "tag \<noteq> RPLAY_NULL"
  shows "unpack_loop abi (tag # p @ rest) rp as a = unpack_loop abi rest rp' as a'"
  using assms by simp

lemma unpack_count [unpack_step]:
  assumes "0 \<le> v" "v < 256" "r_count rp = RPLAY_DEFAULT_LIST_COUNT"
  shows "unpack_loop abi (concat (if v \<noteq> RPLAY_DEFAULT_LIST_COUNT
      then [[RPLAY_LIST_COUNT], enc_uchar v] else []) @ rest) rp as a
    = unpack_loop abi rest (rp\<lparr>r_count := v\<rparr>) as a"
  using assms by (auto simp: update_same unpack_field_def uchar_field.dec_enc)

lemma unpack_priority [unpack_step]:
  assumes "0 \<le> v" "v < 256" "r_priority rp = RPLAY_DEFAULT_PRIORITY"
  shows "unpack_loop abi (concat (if v \<noteq> RPLAY_DEFAULT_PRIORITY
      then [[RPLAY_PRIORITY], enc_uchar v] else []) @ rest) rp as a
    = unpack_loop abi rest (rp\<lparr>r_priority := v\<rparr>) as a"
  using assms by (auto simp: update_same unpack_field_def uchar_field.dec_enc)

lemma unpack_list_name [unpack_step]:
  assumes "nul_free v" "r_list_name rp = []"
  shows "unpack_loop abi (concat (if v \<noteq> [] then [[RPLAY_LIST_NAME], enc_cstr v] else []) @ rest) rp as a
    = unpack_loop abi rest (rp\<lparr>r_list_name := v\<rparr>) as a"
  using assms by (auto simp: update_same unpack_field_def cstr_field.dec_enc)

lemma unpack_id [unpack_step]:
  assumes "v = 0 \<or> long_size abi = 4" "int_range v" "r_id rp = 0"
  shows "unpack_loop abi (concat (if v \<noteq> 0 then [[RPLAY_ID], enc_id abi v] else []) @ rest) rp as a
    = unpack_loop abi rest (rp\<lparr>r_id := v\<rparr>) as a"
  using assms by (auto simp: update_same unpack_field_def id_field.dec_enc)

lemma unpack_sequence [unpack_step]:
  assumes "abi_ok abi" "v < 2 ^ 32 \<or> v = ulong_max abi" "r_sequence rp = ulong_max abi"
  shows "unpack_loop abi (concat (if v \<noteq> ulong_max abi
      then [[RPLAY_SEQUENCE], enc_ulong abi v] else []) @ rest) rp as a
    = unpack_loop abi rest (rp\<lparr>r_sequence := v\<rparr>) as a"
  using assms by (auto simp: update_same unpack_field_def ulong_field.dec_enc)

lemma unpack_data [unpack_step]:
  assumes "case d of None \<Rightarrow> n = 0 | Some x \<Rightarrow> 0 < n \<and> length x = unat n"
    "r_data rp = None" "r_data_size rp = 0"
  shows "unpack_loop abi (concat (case d of
      Some x \<Rightarrow> if n > 0 then [[RPLAY_DATA_SIZE], be16 n, [RPLAY_DATA], take (unat n) x] else []
    | None \<Rightarrow> []) @ rest) rp as a
    = unpack_loop abi rest (rp\<lparr>r_data_size := n, r_data := d\<rparr>) as a"
  using assms
  by (auto simp: update_same unpack_field_def port_field.dec_enc codec_simps split: option.splits)

lemma unpack_sound [unpack_step]:
  assumes "nul_free v" "a_sound a = []"
  shows "unpack_loop abi (concat (if v \<noteq> [] then [[RPLAY_SOUND], enc_cstr v] else []) @ rest) rp as a
    = unpack_loop abi rest rp as (a\<lparr>a_sound := v\<rparr>)"
  using assms by (auto simp: update_same unpack_field_def cstr_field.dec_enc)

lemma unpack_volume_l [unpack_step]:
  assumes "0 \<le> v" "v < 256" "a_volume_l a = RPLAY_DEFAULT_VOLUME"
  shows "unpack_loop abi (concat (if v \<noteq> RPLAY_DEFAULT_VOLUME
      then [[RPLAY_LEFT_VOLUME], enc_uchar v] else []) @ rest) rp as a
    = unpack_loop abi rest rp as (a\<lparr>a_volume_l := v\<rparr>)"
  using assms by (auto simp: update_same unpack_field_def uchar_field.dec_enc)

lemma unpack_volume_r [unpack_step]:
  assumes "0 \<le> v" "v < 256" "a_volume_r a = RPLAY_DEFAULT_VOLUME"
  shows "unpack_loop abi (concat (if v \<noteq> RPLAY_DEFAULT_VOLUME
      then [[RPLAY_RIGHT_VOLUME], enc_uchar v] else []) @ rest) rp as a
    = unpack_loop abi rest rp as (a\<lparr>a_volume_r := v\<rparr>)"
  using assms by (auto simp: update_same unpack_field_def uchar_field.dec_enc)

lemma unpack_attr_count [unpack_step]:
  assumes "0 \<le> v" "v < 256" "a_count a = RPLAY_DEFAULT_COUNT"
  shows "unpack_loop abi (concat (if v \<noteq> RPLAY_DEFAULT_COUNT
      then [[RPLAY_COUNT], enc_uchar v] else []) @ rest) rp as a
    = unpack_loop abi rest rp as (a\<lparr>a_count := v\<rparr>)"
  using assms by (auto simp: update_same unpack_field_def uchar_field.dec_enc)

lemma unpack_server [unpack_step]:
  assumes "\<forall>s \<in> set_option v. nul_free s" "a_rptp_server a = None"
  shows "unpack_loop abi (concat (case v of Some s \<Rightarrow> [[RPLAY_RPTP_SERVER], enc_cstr s] | None \<Rightarrow> []) @ rest) rp as a
    = unpack_loop abi rest rp as (a\<lparr>a_rptp_server := v\<rparr>)"
  using assms by (auto simp: update_same unpack_field_def cstr_field.dec_enc split: option.splits)

lemma unpack_port [unpack_step]:
  assumes "a_rptp_server_port a = RPTP_PORT"
  shows "unpack_loop abi (concat (if v \<noteq> RPTP_PORT
      then [[RPLAY_RPTP_SERVER_PORT], be16 v] else []) @ rest) rp as a
    = unpack_loop abi rest rp as (a\<lparr>a_rptp_server_port := v\<rparr>)"
  using assms by (auto simp: update_same unpack_field_def port_field.dec_enc)

lemma unpack_search [unpack_step]:
  assumes "v = 0 \<or> v = 1" "a_rptp_search a = 1"
  shows "unpack_loop abi (concat (if v = 0 then [[RPLAY_RPTP_SEARCH], enc_uchar v] else []) @ rest) rp as a
    = unpack_loop abi rest rp as (a\<lparr>a_rptp_search := v\<rparr>)"
  using assms by (auto simp: update_same unpack_field_def uchar_field.dec_enc)

lemma unpack_sample_rate [unpack_step]:
  assumes "abi_ok abi" "v < 2 ^ 32" "a_sample_rate a = RPLAY_DEFAULT_SAMPLE_RATE"
  shows "unpack_loop abi (concat (if v \<noteq> RPLAY_DEFAULT_SAMPLE_RATE
      then [[RPLAY_SAMPLE_RATE], enc_ulong abi v] else []) @ rest) rp as a
    = unpack_loop abi rest rp as (a\<lparr>a_sample_rate := v\<rparr>)"
  using assms by (auto simp: update_same unpack_field_def ulong_field.dec_enc)

lemma unpack_client_data [unpack_step]:
  assumes "nul_free v" "a_client_data a = []"
  shows "unpack_loop abi (concat (if v \<noteq> [] then [[RPLAY_CLIENT_DATA], enc_cstr v] else []) @ rest) rp as a
    = unpack_loop abi rest rp as (a\<lparr>a_client_data := v\<rparr>)"
  using assms by (auto simp: update_same unpack_field_def cstr_field.dec_enc)


lemma unpack_header:
  assumes "hdr_ok abi rp" "abi_ok abi" "r_id rp = 0 \<or> long_size abi = 4"
    "rplay_create abi (r_command rp) = Inr rp0"
  shows "unpack_loop abi (concat (tl (tl (pack_header abi rp))) @ rest) rp0 as a
    = unpack_loop abi rest
        (rp0\<lparr>r_count := r_count rp, r_priority := r_priority rp, r_list_name := r_list_name rp,
             r_id := r_id rp, r_sequence := r_sequence rp, r_data_size := r_data_size rp,
             r_data := r_data rp\<rparr>) as a"
  using assms
  by (clarsimp simp del: unpack_loop.simps concat.simps neq0_conv split del: if_split
      simp add: pack_header_def unpack_step hdr_ok_def rplay_create_def Let_def
        concat_append append_assoc)

lemma attrs_eta:
  "\<lparr>a_sound = a_sound a, a_volume_l = a_volume_l a, a_volume_r = a_volume_r a,
    a_count = a_count a, a_rptp_server = a_rptp_server a,
    a_rptp_server_port = a_rptp_server_port a, a_rptp_search = a_rptp_search a,
    a_sample_rate = a_sample_rate a, a_client_data = a_client_data a\<rparr> = a"
  by simp

lemma unpack_node:
  assumes "attrs_ok abi a" "abi_ok abi"
  shows "unpack_loop abi (concat (pack_attrs abi a) @ rest) rp as rplay_attrs_create
    = unpack_loop abi (RPLAY_NULL # rest) rp as a"
  using assms
  by (simp del: unpack_loop.simps neq0_conv split del: if_split
      add: attrs_eta pack_attrs_def unpack_step attrs_ok_def rplay_attrs_create_def)


text \<open>A node is visible in the packet when it does not have all its defaults: a
  default node is the single byte \<open>RPLAY_NULL\<close>, which ends the packet when it
  follows another node.\<close>

lemma pack_attrs_visible:
  assumes "a \<noteq> rplay_attrs_create" "attrs_ok abi a"
  obtains t xs where "concat (pack_attrs abi a) = t # xs" "t \<noteq> RPLAY_NULL"
proof -
  have "\<exists>t xs. concat (pack_attrs abi a) = t # xs \<and> t \<noteq> RPLAY_NULL"
  proof (rule ccontr)
    assume n: "\<not> ?thesis"
    then have "a_sound a = [] \<and> a_volume_l a = RPLAY_DEFAULT_VOLUME
        \<and> a_volume_r a = RPLAY_DEFAULT_VOLUME \<and> a_count a = RPLAY_DEFAULT_COUNT
        \<and> a_rptp_server a = None \<and> a_rptp_server_port a = RPTP_PORT
        \<and> a_rptp_search a \<noteq> 0 \<and> a_sample_rate a = 0 \<and> a_client_data a = []"
      by (auto simp: pack_attrs_def split: if_splits option.splits)
    with assms show False
      by (cases a) (auto simp: attrs_ok_def rplay_attrs_create_def)
  qed
  then show ?thesis using that by blast
qed

lemma unpack_nodes:
  assumes "as \<noteq> []" "\<forall>a \<in> set as. attrs_ok abi a" "abi_ok abi"
    "\<forall>a \<in> set (tl as). a \<noteq> rplay_attrs_create"
  shows "unpack_loop abi
      (concat (pack_list abi RPLAY_DEFAULT_RANDOM_SOUND i as) @ RPLAY_NULL # rest) rp done rplay_attrs_create
    = Inr (rp\<lparr>r_nsounds := r_nsounds rp + int (length as)\<rparr>, done @ as)"
  using assms
proof (induction as arbitrary: i rp "done")
  case (Cons a as)
  show ?case
  proof (cases as)
    case Nil
    then show ?thesis
      using Cons.prems by (simp add: unpack_node)
  next
    case (Cons a2 as2)
    then have "a2 \<noteq> rplay_attrs_create" "attrs_ok abi a2"
      using Cons.prems by auto
    then obtain t xs where t: "concat (pack_attrs abi a2) = t # xs" "t \<noteq> RPLAY_NULL"
      by (rule pack_attrs_visible)
    let ?tail = "concat (pack_list abi RPLAY_DEFAULT_RANDOM_SOUND (i + 1) as) @ RPLAY_NULL # rest"
    obtain ys where ys: "?tail = t # ys"
      using t Cons by simp
    have "unpack_loop abi (concat (pack_attrs abi a) @ ?tail) rp done rplay_attrs_create
        = unpack_loop abi (RPLAY_NULL # ?tail) rp done a"
      using Cons.prems by (intro unpack_node) auto
    also have "\<dots> = unpack_loop abi ?tail (rp\<lparr>r_nsounds := r_nsounds rp + 1\<rparr>) (done @ [a]) rplay_attrs_create"
      unfolding ys using t(2) by (simp add: Let_def)
    also have "\<dots> = Inr (rp\<lparr>r_nsounds := r_nsounds rp + 1 + int (length as)\<rparr>, (done @ [a]) @ as)"
      using Cons.IH [of "i + 1" "rp\<lparr>r_nsounds := r_nsounds rp + 1\<rparr>" "done @ [a]"] Cons.prems Cons
      by simp
    finally show ?thesis by (simp add: add.assoc)
  qed
qed simp


definition rplay_ok :: "host_abi \<Rightarrow> rplay \<Rightarrow> bool" where
  "rplay_ok abi rp \<longleftrightarrow> hdr_ok abi rp \<and> r_attrs rp \<noteq> []
     \<and> r_nsounds rp = int (length (r_attrs rp))
     \<and> (\<forall>a \<in> set (r_attrs rp). attrs_ok abi a)
     \<and> (\<forall>a \<in> set (tl (r_attrs rp)). a \<noteq> rplay_attrs_create)
     \<and> pbuf_ok ((r_pbuf rp)\<lparr>pb_buf := []\<rparr>)"

lemma packed_bytes:
  assumes "rplay_pack abi rp as = (rp', None)" "pbuf_ok ((r_pbuf rp)\<lparr>pb_buf := []\<rparr>)"
  shows "pb_buf (r_pbuf rp') = concat (pack_chunks abi rp as)"
proof (cases "chunks_size (pack_chunks abi rp as) \<le> MAX_PACKET")
  case True
  then show ?thesis
    using copy_chunks_fits [OF assms(2), of "pack_chunks abi rp as"] assms(1)
    by (auto simp: rplay_pack_def pb_len_def)
next
  case False
  then show ?thesis
    using copy_chunks_too_big [OF assms(2), of "pack_chunks abi rp as"] assms(1)
    by (auto simp: rplay_pack_def pb_len_def)
qed

lemma sint_command: "c \<in> set rplay_commands \<Longrightarrow> sint (byte_of c) = c"
  by (auto simp: rplay_commands_def byte_of_def)

lemma create_ok:
  "c \<in> set rplay_commands \<Longrightarrow> \<exists>rp0. rplay_create abi c = Inr rp0"
  by (simp add: rplay_create_def Let_def)

lemma unpack_packed:
  assumes "abi_ok abi" "rplay_ok abi rp"
    "rplay_create abi (r_command rp) = Inr rp0"
  shows "rplay_unpack abi (concat (pack_chunks abi rp (r_attrs rp)) @ junk)
    = map_sum id (\<lambda>(rp', as). rplay_hdr.extend rp' (rplay.fields as))
        (unpack_loop abi (concat (tl (tl (pack_header abi rp)))
           @ concat (pack_list abi RPLAY_DEFAULT_RANDOM_SOUND 0 (r_attrs rp)) @ RPLAY_NULL # junk)
         rp0 [] rplay_attrs_create)"
proof -
  have hdr: "concat (pack_header abi rp)
      = RPLAY_PACKET_ID # byte_of (r_command rp) # concat (tl (tl (pack_header abi rp)))"
    by (simp add: pack_header_def)
  show ?thesis
    using assms
    by (simp add: rplay_unpack_def pack_chunks_def hdr rplay_ok_def hdr_ok_def sint_command)
qed

lemma unpack_pack:
  assumes "abi_ok abi" "rplay_ok abi rp" "r_id rp = 0 \<or> long_size abi = 4"
    "rplay_pack abi rp (r_attrs rp) = (rp', None)"
  shows "rplay_unpack abi (pb_buf (r_pbuf rp') @ junk) = Inr (rp\<lparr>r_pbuf := new_packet_buf\<rparr>)"
proof -
  have ok: "hdr_ok abi rp" "r_attrs rp \<noteq> []" "\<forall>a \<in> set (r_attrs rp). attrs_ok abi a"
    "\<forall>a \<in> set (tl (r_attrs rp)). a \<noteq> rplay_attrs_create"
    "r_nsounds rp = int (length (r_attrs rp))" "r_random_sound rp = -1"
    using assms(2) by (auto simp: rplay_ok_def hdr_ok_def)
  obtain rp0 where rp0: "rplay_create abi (r_command rp) = Inr rp0"
    using create_ok ok(1) by (auto simp: hdr_ok_def)
  have bytes: "pb_buf (r_pbuf rp') = concat (pack_chunks abi rp (r_attrs rp))"
    using assms(2) by (intro packed_bytes [OF assms(4)]) (simp add: rplay_ok_def)
  show ?thesis
    unfolding bytes unpack_packed [OF assms(1,2) rp0] unpack_header [OF ok(1) assms(1,3) rp0]
      unpack_nodes [OF ok(2,3) assms(1) ok(4)]
    using rp0 ok(1,5,6) by (cases rp) (auto simp: rplay_create_def Let_def rplay.defs rplay_hdr.defs
        split: if_splits)
qed


text \<open>On a 64-bit little-endian host \<open>rplay_pack\<close> writes \<open>RPLAY_ID\<close> as eight
  bytes and \<open>rplay_unpack\<close> reads four: the padding is taken for the end of the
  packet, so every sound and every later field of an object with an id is lost.\<close>

theorem rplay_id_loses_sounds_lp64:
  assumes "rplay_ok lp64 rp" "r_id rp \<noteq> 0" "rplay_pack lp64 rp (r_attrs rp) = (rp', None)"
  shows "rplay_unpack lp64 (pb_buf (r_pbuf rp') @ junk)
    = Inr (rp\<lparr>r_pbuf := new_packet_buf, r_nsounds := 1, r_sequence := ulong_max lp64,
        r_data_size := 0, r_data := None, r_attrs := [rplay_attrs_create]\<rparr>)"
proof -
  have ok: "hdr_ok lp64 rp" "abi_ok lp64"
    using assms(1) by (auto simp: rplay_ok_def abi_ok_def lp64_def)
  obtain rp0 where rp0: "rplay_create lp64 (r_command rp) = Inr rp0"
    using create_ok ok(1) by (auto simp: hdr_ok_def)
  have bytes: "pb_buf (r_pbuf rp') = concat (pack_chunks lp64 rp (r_attrs rp))"
    using assms(1) by (intro packed_bytes [OF assms(3)]) (simp add: rplay_ok_def)
  have id: "enc_id lp64 (r_id rp) = be32 (word_of_int (r_id rp)) @ [0, 0, 0, 0]"
    by (simp add: enc_id_def enc_long_def lp64_def numeral_eq_Suc)
  have step: "unpack_loop lp64 (concat (tl (tl (pack_header lp64 rp))) @ rest) rp0 as a
      = Inr (rp0\<lparr>r_count := r_count rp, r_priority := r_priority rp,
          r_list_name := r_list_name rp, r_id := r_id rp, r_nsounds := r_nsounds rp0 + 1\<rparr>, as @ [a])"
    for rest as a
    using ok(1) rp0 assms(2)
    by (clarsimp simp del: concat.simps unpack_loop.simps split del: if_split
        simp add: pack_header_def unpack_step hdr_ok_def rplay_create_def Let_def)
      (simp add: id unpack_field_def dec_int_def codec_simps sint_word_of_int32)
  show ?thesis
    unfolding bytes unpack_packed [OF ok(2) assms(1) rp0] step
    using rp0 ok(1) by (cases rp) (auto simp: rplay_create_def hdr_ok_def Let_def rplay.defs rplay_hdr.defs
        split: if_splits)
qed


definition demo_rplay :: "host_abi \<Rightarrow> int \<Rightarrow> rplay" where
  "demo_rplay abi ident = \<lparr>r_pbuf = new_packet_buf, r_command = RPLAY_PLAY, r_nsounds = 2,
     r_count = 2, r_priority = 0, r_random_sound = -1, r_list_name = [108], r_id = ident,
     r_sequence = ulong_max abi, r_data_size = 0, r_data = None,
     r_attrs = [rplay_attrs_create\<lparr>a_sound := [97, 46, 97, 117], a_volume_l := 200\<rparr>,
                rplay_attrs_create\<lparr>a_sound := [98], a_sample_rate := 8000\<rparr>]\<rparr>"

lemma demo_rplay_ok: "abi_ok abi \<Longrightarrow> int_range ident \<Longrightarrow> rplay_ok abi (demo_rplay abi ident)"
  by (simp add: demo_rplay_def rplay_ok_def hdr_ok_def attrs_ok_def rplay_commands_def
      rplay_attrs_create_def nul_free_def new_packet_buf_def pbuf_ok_def pb_len_def)

lemma rplay_pack_fits:
  assumes "pbuf_ok ((r_pbuf rp)\<lparr>pb_buf := []\<rparr>)" "chunks_size (pack_chunks abi rp as) \<le> MAX_PACKET"
  shows "snd (rplay_pack abi rp as) = None"
  using copy_chunks_fits [OF assms(1), of "pack_chunks abi rp as"] assms(2)
  by (auto simp: rplay_pack_def pb_len_def)

lemma demo_rplay_packs:
  "snd (rplay_pack ilp32 (demo_rplay ilp32 7) (r_attrs (demo_rplay ilp32 7))) = None"
  "snd (rplay_pack lp64 (demo_rplay lp64 7) (r_attrs (demo_rplay lp64 7))) = None"
  by (rule rplay_pack_fits;
      simp add: demo_rplay_def new_packet_buf_def pbuf_ok_def pb_len_def pack_chunks_def
        pack_header_def pack_attrs_def rplay_attrs_create_def enc_cstr_def enc_uchar_def
        enc_id_def enc_ulong_def enc_long_def ilp32_def lp64_def Let_def)+



lemma rplay_id_loses_sounds_lp64_witness:
  "map_sum id r_attrs (rplay_unpack lp64 (pb_buf (r_pbuf (fst (rplay_pack lp64 (demo_rplay lp64 7)
       (r_attrs (demo_rplay lp64 7))))) @ []))
   = Inr [rplay_attrs_create]"
proof -
  have i: "rplay_ok lp64 (demo_rplay lp64 7)" "r_id (demo_rplay lp64 7) \<noteq> 0"
    by (simp_all add: demo_rplay_ok lp64_def abi_ok_def int_range_def) (simp add: demo_rplay_def)
  show ?thesis
    by (subst rplay_id_loses_sounds_lp64 [OF i, of "fst (rplay_pack lp64 (demo_rplay lp64 7)
       (r_attrs (demo_rplay lp64 7)))"]) (use demo_rplay_packs in \<open>auto simp: prod_eq_iff\<close>)
qed

text \<open>A failed \<open>rplay_pack\<close> leaves \<open>size\<close> larger than the allocation: packing a
  smaller list with the same object then writes past the end of \<open>buf\<close>, whenever
  the new encoding is longer than the bytes really allocated.\<close>

theorem rplay_pack_overflow_after_failure:
  assumes "pbuf_ok ((r_pbuf rp)\<lparr>pb_buf := []\<rparr>)"
    "chunks_size (pack_chunks abi rp as) > MAX_PACKET"
    "rplay_pack abi rp as = (rp1, e1)"
    "pb_cap (r_pbuf rp1) < chunks_size (pack_chunks abi rp1 as')"
    "chunks_size (pack_chunks abi rp1 as') \<le> MAX_PACKET"
  shows "e1 = Some (Errno RPLAY_ERROR_PACKET_SIZE)
    \<and> snd (rplay_pack abi rp1 as') = Some (Undef HeapOverflow)"
proof -
  obtain b1 where b1: "copy_chunks (pack_chunks abi rp as) ((r_pbuf rp)\<lparr>pb_buf := []\<rparr>)
      = (b1, Some (Errno RPLAY_ERROR_PACKET_SIZE))" "pb_size b1 = MAX_PACKET + COPY_SIZE"
    using copy_chunks_too_big [OF assms(1), of "pack_chunks abi rp as"] assms(2)
    by (auto simp: pb_len_def)
  then have rp1: "r_pbuf rp1 = b1" "e1 = Some (Errno RPLAY_ERROR_PACKET_SIZE)"
    using assms(3) by (auto simp: rplay_pack_def)
  show ?thesis
    using copy_chunks_overflow [of "b1\<lparr>pb_buf := []\<rparr>" "pack_chunks abi rp1 as'"] b1(2) assms(4,5) rp1
    by (auto simp: rplay_pack_def pb_len_def)
qed


definition long_sound :: "nat \<Rightarrow> rplay_attrs" where
  "long_sound n = rplay_attrs_create\<lparr>a_sound := replicate n 97\<rparr>"

lemma pack_chunks_long_sound:
  assumes "n > 0"
  shows "pack_chunks abi ((demo_rplay lp64 0)\<lparr>r_pbuf := b, r_count := 1, r_list_name := [],
      r_sequence := ulong_max abi\<rparr>) [long_sound n]
    = [[30], [1], [5], replicate n 97 @ [0], [0], [0]]"
  using assms
  by (simp add: demo_rplay_def pack_chunks_def pack_header_def pack_attrs_def long_sound_def
      rplay_attrs_create_def enc_cstr_def byte_of_def)

lemma rplay_pack_overflow_after_failure_witness:
  "let rp = (demo_rplay lp64 0)\<lparr>r_count := 1, r_list_name := [], r_pbuf := new_packet_buf\<rparr>;
       rp1 = fst (rplay_pack lp64 rp [long_sound 9000])
   in snd (rplay_pack lp64 rp [long_sound 9000]) = Some (Errno RPLAY_ERROR_PACKET_SIZE)
      \<and> snd (rplay_pack lp64 rp1 [long_sound 1000]) = Some (Undef HeapOverflow)"
proof -
  let ?hd = "(demo_rplay lp64 0)\<lparr>r_count := 1, r_list_name := []\<rparr>"
  let ?rp = "?hd\<lparr>r_pbuf := new_packet_buf\<rparr>"
  let ?rp1 = "fst (rplay_pack lp64 ?rp [long_sound 9000])"
  have ch: "pack_chunks lp64 (?hd\<lparr>r_pbuf := b\<rparr>) [long_sound n]
      = [[30], [1], [5], replicate n 97 @ [0], [0], [0]]" if "n > 0" for n b
    using pack_chunks_long_sound [OF that, of lp64 b] by (simp add: demo_rplay_def)
  let ?b3 = "\<lparr>pb_buf = [30, 1, 5], pb_size = 128, pb_cap = 128\<rparr>"
  have big: "copy_chunk (replicate 9000 97 @ [0]) ?b3
      = (?b3\<lparr>pb_size := MAX_PACKET + COPY_SIZE\<rparr>, Some (Errno RPLAY_ERROR_PACKET_SIZE))"
    by (rule copy_chunk_too_big) (simp_all add: pbuf_ok_def pb_len_def)
  have "copy_chunks [[30], [1], [5], replicate 9000 97 @ [0], [0], [0]] new_packet_buf
      = (?b3\<lparr>pb_size := 8320\<rparr>, Some (Errno RPLAY_ERROR_PACKET_SIZE))"
    using big by (simp add: copy_chunk_def new_packet_buf_def pb_len_def grow_size.simps)
  then have e: "rplay_pack lp64 ?rp [long_sound 9000]
      = (?hd\<lparr>r_pbuf := ?b3\<lparr>pb_size := 8320\<rparr>\<rparr>, Some (Errno RPLAY_ERROR_PACKET_SIZE))"
    using ch [of 9000 new_packet_buf] by (simp add: rplay_pack_def new_packet_buf_def)
  have "Some (Errno RPLAY_ERROR_PACKET_SIZE) = Some (Errno RPLAY_ERROR_PACKET_SIZE)
      \<and> snd (rplay_pack lp64 (?hd\<lparr>r_pbuf := ?b3\<lparr>pb_size := 8320\<rparr>\<rparr>) [long_sound 1000])
          = Some (Undef HeapOverflow)"
    by (rule rplay_pack_overflow_after_failure [OF _ _ e])
      (simp_all add: ch new_packet_buf_def pbuf_ok_def pb_len_def)
  then show ?thesis unfolding Let_def e by simp
qed

end
