(* ===== verification/RplaySet.thy ===== *)
theory RplaySet
  imports Packet
begin

text \<open>
  Editing an rplay object (\<open>rplay_set\<close>, \<open>rplay_get\<close> of
  \<open>src/librplay/rplay.c\<close>) and converting version 2 packets (\<open>rplay_convert\<close>).
  The attributes are a linked list with a tail pointer \<open>attrsp\<close> that aliases a
  \<open>next\<close> field, so the list lives in an explicit store: addresses to nodes.  The
  abstract specification is the list of addresses in order, and the edits refine
  the list operations append, insert and delete.
\<close>

section \<open>The object with its linked list\<close>

text \<open>\<open>attrsp\<close> points to the head pointer or to the \<open>next\<close> field of a node.\<close>

datatype slot = HeadSlot | NextSlot nat

type_synonym node_store = "nat \<Rightarrow> (rplay_attrs \<times> nat option) option"

record rplay_obj = rplay_hdr +
  o_head :: "nat option"
  o_tail :: slot
  o_nodes :: node_store
  o_fresh :: nat

definition node_next :: "node_store \<Rightarrow> nat \<Rightarrow> nat option" where
  "node_next nodes p = (case nodes p of Some (a, q) \<Rightarrow> q | None \<Rightarrow> None)"

definition set_next :: "nat \<Rightarrow> nat option \<Rightarrow> node_store \<Rightarrow> node_store" where
  "set_next p q nodes = nodes(p := map_option (\<lambda>(a, _). (a, q)) (nodes p))"

definition node_attrs :: "node_store \<Rightarrow> nat \<Rightarrow> rplay_attrs" where
  "node_attrs nodes p = (case nodes p of Some (a, q) \<Rightarrow> a | None \<Rightarrow> rplay_attrs_create)"

definition upd_attrs :: "nat \<Rightarrow> (rplay_attrs \<Rightarrow> rplay_attrs) \<Rightarrow> rplay_obj \<Rightarrow> rplay_obj" where
  "upd_attrs p f rp = rp\<lparr>o_nodes := (o_nodes rp)(p := map_option (\<lambda>(a, q). (f a, q)) (o_nodes rp p))\<rparr>"

text \<open>\<open>*slot = p\<close>\<close>

fun write_slot :: "slot \<Rightarrow> nat option \<Rightarrow> rplay_obj \<Rightarrow> rplay_obj" where
  "write_slot HeadSlot p rp = rp\<lparr>o_head := p\<rparr>"
| "write_slot (NextSlot x) p rp = rp\<lparr>o_nodes := set_next x p (o_nodes rp)\<rparr>"

text \<open>\<open>rplay_attrs_create()\<close>: a new node at a fresh address, not linked yet.\<close>

definition new_node :: "rplay_obj \<Rightarrow> rplay_obj" where
  "new_node rp = rp\<lparr>o_nodes := (o_nodes rp)(o_fresh rp \<mapsto> (rplay_attrs_create, None)),
                    o_fresh := Suc (o_fresh rp)\<rparr>"

definition new_obj :: "rplay_hdr \<Rightarrow> rplay_obj" where
  "new_obj rp = rplay_hdr.extend rp (rplay_obj.fields None HeadSlot Map.empty 0)"

text \<open>\<open>get_attrs\<close>\<close>

fun get_attrs :: "node_store \<Rightarrow> nat option \<Rightarrow> nat \<Rightarrow> nat option" where
  "get_attrs nodes p 0 = p"
| "get_attrs nodes None (Suc i) = None"
| "get_attrs nodes (Some p) (Suc i) = get_attrs nodes (node_next nodes p) i"

text \<open>The search loops of INSERT and DELETE: \<open>prev\<close>, \<open>cur\<close> and the part of the
  index that was not reached.\<close>

fun seek :: "node_store \<Rightarrow> nat option \<Rightarrow> nat option \<Rightarrow> nat \<Rightarrow> nat option \<times> nat option \<times> nat" where
  "seek nodes prev cur 0 = (prev, cur, 0)"
| "seek nodes prev None (Suc i) = (prev, None, Suc i)"
| "seek nodes prev (Some c) (Suc i) = seek nodes (Some c) (node_next nodes c) i"

section \<open>The edits of the list\<close>

definition set_append :: "rplay_obj \<Rightarrow> rplay_obj \<times> nat" where
  "set_append rp =
     (let p = o_fresh rp;
          rp1 = write_slot (o_tail rp) (Some p) (new_node rp)
      in (rp1\<lparr>o_tail := NextSlot p, r_nsounds := r_nsounds rp1 + 1\<rparr>, p))"

definition set_insert :: "int \<Rightarrow> rplay_obj \<Rightarrow> perror + (rplay_obj \<times> nat)" where
  "set_insert index rp =
     (if index < 0 then Inl (Errno RPLAY_ERROR_INDEX)
      else
        (case seek (o_nodes rp) None (o_head rp) (nat index) of
           (prev, cur, left) \<Rightarrow>
             if cur = None \<and> left \<noteq> 0 then Inl (Errno RPLAY_ERROR_INDEX)
             else
               (let p = o_fresh rp;
                    rp1 = new_node rp;
                    rp2 = (case prev of
                             Some x \<Rightarrow> rp1\<lparr>o_nodes := set_next x (Some p) (o_nodes rp1)\<rparr>
                           | None \<Rightarrow> write_slot (o_tail rp1) (Some p) rp1);
                    rp3 = rp2\<lparr>o_nodes := set_next p cur (o_nodes rp2)\<rparr>;
                    rp4 = (if cur = None then rp3\<lparr>o_tail := NextSlot p\<rparr> else rp3)
                in Inr (rp4\<lparr>r_nsounds := r_nsounds rp4 + 1\<rparr>, p))))"

definition set_delete :: "int \<Rightarrow> rplay_obj \<Rightarrow> perror + rplay_obj" where
  "set_delete index rp =
     (if index < 0 then Inl (Errno RPLAY_ERROR_INDEX)
      else
        (case seek (o_nodes rp) None (o_head rp) (nat index) of
           (prev, None, left) \<Rightarrow> Inl (Errno RPLAY_ERROR_INDEX)
         | (prev, Some c, left) \<Rightarrow>
             (let nx = node_next (o_nodes rp) c;
                  rp1 = (case prev of
                      Some x \<Rightarrow>
                        (let r = rp\<lparr>o_nodes := set_next x nx (o_nodes rp)\<rparr>
                         in if nx = None then r\<lparr>o_tail := NextSlot x\<rparr> else r)
                    | None \<Rightarrow>
                        (let r = rp\<lparr>o_head := nx\<rparr>
                         in if nx = None then r\<lparr>o_tail := HeadSlot\<rparr> else r));
                  rp2 = rp1\<lparr>o_nodes := (o_nodes rp1)(c := None)\<rparr>
              in Inr (rp2\<lparr>r_nsounds := r_nsounds rp2 - 1\<rparr>))))"

definition set_change :: "int \<Rightarrow> rplay_obj \<Rightarrow> perror + nat" where
  "set_change index rp =
     (case (if index < 0 then None else get_attrs (o_nodes rp) (o_head rp) (nat index)) of
        None \<Rightarrow> Inl (Errno RPLAY_ERROR_INDEX)
      | Some p \<Rightarrow> Inr p)"

section \<open>rplay_set\<close>

text \<open>Variable arguments: a \<open>long\<close>, a C string, or a pointer to bytes.  Reading one
  at the wrong type, or past the last, is undefined in C.\<close>

datatype vararg = VLong int | VStr cstring | VPtr bytes

fun va_long :: "vararg list \<Rightarrow> perror + (int \<times> vararg list)" where
  "va_long (VLong v # args) = Inr (v, args)"
| "va_long _ = Inl (Undef BadVararg)"

fun va_str :: "vararg list \<Rightarrow> perror + (cstring \<times> vararg list)" where
  "va_str (VStr s # args) = Inr (s, args)"
| "va_str _ = Inl (Undef BadVararg)"

fun va_any :: "vararg list \<Rightarrow> perror + (vararg \<times> vararg list)" where
  "va_any (v # args) = Inr (v, args)"
| "va_any [] = Inl (Undef BadVararg)"

fun va_ptr :: "vararg list \<Rightarrow> perror + (bytes \<times> vararg list)" where
  "va_ptr (VPtr d # args) = Inr (d, args)"
| "va_ptr _ = Inl (Undef BadVararg)"

text \<open>\<open>unsigned long\<close> read from the argument.\<close>

definition to_ulong :: "host_abi \<Rightarrow> int \<Rightarrow> nat" where
  "to_ulong abi v = nat (v mod 2 ^ (8 * long_size abi))"

text \<open>The library calls \<open>rplay_set\<close> relies on: \<open>inet_addr\<close> (32-bit all ones on
  failure), \<open>gethostbyname\<close>, \<open>inet_ntoa\<close>, \<open>gethostname\<close> and \<open>random()\<close>.\<close>

record set_env =
  e_abi :: host_abi
  e_inet_addr :: "cstring \<Rightarrow> 32 word"
  e_gethostbyname :: "cstring \<Rightarrow> 32 word option"
  e_inet_ntoa :: "32 word \<Rightarrow> cstring"
  e_gethostname :: "cstring option"
  e_random :: nat

definition resolve_server :: "set_env \<Rightarrow> cstring \<Rightarrow> perror + cstring" where
  "resolve_server env host =
     (let addr = e_inet_addr env host
      in if addr = 0xffffffff
         then (case e_gethostbyname env host of
                 None \<Rightarrow> Inl (Errno RPLAY_ERROR_HOST)
               | Some h \<Rightarrow> Inr (e_inet_ntoa env h))
         else Inr (e_inet_ntoa env addr))"

text \<open>One attribute of the loop, stored into the node \<open>p\<close>.\<close>

definition with_long :: "vararg list \<Rightarrow> (int \<Rightarrow> 'r) \<Rightarrow> perror + ('r \<times> vararg list)" where
  "with_long args f = bindE (va_long args) (\<lambda>(v, args'). Inr (f v, args'))"

definition with_str :: "vararg list \<Rightarrow> (cstring \<Rightarrow> 'r) \<Rightarrow> perror + ('r \<times> vararg list)" where
  "with_str args f = bindE (va_str args) (\<lambda>(v, args'). Inr (f v, args'))"

definition set_attribute ::
  "set_env \<Rightarrow> int \<Rightarrow> vararg list \<Rightarrow> nat \<Rightarrow> rplay_obj \<Rightarrow> perror + (rplay_obj \<times> vararg list)" where
  "set_attribute env attribute args p rp =
     (if attribute = 14 then with_long args (\<lambda>v. rp\<lparr>r_count := to_int v\<rparr>)
      else if attribute = 26 then with_str args (\<lambda>s. rp\<lparr>r_list_name := s\<rparr>)
      else if attribute = 15 then with_long args (\<lambda>v. rp\<lparr>r_priority := to_int v\<rparr>)
      else if attribute = 5 then with_str args (\<lambda>s. upd_attrs p (\<lambda>a. a\<lparr>a_sound := s\<rparr>) rp)
      else if attribute = 6 then
        with_long args (\<lambda>v. upd_attrs p (\<lambda>a. a\<lparr>a_volume_l := to_int v, a_volume_r := to_int v\<rparr>) rp)
      else if attribute = 32 then with_long args (\<lambda>v. upd_attrs p (\<lambda>a. a\<lparr>a_volume_l := to_int v\<rparr>) rp)
      else if attribute = 33 then with_long args (\<lambda>v. upd_attrs p (\<lambda>a. a\<lparr>a_volume_r := to_int v\<rparr>) rp)
      else if attribute = 13 then with_long args (\<lambda>v. upd_attrs p (\<lambda>a. a\<lparr>a_count := to_int v\<rparr>) rp)
      else if attribute = 18 \<or> attribute = 21 then
        bindE (va_any args) (\<lambda>(_, args1).
        bindE (if attribute = 21
               then (case e_gethostname env of
                       None \<Rightarrow> Inl (Errno RPLAY_ERROR_HOST)
                     | Some h \<Rightarrow> Inr (h, args1))
               else va_str args1) (\<lambda>(host, args2).
        bindE (resolve_server env host) (\<lambda>s.
          Inr (upd_attrs p (\<lambda>a. a\<lparr>a_rptp_server := Some s\<rparr>) rp, args2))))
      else if attribute = 19 then
        with_long args (\<lambda>v. upd_attrs p (\<lambda>a. a\<lparr>a_rptp_server_port := word_of_int v\<rparr>) rp)
      else if attribute = 20 then
        with_long args (\<lambda>v. upd_attrs p (\<lambda>a. a\<lparr>a_rptp_search := to_int v\<rparr>) rp)
      else if attribute = 22 then
        with_long args (\<lambda>v. upd_attrs p (\<lambda>a. a\<lparr>a_sample_rate := to_ulong (e_abi env) v\<rparr>) rp)
      else if attribute = 25 then with_str args (\<lambda>s. upd_attrs p (\<lambda>a. a\<lparr>a_client_data := s\<rparr>) rp)
      else Inl (Errno RPLAY_ERROR_ATTRIBUTE))"

lemma with_args_length [length_simps]:
  "with_long args f = Inr (r, args') \<Longrightarrow> length args = Suc (length args')"
  "with_str args g = Inr (r, args') \<Longrightarrow> length args = Suc (length args')"
  by (cases args rule: va_long.cases; auto simp: with_long_def)
    (cases args rule: va_str.cases; auto simp: with_str_def)

lemma va_length [length_simps]:
  "va_any args = Inr (v, args') \<Longrightarrow> length args = Suc (length args')"
  "va_str args = Inr (s, args') \<Longrightarrow> length args = Suc (length args')"
  by (cases args; auto) (cases args rule: va_str.cases; auto)

lemma set_attribute_length [length_simps]:
  "set_attribute env attribute args p rp = Inr (rp', args') \<Longrightarrow> length args' \<le> length args"
  by (auto simp: set_attribute_def split: if_splits option.splits dest!: length_simps)


text \<open>The attribute loop ends at a zero attribute.\<close>

function set_loop ::
  "set_env \<Rightarrow> vararg list \<Rightarrow> nat \<Rightarrow> rplay_obj \<Rightarrow> rplay_obj \<times> perror option" where
  "set_loop env args p rp =
     (case va_long args of
        Inl e \<Rightarrow> (rp, Some e)
      | Inr (v, args1) \<Rightarrow>
          if to_int v = 0 then (rp, None)
          else (case set_attribute env (to_int v) args1 p rp of
                  Inl e \<Rightarrow> (rp, Some e)
                | Inr (rp', args2) \<Rightarrow> set_loop env args2 p rp'))"
  by auto

lemma va_long_length [length_simps]:
  "va_long args = Inr (v, args') \<Longrightarrow> length args = Suc (length args')"
  by (cases args rule: va_long.cases) auto

termination set_loop
  by (relation "measure (\<lambda>(_, args, _). length args)") (auto dest!: length_simps)

declare set_loop.simps [simp del]

text \<open>The modifier switch: the edited object and, for the modifiers that go on to the
  attribute loop, the node \<open>attrs\<close> points to.\<close>

definition set_header ::
  "set_env \<Rightarrow> int \<Rightarrow> vararg list \<Rightarrow> rplay_obj \<Rightarrow> perror + rplay_obj" where
  "set_header env modifier args rp =
     (if modifier = 14 then map_sum id fst (with_long args (\<lambda>v. rp\<lparr>r_count := to_int v\<rparr>))
      else if modifier = 26 then map_sum id fst (with_str args (\<lambda>s. rp\<lparr>r_list_name := s\<rparr>))
      else if modifier = 15 then map_sum id fst (with_long args (\<lambda>v. rp\<lparr>r_priority := to_int v\<rparr>))
      else if modifier = 16 then
        (if r_nsounds rp = 0 then Inl (Undef DivideByZero)
         else Inr (rp\<lparr>r_random_sound := int (e_random env) mod r_nsounds rp\<rparr>))
      else if modifier = 28 then map_sum id fst (with_long args (\<lambda>v. rp\<lparr>r_id := to_int v\<rparr>))
      else if modifier = 29 then
        map_sum id fst (with_long args (\<lambda>v. rp\<lparr>r_sequence := to_ulong (e_abi env) v\<rparr>))
      else if modifier = 31 then Inl (Errno RPLAY_ERROR_MODIFIER)
      else if modifier = 30 then
        bindE (va_ptr args) (\<lambda>(d, args1).
        bindE (va_long args1) (\<lambda>(v, _).
          let n = word_of_int v :: 16 word
          in if unat n > length d then Inl (Undef ReadOverrun)
             else Inr (rp\<lparr>r_data_size := n, r_data := Some (take (unat n) d)\<rparr>)))
      else Inl (Errno RPLAY_ERROR_MODIFIER))"

definition set_modifier ::
  "set_env \<Rightarrow> int \<Rightarrow> vararg list \<Rightarrow> rplay_obj \<Rightarrow> perror + (rplay_obj \<times> (nat \<times> vararg list) option)" where
  "set_modifier env modifier args rp =
     (if modifier = 9 then (case set_append rp of (rp', p) \<Rightarrow> Inr (rp', Some (p, args)))
      else if modifier = 10 then
        bindE (va_long args) (\<lambda>(i, args1).
        bindE (set_insert (to_int i) rp) (\<lambda>(rp', p). Inr (rp', Some (p, args1))))
      else if modifier = 11 then
        bindE (va_long args) (\<lambda>(i, args1).
        bindE (set_delete (to_int i) rp) (\<lambda>rp'. Inr (rp', None)))
      else if modifier = 12 then
        bindE (va_long args) (\<lambda>(i, args1).
        bindE (set_change (to_int i) rp) (\<lambda>p. Inr (rp, Some (p, args1))))
      else bindE (set_header env modifier args rp) (\<lambda>rp'. Inr (rp', None)))"

text \<open>The walk of the list that packing makes.  A list that ends at NULL visits each
  allocated node at most once, so \<open>o_fresh\<close> steps are enough for it; a walk that
  needs more goes round a cycle.\<close>

fun chain :: "nat \<Rightarrow> node_store \<Rightarrow> nat option \<Rightarrow> nat list option" where
  "chain n nodes None = Some []"
| "chain 0 nodes (Some p) = None"
| "chain (Suc n) nodes (Some p) = map_option ((#) p) (chain n nodes (node_next nodes p))"

definition obj_list :: "rplay_obj \<Rightarrow> rplay_attrs list option" where
  "obj_list rp = map_option (map (node_attrs (o_nodes rp))) (chain (o_fresh rp) (o_nodes rp) (o_head rp))"

definition pack_obj :: "host_abi \<Rightarrow> rplay_obj \<Rightarrow> rplay_obj \<times> perror option" where
  "pack_obj abi rp =
     (case obj_list rp of
        None \<Rightarrow> (rp, Some (Undef EndlessList))
      | Some as \<Rightarrow> rplay_pack abi rp as)"

definition rplay_set :: "set_env \<Rightarrow> vararg list \<Rightarrow> rplay_obj \<Rightarrow> rplay_obj \<times> perror option" where
  "rplay_set env args rp =
     (case va_long args of
        Inl e \<Rightarrow> (rp, Some e)
      | Inr (modifier, args1) \<Rightarrow>
          (case set_modifier env (to_int modifier) args1 rp of
             Inl e \<Rightarrow> (rp, Some e)
           | Inr (rp', None) \<Rightarrow> pack_obj (e_abi env) rp'
           | Inr (rp', Some (p, args2)) \<Rightarrow>
               (case set_loop env args2 p rp' of
                  (rp'', Some e) \<Rightarrow> (rp'', Some e)
                | (rp'', None) \<Rightarrow> pack_obj (e_abi env) rp'')))"

section \<open>rplay_get\<close>

datatype rplay_value = LongValue int | StringValue cstring | PointerValue "bytes option"
  | ServerValue "cstring option"

definition get_field :: "vararg list \<Rightarrow> rplay_obj \<Rightarrow> (rplay_attrs \<Rightarrow> rplay_value) \<Rightarrow> perror + rplay_value" where
  "get_field args rp f =
     bindE (va_long args) (\<lambda>(i, _).
       let index = to_int i
       in case (if index < 0 then None else get_attrs (o_nodes rp) (o_head rp) (nat index)) of
            None \<Rightarrow> Inl (Errno RPLAY_ERROR_INDEX)
          | Some p \<Rightarrow> Inr (f (node_attrs (o_nodes rp) p)))"

text \<open>\<open>unsigned long\<close> returned as \<open>long\<close>\<close>

definition ulong_to_long :: "host_abi \<Rightarrow> nat \<Rightarrow> int" where
  "ulong_to_long abi n =
     (if n < 2 ^ (8 * long_size abi - 1) then int n else int n - 2 ^ (8 * long_size abi))"

definition rplay_get :: "host_abi \<Rightarrow> vararg list \<Rightarrow> rplay_obj \<Rightarrow> perror + rplay_value" where
  "rplay_get abi args0 rp =
     bindE (va_long args0) (\<lambda>(g, args).
       let get = to_int g
       in if get = 7 then Inr (LongValue (r_nsounds rp))
          else if get = 8 then Inr (LongValue (r_command rp))
          else if get = 14 then Inr (LongValue (r_count rp))
          else if get = 26 then Inr (StringValue (r_list_name rp))
          else if get = 15 then Inr (LongValue (r_priority rp))
          else if get = 16 then Inr (LongValue (r_random_sound rp))
          else if get = 28 then Inr (LongValue (r_id rp))
          else if get = 29 then Inr (LongValue (ulong_to_long abi (r_sequence rp)))
          else if get = 31 then Inr (LongValue (uint (r_data_size rp)))
          else if get = 30 then Inr (PointerValue (r_data rp))
          else if get = 5 then get_field args rp (\<lambda>a. StringValue (a_sound a))
          else if get = 6 then
            get_field args rp (\<lambda>a. LongValue (max (a_volume_l a) (a_volume_r a)))
          else if get = 32 then get_field args rp (\<lambda>a. LongValue (a_volume_l a))
          else if get = 33 then get_field args rp (\<lambda>a. LongValue (a_volume_r a))
          else if get = 13 then get_field args rp (\<lambda>a. LongValue (a_count a))
          else if get = 18 then get_field args rp (\<lambda>a. ServerValue (a_rptp_server a))
          else if get = 19 then get_field args rp (\<lambda>a. LongValue (uint (a_rptp_server_port a)))
          else if get = 20 then get_field args rp (\<lambda>a. LongValue (a_rptp_search a))
          else if get = 22 then get_field args rp (\<lambda>a. LongValue (ulong_to_long abi (a_sample_rate a)))
          else if get = 25 then get_field args rp (\<lambda>a. StringValue (a_client_data a))
          else Inl (Errno RPLAY_ERROR_ATTRIBUTE))"

section \<open>rplay_convert\<close>

text \<open>The \<open>do ... while (*p)\<close> loop: the bytes written for the sounds that start at
  \<open>p\<close>.\<close>

function convert_loop :: "bytes \<Rightarrow> perror + bytes" where
  "convert_loop p =
     (case take_cstr p of
        None \<Rightarrow> Inl (Undef ReadOverrun)
      | Some (sound, p1) \<Rightarrow>
          (case p1 of
             volume # c # p2 \<Rightarrow>
               (let out = RPLAY_SOUND # sound @ [0, RPLAY_VOLUME, volume, RPLAY_NULL]
                in if c = 0 then Inr out
                   else map_sum id (\<lambda>rest. out @ rest) (convert_loop (c # p2)))
           | _ \<Rightarrow> Inl (Undef ReadOverrun)))"
  by auto
termination
  by (relation "measure length") (auto dest!: take_cstr_length)

declare convert_loop.simps [simp del]

definition rplay_convert :: "bytes \<Rightarrow> perror + bytes" where
  "rplay_convert p =
     (case p of
        [] \<Rightarrow> Inl (Undef ReadOverrun)
      | c # p1 \<Rightarrow>
          (let cmd = (if c = 1 then [byte_of RPLAY_PLAY]
                      else if c = 2 then [byte_of RPLAY_STOP]
                      else if c = 3 then [byte_of RPLAY_PAUSE]
                      else if c = 4 then [byte_of RPLAY_CONTINUE]
                      else [])
           in bindE (convert_loop p1) (\<lambda>body.
                let buf = RPLAY_PACKET_ID # cmd @ body @ [RPLAY_NULL]
                in if length buf > MAX_PACKET then Inl (Undef HeapOverflow) else Inr buf)))"


section \<open>The list the object represents\<close>

fun linked :: "node_store \<Rightarrow> nat option \<Rightarrow> nat list \<Rightarrow> bool" where
  "linked nodes p [] \<longleftrightarrow> p = None"
| "linked nodes p (x # xs) \<longleftrightarrow> p = Some x \<and> x \<in> dom nodes \<and> linked nodes (node_next nodes x) xs"

text \<open>\<open>rep rp ps\<close>: the list of \<open>rp\<close> is the nodes \<open>ps\<close>, without repetition, all
  allocated; \<open>attrsp\<close> is the last \<open>next\<close> field and \<open>nsounds\<close> counts them.\<close>

definition rep :: "rplay_obj \<Rightarrow> nat list \<Rightarrow> bool" where
  "rep rp ps \<longleftrightarrow> linked (o_nodes rp) (o_head rp) ps \<and> distinct ps
     \<and> (\<forall>p \<in> dom (o_nodes rp). p < o_fresh rp)
     \<and> o_tail rp = (if ps = [] then HeadSlot else NextSlot (last ps))
     \<and> r_nsounds rp = int (length ps)"

lemma linked_dom: "linked nodes p ps \<Longrightarrow> set ps \<subseteq> dom nodes"
  by (induction ps arbitrary: p) auto

lemma node_next_simps [simp]:
  "node_next (nodes(x \<mapsto> (a, q))) y = (if y = x then q else node_next nodes y)"
  "node_next (nodes(x := None)) y = (if y = x then None else node_next nodes y)"
  by (auto simp: node_next_def)

lemma node_next_set_next [simp]:
  "x \<in> dom nodes \<Longrightarrow> node_next (set_next x q nodes) y = (if y = x then q else node_next nodes y)"
  by (auto simp: node_next_def set_next_def)

lemma dom_set_next [simp]: "dom (set_next x q nodes) = dom nodes"
  by (auto simp: set_next_def dom_def)

lemma node_attrs_set_next [simp]: "node_attrs (set_next x q nodes) y = node_attrs nodes y"
  by (auto simp: node_attrs_def set_next_def split: option.splits prod.splits)

lemma node_attrs_upd [simp]:
  "node_attrs (nodes(x \<mapsto> (a, q))) y = (if y = x then a else node_attrs nodes y)"
  "node_attrs (nodes(x := None)) y = (if y = x then rplay_attrs_create else node_attrs nodes y)"
  by (auto simp: node_attrs_def)

lemma linked_frame:
  "(\<forall>x \<in> set ps. x \<in> dom nodes' \<and> node_next nodes' x = node_next nodes x) \<Longrightarrow>
   linked nodes p ps \<Longrightarrow> linked nodes' p ps"
  by (induction ps arbitrary: p) auto

text \<open>Linked list surgery: cutting a list in two, and redirecting its last field.\<close>

fun linked_to :: "node_store \<Rightarrow> nat option \<Rightarrow> nat list \<Rightarrow> nat option \<Rightarrow> bool" where
  "linked_to nodes p [] q \<longleftrightarrow> p = q"
| "linked_to nodes p (x # xs) q \<longleftrightarrow>
     p = Some x \<and> x \<in> dom nodes \<and> linked_to nodes (node_next nodes x) xs q"

lemma linked_append:
  "linked nodes p (xs @ ys) \<longleftrightarrow> (\<exists>q. linked_to nodes p xs q \<and> linked nodes q ys)"
  by (induction xs arbitrary: p) auto

lemma linked_to_dom: "linked_to nodes p xs q \<Longrightarrow> set xs \<subseteq> dom nodes"
  by (induction xs arbitrary: p) auto

lemma linked_to_frame:
  "(\<forall>x \<in> set ps. x \<in> dom nodes' \<and> node_next nodes' x = node_next nodes x) \<Longrightarrow>
   linked_to nodes p ps q \<Longrightarrow> linked_to nodes' p ps q"
  by (induction ps arbitrary: p) auto

lemma linked_to_snoc:
  "linked_to nodes p (xs @ [x]) q \<longleftrightarrow>
     linked_to nodes p xs (Some x) \<and> x \<in> dom nodes \<and> node_next nodes x = q"
  by (induction xs arbitrary: p) auto

lemma linked_to_redirect:
  assumes "linked_to nodes p (xs @ [x]) q" "distinct (xs @ [x])"
  shows "linked_to (set_next x r nodes) p (xs @ [x]) r"
proof -
  have l: "linked_to nodes p xs (Some x)" "x \<in> dom nodes" "set xs \<subseteq> dom nodes"
    using assms(1) linked_to_dom [of nodes p xs "Some x"] by (auto simp: linked_to_snoc)
  have "linked_to (set_next x r nodes) p xs (Some x)"
    by (rule linked_to_frame [OF _ l(1)]) (use assms(2) l in auto)
  then show ?thesis using l by (auto simp: linked_to_snoc)
qed

lemma seek_linked:
  assumes "linked_to nodes p xs q" "linked nodes q ys"
  shows "seek nodes prev p (length xs) = ((if xs = [] then prev else Some (last xs)), q, 0)"
  using assms by (induction xs arbitrary: p prev) auto

lemma seek_beyond:
  assumes "linked nodes p ps" "length ps < i"
  shows "\<exists>prev'. seek nodes prev p i = (prev', None, i - length ps)"
  using assms
proof (induction ps arbitrary: p prev i)
  case Nil
  then show ?case by (cases i) auto
next
  case (Cons x xs)
  then obtain j where j: "i = Suc j" by (cases i) auto
  then show ?case using Cons by auto
qed

lemma get_attrs_linked:
  "linked nodes p ps \<Longrightarrow> get_attrs nodes p i = (if i < length ps then Some (ps ! i) else None)"
proof (induction ps arbitrary: p i)
  case Nil
  then show ?case by (cases i) auto
next
  case (Cons x xs)
  then show ?case by (cases i) auto
qed

lemma chain_linked:
  "linked nodes p ps \<Longrightarrow> length ps \<le> n \<Longrightarrow> chain n nodes p = Some ps"
proof (induction ps arbitrary: p n)
  case Nil
  then show ?case by simp
next
  case (Cons x xs)
  then show ?case by (cases n) auto
qed

lemma rep_length:
  assumes "rep rp ps"
  shows "length ps \<le> o_fresh rp"
proof -
  have "set ps \<subseteq> {..<o_fresh rp}"
    using assms linked_dom unfolding rep_def by fastforce
  then have "card (set ps) \<le> o_fresh rp"
    using card_mono [of "{..<o_fresh rp}" "set ps"] by simp
  then show ?thesis
    using assms by (simp add: rep_def distinct_card)
qed

lemma rep_obj_list:
  "rep rp ps \<Longrightarrow> obj_list rp = Some (map (node_attrs (o_nodes rp)) ps)"
  using rep_length [of rp ps] chain_linked [of "o_nodes rp" "o_head rp" ps "o_fresh rp"]
  by (simp add: obj_list_def rep_def)


text \<open>The edits refine the list operations.\<close>

lemma rep_new_obj: "r_nsounds h = 0 \<Longrightarrow> rep (new_obj h) []"
  by (cases h) (simp add: rep_def new_obj_def rplay_hdr.defs rplay_obj.defs)

lemma rep_dom: "rep rp ps \<Longrightarrow> set ps \<subseteq> dom (o_nodes rp)"
  using linked_dom unfolding rep_def by blast

lemma rep_fresh: "rep rp ps \<Longrightarrow> o_fresh rp \<notin> dom (o_nodes rp) \<and> o_fresh rp \<notin> set ps"
  using linked_dom unfolding rep_def by fastforce

lemma dom_new: "dom (nodes(x \<mapsto> v)) = insert x (dom nodes)"
  by auto

lemma rep_append:
  assumes "rep rp ps"
  shows "rep (fst (set_append rp)) (ps @ [o_fresh rp])"
    "map (node_attrs (o_nodes (fst (set_append rp)))) (ps @ [o_fresh rp])
       = map (node_attrs (o_nodes rp)) ps @ [rplay_attrs_create]"
proof -
  let ?f = "o_fresh rp"
  have f: "?f \<notin> dom (o_nodes rp)" "?f \<notin> set ps" "set ps \<subseteq> dom (o_nodes rp)"
    using rep_fresh [OF assms] rep_dom [OF assms] by auto
  let ?n1 = "(o_nodes rp)(?f \<mapsto> (rplay_attrs_create, None))"
  show "map (node_attrs (o_nodes (fst (set_append rp)))) (ps @ [?f])
      = map (node_attrs (o_nodes rp)) ps @ [rplay_attrs_create]"
    using f by (cases "o_tail rp") (auto simp: set_append_def new_node_def Let_def)
  show "rep (fst (set_append rp)) (ps @ [?f])"
  proof (cases ps rule: rev_cases)
    case Nil
    then show ?thesis
      using assms by (auto simp: rep_def set_append_def new_node_def Let_def less_Suc_eq)
  next
    case (snoc qs x)
    have l: "linked_to (o_nodes rp) (o_head rp) (qs @ [x]) None" "distinct (qs @ [x])"
      using assms snoc linked_append [of "o_nodes rp" "o_head rp" ps "[]"] by (auto simp: rep_def)
    have "linked_to ?n1 (o_head rp) (qs @ [x]) None"
      by (rule linked_to_frame [OF _ l(1)]) (use f snoc in auto)
    then have "linked_to (set_next x (Some ?f) ?n1) (o_head rp) (qs @ [x]) (Some ?f)"
      using l(2) by (rule linked_to_redirect)
    moreover have "linked (set_next x (Some ?f) ?n1) (Some ?f) [?f]"
      using f snoc by (auto simp: set_next_def node_next_def)
    ultimately have "linked (set_next x (Some ?f) ?n1) (o_head rp) (ps @ [?f])"
      unfolding snoc linked_append by blast
    then show ?thesis
      using assms snoc f
      by (auto simp: rep_def set_append_def new_node_def Let_def less_Suc_eq)
  qed
qed

lemma rep_split:
  assumes "rep rp (xs @ ys)"
  obtains q where "linked_to (o_nodes rp) (o_head rp) xs q" "linked (o_nodes rp) q ys"
    "q = (if ys = [] then None else Some (hd ys))"
proof -
  obtain q where q: "linked_to (o_nodes rp) (o_head rp) xs q" "linked (o_nodes rp) q ys"
    using assms by (auto simp: rep_def linked_append)
  moreover have "q = (if ys = [] then None else Some (hd ys))"
    using q(2) by (cases ys) auto
  ultimately show ?thesis using that by blast
qed

lemma rep_insert:
  assumes "rep rp (xs @ ys)" "xs \<noteq> [] \<or> ys = []"
  shows "\<exists>rp'. set_insert (int (length xs)) rp = Inr (rp', o_fresh rp)
    \<and> rep rp' (xs @ o_fresh rp # ys)
    \<and> (\<forall>p \<in> set (xs @ ys). node_attrs (o_nodes rp') p = node_attrs (o_nodes rp) p)
    \<and> node_attrs (o_nodes rp') (o_fresh rp) = rplay_attrs_create"
proof (cases xs rule: rev_cases)
  case Nil
  then show ?thesis
    using assms
    by (auto simp: set_insert_def rep_def new_node_def Let_def node_next_def set_next_def
        node_attrs_def less_Suc_eq)
next
  case (snoc zs x)
  let ?f = "o_fresh rp"
  obtain q where q: "linked_to (o_nodes rp) (o_head rp) xs q" "linked (o_nodes rp) q ys"
    "q = (if ys = [] then None else Some (hd ys))"
    using rep_split [OF assms(1)] .
  have f: "?f \<notin> dom (o_nodes rp)" "?f \<notin> set (xs @ ys)" "set (xs @ ys) \<subseteq> dom (o_nodes rp)"
    using rep_fresh [OF assms(1)] rep_dom [OF assms(1)] by auto
  have d: "distinct (xs @ ys)" using assms(1) by (simp add: rep_def)
  let ?n1 = "(o_nodes rp)(?f \<mapsto> (rplay_attrs_create, None))"
  let ?n2 = "set_next x (Some ?f) ?n1"
  let ?n3 = "set_next ?f q ?n2"
  have s: "seek (o_nodes rp) None (o_head rp) (length xs) = (Some x, q, 0)"
    using seek_linked [OF q(1,2), of None] snoc by simp
  have xd: "x \<in> dom ?n1" "?f \<in> dom ?n2" "x \<noteq> ?f" using f snoc by auto
  have "linked_to ?n1 (o_head rp) (zs @ [x]) q"
    by (rule linked_to_frame [OF _ q(1) [unfolded snoc]]) (use f snoc in auto)
  then have "linked_to ?n2 (o_head rp) (zs @ [x]) (Some ?f)"
    by (rule linked_to_redirect) (use d snoc in auto)
  then have a: "linked_to ?n3 (o_head rp) xs (Some ?f)"
    unfolding snoc by (rule linked_to_frame [rotated]) (use f snoc xd in auto)
  have b: "linked ?n3 q ys"
    by (rule linked_frame [OF _ q(2)]) (use f d snoc xd in auto)
  have "linked ?n3 (o_head rp) (xs @ ?f # ys)"
    unfolding linked_append using a b xd by auto
  moreover have "set_insert (int (length xs)) rp
      = Inr (rp\<lparr>o_nodes := ?n3, o_fresh := Suc ?f, o_tail := (if q = None then NextSlot ?f else o_tail rp),
                r_nsounds := r_nsounds rp + 1\<rparr>, ?f)"
    by (simp add: set_insert_def s new_node_def Let_def)
  ultimately show ?thesis
    using assms(1) f q(3) snoc
    by (auto simp: rep_def less_Suc_eq)
qed

lemma rep_insert_beyond:
  assumes "rep rp ps" "int (length ps) < i"
  shows "set_insert i rp = Inl (Errno RPLAY_ERROR_INDEX)"
proof -
  have "length ps < nat i" using assms by simp
  then obtain prev' where "seek (o_nodes rp) None (o_head rp) (nat i) = (prev', None, nat i - length ps)"
    using seek_beyond assms(1) unfolding rep_def by blast
  then show ?thesis
    using \<open>length ps < nat i\<close> by (simp add: set_insert_def)
qed

lemma rep_delete:
  assumes "rep rp (xs @ x # ys)"
  shows "\<exists>rp'. set_delete (int (length xs)) rp = Inr rp' \<and> rep rp' (xs @ ys)
    \<and> (\<forall>p \<in> set (xs @ ys). node_attrs (o_nodes rp') p = node_attrs (o_nodes rp) p)"
proof -
  obtain q where q: "linked_to (o_nodes rp) (o_head rp) xs q" "linked (o_nodes rp) q (x # ys)"
    using rep_split [OF assms] .
  have d: "distinct (xs @ x # ys)" "set (xs @ x # ys) \<subseteq> dom (o_nodes rp)"
    using assms rep_dom [OF assms] by (auto simp: rep_def)
  let ?nx = "node_next (o_nodes rp) x"
  have nx: "?nx = None \<longleftrightarrow> ys = []" "linked (o_nodes rp) ?nx ys" "q = Some x"
    using q(2) by (cases ys; auto)+
  show ?thesis
  proof (cases xs rule: rev_cases)
    case Nil
    have "linked ((o_nodes rp)(x := None)) ?nx ys"
      by (rule linked_frame [OF _ nx(2)]) (use d in auto)
    then show ?thesis
      using assms Nil nx q d by (auto simp: set_delete_def rep_def Let_def)
  next
    case (snoc zs z)
    have s: "seek (o_nodes rp) None (o_head rp) (length xs) = (Some z, Some x, 0)"
      using seek_linked [OF q, of None] snoc nx(3) by simp
    let ?n1 = "set_next z ?nx (o_nodes rp)"
    let ?n2 = "?n1(x := None)"
    have zd: "z \<in> dom (o_nodes rp)" "z \<noteq> x" using d snoc by auto
    have "linked_to ?n1 (o_head rp) (zs @ [z]) ?nx"
      by (rule linked_to_redirect [OF q(1) [unfolded snoc]]) (use d snoc in auto)
    then have a: "linked_to ?n2 (o_head rp) xs ?nx"
      unfolding snoc by (rule linked_to_frame [rotated]) (use d snoc in auto)
    have b: "linked ?n2 ?nx ys"
      by (rule linked_frame [OF _ nx(2)]) (use d snoc zd in auto)
    have "linked ?n2 (o_head rp) (xs @ ys)"
      unfolding linked_append using a b by auto
    moreover have "set_delete (int (length xs)) rp
        = Inr (rp\<lparr>o_nodes := ?n2, o_tail := (if ?nx = None then NextSlot z else o_tail rp),
                  r_nsounds := r_nsounds rp - 1\<rparr>)"
      by (simp add: set_delete_def s Let_def)
    ultimately show ?thesis
      using assms snoc nx(1) d zd by (auto simp: rep_def)
  qed
qed

lemma rep_delete_beyond:
  assumes "rep rp ps" "int (length ps) \<le> i"
  shows "set_delete i rp = Inl (Errno RPLAY_ERROR_INDEX)"
proof (cases "length ps = nat i")
  case True
  obtain q where q: "linked_to (o_nodes rp) (o_head rp) ps q" "linked (o_nodes rp) q []"
    using rep_split [of rp ps "[]"] assms(1) by auto
  then show ?thesis
    using seek_linked [OF q, of None] True by (auto simp: set_delete_def)
next
  case False
  then have "length ps < nat i" using assms(2) by simp
  then obtain prev' where "seek (o_nodes rp) None (o_head rp) (nat i) = (prev', None, nat i - length ps)"
    using seek_beyond assms(1) unfolding rep_def by blast
  then show ?thesis by (simp add: set_delete_def)
qed


definition well_linked :: "rplay_obj \<Rightarrow> bool" where
  "well_linked rp \<longleftrightarrow> (\<exists>ps. rep rp ps)"

lemma obj_list_rep:
  "obj_list rp = Some xs \<Longrightarrow> rep rp ps \<Longrightarrow> xs = map (node_attrs (o_nodes rp)) ps"
  using rep_obj_list by fastforce

text \<open>What \<open>RPLAY_INSERT\<close> and \<open>RPLAY_DELETE\<close> promise, on lists.\<close>

definition insert_at :: "nat \<Rightarrow> 'a \<Rightarrow> 'a list \<Rightarrow> 'a list" where
  "insert_at i x xs = take i xs @ x # drop i xs"

definition delete_at :: "nat \<Rightarrow> 'a list \<Rightarrow> 'a list" where
  "delete_at i xs = take i xs @ drop (Suc i) xs"

lemma insert_refines:
  assumes "rep rp ps" "obj_list rp = Some xs" "0 < i \<or> xs = []" "i \<le> length xs"
  shows "\<exists>rp' p. set_insert (int i) rp = Inr (rp', p) \<and> well_linked rp'
    \<and> obj_list rp' = Some (insert_at i rplay_attrs_create xs)"
proof -
  have xs: "xs = map (node_attrs (o_nodes rp)) ps"
    using obj_list_rep assms by blast
  have "rep rp (take i ps @ drop i ps)" "take i ps \<noteq> [] \<or> drop i ps = []"
    using assms xs by auto
  from rep_insert [OF this] obtain rp' where rp':
    "set_insert (int i) rp = Inr (rp', o_fresh rp)"
    "rep rp' (take i ps @ o_fresh rp # drop i ps)"
    "\<forall>p \<in> set (take i ps @ drop i ps). node_attrs (o_nodes rp') p = node_attrs (o_nodes rp) p"
    "node_attrs (o_nodes rp') (o_fresh rp) = rplay_attrs_create"
    using assms(4) xs by auto
  have "\<forall>p \<in> set (take i ps). node_attrs (o_nodes rp') p = node_attrs (o_nodes rp) p"
    "\<forall>p \<in> set (drop i ps). node_attrs (o_nodes rp') p = node_attrs (o_nodes rp) p"
    using rp'(3) by (simp_all only: set_append Un_iff) blast+
  then have "map (node_attrs (o_nodes rp')) (take i ps @ o_fresh rp # drop i ps)
      = insert_at i rplay_attrs_create xs"
    using rp'(4) by (simp add: xs insert_at_def take_map drop_map)
  then show ?thesis
    using rp'(1,2) rep_obj_list [OF rp'(2)] by (auto simp: well_linked_def)
qed

lemma delete_refines:
  assumes "rep rp ps" "obj_list rp = Some xs" "i < length xs"
  shows "\<exists>rp'. set_delete (int i) rp = Inr rp' \<and> well_linked rp'
    \<and> obj_list rp' = Some (delete_at i xs)"
proof -
  have xs: "xs = map (node_attrs (o_nodes rp)) ps" and i: "i < length ps"
    using obj_list_rep assms by fastforce+
  have "rep rp (take i ps @ ps ! i # drop (Suc i) ps)"
    using assms(1) i by (simp add: id_take_nth_drop [symmetric])
  from rep_delete [OF this] obtain rp' where rp':
    "set_delete (int i) rp = Inr rp'" "rep rp' (take i ps @ drop (Suc i) ps)"
    "\<forall>p \<in> set (take i ps @ drop (Suc i) ps). node_attrs (o_nodes rp') p = node_attrs (o_nodes rp) p"
    using i by auto
  have "\<forall>p \<in> set (take i ps). node_attrs (o_nodes rp') p = node_attrs (o_nodes rp) p"
    "\<forall>p \<in> set (drop (Suc i) ps). node_attrs (o_nodes rp') p = node_attrs (o_nodes rp) p"
    using rp'(3) by (simp_all only: set_append Un_iff) blast+
  then have "map (node_attrs (o_nodes rp')) (take i ps @ drop (Suc i) ps) = delete_at i xs"
    by (simp add: xs delete_at_def take_map drop_map)
  then show ?thesis
    using rp'(1,2) rep_obj_list [OF rp'(2)] by (auto simp: well_linked_def)
qed

text \<open>C8.  The pointer edits of \<open>rplay_set\<close> refine the list operations: on a well
  linked object APPEND adds a default node at the end, INSERT (except in front of a
  non-empty list) and DELETE edit the list at the index, every edit leaves the
  object well linked, and an index outside the list is \<open>RPLAY_ERROR_INDEX\<close>.\<close>

theorem rplay_edits_refine_lists:
  assumes "well_linked rp" "obj_list rp = Some xs"
  shows "(well_linked (fst (set_append rp))
      \<and> obj_list (fst (set_append rp)) = Some (xs @ [rplay_attrs_create]))
    \<and> (\<forall>i. (if 0 < i \<and> i \<le> int (length xs) \<or> xs = [] \<and> i = 0
        then \<exists>rp' p. set_insert i rp = Inr (rp', p) \<and> well_linked rp'
               \<and> obj_list rp' = Some (insert_at (nat i) rplay_attrs_create xs)
        else i = 0 \<or> set_insert i rp = Inl (Errno RPLAY_ERROR_INDEX)))
    \<and> (\<forall>i. (if 0 \<le> i \<and> i < int (length xs)
        then \<exists>rp'. set_delete i rp = Inr rp' \<and> well_linked rp'
               \<and> obj_list rp' = Some (delete_at (nat i) xs)
        else set_delete i rp = Inl (Errno RPLAY_ERROR_INDEX)))"
proof -
  obtain ps where ps: "rep rp ps" using assms by (auto simp: well_linked_def)
  have xs: "xs = map (node_attrs (o_nodes rp)) ps"
    using obj_list_rep assms(2) ps by blast
  have app: "well_linked (fst (set_append rp))
      \<and> obj_list (fst (set_append rp)) = Some (xs @ [rplay_attrs_create])"
    using rep_append [OF ps] rep_obj_list [OF rep_append(1) [OF ps]] xs
    by (auto simp: well_linked_def)
  have ins: "if 0 < i \<and> i \<le> int (length xs) \<or> xs = [] \<and> i = 0
        then \<exists>rp' p. set_insert i rp = Inr (rp', p) \<and> well_linked rp'
               \<and> obj_list rp' = Some (insert_at (nat i) rplay_attrs_create xs)
        else i = 0 \<or> set_insert i rp = Inl (Errno RPLAY_ERROR_INDEX)" for i
    using insert_refines [OF ps assms(2), of "nat i"] rep_insert_beyond [OF ps, of i] xs
    by (cases "i < 0") (auto simp: set_insert_def)
  have del: "if 0 \<le> i \<and> i < int (length xs)
        then \<exists>rp'. set_delete i rp = Inr rp' \<and> well_linked rp'
               \<and> obj_list rp' = Some (delete_at (nat i) xs)
        else set_delete i rp = Inl (Errno RPLAY_ERROR_INDEX)" for i
    using delete_refines [OF ps assms(2), of "nat i"] rep_delete_beyond [OF ps, of i] xs
    by (cases "i < 0") (auto simp: set_delete_def)
  show ?thesis using app ins del by blast
qed

text \<open>Inserting in front of a non-empty list writes through \<open>attrsp\<close>, the last
  \<open>next\<close> field: the new node is linked behind the last node and points to the
  first, and the list has no end.\<close>

lemma chain_cycle:
  assumes "\<forall>x \<in> S. node_next nodes x \<in> Some ` S" "p \<in> S"
  shows "chain n nodes (Some p) = None"
  using assms(2)
proof (induction n arbitrary: p)
  case (Suc n)
  then show ?case using assms(1) by force
qed simp

lemma insert_front_cycle:
  assumes "rep rp ps" "ps \<noteq> []"
  shows "\<exists>rp'. set_insert 0 rp = Inr (rp', o_fresh rp)
    \<and> (\<forall>n. chain n (o_nodes rp') (o_head rp') = None)"
proof -
  let ?f = "o_fresh rp"
  let ?n1 = "(o_nodes rp)(?f \<mapsto> (rplay_attrs_create, None))"
  let ?n3 = "set_next ?f (o_head rp) (set_next (last ps) (Some ?f) ?n1)"
  obtain h where h: "o_head rp = Some h" "h \<in> set ps"
    using assms by (cases ps) (auto simp: rep_def)
  have f: "?f \<notin> dom (o_nodes rp)" "?f \<notin> set ps" "set ps \<subseteq> dom (o_nodes rp)"
    using rep_fresh [OF assms(1)] rep_dom [OF assms(1)] by auto
  have succ: "\<And>x. x \<in> set ps \<Longrightarrow> x \<noteq> last ps \<Longrightarrow> node_next (o_nodes rp) x \<in> Some ` set ps"
  proof -
    fix x assume x: "x \<in> set ps" "x \<noteq> last ps"
    obtain xs ys where s: "ps = xs @ x # ys" using x(1) by (meson split_list)
    then have ys: "ys \<noteq> []" using x(2) by auto
    have "rep rp (xs @ x # ys)" using assms(1) s by simp
    then obtain q where "linked (o_nodes rp) q (x # ys)" by (rule rep_split)
    then have "linked (o_nodes rp) (node_next (o_nodes rp) x) ys" by simp
    then show "node_next (o_nodes rp) x \<in> Some ` set ps"
      using ys s by (cases ys) auto
  qed
  have d: "last ps \<in> dom ?n1" "?f \<in> dom (set_next (last ps) (Some ?f) ?n1)" "last ps \<noteq> ?f"
    using f last_in_set [OF assms(2)] by auto
  have cyc: "\<forall>x \<in> insert ?f (set ps). node_next ?n3 x \<in> Some ` insert ?f (set ps)"
    using d f(2) h succ by auto
  have "chain n ?n3 (Some h) = None" for n
    by (rule chain_cycle [OF cyc]) (use h in simp)
  moreover have "set_insert 0 rp = Inr (rp\<lparr>o_nodes := ?n3, o_fresh := Suc ?f, r_nsounds := r_nsounds rp + 1\<rparr>, ?f)"
    using assms h by (simp add: set_insert_def new_node_def Let_def rep_def)
  ultimately show ?thesis using h by auto
qed


text \<open>The attribute loop changes no link.\<close>

definition same_links :: "rplay_obj \<Rightarrow> rplay_obj \<Rightarrow> bool" where
  "same_links rp rp' \<longleftrightarrow> o_head rp' = o_head rp \<and> o_tail rp' = o_tail rp
     \<and> o_fresh rp' = o_fresh rp \<and> r_nsounds rp' = r_nsounds rp
     \<and> dom (o_nodes rp') = dom (o_nodes rp)
     \<and> (\<forall>x. node_next (o_nodes rp') x = node_next (o_nodes rp) x)"

lemma same_links_refl: "same_links rp rp"
  by (simp add: same_links_def)

lemma same_links_trans: "same_links a b \<Longrightarrow> same_links b c \<Longrightarrow> same_links a c"
  by (simp add: same_links_def)

lemma same_links_upd_attrs: "same_links rp (upd_attrs p f rp)"
  by (auto simp: same_links_def upd_attrs_def node_next_def split: option.splits)

lemma same_links_rep: "same_links rp rp' \<Longrightarrow> rep rp ps \<Longrightarrow> rep rp' ps"
  unfolding rep_def same_links_def
  using linked_frame [of ps "o_nodes rp'" "o_nodes rp" "o_head rp"] linked_dom [of "o_nodes rp"]
  by (auto dest: linked_dom)

lemma same_links_chain:
  "same_links rp rp' \<Longrightarrow> chain n (o_nodes rp') q = chain n (o_nodes rp) q"
  by (induction n "o_nodes rp" q rule: chain.induct) (auto simp: same_links_def)

lemma with_args_same:
  "with_long args f = Inr (r, args') \<Longrightarrow> \<exists>v. r = f v"
  "with_str args g = Inr (r, args') \<Longrightarrow> \<exists>s. r = g s"
  by (auto simp: with_long_def with_str_def)

lemma same_links_header_updates:
  "same_links rp (rp\<lparr>r_count := c\<rparr>)" "same_links rp (rp\<lparr>r_list_name := l\<rparr>)"
  "same_links rp (rp\<lparr>r_priority := c\<rparr>)" "same_links rp (rp\<lparr>r_random_sound := c\<rparr>)"
  "same_links rp (rp\<lparr>r_id := c\<rparr>)" "same_links rp (rp\<lparr>r_sequence := n\<rparr>)"
  "same_links rp (rp\<lparr>r_data_size := w, r_data := d\<rparr>)" "same_links rp (rp\<lparr>r_pbuf := b\<rparr>)"
  by (simp_all add: same_links_def)

lemma set_attribute_same_links:
  "set_attribute env attribute args p rp = Inr (rp', args') \<Longrightarrow> same_links rp rp'"
  by (auto simp: set_attribute_def same_links_upd_attrs same_links_header_updates
      split: if_splits option.splits dest!: with_args_same)

lemma set_loop_same_links: "same_links rp (fst (set_loop env args p rp))"
proof (induction env args p rp rule: set_loop.induct)
  case (1 env args p rp)
  then show ?case
    by (subst set_loop.simps)
      (auto simp: same_links_refl split: sum.splits prod.splits
        intro: same_links_trans dest: set_attribute_same_links)
qed

lemma set_header_same_links:
  "set_header env m args rp = Inr rp' \<Longrightarrow> same_links rp rp'"
  by (auto simp: set_header_def same_links_header_updates Let_def map_sum_def
      split: if_splits sum.splits dest!: with_args_same)

lemma pack_obj_same_links: "same_links rp (fst (pack_obj abi rp))"
  by (auto simp: pack_obj_def rplay_pack_def Let_def same_links_refl same_links_header_updates
      split: option.splits prod.splits)

text \<open>INSERT in front of a non-empty list, the one edit that breaks the list.\<close>

definition front_insert :: "vararg list \<Rightarrow> rplay_obj \<Rightarrow> bool" where
  "front_insert args rp \<longleftrightarrow> o_head rp \<noteq> None
     \<and> (\<exists>m i rest. args = VLong m # VLong i # rest \<and> to_int m = 10 \<and> to_int i = 0)"

lemma set_modifier_well_linked:
  assumes "set_modifier env (to_int m) args rp = Inr (rp', x)" "rep rp ps"
    "\<not> front_insert (VLong m # args) rp"
  shows "well_linked rp'"
proof -
  obtain xs where xs: "obj_list rp = Some xs" using rep_obj_list [OF assms(2)] by blast
  have xl: "length xs = length ps" and hd: "o_head rp = None \<longleftrightarrow> ps = []"
    using obj_list_rep [OF xs assms(2)] assms(2) by (cases ps; auto simp: rep_def)+
  have ins: "well_linked r" if "args = VLong i # rest" "to_int m = 10"
    "set_insert (to_int i) rp = Inr (r, p)" for i rest r p
  proof -
    have "to_int i \<ge> 0" "to_int i \<le> int (length xs)"
      using that(3) rep_insert_beyond [OF assms(2), of "to_int i"] xl
      by (auto simp: set_insert_def split: if_splits) (use linorder_not_less in fastforce)
    moreover have "0 < to_int i \<or> xs = []"
      using assms(3) that(1,2) hd xl calculation by (force simp: front_insert_def)
    ultimately show ?thesis
      using insert_refines [OF assms(2) xs, of "nat (to_int i)"] that(3) by auto
  qed
  have del: "well_linked r" if "set_delete i rp = Inr r" for i r
  proof -
    have "i \<ge> 0" "i < int (length xs)"
      using that rep_delete_beyond [OF assms(2), of i] xl
      by (auto simp: set_delete_def split: if_splits) (use linorder_not_less in fastforce)
    then show ?thesis using delete_refines [OF assms(2) xs, of "nat i"] that by auto
  qed
  have app: "well_linked (fst (set_append rp))"
    using rep_append [OF assms(2)] by (auto simp: well_linked_def)
  have hdr: "well_linked r" if "set_header env (to_int m) args rp = Inr r" for r
    using set_header_same_links [OF that] same_links_rep assms(2) by (auto simp: well_linked_def)
  show ?thesis
    using assms(1) app hdr assms(2)
    by (cases args rule: va_long.cases)
      (auto simp: set_modifier_def well_linked_def [symmetric] split: if_splits prod.splits
        intro: ins del, auto simp: well_linked_def)
qed

text \<open>C25.  The invariant of the library: whatever the arguments, and also when it
  fails half way, \<open>rplay_set\<close> leaves a well linked object well linked, except for
  an INSERT at index 0 of a non-empty list.\<close>

theorem rplay_set_well_linked:
  assumes "well_linked rp" "\<not> front_insert args rp"
  shows "well_linked (fst (rplay_set env args rp))"
proof -
  obtain ps where ps: "rep rp ps" using assms(1) by (auto simp: well_linked_def)
  have keep: "well_linked (fst (pack_obj abi r))" if "well_linked r" for abi r
    using that pack_obj_same_links [of r abi] same_links_rep by (auto simp: well_linked_def)
  have loop: "well_linked (fst (set_loop env as p r))" if "well_linked r" for as p r
    using that set_loop_same_links [of r env as p] same_links_rep by (auto simp: well_linked_def)
  show ?thesis
  proof (cases args rule: va_long.cases)
    case (1 m rest)
    then show ?thesis
      using assms keep set_modifier_well_linked [of env m rest rp _ _ ps] ps
      by (auto simp: rplay_set_def split: sum.splits prod.splits option.splits)
        (metis fst_conv keep loop)+
  qed (use assms(1) in \<open>auto simp: rplay_set_def\<close>)
qed


text \<open>Inserting in front of a non-empty list, the call the manual shows
  (\<open>rplay_set(rp, RPLAY_INSERT, 0, RPLAY_SOUND, name, RPLAY_VOLUME, v, NULL)\<close>), turns
  the list into a cycle: the walk that packs it never reaches NULL.\<close>

theorem rplay_insert_front_cycles:
  assumes "well_linked rp" "o_head rp \<noteq> None" "int_range v"
  shows "let (rp', e) = rplay_set env [VLong 10, VLong 0, VLong 5, VStr s, VLong 6, VLong v, VLong 0] rp
    in e = Some (Undef EndlessList) \<and> (\<forall>n. chain n (o_nodes rp') (o_head rp') = None)"
proof -
  obtain ps where ps: "rep rp ps" using assms(1) by (auto simp: well_linked_def)
  moreover have "ps \<noteq> []" using ps assms(2) by (auto simp: rep_def)
  ultimately have ps: "rep rp ps" "ps \<noteq> []" by auto
  obtain rp1 where rp1: "set_insert 0 rp = Inr (rp1, o_fresh rp)"
    "\<forall>n. chain n (o_nodes rp1) (o_head rp1) = None"
    using insert_front_cycle [OF ps] by blast
  let ?args = "[VLong 5, VStr s, VLong 6, VLong v, VLong 0]"
  obtain rp2 where rp2: "set_loop env ?args (o_fresh rp) rp1 = (rp2, None)"
    by (simp add: set_loop.simps to_int_def set_attribute_def with_long_def with_str_def)
  have "same_links rp1 rp2"
    using set_loop_same_links [of rp1 env ?args "o_fresh rp"] rp2 by simp
  then have "chain n (o_nodes rp2) (o_head rp2) = None" for n
    using rp1(2) same_links_chain [of rp1 rp2] by (simp add: same_links_def)
  then show ?thesis
    using rp1(1) rp2
    by (simp add: rplay_set_def set_modifier_def to_int_def pack_obj_def obj_list_def)
qed

section \<open>Conversion of version 2 packets\<close>

text \<open>A version 2 packet: the command, then for each sound its name and its volume,
  then a NUL.\<close>

definition old_sounds :: "(cstring \<times> byte) list \<Rightarrow> bytes" where
  "old_sounds xs = concat (map (\<lambda>(s, v). s @ [0, v]) xs)"

definition new_sounds :: "(cstring \<times> byte) list \<Rightarrow> bytes" where
  "new_sounds xs = concat (map (\<lambda>(s, v). RPLAY_SOUND # s @ [0, RPLAY_VOLUME, v, RPLAY_NULL]) xs)"

definition old_attrs :: "(cstring \<times> byte) \<Rightarrow> rplay_attrs" where
  "old_attrs x = rplay_attrs_create\<lparr>a_sound := fst x, a_volume_l := uint (snd x), a_volume_r := uint (snd x)\<rparr>"

lemma convert_loop_sounds:
  assumes "xs \<noteq> []" "\<forall>(s, v) \<in> set xs. nul_free s \<and> s \<noteq> []"
  shows "convert_loop (old_sounds xs @ 0 # junk) = Inr (new_sounds xs)"
  using assms
proof (induction xs)
  case (Cons x xs)
  obtain s v where x: "x = (s, v)" "nul_free s" "s \<noteq> []"
    using Cons.prems by (cases x) auto
  have t: "take_cstr (s @ 0 # rest) = Some (s, rest)" for rest
    using x(2) by (rule take_cstr_enc)
  show ?case
  proof (cases xs)
    case Nil
    then show ?thesis
      using x t by (simp add: convert_loop.simps [of "s @ _"] old_sounds_def new_sounds_def)
  next
    case (Cons y ys)
    obtain c s' w where y: "y = (c # s', w)" "c \<noteq> 0"
      using Cons.prems Cons by (cases y; cases "fst y") (auto simp: nul_free_def)
    have "convert_loop (old_sounds xs @ 0 # junk) = Inr (new_sounds xs)"
      using Cons.IH Cons.prems Cons by simp
    then show ?thesis
      using x t y Cons
      by (simp add: convert_loop.simps [of "s @ _"] old_sounds_def new_sounds_def)
  qed
qed simp

lemma unpack_new_sounds:
  assumes "xs \<noteq> []" "\<forall>(s, v) \<in> set xs. nul_free s \<and> s \<noteq> []"
  shows "unpack_loop abi (new_sounds xs @ RPLAY_NULL # junk) rp as rplay_attrs_create
    = Inr (rp\<lparr>r_nsounds := r_nsounds rp + int (length xs)\<rparr>, as @ map old_attrs xs)"
  using assms
proof (induction xs arbitrary: rp as)
  case (Cons x xs)
  obtain s v where x: "x = (s, v)" "nul_free s"
    using Cons.prems by (cases x) auto
  have t: "take_cstr (s @ 0 # rest) = Some (s, rest)" for rest
    using x(2) by (rule take_cstr_enc)
  have one: "unpack_loop abi (RPLAY_SOUND # s @ 0 # RPLAY_VOLUME # v # RPLAY_NULL # rest) rp as rplay_attrs_create
      = unpack_loop abi (RPLAY_NULL # rest) rp as (old_attrs x)" for rest
    using x(1) t by (simp add: unpack_field_def dec_uchar_def old_attrs_def)
  show ?case
  proof (cases xs)
    case Nil
    then show ?thesis using x one by (simp add: new_sounds_def)
  next
    case (Cons y ys)
    then have "\<exists>p. new_sounds xs @ RPLAY_NULL # junk = RPLAY_SOUND # p"
      by (cases y) (simp add: new_sounds_def)
    then show ?thesis
      using Cons.IH Cons.prems Cons x one [of "new_sounds xs @ RPLAY_NULL # junk"]
      by (auto simp: new_sounds_def add.assoc)
  qed
qed simp

definition old_commands :: "int list" where
  "old_commands = [RPLAY_PLAY, RPLAY_STOP, RPLAY_PAUSE, RPLAY_CONTINUE]"

text \<open>C36.  A version 2 packet that fits is converted to a packet that unpacks to the
  same command with the same sounds, each at its volume on both channels.\<close>

theorem rplay_convert_unpacks:
  assumes "c \<in> set old_commands" "xs \<noteq> []" "\<forall>(s, v) \<in> set xs. nul_free s \<and> s \<noteq> []"
    "length (new_sounds xs) + 3 \<le> MAX_PACKET"
  shows "\<exists>buf rp. rplay_convert (byte_of c # old_sounds xs @ 0 # junk) = Inr buf
    \<and> rplay_unpack abi buf = Inr rp \<and> r_command rp = c
    \<and> r_nsounds rp = int (length xs) \<and> r_attrs rp = map old_attrs xs"
proof -
  have cmd: "c \<in> set rplay_commands" using assms(1) by (auto simp: old_commands_def rplay_commands_def)
  have buf: "rplay_convert (byte_of c # old_sounds xs @ 0 # junk)
      = Inr (RPLAY_PACKET_ID # byte_of c # new_sounds xs @ [RPLAY_NULL])"
    using assms convert_loop_sounds [OF assms(2,3), of junk]
    by (auto simp: rplay_convert_def old_commands_def byte_of_def Let_def)
  obtain rp0 where rp0: "rplay_create abi c = Inr rp0" using create_ok cmd by blast
  have "rplay_unpack abi (RPLAY_PACKET_ID # byte_of c # new_sounds xs @ [RPLAY_NULL])
      = Inr (rplay_hdr.extend (rp0\<lparr>r_nsounds := r_nsounds rp0 + int (length xs)\<rparr>)
          (rplay.fields (map old_attrs xs)))"
    using rp0 sint_command [OF cmd] unpack_new_sounds [OF assms(2,3), of abi "[]" rp0 "[]"]
    by (simp add: rplay_unpack_def)
  then show ?thesis
    using buf rp0 cmd by (auto simp: rplay_create_def Let_def rplay_hdr.defs rplay.defs)
qed


text \<open>A concrete object with two sounds, made by the code's own edits.\<close>

definition demo_obj :: rplay_obj where
  "demo_obj = fst (set_append (fst (set_append (new_obj (rplay_hdr.truncate (demo_rplay ilp32 0)
     \<lparr>r_nsounds := 0\<rparr>)))))"

lemma demo_obj_well_linked: "well_linked demo_obj"
proof -
  have "rep (new_obj (rplay_hdr.truncate (demo_rplay ilp32 0)\<lparr>r_nsounds := 0\<rparr>)) []"
    by (rule rep_new_obj) simp
  from rep_append(1) [OF rep_append(1) [OF this]] show ?thesis
    unfolding demo_obj_def well_linked_def by blast
qed

lemma demo_obj_list: "obj_list demo_obj = Some [rplay_attrs_create, rplay_attrs_create]"
  by (simp add: demo_obj_def obj_list_def set_append_def new_node_def new_obj_def Let_def
      rplay_hdr.defs rplay_obj.defs node_next_def node_attrs_def set_next_def)

lemma demo_obj_head: "o_head demo_obj = Some 0"
  by (simp add: demo_obj_def set_append_def new_node_def new_obj_def Let_def
      rplay_hdr.defs rplay_obj.defs)

lemma rplay_edits_refine_lists_witness:
  "\<exists>rp'. set_delete 0 demo_obj = Inr rp' \<and> obj_list rp' = Some [rplay_attrs_create]"
  using conjunct2 [OF conjunct2 [OF rplay_edits_refine_lists [OF demo_obj_well_linked demo_obj_list]],
      rule_format, of 0]
  by (auto simp: delete_at_def)

definition demo_env :: set_env where
  "demo_env = \<lparr>e_abi = ilp32, e_inet_addr = (\<lambda>_. 0x7f000001), e_gethostbyname = (\<lambda>_. None),
     e_inet_ntoa = (\<lambda>_. [49]), e_gethostname = None, e_random = 0\<rparr>"

lemma rplay_set_well_linked_witness:
  "well_linked (fst (rplay_set demo_env [VLong 11, VLong 1, VLong 0] demo_obj))"
  by (rule rplay_set_well_linked [OF demo_obj_well_linked]) (simp add: front_insert_def to_int_def)

lemma rplay_insert_front_cycles_witness:
  "let (rp', e) = rplay_set demo_env
       [VLong 10, VLong 0, VLong 5, VStr [97], VLong 6, VLong 200, VLong 0] demo_obj
   in e = Some (Undef EndlessList) \<and> (\<forall>n. chain n (o_nodes rp') (o_head rp') = None)"
  by (rule rplay_insert_front_cycles [OF demo_obj_well_linked])
    (simp_all add: demo_obj_head int_range_def)

definition demo_old :: "(cstring \<times> byte) list" where
  "demo_old = [([97], 200), ([98, 99], 10)]"

lemma rplay_convert_unpacks_witness:
  "\<exists>buf rp. rplay_convert (byte_of 1 # old_sounds demo_old @ 0 # []) = Inr buf
    \<and> rplay_unpack lp64 buf = Inr rp \<and> r_command rp = 1
    \<and> r_nsounds rp = int (length demo_old) \<and> r_attrs rp = map old_attrs demo_old"
  by (rule rplay_convert_unpacks)
    (simp_all add: demo_old_def old_commands_def nul_free_def new_sounds_def)

end
