(* ===== verification/Rptp.thy ===== *)
theory Rptp
  imports Prelude
begin

text \<open>
  The RPTP client library (\<open>src/librplay/rptp.c\<close>): reading and writing a stream
  socket, lines, commands, and the name=value parser \<open>rptp_parse\<close> with its static
  list and cursors.  A socket is what the code can observe of it: bytes already
  received, the arrivals to come, and the bytes it has accepted for sending.
  \<open>None\<close> is a call that blocks for ever.
\<close>

section \<open>Stream sockets\<close>

abbreviation "CR \<equiv> CHR 0x0D"
abbreviation "LF \<equiv> CHR 0x0A"
abbreviation "NUL \<equiv> CHR 0x00"
abbreviation "RPTP_MAX_LINE \<equiv> (1024 :: nat)"

text \<open>A segment has at least one byte; \<open>Fin\<close> is the orderly shutdown.\<close>

datatype net_event = Segment char string | Interrupted | Reset | Fin

datatype write_event = Accept nat | WInterrupted | WFailed

record sock =
  avail :: string
  future :: "net_event list"
  sent :: string
  wfuture :: "write_event list"

datatype io = Data string | EIntr | EFail

fun arrive :: "sock \<Rightarrow> (sock \<times> io) option" where
  "arrive s =
     (if avail s \<noteq> [] then Some (s, Data (avail s))
      else case future s of
        [] \<Rightarrow> None
      | Segment c cs # f \<Rightarrow> Some (s\<lparr>avail := c # cs, future := f\<rparr>, Data (c # cs))
      | Interrupted # f \<Rightarrow> Some (s\<lparr>future := f\<rparr>, EIntr)
      | Reset # f \<Rightarrow> Some (s\<lparr>future := f\<rparr>, EFail)
      | Fin # f \<Rightarrow> Some (s, Data []))"

text \<open>\<open>recv(fd, buf, n, MSG_PEEK)\<close> and \<open>read(fd, buf, n)\<close>; \<open>Data []\<close> is the
  result 0.\<close>

definition sock_peek :: "nat \<Rightarrow> sock \<Rightarrow> (sock \<times> io) option" where
  "sock_peek n s =
     map_option (\<lambda>(s', r). (s', case r of Data bs \<Rightarrow> Data (take n bs) | _ \<Rightarrow> r)) (arrive s)"

definition sock_read :: "nat \<Rightarrow> sock \<Rightarrow> (sock \<times> io) option" where
  "sock_read n s =
     map_option (\<lambda>(s', r). case r of
         Data bs \<Rightarrow> (s'\<lparr>avail := drop n (avail s')\<rparr>, Data (take n bs))
       | _ \<Rightarrow> (s', r)) (arrive s)"

text \<open>\<open>write(fd, ptr, n)\<close>: the number of bytes accepted.\<close>

datatype wio = Wrote nat | WEIntr | WEFail

definition sock_write :: "string \<Rightarrow> sock \<Rightarrow> (sock \<times> wio) option" where
  "sock_write p s =
     (case wfuture s of
        [] \<Rightarrow> None
      | Accept k # f \<Rightarrow> Some (s\<lparr>sent := sent s @ take k p, wfuture := f\<rparr>, Wrote (min k (length p)))
      | WInterrupted # f \<Rightarrow> Some (s\<lparr>wfuture := f\<rparr>, WEIntr)
      | WFailed # f \<Rightarrow> Some (s\<lparr>wfuture := f\<rparr>, WEFail))"

text \<open>The bytes the peer sends before it closes or resets.\<close>

fun segments :: "net_event list \<Rightarrow> string" where
  "segments (Segment c cs # f) = c # cs @ segments f"
| "segments (Interrupted # f) = segments f"
| "segments _ = []"

definition stream :: "sock \<Rightarrow> string" where
  "stream s = avail s @ segments (future s)"

lemma stream_arrive:
  "arrive s = Some (s', r) \<Longrightarrow> stream s' = stream s \<or> r = EFail"
  by (auto simp: stream_def split: if_splits list.splits net_event.splits)

lemma arrive_Data:
  "arrive s = Some (s', Data bs) \<Longrightarrow> avail s' = bs \<and> stream s' = stream s
     \<and> length (future s') \<le> length (future s)"
  by (auto simp: stream_def split: if_splits list.splits net_event.splits)

lemma arrive_EIntr:
  "arrive s = Some (s', EIntr) \<Longrightarrow> stream s' = stream s \<and> length (future s') < length (future s)
     \<and> avail s' = []"
  by (auto simp: stream_def split: if_splits list.splits net_event.splits)

lemma arrive_stream:
  "stream s \<noteq> [] \<Longrightarrow> (\<exists>s' c cs. arrive s = Some (s', Data (c # cs)) \<and> stream s' = stream s
       \<and> avail s' = c # cs) \<or> (\<exists>s'. arrive s = Some (s', EIntr) \<and> stream s' = stream s)"
  by (cases "avail s"; cases "future s" rule: segments.cases) (auto simp: stream_def)

declare arrive.simps [simp del]

lemma arrive_cases:
  obtains "arrive s = None" | s' bs where "arrive s = Some (s', Data bs)"
  | s' where "arrive s = Some (s', EIntr)" | s' where "arrive s = Some (s', EFail)"
  by (metis io.exhaust option.exhaust surj_pair)

section \<open>rptp_read and rptp_write\<close>

datatype rptp_error =
    RPTP_ERROR_NONE | RPTP_ERROR_MEMORY | RPTP_ERROR_HOST | RPTP_ERROR_CONNECT
  | RPTP_ERROR_SOCKET | RPTP_ERROR_OPEN | RPTP_ERROR_READ | RPTP_ERROR_WRITE
  | RPTP_ERROR_PING | RPTP_ERROR_TIMEOUT | RPTP_ERROR_PROTOCOL | LineOverflow

text \<open>The result of a library call: the socket, \<open>Some\<close> error when it returns -1,
  and the bytes read.\<close>

type_synonym read_result = "(sock \<times> rptp_error option \<times> string) option"

function rptp_read :: "nat \<Rightarrow> sock \<Rightarrow> string \<Rightarrow> read_result" where
  "rptp_read nleft s got =
     (if nleft = 0 then Some (s, None, got)
      else case sock_read nleft s of
        None \<Rightarrow> None
      | Some (s', EIntr) \<Rightarrow> rptp_read nleft s' got
      | Some (s', EFail) \<Rightarrow> Some (s', Some RPTP_ERROR_READ, got)
      | Some (s', Data bs) \<Rightarrow>
          if bs = [] then Some (s', None, got)
          else rptp_read (nleft - length bs) s' (got @ bs))"
  by auto

lemma sock_read_EIntr:
  "sock_read n s = Some (s', EIntr) \<Longrightarrow> stream s' = stream s \<and> length (future s') < length (future s)"
  by (rule arrive_cases [of s]) (auto simp: sock_read_def dest: arrive_EIntr)

lemma sock_read_Data:
  "sock_read n s = Some (s', Data bs) \<Longrightarrow> stream s = bs @ stream s'
     \<and> length (future s') \<le> length (future s) \<and> length bs \<le> n"
proof -
  assume "sock_read n s = Some (s', Data bs)"
  then obtain s1 xs where a: "arrive s = Some (s1, Data xs)" "bs = take n xs"
    "s' = s1\<lparr>avail := drop n (avail s1)\<rparr>"
    by (cases rule: arrive_cases [of s]) (auto simp: sock_read_def)
  with arrive_Data [OF a(1)] show ?thesis
    by (auto simp: stream_def) (metis append.assoc append_take_drop_id)
qed

lemma sock_read_decreases:
  assumes "sock_read n s = Some (s', Data bs)" "bs \<noteq> []"
  shows "n - length bs + length (future s') < n + length (future s)"
  using sock_read_Data [OF assms(1)] assms(2) by (cases bs) auto

termination rptp_read
  by (relation "measure (\<lambda>(nleft, s, _). nleft + length (future s))")
    (auto dest: sock_read_EIntr intro: sock_read_decreases)

declare rptp_read.simps [simp del]

function rptp_write :: "string \<Rightarrow> sock \<Rightarrow> (sock \<times> rptp_error option) option" where
  "rptp_write p s =
     (if p = [] then Some (s, None)
      else case sock_write p s of
        None \<Rightarrow> None
      | Some (s', WEIntr) \<Rightarrow> rptp_write p s'
      | Some (s', WEFail) \<Rightarrow> Some (s', Some RPTP_ERROR_WRITE)
      | Some (s', Wrote n) \<Rightarrow>
          if n = 0 then Some (s', Some RPTP_ERROR_WRITE) else rptp_write (drop n p) s')"
  by auto
termination
  by (relation "measure (\<lambda>(p, s). length (wfuture s))")
    (auto simp: sock_write_def split: list.splits write_event.splits)

declare rptp_write.simps [simp del]

section \<open>Lines\<close>

text \<open>\<open>rptp_putline\<close>: \<open>text\<close> is the result of \<open>vsprintf\<close> into the line buffer.\<close>

definition rptp_putline :: "string \<Rightarrow> sock \<Rightarrow> (sock \<times> rptp_error option) option" where
  "rptp_putline txt s =
     (if length txt + 3 > RPTP_MAX_LINE then Some (s, Some LineOverflow)
      else rptp_write (txt @ [CR, LF]) s)"

text \<open>The scan of the peeked bytes: carriage returns and the line feed become NUL.
  The result is the rewritten block and the index of the line feed, if any.\<close>

definition cr_to_nul :: "char \<Rightarrow> char" where
  "cr_to_nul c = (if c = CR then NUL else c)"

fun scan_block :: "string \<Rightarrow> string \<times> nat option" where
  "scan_block [] = ([], None)"
| "scan_block (c # cs) =
     (if c = CR then (case scan_block cs of (ys, i) \<Rightarrow> (NUL # ys, map_option Suc i))
      else if c = LF then (NUL # cs, Some 0)
      else (case scan_block cs of (ys, i) \<Rightarrow> (c # ys, map_option Suc i)))"

text \<open>The inner \<open>again:\<close> loop that consumes the bytes of the line.\<close>

function read_again :: "nat \<Rightarrow> sock \<Rightarrow> (sock \<times> rptp_error option) option" where
  "read_again n s =
     (case sock_read n s of
        None \<Rightarrow> None
      | Some (s', EIntr) \<Rightarrow> read_again n s'
      | Some (s', EFail) \<Rightarrow> Some (s', Some RPTP_ERROR_READ)
      | Some (s', Data bs) \<Rightarrow>
          if bs = [] then Some (s', Some RPTP_ERROR_READ) else Some (s', None))"
  by auto
termination
  by (relation "measure (\<lambda>(n, s). length (future s))") (auto dest: sock_read_EIntr)

declare read_again.simps [simp del]

lemma sock_peek_EIntr:
  "sock_peek n s = Some (s', EIntr) \<Longrightarrow> stream s' = stream s \<and> length (future s') < length (future s)"
  by (rule arrive_cases [of s]) (auto simp: sock_peek_def dest: arrive_EIntr)

lemma sock_peek_future:
  "sock_peek n s = Some (s', Data bs) \<Longrightarrow> length (future s') \<le> length (future s) \<and> length bs \<le> n"
  by (rule arrive_cases [of s]) (auto simp: sock_peek_def dest: arrive_Data)

lemma read_again_future:
  "read_again n s = Some (s', None) \<Longrightarrow> length (future s') \<le> length (future s)"
proof (induction n s rule: read_again.induct)
  case (1 n s)
  then show ?case
    by (subst (asm) read_again.simps)
      (fastforce split: option.splits prod.splits io.splits if_splits
        dest: sock_read_EIntr sock_read_Data)
qed

lemma getline_decreases:
  assumes "sock_peek n s = Some (s1, Data bs)" "bs \<noteq> []" "read_again k s1 = Some (s2, None)"
  shows "n - length bs + length (future s2) < n + length (future s)"
  using sock_peek_future [OF assms(1)] read_again_future [OF assms(3)] assms(2)
  by (cases bs) auto

text \<open>What was peeked at is read into \<open>tmp_buf\<close>, of \<open>RPTP_MAX_LINE\<close> bytes; more bytes go past its
  end (\<open>LineOverflow\<close>, nothing is said about what follows).\<close>

function rptp_getline :: "nat \<Rightarrow> sock \<Rightarrow> string \<Rightarrow> read_result" where
  "rptp_getline nleft s buf =
     (if nleft = 0 then Some (s, Some RPTP_ERROR_READ, buf)
      else case sock_peek nleft s of
        None \<Rightarrow> None
      | Some (s1, EIntr) \<Rightarrow> rptp_getline nleft s1 buf
      | Some (s1, EFail) \<Rightarrow> Some (s1, Some RPTP_ERROR_READ, buf)
      | Some (s1, Data bs) \<Rightarrow>
          if bs = [] then Some (s1, Some RPTP_ERROR_READ, buf)
          else
            (case scan_block bs of (ys, i) \<Rightarrow>
               if (case i of None \<Rightarrow> length bs | Some k \<Rightarrow> Suc k) > RPTP_MAX_LINE
               then Some (s1, Some LineOverflow, buf @ ys)
               else
               (case read_again (case i of None \<Rightarrow> length bs | Some k \<Rightarrow> Suc k) s1 of
                  None \<Rightarrow> None
                | Some (s2, Some e) \<Rightarrow> Some (s2, Some e, buf @ ys)
                | Some (s2, None) \<Rightarrow>
                    (case i of
                       Some k \<Rightarrow> Some (s2, None, buf @ ys)
                     | None \<Rightarrow> rptp_getline (nleft - length bs) s2 (buf @ ys)))))"
  by auto
termination
  by (relation "measure (\<lambda>(nleft, s, _). nleft + length (future s))")
    (auto dest: sock_peek_EIntr intro: getline_decreases)

declare rptp_getline.simps [simp del]


lemma scan_block_line:
  "LF \<notin> set u \<Longrightarrow> scan_block (u @ LF # zs) = (map cr_to_nul u @ NUL # zs, Some (length u))"
  by (induction u) (auto simp: cr_to_nul_def)

lemma scan_block_none: "LF \<notin> set u \<Longrightarrow> scan_block u = (map cr_to_nul u, None)"
  by (induction u) (auto simp: cr_to_nul_def)

lemma arrive_avail: "avail s \<noteq> [] \<Longrightarrow> arrive s = Some (s, Data (avail s))"
  by (simp add: arrive.simps)

lemma sock_read_avail:
  "avail s \<noteq> [] \<Longrightarrow> sock_read n s = Some (s\<lparr>avail := drop n (avail s)\<rparr>, Data (take n (avail s)))"
  by (simp add: sock_read_def arrive_avail)

lemma read_again_avail:
  assumes "avail s \<noteq> []" "0 < n" "n \<le> length (avail s)"
  shows "read_again n s = Some (s\<lparr>avail := drop n (avail s)\<rparr>, None)"
    "stream (s\<lparr>avail := drop n (avail s)\<rparr>) = drop n (stream s)"
proof -
  show "read_again n s = Some (s\<lparr>avail := drop n (avail s)\<rparr>, None)"
    using assms by (subst read_again.simps) (simp add: sock_read_avail)
  show "stream (s\<lparr>avail := drop n (avail s)\<rparr>) = drop n (stream s)"
    using assms by (simp add: stream_def)
qed

lemma rptp_getline_stream:
  assumes "stream s = u @ LF # rest" "LF \<notin> set u" "length u < nleft" "length u < RPTP_MAX_LINE"
  shows "\<exists>s' extra. rptp_getline nleft s buf = Some (s', None, buf @ map cr_to_nul u @ NUL # extra)
    \<and> stream s' = rest"
  using assms
proof (induction nleft s buf arbitrary: u rule: rptp_getline.induct)
  case (1 nleft s buf)
  have n0: "nleft \<noteq> 0" using 1(5) by simp
  have "stream s \<noteq> []" using 1(3) by simp
  then consider (data) s1 c cs where "arrive s = Some (s1, Data (c # cs))" "stream s1 = stream s" "avail s1 = c # cs"
    | (intr) s1 where "arrive s = Some (s1, EIntr)" "stream s1 = stream s"
    using arrive_stream by blast
  then show ?case
  proof cases
    case intr
    then have p: "sock_peek nleft s = Some (s1, EIntr)" by (simp add: sock_peek_def)
    have "\<exists>s' extra. rptp_getline nleft s1 buf = Some (s', None, buf @ map cr_to_nul u @ NUL # extra)
        \<and> stream s' = rest"
      using 1(2) [OF n0 p refl refl] 1(3-6) intr by simp
    then show ?thesis using p n0 by (subst rptp_getline.simps) simp
  next
    case data
    let ?bs = "take nleft (c # cs)"
    have p: "sock_peek nleft s = Some (s1, Data ?bs)" using data by (simp add: sock_peek_def)
    have ne: "?bs \<noteq> []" using n0 by simp
    have st: "?bs @ (drop nleft (c # cs) @ segments (future s1)) = u @ LF # rest"
    proof -
      have "(c # cs) @ segments (future s1) = u @ LF # rest"
        using data 1(3) by (simp add: stream_def)
      then show ?thesis by (metis append.assoc append_take_drop_id)
    qed
    show ?thesis
    proof (cases "LF \<in> set ?bs")
      case True
      then obtain zs where zs: "?bs = u @ LF # zs"
        using split_at_first(1) [OF st 1(4)] by blast
      have sc: "scan_block ?bs = (map cr_to_nul u @ NUL # zs, Some (length u))"
        unfolding zs by (rule scan_block_line [OF 1(4)])
      have "Suc (length u) \<le> length (avail s1)"
        using data arg_cong [OF zs, of length] by simp
      then have r: "read_again (Suc (length u)) s1 = Some (s1\<lparr>avail := drop (Suc (length u)) (avail s1)\<rparr>, None)"
        "stream (s1\<lparr>avail := drop (Suc (length u)) (avail s1)\<rparr>) = rest"
        using read_again_avail [of s1 "Suc (length u)"] data 1(3) by auto
      show ?thesis
        using p ne sc r n0 1(6) by (subst rptp_getline.simps) simp
    next
      case False
      then obtain v where v: "u = ?bs @ v" "v @ LF # rest = drop nleft (c # cs) @ segments (future s1)"
        using split_at_first(2) [OF st 1(4)] by metis
      have sc: "scan_block ?bs = (map cr_to_nul ?bs, None)"
        using scan_block_none False by blast
      have lb: "length ?bs \<le> length (avail s1)" "0 < length ?bs" using data ne by auto
      let ?s2 = "s1\<lparr>avail := drop (length ?bs) (avail s1)\<rparr>"
      have r: "read_again (length ?bs) s1 = Some (?s2, None)" "stream ?s2 = drop (length ?bs) (stream s1)"
        using read_again_avail [of s1 "length ?bs"] data lb by auto
      have s2: "stream ?s2 = v @ LF # rest"
        using r(2) data(2) 1(3) v(1) by (metis append.assoc append_eq_conv_conj)
      have "LF \<notin> set v" "length v < nleft - length ?bs"
        using 1(4,5) v(1) by (metis Un_iff set_append, metis add_diff_cancel_left' diff_less_mono length_append le_add1)
      moreover have "length u = length ?bs + length v"
        using arg_cong [OF v(1), of length] by (simp only: length_append)
      then have k: "\<not> RPTP_MAX_LINE < length ?bs" "length v < RPTP_MAX_LINE" using 1(6) by linarith+
      ultimately have "\<exists>s' extra. rptp_getline (nleft - length ?bs) ?s2 (buf @ map cr_to_nul ?bs)
          = Some (s', None, (buf @ map cr_to_nul ?bs) @ map cr_to_nul v @ NUL # extra) \<and> stream s' = rest"
        using 1(1) [OF n0 p refl refl ne sc [symmetric], of _ ?s2 None v] r(1) s2 by simp
      moreover have "rptp_getline nleft s buf
          = rptp_getline (nleft - length ?bs) ?s2 (buf @ map cr_to_nul ?bs)"
        using p ne sc r(1) n0 k(1) by (subst rptp_getline.simps) auto
      ultimately show ?thesis using v(1) by (metis append.assoc map_append)
    qed
  qed
qed

text \<open>The array of a command-line client (\<open>rptp/rptp.c\<close>) has 4096 bytes: a longer line that has
  arrived in one piece overruns \<open>tmp_buf\<close>.\<close>

lemma long_line_overruns:
  assumes "avail s = replicate n CHR ''a''" "RPTP_MAX_LINE < n" "n \<le> 4096"
  shows "\<exists>s' buf. rptp_getline 4096 s [] = Some (s', Some LineOverflow, buf)"
proof -
  have p: "sock_peek 4096 s = Some (s, Data (replicate n CHR ''a''))"
    using assms by (simp add: sock_peek_def arrive_avail)
  have "scan_block (replicate n CHR ''a'') = (map cr_to_nul (replicate n CHR ''a''), None)"
    by (rule scan_block_none) auto
  then show ?thesis using p assms(2) by (subst rptp_getline.simps) simp
qed

definition c_string :: "string \<Rightarrow> string" where
  "c_string buf = takeWhile (\<lambda>c. c \<noteq> NUL) buf"

text \<open>C18.  \<open>rptp_getline\<close> reads exactly one line, however the peer's bytes are cut into
  segments and however often the calls are interrupted, if the line with CR LF fits both the
  caller's buffer and the \<open>RPTP_MAX_LINE\<close> bytes of its own: the buffer is the line
  without CR LF, the socket is left at the byte after it.\<close>

theorem rptp_getline_reads_line:
  assumes "stream s = line @ [CR, LF] @ rest" "CR \<notin> set line" "LF \<notin> set line" "NUL \<notin> set line"
    "length line + 2 \<le> nbytes" "length line + 2 \<le> RPTP_MAX_LINE"
  shows "\<exists>s' buf. rptp_getline nbytes s [] = Some (s', None, buf)
    \<and> c_string buf = line \<and> stream s' = rest"
proof -
  have "\<exists>s' extra. rptp_getline nbytes s []
      = Some (s', None, [] @ map cr_to_nul (line @ [CR]) @ NUL # extra) \<and> stream s' = rest"
    by (rule rptp_getline_stream) (use assms in auto)
  moreover have "map cr_to_nul line = line"
    using assms(2) by (intro map_idI) (auto simp: cr_to_nul_def)
  moreover have "c_string (line @ NUL # extra) = line" for extra
    using assms(4) by (subst c_string_def, subst takeWhile_append2) auto
  ultimately show ?thesis by (auto simp: cr_to_nul_def)
qed


lemma sock_write_Wrote:
  "sock_write p s = Some (s', Wrote n) \<Longrightarrow> sent s' = sent s @ take n p \<and> n \<le> length p"
  by (auto simp: sock_write_def min_def split: list.splits write_event.splits)

lemma sock_write_other:
  "sock_write p s = Some (s', WEIntr) \<Longrightarrow> sent s' = sent s"
  "sock_write p s = Some (s', WEFail) \<Longrightarrow> sent s' = sent s"
  by (auto simp: sock_write_def split: list.splits write_event.splits)

lemma rptp_write_sent:
  "rptp_write p s = Some (s', r) \<Longrightarrow>
     (r = None \<and> sent s' = sent s @ p)
     \<or> (r = Some RPTP_ERROR_WRITE \<and> (\<exists>k < length p. sent s' = sent s @ take k p))"
proof (induction p s rule: rptp_write.induct)
  case (1 p s)
  show ?case
  proof (cases "p = []")
    case False
    then obtain s1 w where w: "sock_write p s = Some (s1, w)"
      using 1(3) by (subst (asm) rptp_write.simps) (auto split: option.splits)
    show ?thesis
    proof (cases w)
      case (Wrote n)
      show ?thesis
      proof (cases "n = 0")
        case True
        then show ?thesis
          using 1(3) False w Wrote sock_write_Wrote [of p s s1 0]
          by (subst (asm) rptp_write.simps) (auto intro: exI [of _ 0])
      next
        case n: False
        have "rptp_write (drop n p) s1 = Some (s', r)"
          using 1(3) False w Wrote n by (subst (asm) rptp_write.simps) simp
        then have "(r = None \<and> sent s' = sent s1 @ drop n p)
          \<or> (r = Some RPTP_ERROR_WRITE \<and> (\<exists>k < length (drop n p). sent s' = sent s1 @ take k (drop n p)))"
          using 1(1) [OF False w refl Wrote n] by blast
        moreover have "take n p @ take k (drop n p) = take (n + k) p" for k
          by (simp add: take_add)
        ultimately show ?thesis
          using sock_write_Wrote [of p s s1 n] w Wrote
          by (auto simp: less_diff_conv intro!: exI [of _ "n + _"])
      qed
    next
      case WEIntr
      have "rptp_write p s1 = Some (s', r)"
        using 1(3) False w WEIntr by (subst (asm) rptp_write.simps) simp
      then show ?thesis
        using 1(2) [OF False w refl WEIntr] sock_write_other(1) w WEIntr by metis
    next
      case WEFail
      then show ?thesis
        using 1(3) False w sock_write_other(2) [of p s s1]
        by (subst (asm) rptp_write.simps) (auto intro: exI [of _ 0])
    qed
  qed (use 1(3) in \<open>auto simp: rptp_write.simps\<close>)
qed

section \<open>Commands\<close>

text \<open>\<open>rptp_command\<close> passes the command to \<open>rptp_putline\<close> as a format;
  \<open>printf0\<close> is \<open>vsprintf\<close> with no arguments.\<close>

datatype command_result = Response int string | CommandError rptp_error

definition classify_response :: "string \<Rightarrow> command_result" where
  "classify_response response =
     (case c_string response of
        c # _ \<Rightarrow>
          if c = CHR ''!'' then CommandError RPTP_ERROR_TIMEOUT
          else if c = CHR ''-'' then Response 1 (c_string response)
          else if c = CHR ''+'' \<or> c = CHR ''@'' then Response 0 (c_string response)
          else CommandError RPTP_ERROR_PROTOCOL
      | [] \<Rightarrow> CommandError RPTP_ERROR_PROTOCOL)"

definition rptp_command ::
  "(string \<Rightarrow> string) \<Rightarrow> string \<Rightarrow> nat \<Rightarrow> sock \<Rightarrow> (sock \<times> command_result) option" where
  "rptp_command printf0 command response_size s =
     (case rptp_putline (printf0 command) s of
        None \<Rightarrow> None
      | Some (s1, Some e) \<Rightarrow> Some (s1, CommandError e)
      | Some (s1, None) \<Rightarrow>
          (case rptp_getline response_size s1 [] of
             None \<Rightarrow> None
           | Some (s2, Some e, buf) \<Rightarrow> Some (s2, CommandError e)
           | Some (s2, None, buf) \<Rightarrow> Some (s2, classify_response buf)))"

lemma sock_write_stream:
  "sock_write p s = Some (s', w) \<Longrightarrow> stream s' = stream s"
  by (auto simp: sock_write_def stream_def split: list.splits write_event.splits)

lemma rptp_write_stream: "rptp_write p s = Some (s', r) \<Longrightarrow> stream s' = stream s"
proof (induction p s rule: rptp_write.induct)
  case (1 p s)
  then show ?case
    by (subst (asm) rptp_write.simps)
      (fastforce split: if_splits option.splits prod.splits wio.splits dest: sock_write_stream)
qed

text \<open>One command of the client: when the command goes out and a reply line
  follows, the peer has received the command and CR LF, the socket is left after the
  reply line, and the result is decided by the reply's first character.\<close>

theorem rptp_command_exchange:
  assumes "\<forall>c. CHR ''%'' \<notin> set c \<longrightarrow> printf0 c = c" "CHR ''%'' \<notin> set command"
    "rptp_putline command s = Some (s1, None)"
    "stream s = reply @ [CR, LF] @ rest" "set reply \<inter> {CR, LF, NUL} = {}"
    "length reply + 2 \<le> n" "length reply + 2 \<le> RPTP_MAX_LINE"
  shows "\<exists>s' buf. rptp_command printf0 command n s = Some (s', classify_response buf)
    \<and> c_string buf = reply \<and> stream s' = rest \<and> sent s1 = sent s @ command @ [CR, LF]"
proof -
  have f: "printf0 command = command" using assms(1,2) by blast
  have w: "rptp_write (command @ [CR, LF]) s = Some (s1, None)"
    using assms(3) by (auto simp: rptp_putline_def split: if_splits)
  have st: "stream s1 = reply @ [CR] @ LF # rest"
    using rptp_write_stream [OF w] assms(4) by simp
  obtain s' extra where g: "rptp_getline n s1 [] = Some (s', None, map cr_to_nul (reply @ [CR]) @ NUL # extra)"
    "stream s' = rest"
    using rptp_getline_stream [of s1 "reply @ [CR]" rest n "[]"] st assms(5-7) by auto
  have "map cr_to_nul reply = reply"
    using assms(5) by (intro map_idI) (auto simp: cr_to_nul_def)
  then have "c_string (map cr_to_nul (reply @ [CR]) @ NUL # extra) = reply"
    using assms(5) by (simp add: cr_to_nul_def c_string_def) (subst takeWhile_append2, auto)
  then show ?thesis
    using f assms(3) g rptp_write_sent [OF w] by (auto simp: rptp_command_def)
qed


section \<open>rptp_parse\<close>

definition is_space :: "char \<Rightarrow> bool" where
  "is_space c \<longleftrightarrow> c \<in> {CHR '' '', CHR 0x09, LF, CHR 0x0B, CHR 0x0C, CR}"

definition value_end :: "char \<Rightarrow> bool" where
  "value_end c \<longleftrightarrow> c \<in> {CHR '' '', CHR 0x09, CR, LF}"

definition name_end :: "char \<Rightarrow> bool" where
  "name_end c \<longleftrightarrow> c = CHR ''='' \<or> value_end c"

text \<open>The value after \<open>=\<close> and what follows its terminator (nothing when there is
  none: the code's \<open>p\<close> is then NULL).\<close>

definition parse_value :: "string \<Rightarrow> string \<times> string" where
  "parse_value p =
     (case p of
        CHR 0x22 # q \<Rightarrow> (takeWhile (\<lambda>c. c \<noteq> CHR 0x22) q, tl (dropWhile (\<lambda>c. c \<noteq> CHR 0x22) q))
      | _ \<Rightarrow> (takeWhile (\<lambda>c. \<not> value_end c) p, tl (dropWhile (\<lambda>c. \<not> value_end c) p)))"

lemma length_dropWhile: "length (dropWhile P xs) \<le> length xs"
  by (induction xs) auto

lemma parse_value_length: "length (snd (parse_value p)) \<le> length p"
proof -
  have d: "length (tl (dropWhile P xs)) \<le> length xs" for P and xs :: string
    using length_dropWhile [of P xs] by simp
  have "length (tl (dropWhile P xs)) \<le> Suc (length xs)" for P and xs :: string
    using d [of P xs] by simp
  then show ?thesis using d by (auto simp: parse_value_def split: list.splits char.splits bool.splits)
qed

function parse_pairs :: "string \<Rightarrow> (string \<times> string) list" where
  "parse_pairs [] = []"
| "parse_pairs (c # cs) =
     (if is_space c then parse_pairs cs
      else
        (case dropWhile (\<lambda>c. \<not> name_end c) (c # cs) of
           [] \<Rightarrow> [(takeWhile (\<lambda>c. \<not> name_end c) (c # cs), [])]
         | d # p \<Rightarrow>
             if d = CHR ''=''
             then (takeWhile (\<lambda>c. \<not> name_end c) (c # cs), fst (parse_value p))
                  # parse_pairs (snd (parse_value p))
             else (takeWhile (\<lambda>c. \<not> name_end c) (c # cs), []) # parse_pairs p))"
  by pat_completeness auto

lemma dropWhile_Cons_length:
  "dropWhile P (c # cs) = d # p \<Longrightarrow> length p < Suc (length cs)"
  using length_dropWhile [of P "c # cs"] by simp

lemma parse_value_shorter:
  "dropWhile P (c # cs) = d # p \<Longrightarrow> length (snd (parse_value p)) < Suc (length cs)"
  using dropWhile_Cons_length [of P c cs d p] parse_value_length [of p] by simp

termination parse_pairs
  by (relation "measure length")
    (auto simp del: dropWhile.simps intro: dropWhile_Cons_length parse_value_shorter)

text \<open>The static variables: \<open>list\<close>, \<open>list_pos\<close> and \<open>cache_pos\<close>.\<close>

record parse_state =
  ps_list :: "(string \<times> string) list"
  ps_pos :: "nat option"
  ps_cache :: "nat option"

definition pos_in :: "(string \<times> string) list \<Rightarrow> nat \<Rightarrow> nat option" where
  "pos_in l i = (if i < length l then Some i else None)"

definition skip_reply_char :: "string \<Rightarrow> string" where
  "skip_reply_char p =
     (case p of c # q \<Rightarrow> if c \<in> set ''-+@'' then q else p | [] \<Rightarrow> [])"

definition skip_dashes :: "string \<Rightarrow> string" where
  "skip_dashes s = dropWhile (\<lambda>c. c = CHR ''-'') s"

fun find_name :: "string \<Rightarrow> (string \<times> string) list \<Rightarrow> string option" where
  "find_name name [] = None"
| "find_name name ((n, v) # l) = (if skip_dashes n = name then Some v else find_name name l)"

definition rptp_parse ::
  "string option \<Rightarrow> string option \<Rightarrow> parse_state \<Rightarrow> parse_state \<times> string option" where
  "rptp_parse response name st =
     (if response = None \<and> name = None \<and> ps_pos st = None then (st, None)
      else
        (let st1 = (case response of
               Some r \<Rightarrow> (let l = parse_pairs (skip_reply_char r)
                         in st\<lparr>ps_list := l, ps_pos := pos_in l 0, ps_cache := None\<rparr>)
             | None \<Rightarrow> st)
         in case name of
              Some nm \<Rightarrow>
                (let nm' = skip_dashes nm
                 in case ps_cache st1 of
                      Some i \<Rightarrow>
                        if skip_dashes (fst (ps_list st1 ! i)) = nm'
                        then (st1, Some (snd (ps_list st1 ! i)))
                        else (st1, find_name nm' (ps_list st1))
                    | None \<Rightarrow> (st1, find_name nm' (ps_list st1)))
            | None \<Rightarrow>
                (case ps_pos st1 of
                   Some i \<Rightarrow> (st1\<lparr>ps_cache := Some i, ps_pos := pos_in (ps_list st1) (Suc i)\<rparr>,
                             Some (fst (ps_list st1 ! i)))
                 | None \<Rightarrow> (st1, None))))"

text \<open>The lines the server sends: each pair as \<open>name="value"\<close> and a blank.\<close>

definition print_pairs :: "(string \<times> string) list \<Rightarrow> string" where
  "print_pairs xs = concat (map (\<lambda>(n, v). n @ [CHR ''='', CHR 0x22] @ v @ [CHR 0x22, CHR '' '']) xs)"

definition printable_pair :: "string \<times> string \<Rightarrow> bool" where
  "printable_pair x \<longleftrightarrow> fst x \<noteq> [] \<and> (\<forall>c \<in> set (fst x). \<not> name_end c \<and> \<not> is_space c)
     \<and> CHR 0x22 \<notin> set (snd x)"

lemma parse_print_pairs:
  "\<forall>x \<in> set xs. printable_pair x \<Longrightarrow> parse_pairs (print_pairs xs) = xs"
proof (induction xs)
  case Nil
  then show ?case by (simp add: print_pairs_def)
next
  case (Cons x xs)
  obtain c n v where x: "x = (c # n, v)" "\<not> is_space c" "\<forall>d \<in> set (c # n). \<not> name_end d"
    "CHR 0x22 \<notin> set v"
    using Cons.prems by (cases x; cases "fst x") (auto simp: printable_pair_def)
  have e: "name_end (CHR ''='')" by (simp add: name_end_def)
  have n: "takeWhile (\<lambda>c. \<not> name_end c) ((c # n) @ CHR ''='' # zs) = c # n"
    "dropWhile (\<lambda>c. \<not> name_end c) ((c # n) @ CHR ''='' # zs) = CHR ''='' # zs" for zs
  proof -
    show "takeWhile (\<lambda>c. \<not> name_end c) ((c # n) @ CHR ''='' # zs) = c # n"
      using x(3) e by (subst takeWhile_append2) auto
    show "dropWhile (\<lambda>c. \<not> name_end c) ((c # n) @ CHR ''='' # zs) = CHR ''='' # zs"
      using x(3) e by (subst dropWhile_append2) auto
  qed
  have q: "parse_value (CHR 0x22 # v @ CHR 0x22 # zs) = (v, zs)" for zs
  proof -
    have "takeWhile (\<lambda>c. c \<noteq> CHR 0x22) (v @ CHR 0x22 # zs) = v"
      using x(4) by (subst takeWhile_append2) auto
    moreover have "dropWhile (\<lambda>c. c \<noteq> CHR 0x22) (v @ CHR 0x22 # zs) = CHR 0x22 # zs"
      using x(4) by (subst dropWhile_append2) auto
    ultimately show ?thesis by (simp add: parse_value_def)
  qed
  have sp: "is_space (CHR '' '')" by (simp add: is_space_def)
  have "print_pairs (x # xs)
      = c # (n @ CHR ''='' # CHR 0x22 # v @ CHR 0x22 # CHR '' '' # print_pairs xs)"
    using x(1) by (simp add: print_pairs_def)
  then show ?case
    using Cons x(1,2) n [of "CHR 0x22 # v @ CHR 0x22 # CHR '' '' # print_pairs xs"]
      q [of "CHR '' '' # print_pairs xs"] sp
    by (simp del: dropWhile.simps takeWhile.simps)
qed


lemma find_name_map_of:
  "find_name nm l = map_of (map (\<lambda>(n, v). (skip_dashes n, v)) l) nm"
  by (induction l) auto

text \<open>C13.  Parsing inverts the server's format: a reply made of \<open>name="value"\<close> pairs
  is loaded as exactly those pairs, the cursor is put on the first, and the value of
  a name is that of the first pair with the name, leading dashes ignored.\<close>

theorem rptp_parse_loads_reply:
  assumes "\<forall>x \<in> set xs. printable_pair x" "c \<in> set ''-+@''"
  shows "rptp_parse (Some (c # print_pairs xs)) (Some nm) st
    = (\<lparr>ps_list = xs, ps_pos = pos_in xs 0, ps_cache = None\<rparr>,
       map_of (map (\<lambda>(n, v). (skip_dashes n, v)) xs) (skip_dashes nm))"
  using parse_print_pairs [OF assms(1)] assms(2)
  by (cases st) (auto simp: rptp_parse_def skip_reply_char_def find_name_map_of Let_def)

text \<open>The cursor: \<open>n\<close> calls \<open>rptp_parse(NULL, NULL)\<close> after the list is loaded.\<close>

fun next_names :: "nat \<Rightarrow> parse_state \<Rightarrow> parse_state \<times> string option list" where
  "next_names 0 st = (st, [])"
| "next_names (Suc n) st =
     (case rptp_parse None None st of
        (st1, r) \<Rightarrow> (case next_names n st1 of (st2, rs) \<Rightarrow> (st2, r # rs)))"

lemma next_names_from:
  assumes "i < length l" "i + n \<le> length l"
  shows "next_names n \<lparr>ps_list = l, ps_pos = Some i, ps_cache = k\<rparr>
    = (\<lparr>ps_list = l, ps_pos = pos_in l (i + n),
        ps_cache = (if n = 0 then k else Some (i + n - 1))\<rparr>,
       map (\<lambda>j. Some (fst (l ! j))) [i..<i + n])"
  using assms
proof (induction n arbitrary: i k)
  case 0
  then show ?case by (simp add: pos_in_def)
next
  case (Suc n)
  show ?case
  proof (cases n)
    case 0
    then show ?thesis using Suc.prems by (simp add: rptp_parse_def)
  next
    case (Suc m)
    then have "Suc i < length l" using Suc.prems by simp
    then show ?thesis
      using Suc.IH [of "Suc i" "Some i"] Suc.prems Suc
      by (simp add: rptp_parse_def pos_in_def upt_conv_Cons del: upt_Suc)
  qed
qed

text \<open>Cycling through a loaded reply returns its names in order, then NULL; and
  after the \<open>k\<close>-th name, asking for that name returns the \<open>k\<close>-th value, also when an
  earlier pair has the same name.\<close>

theorem rptp_parse_cycles:
  assumes "ps_list st = xs" "ps_pos st = pos_in xs 0" "xs \<noteq> []"
  shows "snd (next_names (length xs) st) = map (\<lambda>x. Some (fst x)) xs
    \<and> snd (rptp_parse None None (fst (next_names (length xs) st))) = None
    \<and> (\<forall>k < length xs. snd (rptp_parse None (Some (fst (xs ! k))) (fst (next_names (Suc k) st)))
          = Some (snd (xs ! k)))"
proof -
  have st: "st = \<lparr>ps_list = xs, ps_pos = Some 0, ps_cache = ps_cache st\<rparr>"
    using assms by (cases st) (simp add: pos_in_def)
  have n: "next_names n st = (\<lparr>ps_list = xs, ps_pos = pos_in xs n,
      ps_cache = (if n = 0 then ps_cache st else Some (n - 1))\<rparr>,
      map (\<lambda>j. Some (fst (xs ! j))) [0..<n])" if "n \<le> length xs" for n
    using next_names_from [of 0 xs n "ps_cache st"] assms(3) that st [symmetric] by simp
  have names: "map (\<lambda>j. Some (fst (xs ! j))) [0..<length xs] = map (\<lambda>x. Some (fst x)) xs"
    by (rule nth_equalityI) auto
  have "snd (rptp_parse None (Some (fst (xs ! k))) (fst (next_names (Suc k) st))) = Some (snd (xs ! k))"
    if "k < length xs" for k
    using n [of "Suc k"] that by (simp add: rptp_parse_def del: next_names.simps)
  moreover have "snd (rptp_parse None None (fst (next_names (length xs) st))) = None"
    using n [of "length xs"] by (simp add: rptp_parse_def pos_in_def)
  ultimately show ?thesis
    using n [of "length xs"] names by (simp del: next_names.simps)
qed

definition demo_sock :: sock where
  "demo_sock = \<lparr>avail = ''+o'', future = [Interrupted, Segment (CHR ''k'') [CR], Segment LF ''@next''],
     sent = [], wfuture = [Accept 3, WInterrupted, Accept 100]\<rparr>"

lemma rptp_getline_reads_line_witness:
  "\<exists>s' buf. rptp_getline 64 demo_sock [] = Some (s', None, buf)
    \<and> c_string buf = ''+ok'' \<and> stream s' = ''@next''"
  by (rule rptp_getline_reads_line) (simp_all add: demo_sock_def stream_def)

lemma rptp_command_exchange_witness:
  "\<exists>s' buf. rptp_command (\<lambda>c. c) ''quit'' 64 demo_sock = Some (s', classify_response buf)
    \<and> c_string buf = ''+ok'' \<and> stream s' = ''@next''
    \<and> sent (fst (the (rptp_putline ''quit'' demo_sock))) = sent demo_sock @ ''quit'' @ [CR, LF]"
  by (rule rptp_command_exchange)
    (simp_all add: demo_sock_def stream_def rptp_putline_def rptp_write.simps sock_write_def)

lemma rptp_parse_loads_reply_witness:
  "rptp_parse (Some (CHR ''+'' # print_pairs [(''-id'', ''#7''), (''sound'', ''a b'')])) (Some ''id'')
       \<lparr>ps_list = [], ps_pos = None, ps_cache = None\<rparr>
   = (\<lparr>ps_list = [(''-id'', ''#7''), (''sound'', ''a b'')], ps_pos = Some 0, ps_cache = None\<rparr>, Some ''#7'')"
  by (subst rptp_parse_loads_reply)
    (simp_all add: printable_pair_def name_end_def value_end_def is_space_def pos_in_def skip_dashes_def)

lemma rptp_parse_cycles_witness:
  "snd (next_names 2 \<lparr>ps_list = [(''x'', ''1''), (''x'', ''2'')], ps_pos = Some 0, ps_cache = None\<rparr>)
    = [Some ''x'', Some ''x'']"
  using rptp_parse_cycles [of "\<lparr>ps_list = [(''x'', ''1''), (''x'', ''2'')], ps_pos = Some 0, ps_cache = None\<rparr>"
      "[(''x'', ''1''), (''x'', ''2'')]"]
  by (simp add: pos_in_def numeral_2_eq_2 del: next_names.simps)

end
