(* ===== verification/Buffers.thy ===== *)
theory Buffers
  imports Prelude
begin

text \<open>
  The buffer pool (\<open>src/rplayd/buffer.c\<close>, \<open>buffer.h\<close>): the free list with its counter,
  chains of buffers as lists, and the three kinds of buffer.  \<open>b_addr\<close> is the address
  \<open>malloc\<close> returned, fresh for each allocation; the pool interface is a locale that
  this theory instantiates on the code's own operations.
\<close>

abbreviation "BUFFER_SIZE \<equiv> (8192 :: int)"

datatype buffer_status = BUFFER_FREE | BUFFER_KEEP | BUFFER_REUSE

record buffer =
  b_addr :: nat
  b_id :: int
  b_nbytes :: int
  b_status :: buffer_status
  b_offset :: int

record pool =
  p_free :: "buffer list"   \<comment> \<open>buffers\<close>
  p_nbuffers :: int         \<comment> \<open>nbuffers\<close>
  p_next_id :: int          \<comment> \<open>next_id\<close>
  p_heap :: nat             \<comment> \<open>next address malloc returns\<close>

definition pool_init :: pool where
  "pool_init = \<lparr>p_free = [], p_nbuffers = 0, p_next_id = 0, p_heap = 0\<rparr>"

definition clear_buffer :: "buffer \<Rightarrow> buffer" where
  "clear_buffer b = b\<lparr>b_nbytes := 0, b_status := BUFFER_FREE, b_offset := 0\<rparr>"

definition buffer_create :: "pool \<Rightarrow> buffer \<times> pool" where
  "buffer_create p =
     (case p_free p of
        [] \<Rightarrow> (clear_buffer \<lparr>b_addr = p_heap p, b_id = p_next_id p + 1, b_nbytes = 0,
                 b_status = BUFFER_FREE, b_offset = 0\<rparr>,
               p\<lparr>p_next_id := p_next_id p + 1, p_heap := Suc (p_heap p)\<rparr>)
      | b # bs \<Rightarrow> (clear_buffer b, p\<lparr>p_nbuffers := p_nbuffers p - 1, p_free := bs\<rparr>))"

text \<open>\<open>None\<close> is NULL.\<close>

definition buffer_destroy :: "buffer option \<Rightarrow> pool \<Rightarrow> pool" where
  "buffer_destroy ob p =
     (case ob of
        None \<Rightarrow> p
      | Some b \<Rightarrow>
          if b_status b = BUFFER_KEEP then p
          else if b_status b = BUFFER_REUSE
          then p\<lparr>p_nbuffers := p_nbuffers p + 1, p_free := b # p_free p\<rparr>
          else p)"

text \<open>The \<open>do ... while (nbytes > 0)\<close> loop; the chain is the list in \<open>next\<close> order.\<close>

function buffer_alloc :: "int \<Rightarrow> buffer_status \<Rightarrow> pool \<Rightarrow> buffer list \<times> pool" where
  "buffer_alloc nbytes type p =
     (let (b, p1) = buffer_create p;
          b1 = b\<lparr>b_status := type\<rparr>;
          left = nbytes - BUFFER_SIZE
      in if left > 0
         then (let (bs, p2) = buffer_alloc left type p1 in (b1 # bs, p2))
         else ([b1], p1))"
  by auto
termination
  by (relation "measure (\<lambda>(n, _). nat n)") auto

declare buffer_alloc.simps [simp del]

fun buffer_dealloc :: "buffer list \<Rightarrow> bool \<Rightarrow> pool \<Rightarrow> pool" where
  "buffer_dealloc [] force p = p"
| "buffer_dealloc (b # bs) force p =
     buffer_dealloc bs force
       (buffer_destroy (Some (if force then b\<lparr>b_status := BUFFER_FREE\<rparr> else b)) p)"

definition buffer_cleanup :: "pool \<Rightarrow> pool" where
  "buffer_cleanup p = p\<lparr>p_free := [], p_nbuffers := 0, p_next_id := 0\<rparr>"

fun buffer_nbytes :: "buffer list \<Rightarrow> int" where
  "buffer_nbytes [] = 0"
| "buffer_nbytes (b # bs) = b_nbytes b + buffer_nbytes bs"

section \<open>The pool interface\<close>

text \<open>
  A pool gives out resources and takes them back.  \<open>idle p\<close> are the keys of the
  resources it holds; \<open>used p\<close> bounds the keys it has ever given out.
\<close>

locale resource_pool =
  fixes inv :: "'p \<Rightarrow> bool"
    and take_one :: "'p \<Rightarrow> 'r \<times> 'p"
    and give_back :: "'r \<Rightarrow> 'p \<Rightarrow> 'p"
    and key :: "'r \<Rightarrow> 'k"
    and idle :: "'p \<Rightarrow> 'k set"
    and known :: "'p \<Rightarrow> 'k set"
  assumes take_inv: "inv p \<Longrightarrow> take_one p = (r, p') \<Longrightarrow> inv p'"
    and take_key: "inv p \<Longrightarrow> take_one p = (r, p') \<Longrightarrow> key r \<notin> idle p' \<and> idle p' \<subseteq> idle p
      \<and> known p' = insert (key r) (known p) \<and> (key r \<in> idle p \<or> key r \<notin> known p)"
    and idle_known: "inv p \<Longrightarrow> idle p \<subseteq> known p"
    and give_inv: "inv p \<Longrightarrow> key r \<in> known p \<Longrightarrow> key r \<notin> idle p \<Longrightarrow> inv (give_back r p)"
    and give_key: "inv p \<Longrightarrow> key r \<in> known p \<Longrightarrow> idle (give_back r p) \<subseteq> insert (key r) (idle p)
      \<and> known (give_back r p) = known p"
begin

fun take_many :: "nat \<Rightarrow> 'p \<Rightarrow> 'r list \<times> 'p" where
  "take_many 0 p = ([], p)"
| "take_many (Suc n) p = (let (r, p1) = take_one p; (rs, p2) = take_many n p1 in (r # rs, p2))"

lemma take_many_inv: "inv p \<Longrightarrow> take_many n p = (rs, p') \<Longrightarrow> inv p'"
proof (induction n arbitrary: p rs p')
  case (Suc n)
  obtain r p1 where r: "take_one p = (r, p1)" by fastforce
  obtain ss p2 where ss: "take_many n p1 = (ss, p2)" by fastforce
  have "inv p2" using Suc.IH [OF take_inv [OF Suc.prems(1) r] ss] .
  then show ?case using Suc.prems(2) r ss by simp
qed simp

text \<open>Resources given out together are distinct, none is idle afterwards, and each was
  idle or new.\<close>

lemma take_many_distinct:
  assumes "inv p" "take_many n p = (rs, p')"
  shows "distinct (map key rs) \<and> length rs = n \<and> key ` set rs \<inter> idle p' = {}
    \<and> (\<forall>k \<in> key ` set rs. k \<in> idle p \<or> k \<notin> known p) \<and> idle p' \<subseteq> idle p
    \<and> known p' = known p \<union> key ` set rs"
  using assms
proof (induction n arbitrary: p rs p')
  case (Suc n)
  obtain r p1 where r: "take_one p = (r, p1)" by fastforce
  obtain ss p2 where ss: "take_many n p1 = (ss, p2)" by fastforce
  have i1: "inv p1" using take_inv Suc.prems(1) r by blast
  have k: "key r \<notin> idle p1" "idle p1 \<subseteq> idle p" "known p1 = insert (key r) (known p)"
    "key r \<in> idle p \<or> key r \<notin> known p"
    using take_key [OF Suc.prems(1) r] by auto
  have ik: "idle p1 \<subseteq> known p1" using idle_known i1 by blast
  have ih: "distinct (map key ss)" "length ss = n" "key ` set ss \<inter> idle p2 = {}"
    "\<And>k. k \<in> key ` set ss \<Longrightarrow> k \<in> idle p1 \<or> k \<notin> known p1" "idle p2 \<subseteq> idle p1"
    "known p2 = known p1 \<union> key ` set ss"
    using Suc.IH [OF i1 ss] by blast+
  have new: "key r \<notin> key ` set ss"
    using ih(4) k(1,3) by blast
  have eq: "rs = r # ss" "p' = p2" using Suc.prems(2) r ss by auto
  have "\<forall>k \<in> key ` set rs. k \<in> idle p \<or> k \<notin> known p"
    unfolding eq using ih(4) k by auto
  then show ?case
    unfolding eq using ih new k ik by (auto simp: image_iff)
qed auto

lemma give_take:
  assumes "inv p" "take_one p = (r, p1)"
  shows "inv (give_back r p1) \<and> known (give_back r p1) = insert (key r) (known p)"
proof -
  have "inv p1" "key r \<in> known p1" "key r \<notin> idle p1"
    using take_inv take_key assms by auto
  then show ?thesis
    using give_inv give_key take_key assms by auto
qed

end

text \<open>The well-formed pools: the counter is exact, the free list has no duplicates and
  only allocated buffers.\<close>

definition pool_ok :: "pool \<Rightarrow> bool" where
  "pool_ok p \<longleftrightarrow> p_nbuffers p = int (length (p_free p)) \<and> distinct (map b_addr (p_free p))
     \<and> (\<forall>b \<in> set (p_free p). b_addr b < p_heap p)"

definition pool_idle :: "pool \<Rightarrow> nat set" where
  "pool_idle p = b_addr ` set (p_free p)"

definition pool_known :: "pool \<Rightarrow> nat set" where
  "pool_known p = {..<p_heap p}"

lemma buffer_create_fields:
  assumes "buffer_create p = (b, p')"
  shows "b_nbytes b = 0 \<and> b_offset b = 0 \<and> b_status b = BUFFER_FREE"
  using assms by (auto simp: buffer_create_def clear_buffer_def split: list.splits)

interpretation buffers: resource_pool pool_ok buffer_create "\<lambda>b. buffer_destroy (Some b)"
  b_addr pool_idle pool_known
  by unfold_locales
    (auto simp: pool_ok_def pool_idle_def pool_known_def buffer_create_def buffer_destroy_def
      clear_buffer_def split: list.splits if_splits)

lemma pool_init_ok: "pool_ok pool_init"
  by (simp add: pool_ok_def pool_init_def)

text \<open>\<open>buffer_alloc\<close> is the pool's \<open>take_many\<close> with the status set.\<close>

definition nbuffers_for :: "int \<Rightarrow> nat" where
  "nbuffers_for n = nat (max 1 ((n + BUFFER_SIZE - 1) div BUFFER_SIZE))"

lemma nbuffers_for_step:
  "n - BUFFER_SIZE > 0 \<Longrightarrow> nbuffers_for n = Suc (nbuffers_for (n - BUFFER_SIZE))"
  "n - BUFFER_SIZE \<le> 0 \<Longrightarrow> nbuffers_for n = 1"
  by (auto simp: nbuffers_for_def max_def)

lemma buffer_alloc_take_many:
  "buffer_alloc n t p =
     (let (bs, p') = buffers.take_many (nbuffers_for n) p in (map (\<lambda>b. b\<lparr>b_status := t\<rparr>) bs, p'))"
proof (induction n t p rule: buffer_alloc.induct)
  case (1 n t p)
  obtain b p1 where b: "buffer_create p = (b, p1)" by fastforce
  show ?case
    using 1 [OF b [symmetric] refl refl] b
    by (subst buffer_alloc.simps) (auto simp: nbuffers_for_step Let_def split: prod.splits)
qed


lemma take_many_fields:
  "buffers.take_many n p = (bs, p') \<Longrightarrow> \<forall>b \<in> set bs. b_nbytes b = 0 \<and> b_offset b = 0"
proof (induction n arbitrary: p bs p')
  case (Suc n)
  obtain b p1 where b: "buffer_create p = (b, p1)" by fastforce
  obtain cs p2 where cs: "buffers.take_many n p1 = (cs, p2)" by fastforce
  show ?case
    using Suc.IH [OF cs] Suc.prems b cs buffer_create_fields [OF b] by auto
qed simp

text \<open>C37.  \<open>buffer_alloc\<close> returns as many empty buffers of the given kind as the bytes
  need (one when there are none), all distinct and off the free list, and keeps the
  pool's counter and free list consistent.\<close>

theorem buffer_alloc_chain:
  assumes "pool_ok p" "buffer_alloc nbytes type p = (bs, p')"
  shows "pool_ok p' \<and> length bs = nbuffers_for nbytes
    \<and> nbytes \<le> int (length bs) * BUFFER_SIZE
    \<and> distinct (map b_addr bs) \<and> b_addr ` set bs \<inter> b_addr ` set (p_free p') = {}
    \<and> (\<forall>b \<in> set bs. b_status b = type \<and> b_nbytes b = 0 \<and> b_offset b = 0 \<and> b_addr b < p_heap p')"
proof -
  obtain cs where cs: "buffers.take_many (nbuffers_for nbytes) p = (cs, p')"
    and bs: "bs = map (\<lambda>b. b\<lparr>b_status := type\<rparr>) cs"
    using assms(2) by (auto simp: buffer_alloc_take_many split: prod.splits)
  have d: "distinct (map b_addr cs)" "length cs = nbuffers_for nbytes"
    "b_addr ` set cs \<inter> b_addr ` set (p_free p') = {}" "b_addr ` set cs \<subseteq> {..<p_heap p'}"
    using buffers.take_many_distinct [OF assms(1) cs] by (auto simp: pool_idle_def pool_known_def)
  have ok: "pool_ok p'" using buffers.take_many_inv [OF assms(1) cs] .
  have m: "map b_addr bs = map b_addr cs" by (simp add: bs)
  then have i: "b_addr ` set bs = b_addr ` set cs" by (metis list.set_map)
  have n: "nbytes \<le> int (nbuffers_for nbytes) * BUFFER_SIZE"
  proof -
    define q where "q = (nbytes + BUFFER_SIZE - 1) div BUFFER_SIZE"
    have "q * BUFFER_SIZE + (nbytes + BUFFER_SIZE - 1) mod BUFFER_SIZE = nbytes + BUFFER_SIZE - 1"
      unfolding q_def by (rule div_mult_mod_eq)
    moreover have "(nbytes + BUFFER_SIZE - 1) mod BUFFER_SIZE < BUFFER_SIZE"
      by (rule pos_mod_bound) simp
    ultimately have "nbytes \<le> q * BUFFER_SIZE" by linarith
    moreover have "int (nbuffers_for nbytes) = max 1 q"
      unfolding nbuffers_for_def q_def by simp
    ultimately show ?thesis by (simp add: max_def)
  qed
  have "\<forall>b \<in> set bs. b_addr b < p_heap p'" using d(4) i by blast
  moreover have "\<forall>b \<in> set bs. b_status b = type \<and> b_nbytes b = 0 \<and> b_offset b = 0"
    using take_many_fields [OF cs] by (auto simp: bs)
  moreover have "length bs = nbuffers_for nbytes" using d(2) by (simp add: bs)
  ultimately show ?thesis
    unfolding m i using ok d(1,3) n by auto
qed

text \<open>Giving a chain back.\<close>

lemma dealloc_reuse:
  "\<forall>b \<in> set bs. b_status b = BUFFER_REUSE \<Longrightarrow>
   buffer_dealloc bs False p = p\<lparr>p_nbuffers := p_nbuffers p + int (length bs), p_free := rev bs @ p_free p\<rparr>"
  by (induction bs arbitrary: p) (auto simp: buffer_destroy_def)

lemma dealloc_force: "buffer_dealloc bs True p = p"
  by (induction bs arbitrary: p) (auto simp: buffer_destroy_def)

lemma dealloc_keep:
  "\<forall>b \<in> set bs. b_status b = BUFFER_KEEP \<Longrightarrow> buffer_dealloc bs False p = p"
  by (induction bs arbitrary: p) (auto simp: buffer_destroy_def)

text \<open>The discipline of the three kinds: releasing without force a chain just
  allocated puts every REUSE buffer back on the free list (so the next allocation of
  the same size needs no \<open>malloc\<close>), and leaves the pool as it is for KEEP and FREE
  buffers; releasing by force never returns a buffer to the pool.\<close>

theorem buffer_dealloc_disciplines:
  assumes "pool_ok p" "buffer_alloc nbytes type p = (bs, p1)"
  shows "pool_ok (buffer_dealloc bs False p1) \<and> buffer_dealloc bs True p1 = p1
    \<and> (if type = BUFFER_REUSE
       then p_free (buffer_dealloc bs False p1) = rev bs @ p_free p1
            \<and> p_heap (snd (buffer_alloc nbytes type2 (buffer_dealloc bs False p1))) = p_heap p1
       else buffer_dealloc bs False p1 = p1)"
proof -
  note ch = buffers.take_many_distinct
  obtain cs where cs: "buffers.take_many (nbuffers_for nbytes) p = (cs, p1)"
    and bs: "bs = map (\<lambda>b. b\<lparr>b_status := type\<rparr>) cs"
    using assms(2) by (auto simp: buffer_alloc_take_many split: prod.splits)
  have d: "distinct (map b_addr cs)" "length cs = nbuffers_for nbytes"
    "b_addr ` set cs \<inter> b_addr ` set (p_free p1) = {}" "b_addr ` set cs \<subseteq> {..<p_heap p1}"
    using ch [OF assms(1) cs] by (auto simp: pool_idle_def pool_known_def)
  have ok: "pool_ok p1" using buffers.take_many_inv [OF assms(1) cs] .
  have m: "map b_addr bs = map b_addr cs" by (simp add: bs)
  have reuse: "p_heap (snd (buffers.take_many n q)) = p_heap q"
    if "n \<le> length (p_free q)" for n q
    using that
  proof (induction n arbitrary: q)
    case (Suc n)
    then obtain b rest where "p_free q = b # rest" by (cases "p_free q") auto
    then have "buffer_create q = (clear_buffer b, q\<lparr>p_nbuffers := p_nbuffers q - 1, p_free := rest\<rparr>)"
      "length rest = length (p_free q) - 1"
      by (auto simp: buffer_create_def)
    then show ?case
      using Suc.IH [of "q\<lparr>p_nbuffers := p_nbuffers q - 1, p_free := rest\<rparr>"] Suc.prems
      by (auto split: prod.splits)
  qed simp
  show ?thesis
  proof (cases "type = BUFFER_REUSE")
    case True
    then have r: "buffer_dealloc bs False p1
        = p1\<lparr>p_nbuffers := p_nbuffers p1 + int (length bs), p_free := rev bs @ p_free p1\<rparr>"
      by (intro dealloc_reuse) (auto simp: bs)
    have i: "b_addr ` set bs = b_addr ` set cs" using m by (metis list.set_map)
    then have "\<forall>b \<in> set bs. b_addr b < p_heap p1" using d(4) by blast
    with i have "pool_ok (buffer_dealloc bs False p1)"
      using ok d m unfolding r pool_ok_def by (auto simp: rev_map [symmetric])
    moreover have "p_heap (snd (buffer_alloc nbytes type2 (buffer_dealloc bs False p1))) = p_heap p1"
      using reuse [of "nbuffers_for nbytes" "buffer_dealloc bs False p1"] d(2)
      unfolding r by (auto simp: buffer_alloc_take_many bs split: prod.splits)
    ultimately show ?thesis using r True by (simp add: dealloc_force)
  next
    case False
    then have "buffer_dealloc bs False p1 = p1"
    proof (cases type)
      case BUFFER_KEEP
      then show ?thesis by (intro dealloc_keep) (auto simp: bs)
    next
      case BUFFER_FREE
      then have "\<forall>b \<in> set bs. b_status b = BUFFER_FREE" by (auto simp: bs)
      then show ?thesis
        by (induction bs arbitrary: p1) (auto simp: buffer_destroy_def)
    qed simp
    then show ?thesis using ok False by (simp add: dealloc_force)
  qed
qed

lemma buffer_alloc_chain_witness:
  "let (bs, p') = buffer_alloc 20000 BUFFER_REUSE pool_init in pool_ok p' \<and> length bs = 3"
proof -
  have "length (fst (buffer_alloc 20000 BUFFER_REUSE pool_init)) = nbuffers_for 20000
    \<and> pool_ok (snd (buffer_alloc 20000 BUFFER_REUSE pool_init))"
    using buffer_alloc_chain [OF pool_init_ok, of 20000 BUFFER_REUSE] by (metis prod.collapse)
  then show ?thesis by (auto simp: nbuffers_for_def split: prod.splits)
qed

lemma buffer_dealloc_disciplines_witness:
  "p_heap (snd (buffer_alloc 20000 BUFFER_KEEP
     (buffer_dealloc (fst (buffer_alloc 20000 BUFFER_REUSE pool_init)) False
        (snd (buffer_alloc 20000 BUFFER_REUSE pool_init)))))
   = p_heap (snd (buffer_alloc 20000 BUFFER_REUSE pool_init))"
  using buffer_dealloc_disciplines [OF pool_init_ok prod.collapse [symmetric]] by simp

end
