(* ===== verification/Spool.thy ===== *)
theory Spool
  imports Complex_Main Packet Buffers
begin

text \<open>
  The sound spool (\<open>src/rplayd/spool.c\<close>, \<open>spool.h\<close>): the list of entries, their state
  machine and the counters of playing and paused entries.  The pointer to an entry is
  its address \<open>sp_addr\<close>; an operation on an address that is no longer in the list is a
  use after free.  Notifications to connections, closed sounds and the other calls out
  of the component are recorded in order in a trace; the results of opening, mapping
  and reading sounds, and the clock, are inputs.  \<open>timer_block\<close> only masks a signal.
\<close>

section \<open>Data\<close>

datatype spool_state = SPOOL_NULL | SPOOL_PLAY | SPOOL_PAUSE | SPOOL_WAIT | SPOOL_NEXT | SPOOL_SKIP

datatype sound_type = SOUND_FILE | SOUND_FLOW | SOUND_CDROM | SOUND_VIRTUAL

datatype sound_status = SOUND_NULL | SOUND_READY | SOUND_NOT_READY | SOUND_SEARCH

abbreviation "SPOOL_SIZE \<equiv> (12 :: int)"
abbreviation "SPOOL_MIN_ID \<equiv> (1 :: int)"
abbreviation "SPOOL_MAX_ID \<equiv> (999 :: int)"
abbreviation "SOUND_LIST_SIZE \<equiv> (256 :: int)"
abbreviation "RPLAY_MAX_PRIORITY \<equiv> (255 :: int)"

text \<open>The fields of \<open>SOUND\<close> the spool uses.\<close>

record sound =
  s_type :: sound_type
  s_name :: cstring
  s_status :: sound_status
  s_sample_rate :: int
  s_output_sample_size :: int
  s_samples :: int
  s_flow :: "buffer list"
  s_needs_helper :: bool
  s_starting_track :: int
  s_ending_track :: int

text \<open>The fields of \<open>SINDEX\<close> the spool uses.\<close>

record sindex =
  si_eof :: bool
  si_is_flow :: bool
  si_offset :: int
  si_water_mark :: int
  si_low_water_mark :: int
  si_fd :: int
  si_pid :: int

text \<open>An entry.  \<open>sp_curr_attrs\<close> is the position of \<open>curr_attrs\<close> in the attributes of
  \<open>rp\<close> (the length stands for NULL); \<open>sp_sound\<close> is the array of 256 sounds; the
  buffers are chains.  \<open>sample_index\<close> is exact here.\<close>

record spool_entry =
  sp_addr :: nat
  sp_id :: int
  sp_state :: spool_state
  sp_time :: int
  sp_curr_sound :: int
  sp_curr_count :: int
  sp_list_count :: int
  sp_sound :: "int \<Rightarrow> nat option"
  sp_si :: "sindex option"
  sp_curr_buffer :: "buffer list"
  sp_next_buffer :: "buffer list"
  sp_offset :: int
  sp_rp :: "rplay option"
  sp_curr_attrs :: nat
  sp_sin :: nat
  sp_sample_rate :: int
  sp_sample_index :: rat
  sp_sample_factor :: rat
  sp_skip_count :: int
  sp_auto_pause :: int
  sp_notify_position :: int

datatype notification =
    NOTIFY_POSITION | NOTIFY_STOP | NOTIFY_DONE | NOTIFY_PAUSE | NOTIFY_CONTINUE
  | NOTIFY_SKIP | NOTIFY_PLAY | NOTIFY_FLOW

text \<open>Calls out of the component: \<open>connection_notify\<close> with the entry's id,
  \<open>connection_flow_continue\<close>, \<open>sound_clean\<close>, \<open>sound_close\<close>, \<open>sound_map\<close>,
  \<open>sound_seek\<close>, \<open>FD_SET\<close> of the read mask, \<open>rplayd_audio_match\<close>.\<close>

datatype call_out =
    Notify notification int
  | FlowContinue int
  | SoundClean nat
  | SoundClose
  | SoundMap nat
  | SoundSeek
  | ReadMask int
  | AudioMatch nat

text \<open>What playing some samples (\<open>to_native\<close>) does to an entry: the remaining
  buffers and position, the buffers it released, and whether the sound goes on.\<close>

record played =
  pl_curr :: "buffer list"
  pl_next :: "buffer list"
  pl_offset :: int
  pl_index :: rat
  pl_released :: "buffer list"
  pl_more :: bool

record spool_env =
  ev_now :: int
  ev_audio_rate :: int                             \<comment> \<open>rplay_audio_sample_rate\<close>
  ev_audio_match :: bool                           \<comment> \<open>rplay_audio_match\<close>
  ev_open :: "nat \<Rightarrow> sindex option"                \<comment> \<open>sound_open\<close>
  ev_map :: "nat \<Rightarrow> bool"                          \<comment> \<open>sound_map succeeds\<close>
  ev_samples :: "nat \<Rightarrow> int \<Rightarrow> int"                \<comment> \<open>number_of_samples\<close>
  ev_fill :: "sindex \<Rightarrow> buffer list \<Rightarrow> int \<times> sindex \<times> buffer list"  \<comment> \<open>sound_fill\<close>
  ev_native :: "spool_entry \<Rightarrow> played"           \<comment> \<open>to_native\<close>

record server =
  sv_spool :: "spool_entry list"
  spool_size :: int
  spool_nplaying :: int
  spool_npaused :: int
  spool_prio :: int
  spool_needs_update :: int
  spool_last_id :: int
  sv_sounds :: "nat \<Rightarrow> sound"
  sv_pool :: pool
  sv_fresh :: nat
  sv_trace :: "call_out list"

text \<open>Undefined behaviour of the C code.\<close>

datatype crash = UseAfterFree | NullPointer | OutOfBounds | NoFreeId

type_synonym 'a result = "crash + 'a"

section \<open>Access to an entry\<close>

definition with_sp :: "nat \<Rightarrow> (spool_entry \<Rightarrow> server \<Rightarrow> 'a result) \<Rightarrow> server \<Rightarrow> 'a result" where
  "with_sp a f s =
     (case find (\<lambda>e. sp_addr e = a) (sv_spool s) of
        None \<Rightarrow> Inl UseAfterFree
      | Some e \<Rightarrow> f e s)"

definition upd_sp :: "nat \<Rightarrow> (spool_entry \<Rightarrow> spool_entry) \<Rightarrow> server \<Rightarrow> server" where
  "upd_sp a g s = s\<lparr>sv_spool := map (\<lambda>e. if sp_addr e = a then g e else e) (sv_spool s)\<rparr>"

definition emit :: "call_out \<Rightarrow> server \<Rightarrow> server" where
  "emit c s = s\<lparr>sv_trace := sv_trace s @ [c]\<rparr>"

definition notify :: "notification \<Rightarrow> spool_entry \<Rightarrow> server \<Rightarrow> server" where
  "notify k e = emit (Notify k (sp_id e))"

text \<open>\<open>sp->sound[i]\<close>; outside the array, or a slot never filled.\<close>

definition sound_at :: "spool_entry \<Rightarrow> int \<Rightarrow> nat result" where
  "sound_at e i =
     (if i < 0 \<or> i \<ge> SOUND_LIST_SIZE then Inl OutOfBounds
      else case sp_sound e i of None \<Rightarrow> Inl NullPointer | Some x \<Rightarrow> Inr x)"

definition the_rp :: "spool_entry \<Rightarrow> rplay result" where
  "the_rp e = (case sp_rp e of None \<Rightarrow> Inl NullPointer | Some rp \<Rightarrow> Inr rp)"

definition curr_attrs :: "spool_entry \<Rightarrow> rplay_attrs result" where
  "curr_attrs e = bindE (the_rp e) (\<lambda>rp.
     if sp_curr_attrs e < length (r_attrs rp) then Inr (r_attrs rp ! sp_curr_attrs e)
     else Inl NullPointer)"

section \<open>Creation, destruction, reset\<close>

text \<open>\<open>spool_setprio\<close>\<close>

fun max_priority :: "spool_entry list \<Rightarrow> int \<Rightarrow> int result" where
  "max_priority [] m = Inr m"
| "max_priority (e # es) m =
     (if sp_state e = SPOOL_PLAY
      then bindE (the_rp e) (\<lambda>rp. max_priority es (max m (r_priority rp)))
      else max_priority es m)"

definition spool_setprio :: "server \<Rightarrow> server result" where
  "spool_setprio s = bindE (max_priority (sv_spool s) 0) (\<lambda>m. Inr (s\<lparr>spool_prio := m\<rparr>))"

text \<open>\<open>sound_clean\<close> of every sound of the entry.\<close>

definition clean_sounds :: "spool_entry \<Rightarrow> server \<Rightarrow> server result" where
  "clean_sounds e s =
     (case sp_rp e of
        None \<Rightarrow> Inr s
      | Some rp \<Rightarrow>
          foldE (\<lambda>i s. bindE (sound_at e i) (\<lambda>x. Inr (emit (SoundClean x) s)))
            (map int [0..<nat (r_nsounds rp)]) s)"

definition close_si :: "spool_entry \<Rightarrow> server \<Rightarrow> server" where
  "close_si e s = (case sp_si e of None \<Rightarrow> s | Some _ \<Rightarrow> emit SoundClose s)"

definition dealloc :: "buffer list \<Rightarrow> bool \<Rightarrow> server \<Rightarrow> server" where
  "dealloc bs force s = s\<lparr>sv_pool := buffer_dealloc bs force (sv_pool s)\<rparr>"

definition reset_entry :: "spool_entry \<Rightarrow> spool_entry" where
  "reset_entry e = e\<lparr>sp_state := SPOOL_NULL, sp_id := -1, sp_time := 0, sp_rp := None,
     sp_sample_rate := 0, sp_sample_index := 0, sp_sample_factor := 0,
     sp_curr_buffer := [], sp_next_buffer := [], sp_offset := 0, sp_si := None,
     sp_skip_count := 0, sp_auto_pause := 0, sp_notify_position := 0\<rparr>"

definition spool_reset :: "nat \<Rightarrow> server \<Rightarrow> server result" where
  "spool_reset a = with_sp a (\<lambda>e s.
     let s1 = upd_sp a (\<lambda>e. e\<lparr>sp_state := SPOOL_NULL\<rparr>) s;
         s2 = (if sp_id e > 0 then emit (FlowContinue (sp_id e)) s1 else s1)
     in bindE (clean_sounds e s2) (\<lambda>s3.
          let s4 = dealloc (sp_curr_buffer e) True s3;
              s5 = dealloc (sp_next_buffer e) True s4;
              s6 = close_si e s5
          in spool_setprio (upd_sp a reset_entry s6)))"

text \<open>\<open>malloc\<close> and \<open>memset\<close> of a new entry.\<close>

definition blank_entry :: "nat \<Rightarrow> spool_entry" where
  "blank_entry a = \<lparr>sp_addr = a, sp_id = -1, sp_state = SPOOL_NULL, sp_time = 0,
     sp_curr_sound = 0, sp_curr_count = 0, sp_list_count = 0, sp_sound = (\<lambda>_. None),
     sp_si = None, sp_curr_buffer = [], sp_next_buffer = [], sp_offset = 0, sp_rp = None,
     sp_curr_attrs = 0, sp_sin = 0, sp_sample_rate = 0, sp_sample_index = 0,
     sp_sample_factor = 0, sp_skip_count = 0, sp_auto_pause = 0, sp_notify_position = 0\<rparr>"

text \<open>\<open>spool_create\<close> resets the blank entry before it is linked: only
  \<open>spool_setprio\<close> has an effect.\<close>

definition spool_create :: "server \<Rightarrow> (nat \<times> server) result" where
  "spool_create s =
     (let a = sv_fresh s
      in bindE (spool_setprio s) (\<lambda>s1.
           Inr (a, s1\<lparr>sv_fresh := Suc a, sv_spool := reset_entry (blank_entry a) # sv_spool s1,
                      spool_size := spool_size s1 + 1\<rparr>)))"

definition spool_destroy :: "nat \<Rightarrow> server \<Rightarrow> server result" where
  "spool_destroy a s = bindE (spool_reset a s) (\<lambda>s1.
     Inr (s1\<lparr>sv_spool := filter (\<lambda>e. sp_addr e \<noteq> a) (sv_spool s1), spool_size := spool_size s1 - 1\<rparr>))"

definition spool_init :: "server \<Rightarrow> server result" where
  "spool_init s = bindE (foldE spool_destroy (map sp_addr (sv_spool s)) s) (\<lambda>s1.
     Inr (s1\<lparr>sv_spool := [], spool_nplaying := 0, spool_prio := 0, spool_size := 0\<rparr>))"


section \<open>Identifiers and allocation\<close>

definition next_id :: "int \<Rightarrow> int" where
  "next_id i = (if i + 1 > SPOOL_MAX_ID then SPOOL_MIN_ID else i + 1)"

definition id_in_use :: "spool_entry list \<Rightarrow> int \<Rightarrow> bool" where
  "id_in_use es i \<longleftrightarrow> (\<exists>e \<in> set es. sp_state e \<noteq> SPOOL_NULL \<and> sp_id e = i)"

text \<open>The endless \<open>for\<close> loop of \<open>spool_id\<close>, with fuel for its rounds.\<close>

fun find_id :: "nat \<Rightarrow> spool_entry list \<Rightarrow> int \<Rightarrow> int option" where
  "find_id 0 es i = None"
| "find_id (Suc n) es i =
     (if id_in_use es (next_id i) then find_id n es (next_id i) else Some (next_id i))"

text \<open>999 rounds try every id once.\<close>

definition spool_id :: "server \<Rightarrow> (int \<times> server) result" where
  "spool_id s =
     (case find_id 999 (sv_spool s) (spool_last_id s) of
        None \<Rightarrow> Inl NoFreeId
      | Some i \<Rightarrow> Inr (i, s\<lparr>spool_last_id := i\<rparr>))"

text \<open>The playing entry of lowest priority below \<open>RPLAY_MAX_PRIORITY\<close>, the first one
  met.\<close>

fun lowest_entry :: "spool_entry list \<Rightarrow> int \<Rightarrow> nat option \<Rightarrow> (int \<times> nat option) result" where
  "lowest_entry [] m low = Inr (m, low)"
| "lowest_entry (e # es) m low =
     (if sp_state e = SPOOL_PLAY
      then bindE (the_rp e) (\<lambda>rp.
             if r_priority rp < m then lowest_entry es (r_priority rp) (Some (sp_addr e))
             else lowest_entry es m low)
      else lowest_entry es m low)"

definition assign_id :: "nat \<Rightarrow> server \<Rightarrow> server result" where
  "assign_id a s = bindE (spool_id s) (\<lambda>(i, s1). Inr (upd_sp a (\<lambda>e. e\<lparr>sp_id := i\<rparr>) s1))"

definition notify_position_off :: "nat \<Rightarrow> server \<Rightarrow> server result" where
  "notify_position_off a = with_sp a (\<lambda>e s.
     Inr (if sp_notify_position e \<noteq> 0
          then upd_sp a (\<lambda>e. e\<lparr>sp_notify_position := 0\<rparr>) (notify NOTIFY_POSITION e s)
          else s))"

definition spool_next :: "int \<Rightarrow> server \<Rightarrow> (nat option \<times> server) result" where
  "spool_next priority s =
     (if spool_size s < SPOOL_SIZE
      then bindE (spool_create s) (\<lambda>(a, s1). bindE (assign_id a s1) (\<lambda>s2. Inr (Some a, s2)))
      else bindE (lowest_entry (sv_spool s) RPLAY_MAX_PRIORITY None) (\<lambda>(m, low).
        case low of
          Some a \<Rightarrow>
            if priority > m
            then bindE (notify_position_off a s) (\<lambda>s1.
                 bindE (with_sp a (\<lambda>e s. Inr (notify NOTIFY_DONE e s)) s1) (\<lambda>s2.
                 bindE (spool_reset a s2) (\<lambda>s3.
                 bindE (assign_id a (s3\<lparr>spool_nplaying := spool_nplaying s3 - 1\<rparr>)) (\<lambda>s4.
                 Inr (Some a, s4)))))
            else Inr (None, s)
        | None \<Rightarrow> Inr (None, s)))"

section \<open>Actions on one entry\<close>

definition set_state :: "nat \<Rightarrow> spool_state \<Rightarrow> server \<Rightarrow> server" where
  "set_state a st = upd_sp a (\<lambda>e. e\<lparr>sp_state := st\<rparr>)"

text \<open>The counters after an active entry leaves the states PLAY or PAUSE.\<close>

definition uncount :: "spool_entry \<Rightarrow> server \<Rightarrow> server" where
  "uncount e s =
     (if sp_state e = SPOOL_PLAY then s\<lparr>spool_nplaying := spool_nplaying s - 1\<rparr>
      else if sp_state e = SPOOL_PAUSE then s\<lparr>spool_npaused := spool_npaused s - 1\<rparr>
      else s)"

definition spool_stop :: "nat \<Rightarrow> server \<Rightarrow> server result" where
  "spool_stop a = with_sp a (\<lambda>e s.
     if sp_state e \<in> {SPOOL_PLAY, SPOOL_PAUSE, SPOOL_WAIT}
     then bindE (notify_position_off a (uncount e s)) (\<lambda>s1.
          spool_destroy a (notify NOTIFY_DONE e (notify NOTIFY_STOP e s1)))
     else Inr s)"

definition spool_pause :: "nat \<Rightarrow> server \<Rightarrow> server result" where
  "spool_pause a = with_sp a (\<lambda>e s.
     if sp_state e = SPOOL_PLAY
     then (let s1 = set_state a SPOOL_PAUSE s;
               s2 = s1\<lparr>spool_nplaying := spool_nplaying s1 - 1, spool_npaused := spool_npaused s1 + 1\<rparr>
           in bindE (notify_position_off a s2) (\<lambda>s3. Inr (notify NOTIFY_PAUSE e s3)))
     else Inr s)"

definition spool_continue :: "spool_env \<Rightarrow> nat \<Rightarrow> server \<Rightarrow> server result" where
  "spool_continue ev a = with_sp a (\<lambda>e s.
     if sp_state e = SPOOL_PAUSE
     then (let s1 = set_state a SPOOL_PLAY s;
               s2 = (if ev_audio_match ev then emit (AudioMatch a) s1 else s1)
           in Inr (notify NOTIFY_CONTINUE e
                (s2\<lparr>spool_nplaying := spool_nplaying s2 + 1, spool_npaused := spool_npaused s2 - 1,
                    spool_needs_update := spool_needs_update s2 + 1\<rparr>)))
     else Inr s)"

definition spool_done :: "nat \<Rightarrow> server \<Rightarrow> server result" where
  "spool_done a = with_sp a (\<lambda>e s.
     if sp_state e \<in> {SPOOL_PLAY, SPOOL_PAUSE, SPOOL_WAIT}
     then (case sp_si e of
             Some si \<Rightarrow>
               if si_is_flow si \<and> sp_state e = SPOOL_PLAY
               then Inr (upd_sp a (\<lambda>e. e\<lparr>sp_si := Some (si\<lparr>si_eof := True\<rparr>)\<rparr>) s)
               else bindE (notify_position_off a (uncount e s)) (\<lambda>s1.
                    spool_destroy a (notify NOTIFY_DONE e s1))
           | None \<Rightarrow> bindE (notify_position_off a (uncount e s)) (\<lambda>s1.
                    spool_destroy a (notify NOTIFY_DONE e s1)))
     else Inr s)"

definition spool_flow_pause :: "nat \<Rightarrow> server \<Rightarrow> server result" where
  "spool_flow_pause a = with_sp a (\<lambda>e s.
     Inr (if sp_state e = SPOOL_PLAY
          then (set_state a SPOOL_WAIT s)\<lparr>spool_nplaying := spool_nplaying s - 1\<rparr>
          else s))"

definition spool_flow_continue :: "nat \<Rightarrow> server \<Rightarrow> server result" where
  "spool_flow_continue a = with_sp a (\<lambda>e s.
     Inr (if sp_state e = SPOOL_WAIT
          then (set_state a SPOOL_PLAY s)\<lparr>spool_nplaying := spool_nplaying s + 1,
                 spool_needs_update := spool_needs_update s + 1\<rparr>
          else s))"

definition spool_skip :: "int \<Rightarrow> nat \<Rightarrow> server \<Rightarrow> server result" where
  "spool_skip count a = with_sp a (\<lambda>e s.
     bindE (sound_at e (sp_curr_sound e)) (\<lambda>x.
     if (sp_state e = SPOOL_PLAY \<or> sp_state e = SPOOL_PAUSE) \<and> s_type (sv_sounds s x) = SOUND_FILE
     then (let s1 = (if sp_state e = SPOOL_PAUSE
                     then upd_sp a (\<lambda>e. e\<lparr>sp_auto_pause := sp_auto_pause e + 1\<rparr>)
                            (s\<lparr>spool_npaused := spool_npaused s - 1\<rparr>)
                     else s);
               s2 = upd_sp a (\<lambda>e. e\<lparr>sp_state := SPOOL_SKIP, sp_skip_count := count\<rparr>) s1
           in Inr (notify NOTIFY_SKIP e (s2\<lparr>spool_needs_update := spool_needs_update s2 + 1\<rparr>)))
     else Inr s))"

section \<open>spool_play\<close>

text \<open>\<open>atoi\<close> on the bytes of a name.\<close>

definition is_digit :: "byte \<Rightarrow> bool" where
  "is_digit b \<longleftrightarrow> 48 \<le> b \<and> b \<le> 57"

fun digits_value :: "cstring \<Rightarrow> int \<Rightarrow> int" where
  "digits_value [] n = n"
| "digits_value (b # bs) n = (if is_digit b then digits_value bs (10 * n + (uint b - 48)) else n)"

definition is_blank :: "byte \<Rightarrow> bool" where
  "is_blank b \<longleftrightarrow> b = 32 \<or> (9 \<le> b \<and> b \<le> 13)"

definition atoi :: "cstring \<Rightarrow> int" where
  "atoi s =
     (case dropWhile is_blank s of
        [] \<Rightarrow> 0
      | b # bs \<Rightarrow>
          if b = 45 then - digits_value bs 0
          else if b = 43 then digits_value bs 0
          else digits_value (b # bs) 0)"

text \<open>The track range of a CD name \<open>device:start-end\<close>; \<open>None\<close> when there is no colon.
  A missing part keeps the old value.\<close>

definition cdrom_tracks :: "cstring \<Rightarrow> int \<Rightarrow> int \<Rightarrow> (int \<times> int) option" where
  "cdrom_tracks name start0 end0 =
     (case dropWhile (\<lambda>b. b \<noteq> 58) name of
        [] \<Rightarrow> None
      | _ # p \<Rightarrow>
          if 45 \<in> set p then
            (let q = dropWhile (\<lambda>b. b = 45) p
             in if q = [] then Some (start0, end0)
                else (let tok = takeWhile (\<lambda>b. b \<noteq> 45) q;
                          rest = tl (dropWhile (\<lambda>b. b \<noteq> 45) q)
                      in Some (atoi tok, if rest = [] then end0 else atoi rest)))
          else Some (atoi p, atoi p))"

definition rate_entry :: "spool_env \<Rightarrow> int \<Rightarrow> int \<Rightarrow> spool_entry \<Rightarrow> spool_entry" where
  "rate_entry ev rate r e = e\<lparr>sp_sample_rate := r,
     sp_rp := map_option (\<lambda>rp. rp\<lparr>r_attrs := (r_attrs rp)[sp_curr_attrs e :=
        (r_attrs rp ! sp_curr_attrs e)\<lparr>a_sample_rate := nat (rate mod 2 ^ 64)\<rparr>]\<rparr>) (sp_rp e),
     sp_sample_factor := of_int r / of_int (ev_audio_rate ev)\<rparr>"

definition spool_set_sample_rate :: "spool_env \<Rightarrow> int \<Rightarrow> nat \<Rightarrow> server \<Rightarrow> server result" where
  "spool_set_sample_rate ev rate a = with_sp a (\<lambda>e s.
     bindE (if rate > 0 then Inr rate
            else bindE (sound_at e (sp_curr_sound e)) (\<lambda>x. Inr (s_sample_rate (sv_sounds s x)))) (\<lambda>r.
     bindE (curr_attrs e) (\<lambda>_.
       let s1 = upd_sp a (rate_entry ev rate r) s
       in Inr (if ev_audio_match ev then emit (AudioMatch a) s1 else s1))))"

text \<open>\<open>spool_play\<close> after the CD name: open the sound; a sound that cannot be opened
  destroys the entry.\<close>

definition play_opened :: "spool_env \<Rightarrow> nat \<Rightarrow> nat \<Rightarrow> server \<Rightarrow> server result" where
  "play_opened ev x a = with_sp a (\<lambda>e s.
     case ev_open ev x of
       None \<Rightarrow> spool_destroy a (upd_sp a (\<lambda>e. e\<lparr>sp_si := None\<rparr>) s)
     | Some si \<Rightarrow>
         (let s1 = upd_sp a (\<lambda>e. e\<lparr>sp_si := Some si, sp_curr_buffer := [], sp_next_buffer := [],
                sp_sample_index := 0\<rparr>) (emit SoundSeek s)
          in bindE (curr_attrs e) (\<lambda>att.
             bindE (spool_set_sample_rate ev
                      (if a_sample_rate att = RPLAY_DEFAULT_SAMPLE_RATE
                       then s_sample_rate (sv_sounds s x) else to_int (int (a_sample_rate att))) a s1) (\<lambda>s2.
             let s3 = set_state a SPOOL_PLAY s2
             in bindE (spool_setprio (s3\<lparr>spool_nplaying := spool_nplaying s3 + 1\<rparr>)) (\<lambda>s4.
                let s5 = notify NOTIFY_POSITION e (notify NOTIFY_PLAY e
                           (s4\<lparr>spool_needs_update := spool_needs_update s4 + 1\<rparr>))
                in if sp_auto_pause e \<noteq> 0
                   then bindE (spool_pause a s5) (\<lambda>s6.
                          Inr (upd_sp a (\<lambda>e. e\<lparr>sp_auto_pause := 0\<rparr>) s6))
                   else Inr s5)))))"

definition spool_play :: "spool_env \<Rightarrow> nat \<Rightarrow> server \<Rightarrow> server result" where
  "spool_play ev a = with_sp a (\<lambda>e s.
     bindE (sound_at e (sp_curr_sound e)) (\<lambda>x.
     let sd = sv_sounds s x
     in if s_type sd = SOUND_CDROM then
          bindE (curr_attrs e) (\<lambda>att.
            case cdrom_tracks (a_sound att) (s_starting_track sd) (s_ending_track sd) of
              None \<Rightarrow> Inr s
            | Some (st, en) \<Rightarrow>
                play_opened ev x a (s\<lparr>sv_sounds := (sv_sounds s)(x :=
                  sd\<lparr>s_starting_track := st, s_ending_track := en\<rparr>)\<rparr>))
        else play_opened ev x a s))"


section \<open>The periodic update\<close>

text \<open>Skipping: the new \<open>curr_count\<close>, \<open>skip_count\<close> and \<open>curr_sound\<close> of an entry in
  state SKIP, before the sound is advanced.\<close>

definition apply_skip :: "int \<Rightarrow> int \<Rightarrow> spool_entry \<Rightarrow> spool_entry" where
  "apply_skip rate nsounds e =
     (if sp_skip_count e = 0 then e\<lparr>sp_curr_count := sp_curr_count e + 1\<rparr>
      else
        (let k = (if sp_skip_count e < 0 \<and> sp_sample_index e > of_int rate
                  then sp_skip_count e + 1 else sp_skip_count e);
             c = sp_curr_sound e + k - 1
         in e\<lparr>sp_curr_count := 1, sp_skip_count := k,
              sp_curr_sound := (if c < 0 then -1 else if c = nsounds then nsounds - 1 else c)\<rparr>))"

text \<open>Advancing to the sound that is played next.  \<open>None\<close>: the entry is finished.
  The read of \<open>sound[curr_sound]\<close> whose value is not used is left out.\<close>

definition advance :: "spool_entry \<Rightarrow> spool_entry option result" where
  "advance e =
     (if sp_curr_count e > 1 then Inr (Some (e\<lparr>sp_curr_count := sp_curr_count e - 1\<rparr>))
      else if sp_curr_count e = 0 then Inr (Some e)
      else
        bindE (the_rp e) (\<lambda>rp.
          let c = sp_curr_sound e + 1;
              finish = (\<lambda>e'. bindE (curr_attrs e') (\<lambda>att. Inr (Some (e'\<lparr>sp_curr_count := a_count att\<rparr>))))
          in if c = r_nsounds rp then
               (if sp_list_count e > 1 then
                  finish (e\<lparr>sp_list_count := sp_list_count e - 1, sp_curr_attrs := 0, sp_curr_sound := 0\<rparr>)
                else if sp_list_count e = 0 then
                  finish (e\<lparr>sp_curr_attrs := 0, sp_curr_sound := 0\<rparr>)
                else Inr None)
             else if sp_state e = SPOOL_SKIP then
               (if c > int (length (r_attrs rp)) then Inl NullPointer
                else finish (e\<lparr>sp_curr_sound := c, sp_curr_attrs := nat c, sp_skip_count := 0\<rparr>))
             else
               bindE (curr_attrs e) (\<lambda>_.
                 finish (e\<lparr>sp_curr_sound := c, sp_curr_attrs := Suc (sp_curr_attrs e)\<rparr>))))"

definition replace_sp :: "nat \<Rightarrow> spool_entry \<Rightarrow> server \<Rightarrow> server" where
  "replace_sp a e' = upd_sp a (\<lambda>_. e')"

text \<open>The cases SKIP and NEXT of \<open>spool_update\<close>; \<open>False\<close> when the entry is finished
  and the loop goes on with the next entry.\<close>

definition next_sound :: "spool_env \<Rightarrow> nat \<Rightarrow> server \<Rightarrow> (bool \<times> server) result" where
  "next_sound ev a s0 =
     bindE (notify_position_off a s0) (with_sp a (\<lambda>e s.
       let s1 = (if sp_auto_pause e = 0 then s\<lparr>spool_nplaying := spool_nplaying s - 1\<rparr> else s);
           s2 = close_si e s1;
           s3 = dealloc (sp_next_buffer e) False (dealloc (sp_curr_buffer e) False s2);
           e1 = e\<lparr>sp_si := None, sp_curr_buffer := [], sp_next_buffer := [], sp_offset := 0\<rparr>
       in bindE (if sp_state e = SPOOL_SKIP
                 then (if sp_skip_count e = 0
                       then Inr (apply_skip (ev_audio_rate ev) 0 e1, notify NOTIFY_DONE e s3)
                       else bindE (the_rp e) (\<lambda>rp.
                              Inr (apply_skip (ev_audio_rate ev) (r_nsounds rp) e1, notify NOTIFY_DONE e s3)))
                 else Inr (e1, s3)) (\<lambda>(e2, s4).
          bindE (advance e2) (\<lambda>adv.
            case adv of
              Some e3 \<Rightarrow> bindE (spool_play ev a (replace_sp a e3 s4)) (\<lambda>s5. Inr (True, s5))
            | None \<Rightarrow>
                bindE (spool_destroy a (replace_sp a e2
                         (if sp_state e \<noteq> SPOOL_SKIP then notify NOTIFY_DONE e s4 else s4)))
                  (\<lambda>s5. Inr (False, s5))))))"

abbreviation "SOUND_FILL_SIZE \<equiv> (131072 :: int)"

text \<open>A source without data: at its end it is closed, otherwise the entry waits.\<close>

definition source_empty :: "nat \<Rightarrow> server \<Rightarrow> server result" where
  "source_empty a = with_sp a (\<lambda>e s.
     if sp_curr_buffer e = [] \<and> sp_next_buffer e = [] then
       (case sp_si e of
          None \<Rightarrow> Inl NullPointer
        | Some si \<Rightarrow>
            if si_eof si
            then Inr (upd_sp a (\<lambda>e. e\<lparr>sp_si := None\<rparr>)
                   ((emit SoundClose s)\<lparr>spool_needs_update := spool_needs_update s + 1\<rparr>))
            else spool_flow_pause a s)
     else Inr s)"

text \<open>After \<open>sound_fill\<close>: \<open>n\<close> is its result, \<open>si\<close> the source after it, \<open>b\<close> the
  filled buffers.\<close>

definition fill_result ::
  "spool_env \<Rightarrow> nat \<Rightarrow> sound \<Rightarrow> int \<Rightarrow> int \<times> sindex \<times> buffer list \<Rightarrow> server \<Rightarrow> server result" where
  "fill_result ev a sd ident r s =
     (case r of (n, si, b) \<Rightarrow>
        let s1 = upd_sp a (\<lambda>e. e\<lparr>sp_si := Some si\<rparr>) s
        in if n \<le> 0 then
             (let s2 = dealloc b True s1
              in if s_needs_helper sd then source_empty a s2
                 else if s_type sd = SOUND_FILE
                 then Inr (upd_sp a (\<lambda>e. e\<lparr>sp_si := None\<rparr>) (emit SoundClose s2))
                 else if s_type sd = SOUND_FLOW \<or> s_type sd = SOUND_CDROM
                 then source_empty a s2
                 else Inr s2)
           else
             (let s2 = upd_sp a (\<lambda>e. if sp_curr_buffer e = []
                          then e\<lparr>sp_time := ev_now ev, sp_curr_buffer := b\<rparr>
                          else e\<lparr>sp_time := ev_now ev, sp_next_buffer := b\<rparr>) s1;
                  low = (si_water_mark si - si_offset si < si_low_water_mark si)
              in if s_needs_helper sd \<and> low then Inr (emit (ReadMask (si_fd si)) s2)
                 else if s_type sd = SOUND_FLOW \<and> low
                 then Inr (emit (FlowContinue ident) (emit (Notify NOTIFY_FLOW ident) s2))
                 else if s_type sd = SOUND_CDROM \<and> low
                 then Inr (emit (ReadMask (si_fd si)) s2)
                 else Inr s2))"

text \<open>The case PLAY: read more data when a buffer is missing.\<close>

definition fill_entry :: "spool_env \<Rightarrow> nat \<Rightarrow> server \<Rightarrow> server result" where
  "fill_entry ev a = with_sp a (\<lambda>e s.
     if sp_curr_buffer e = [] \<or> (sp_next_buffer e = [] \<and> (\<exists>si \<in> set_option (sp_si e). \<not> si_eof si))
     then
       bindE (sound_at e (sp_curr_sound e)) (\<lambda>x.
       let sd = sv_sounds s x;
           b = buffer_alloc (min (s_sample_rate sd * s_output_sample_size sd) SOUND_FILL_SIZE)
                 BUFFER_REUSE (sv_pool s)
       in case sp_si e of
            None \<Rightarrow> Inl NullPointer
          | Some si \<Rightarrow> fill_result ev a sd (sp_id e) (ev_fill ev si (fst b)) (s\<lparr>sv_pool := snd b\<rparr>))
     else Inr s)"

text \<open>A playing sound without buffer and source ends here.\<close>

definition end_dead_sound :: "nat \<Rightarrow> server \<Rightarrow> server result" where
  "end_dead_sound a = with_sp a (\<lambda>e s.
     Inr (if sp_state e = SPOOL_PLAY \<and> sp_curr_buffer e = [] \<and> sp_si e = None
          then set_state a SPOOL_NEXT s else s))"

definition update_entry :: "spool_env \<Rightarrow> nat \<Rightarrow> server \<Rightarrow> server result" where
  "update_entry ev a s =
     bindE (end_dead_sound a s) (with_sp a (\<lambda>e s1.
       if sp_state e = SPOOL_SKIP \<or> sp_state e = SPOOL_NEXT
       then bindE (next_sound ev a s1) (\<lambda>(go, s2). if go then fill_entry ev a s2 else Inr s2)
       else if sp_state e = SPOOL_PLAY then fill_entry ev a s1
       else Inr s1))"

definition spool_update :: "spool_env \<Rightarrow> server \<Rightarrow> server result" where
  "spool_update ev s =
     foldE (update_entry ev) (map sp_addr (sv_spool s)) (s\<lparr>spool_needs_update := 0\<rparr>)"

section \<open>Playing samples\<close>

definition process_entry :: "spool_env \<Rightarrow> nat \<Rightarrow> server \<Rightarrow> server result" where
  "process_entry ev a = with_sp a (\<lambda>e s.
     if sp_state e = SPOOL_PLAY
     then (let r = ev_native ev e;
               s1 = dealloc (pl_released r) False s;
               again = (\<not> pl_more r \<or> pl_curr r = []
                   \<or> (pl_next r = [] \<and> (\<exists>si \<in> set_option (sp_si e). \<not> si_eof si)));
               s2 = upd_sp a (\<lambda>e. e\<lparr>sp_curr_buffer := pl_curr r, sp_next_buffer := pl_next r,
                      sp_offset := pl_offset r, sp_sample_index := pl_index r,
                      sp_state := (if pl_more r then SPOOL_PLAY else SPOOL_NEXT),
                      sp_notify_position := sp_notify_position e + 1\<rparr>) s1
           in Inr (if again then s2\<lparr>spool_needs_update := spool_needs_update s2 + 1\<rparr> else s2))
     else Inr s)"

definition spool_process :: "spool_env \<Rightarrow> server \<Rightarrow> server result" where
  "spool_process ev s = foldE (process_entry ev) (map sp_addr (sv_spool s)) s"


section \<open>Operations on the whole spool\<close>

text \<open>\<open>spool_match\<close>: a request whose first name starts with \<open>#\<close> selects by id
  (\<open>#0\<close> selects all), any other selects the entries with the same list of names.\<close>

fun match_ids :: "int \<Rightarrow> rplay_attrs list \<Rightarrow> bool result" where
  "match_ids i [] = Inr False"
| "match_ids i (a2 # as) =
     (if a_sound a2 = [] then Inl OutOfBounds
      else (let n = atoi (tl (a_sound a2))
            in if n = 0 \<or> n = i then Inr True else match_ids i as))"

fun same_sounds :: "rplay_attrs list \<Rightarrow> rplay_attrs list \<Rightarrow> bool" where
  "same_sounds [] [] = True"
| "same_sounds (a1 # as) (a2 # bs) = (a_sound a1 = a_sound a2 \<and> same_sounds as bs)"
| "same_sounds _ _ = False"

definition by_id :: "rplay_attrs list \<Rightarrow> bool" where
  "by_id as = (case as of a # _ \<Rightarrow> (case a_sound a of c # _ \<Rightarrow> c = 35 | [] \<Rightarrow> False) | [] \<Rightarrow> False)"

definition entry_matches :: "rplay_attrs list \<Rightarrow> spool_entry \<Rightarrow> bool result" where
  "entry_matches as e =
     (if sp_state e = SPOOL_NULL then Inr False
      else if by_id as then match_ids (sp_id e) as
      else bindE (the_rp e) (\<lambda>rp. Inr (same_sounds (r_attrs rp) as)))"

definition match_one :: "rplay_attrs list \<Rightarrow> (nat \<Rightarrow> server \<Rightarrow> server result) \<Rightarrow> nat \<Rightarrow> nat
     \<Rightarrow> server \<times> int \<Rightarrow> (server \<times> int) result" where
  "match_one as action client a = (\<lambda>(s, n). with_sp a (\<lambda>e s.
     bindE (entry_matches as e) (\<lambda>m.
       if m then bindE (action a (upd_sp a (\<lambda>e. e\<lparr>sp_sin := client\<rparr>) s)) (\<lambda>s1. Inr (s1, n + 1))
       else Inr (s, n))) s)"

definition spool_match :: "rplay_attrs list \<Rightarrow> (nat \<Rightarrow> server \<Rightarrow> server result) \<Rightarrow> nat
     \<Rightarrow> server \<Rightarrow> (server \<times> int) result" where
  "spool_match as action client s = foldE (match_one as action client) (map sp_addr (sv_spool s)) (s, 0)"

text \<open>The sounds of an entry: \<open>sound[0..nsounds-1]\<close>.\<close>

definition sounds_of :: "spool_entry \<Rightarrow> nat option list result" where
  "sounds_of e = bindE (the_rp e) (\<lambda>rp.
     if r_nsounds rp > SOUND_LIST_SIZE then Inl OutOfBounds
     else Inr (map (\<lambda>i. sp_sound e (int i)) [0..<nat (r_nsounds rp)]))"

definition remove_one :: "nat \<Rightarrow> nat \<Rightarrow> server \<Rightarrow> server result" where
  "remove_one x a = with_sp a (\<lambda>e s.
     if sp_state e = SPOOL_NULL then Inr s
     else bindE (sounds_of e) (\<lambda>xs. if Some x \<in> set xs then spool_done a s else Inr s))"

definition spool_remove :: "nat \<Rightarrow> server \<Rightarrow> server result" where
  "spool_remove x s = foldE (remove_one x) (map sp_addr (sv_spool s)) s"

definition still_there :: "nat \<Rightarrow> server \<Rightarrow> server result" where
  "still_there a s = with_sp a (\<lambda>_ s. Inr s) s"

text \<open>\<open>spool_ready\<close>; its loop reads \<open>sp->next\<close> after \<open>spool_play\<close>.\<close>

definition ready_one :: "spool_env \<Rightarrow> nat \<Rightarrow> nat \<Rightarrow> server \<Rightarrow> server result" where
  "ready_one ev x a s0 = bindE (with_sp a (\<lambda>e s.
     if sp_state e = SPOOL_WAIT then
       bindE (sounds_of e) (\<lambda>xs.
         if None \<in> set xs then Inl NullPointer
         else if (\<forall>y \<in> set xs. s_status (sv_sounds s (the y)) = SOUND_READY \<or> y = Some x) \<and> Some x \<in> set xs
         then spool_play ev a (fold (\<lambda>y s. emit (SoundMap (the y)) s) xs s)
         else Inr s)
     else Inr s) s0) (still_there a)"

definition spool_ready :: "spool_env \<Rightarrow> nat \<Rightarrow> server \<Rightarrow> server result" where
  "spool_ready ev x s = foldE (ready_one ev x) (map sp_addr (sv_spool s)) s"

definition upd_sound :: "nat \<Rightarrow> (sound \<Rightarrow> sound) \<Rightarrow> server \<Rightarrow> server" where
  "upd_sound x f s = s\<lparr>sv_sounds := (sv_sounds s)(x := f (sv_sounds s x))\<rparr>"

definition flow_account :: "spool_env \<Rightarrow> nat \<Rightarrow> buffer list \<Rightarrow> nat \<Rightarrow> server \<Rightarrow> server result" where
  "flow_account ev x b a = with_sp a (\<lambda>e s.
     case sp_si e of
       None \<Rightarrow> Inl NullPointer
     | Some si \<Rightarrow>
         (let w = si_water_mark si + buffer_nbytes b;
              s1 = upd_sp a (\<lambda>e. e\<lparr>sp_si := Some (si\<lparr>si_water_mark := w\<rparr>)\<rparr>) s;
              s2 = upd_sound x (\<lambda>sd. sd\<lparr>s_samples := ev_samples ev x w\<rparr>) s1
          in if sp_state e = SPOOL_WAIT then spool_flow_continue a s2 else Inr s2))"

text \<open>\<open>spool_flow_insert\<close>; \<open>False\<close> is the return value -1.  \<open>b\<close> is not empty.\<close>

definition spool_flow_insert ::
  "spool_env \<Rightarrow> nat \<Rightarrow> buffer list \<Rightarrow> server \<Rightarrow> (bool \<times> server) result" where
  "spool_flow_insert ev a b = with_sp a (\<lambda>e s.
     bindE (sound_at e (sp_curr_sound e)) (\<lambda>x.
     let s1 = upd_sound x (\<lambda>sd. sd\<lparr>s_flow := s_flow sd @ b\<rparr>) s
     in if s_status (sv_sounds s1 x) = SOUND_NOT_READY
        then (let s2 = emit (SoundMap x) (upd_sound x (\<lambda>sd. sd\<lparr>s_status := SOUND_READY\<rparr>) s1)
              in if \<not> ev_map ev x
                 then bindE (spool_remove x s2) (\<lambda>s3. Inr (False, s3))
                 else bindE (spool_ready ev x s2) (\<lambda>s3.
                        bindE (flow_account ev x b a s3) (\<lambda>s4. Inr (True, s4))))
        else bindE (flow_account ev x b a s1) (\<lambda>s2. Inr (True, s2))))"

definition spool_find :: "int \<Rightarrow> server \<Rightarrow> nat option" where
  "spool_find i s = map_option sp_addr (find (\<lambda>e. sp_id e = i) (sv_spool s))"

definition spool_find_pid :: "int \<Rightarrow> server \<Rightarrow> nat option" where
  "spool_find_pid p s = map_option sp_addr
     (find (\<lambda>e. case sp_si e of None \<Rightarrow> False | Some si \<Rightarrow> si_pid si = p) (sv_spool s))"

text \<open>\<open>spool_cleanup\<close>; its loop reads \<open>sp->next\<close> after \<open>spool_done\<close>.\<close>

definition cleanup_one :: "nat \<Rightarrow> server \<Rightarrow> server result" where
  "cleanup_one a s0 = bindE (with_sp a (\<lambda>e s.
     if sp_state e = SPOOL_WAIT
     then bindE (sound_at e (sp_curr_sound e)) (\<lambda>x.
            if s_type (sv_sounds s x) = SOUND_FLOW then spool_done a s else Inr s)
     else Inr s) s0) (still_there a)"

definition spool_cleanup :: "server \<Rightarrow> server result" where
  "spool_cleanup s = foldE cleanup_one (map sp_addr (sv_spool s)) s"

section \<open>Setting attributes of an entry\<close>

definition upd_rp :: "(rplay \<Rightarrow> rplay) \<Rightarrow> spool_entry \<Rightarrow> spool_entry" where
  "upd_rp f e = e\<lparr>sp_rp := map_option f (sp_rp e)\<rparr>"

definition upd_curr :: "(rplay_attrs \<Rightarrow> rplay_attrs) \<Rightarrow> spool_entry \<Rightarrow> spool_entry" where
  "upd_curr f e = upd_rp (\<lambda>rp. rp\<lparr>r_attrs := (r_attrs rp)[sp_curr_attrs e :=
     f (r_attrs rp ! sp_curr_attrs e)]\<rparr>) e"

definition set_curr :: "(rplay_attrs \<Rightarrow> rplay_attrs) \<Rightarrow> nat \<Rightarrow> server \<Rightarrow> server result" where
  "set_curr f a = with_sp a (\<lambda>e s. bindE (curr_attrs e) (\<lambda>_. Inr (upd_sp a (upd_curr f) s)))"

definition spool_set_count :: "int \<Rightarrow> nat \<Rightarrow> server \<Rightarrow> server result" where
  "spool_set_count n a s = bindE (set_curr (\<lambda>att. att\<lparr>a_count := n\<rparr>) a s)
     (\<lambda>s. Inr (upd_sp a (\<lambda>e. e\<lparr>sp_curr_count := n\<rparr>) s))"

definition spool_set_list_count :: "int \<Rightarrow> nat \<Rightarrow> server \<Rightarrow> server result" where
  "spool_set_list_count n a = with_sp a (\<lambda>e s. bindE (the_rp e) (\<lambda>_.
     Inr (upd_sp a (\<lambda>e. upd_rp (\<lambda>rp. rp\<lparr>r_count := n\<rparr>) (e\<lparr>sp_list_count := n\<rparr>)) s)))"

definition spool_set_priority :: "int \<Rightarrow> nat \<Rightarrow> server \<Rightarrow> server result" where
  "spool_set_priority n a = with_sp a (\<lambda>e s. bindE (the_rp e) (\<lambda>_.
     spool_setprio (upd_sp a (upd_rp (\<lambda>rp. rp\<lparr>r_priority := n\<rparr>)) s)))"

definition spool_set_volume :: "int \<Rightarrow> nat \<Rightarrow> server \<Rightarrow> server result" where
  "spool_set_volume v = set_curr (\<lambda>att. att\<lparr>a_volume_l := v, a_volume_r := v\<rparr>)"

definition spool_set_channel_volume :: "nat \<Rightarrow> int \<Rightarrow> nat \<Rightarrow> server \<Rightarrow> server result" where
  "spool_set_channel_volume channel v =
     set_curr (\<lambda>att. if channel = 0 then att\<lparr>a_volume_l := v\<rparr> else att\<lparr>a_volume_r := v\<rparr>)"

definition spool_set_client_data :: "cstring \<Rightarrow> nat \<Rightarrow> server \<Rightarrow> server result" where
  "spool_set_client_data d = set_curr (\<lambda>att. att\<lparr>a_client_data := d\<rparr>)"

end
