(* ===== verification/SpoolInv.thy ===== *)
theory SpoolInv
  imports Spool
begin

text \<open>
  The counting invariant of the spool: \<open>spool_size\<close> is the length of the list,
  \<open>spool_nplaying\<close> and \<open>spool_npaused\<close> count the entries the state machine holds in
  the playing and paused states, for every operation of theory \<open>Spool\<close>.  The proofs
  see an entry only through its key (address, state, no automatic pause pending, no
  packet).
\<close>

section \<open>Keys\<close>

type_synonym entry_key = "nat \<times> spool_state \<times> bool \<times> bool"

definition key_of :: "spool_entry \<Rightarrow> entry_key" where
  "key_of e = (sp_addr e, sp_state e, sp_auto_pause e = 0, sp_rp e = None)"

definition keys :: "server \<Rightarrow> entry_key list" where
  "keys s = map key_of (sv_spool s)"

text \<open>Entries that \<open>spool_nplaying\<close> counts: PLAY, and NEXT or SKIP when the sound was
  not paused before.\<close>

definition playing :: "entry_key \<Rightarrow> bool" where
  "playing k = (case k of (a, st, np, r) \<Rightarrow>
     st = SPOOL_PLAY \<or> (st = SPOOL_NEXT \<or> st = SPOOL_SKIP) \<and> np)"

definition paused :: "entry_key \<Rightarrow> bool" where
  "paused k = (case k of (a, st, np, r) \<Rightarrow> st = SPOOL_PAUSE)"

definition key_ok :: "entry_key \<Rightarrow> bool" where
  "key_ok k = (case k of (a, st, np, r) \<Rightarrow> (np \<or> st = SPOOL_SKIP) \<and> (st \<noteq> SPOOL_NULL \<longrightarrow> \<not> r))"

definition count_of :: "('a \<Rightarrow> bool) \<Rightarrow> 'a list \<Rightarrow> int" where
  "count_of P ks = int (length (filter P ks))"

definition spool_ok :: "server \<Rightarrow> bool" where
  "spool_ok s \<longleftrightarrow> distinct (map fst (keys s)) \<and> (\<forall>k \<in> set (keys s). fst k < sv_fresh s \<and> key_ok k)
     \<and> spool_size s = int (length (sv_spool s))
     \<and> spool_nplaying s = count_of playing (keys s)
     \<and> spool_npaused s = count_of paused (keys s)"

lemma count_of_simps [simp]:
  "count_of P [] = 0" "count_of P (k # ks) = of_bool (P k) + count_of P ks"
  by (simp_all add: count_of_def)

lemma count_of_nonneg: "0 \<le> count_of P ks"
  by (simp add: count_of_def)

definition upd_key :: "nat \<Rightarrow> (entry_key \<Rightarrow> entry_key) \<Rightarrow> entry_key list \<Rightarrow> entry_key list" where
  "upd_key a f ks = map (\<lambda>k. if fst k = a then f k else k) ks"

lemma count_of_absent: "a \<notin> fst ` set ks \<Longrightarrow> count_of P (upd_key a f ks) = count_of P ks"
  by (induction ks) (auto simp: upd_key_def)

lemma count_of_upd:
  assumes "distinct (map fst ks)" "k \<in> set ks" "fst k = a"
  shows "count_of P (upd_key a f ks) = count_of P ks - of_bool (P k) + of_bool (P (f k))"
  using assms
proof (induction ks)
  case (Cons x xs)
  show ?case
  proof (cases "fst x = a")
    case True
    then have n: "a \<notin> fst ` set xs" using Cons.prems(1) by auto
    moreover have "x = k" using Cons.prems(2,3) n by (auto simp: image_iff)
    ultimately have "x = k" "a \<notin> fst ` set xs" by auto
    then show ?thesis
      using count_of_absent [of a xs P f] True by (simp add: upd_key_def)
  next
    case False
    then show ?thesis using Cons by (auto simp: upd_key_def)
  qed
qed simp

lemma count_of_remove:
  assumes "distinct (map fst ks)" "k \<in> set ks" "fst k = a"
  shows "count_of P (filter (\<lambda>k. fst k \<noteq> a) ks) = count_of P ks - of_bool (P k)"
  using assms
proof (induction ks)
  case (Cons x xs)
  show ?case
  proof (cases "fst x = a")
    case True
    then have n: "a \<notin> fst ` set xs" using Cons.prems(1) by auto
    moreover have "x = k" using Cons.prems(2,3) n by (auto simp: image_iff)
    ultimately have "x = k" "a \<notin> fst ` set xs" by auto
    then have "filter (\<lambda>k. fst k \<noteq> a) xs = xs" by (intro filter_True) auto
    then show ?thesis using True \<open>x = k\<close> by simp
  next
    case False
    then show ?thesis using Cons by auto
  qed
qed simp

lemma length_remove:
  assumes "distinct (map fst ks)" "k \<in> set ks" "fst k = a"
  shows "int (length (filter (\<lambda>k. fst k \<noteq> a) ks)) = int (length ks) - 1"
  using count_of_remove [OF assms, of "\<lambda>_. True"] by (simp add: count_of_def)

lemma set_upd_key: "k' \<in> set (upd_key a f ks) \<Longrightarrow> (k' \<in> set ks \<and> fst k' \<noteq> a) \<or> (\<exists>k \<in> set ks. fst k = a \<and> k' = f k)"
  by (auto simp: upd_key_def)

lemma map_fst_upd_key: "(\<And>k. fst k = a \<Longrightarrow> fst (f k) = a) \<Longrightarrow> map fst (upd_key a f ks) = map fst ks"
  by (auto simp: upd_key_def)

section \<open>The view of a state the invariant depends on\<close>

definition quiet :: "server \<Rightarrow> server \<Rightarrow> bool" where
  "quiet s s' \<longleftrightarrow> keys s' = keys s \<and> spool_size s' = spool_size s \<and> sv_fresh s' = sv_fresh s
     \<and> spool_nplaying s' = spool_nplaying s \<and> spool_npaused s' = spool_npaused s"

lemma quiet_refl [simp]: "quiet s s"
  by (simp add: quiet_def)

lemma quiet_trans: "quiet s s1 \<Longrightarrow> quiet s1 s2 \<Longrightarrow> quiet s s2"
  by (simp add: quiet_def)

lemma quiet_ok: "quiet s s' \<Longrightarrow> spool_ok s \<Longrightarrow> spool_ok s'"
  unfolding quiet_def spool_ok_def keys_def by (metis length_map)

lemma keys_updates [simp]:
  "keys (s\<lparr>spool_size := n\<rparr>) = keys s" "keys (s\<lparr>spool_nplaying := n\<rparr>) = keys s"
  "keys (s\<lparr>spool_npaused := n\<rparr>) = keys s" "keys (s\<lparr>spool_prio := n\<rparr>) = keys s"
  "keys (s\<lparr>spool_needs_update := n\<rparr>) = keys s" "keys (s\<lparr>spool_last_id := n\<rparr>) = keys s"
  "keys (s\<lparr>sv_sounds := m\<rparr>) = keys s" "keys (s\<lparr>sv_pool := p\<rparr>) = keys s"
  "keys (s\<lparr>sv_fresh := a\<rparr>) = keys s" "keys (s\<lparr>sv_trace := t\<rparr>) = keys s"
  by (simp_all add: keys_def)

lemma upd_sp_fields [simp]:
  "spool_size (upd_sp a g s) = spool_size s" "spool_nplaying (upd_sp a g s) = spool_nplaying s"
  "spool_npaused (upd_sp a g s) = spool_npaused s" "sv_fresh (upd_sp a g s) = sv_fresh s"
  by (simp_all add: upd_sp_def)

lemma emit_fields [simp]:
  "spool_size (emit c s) = spool_size s" "spool_nplaying (emit c s) = spool_nplaying s"
  "spool_npaused (emit c s) = spool_npaused s" "sv_fresh (emit c s) = sv_fresh s"
  "sv_spool (emit c s) = sv_spool s" "keys (emit c s) = keys s"
  by (simp_all add: emit_def)

lemma notify_fields [simp]:
  "spool_size (notify k e s) = spool_size s" "spool_nplaying (notify k e s) = spool_nplaying s"
  "spool_npaused (notify k e s) = spool_npaused s" "sv_fresh (notify k e s) = sv_fresh s"
  "sv_spool (notify k e s) = sv_spool s" "keys (notify k e s) = keys s"
  by (simp_all add: notify_def)

lemma dealloc_fields [simp]:
  "spool_size (dealloc b f s) = spool_size s" "spool_nplaying (dealloc b f s) = spool_nplaying s"
  "spool_npaused (dealloc b f s) = spool_npaused s" "sv_fresh (dealloc b f s) = sv_fresh s"
  "sv_spool (dealloc b f s) = sv_spool s" "keys (dealloc b f s) = keys s"
  by (simp_all add: dealloc_def)

lemma close_si_fields [simp]:
  "spool_size (close_si e s) = spool_size s" "spool_nplaying (close_si e s) = spool_nplaying s"
  "spool_npaused (close_si e s) = spool_npaused s" "sv_fresh (close_si e s) = sv_fresh s"
  "sv_spool (close_si e s) = sv_spool s" "keys (close_si e s) = keys s"
  by (simp_all add: close_si_def split: option.splits)

lemma keys_upd_sp:
  "(\<And>e. sp_addr e = a \<Longrightarrow> key_of (g e) = f (key_of e)) \<Longrightarrow> keys (upd_sp a g s) = upd_key a f (keys s)"
  by (auto simp: keys_def upd_sp_def upd_key_def key_of_def)

lemma keys_upd_sp_same:
  "(\<And>e. sp_addr e = a \<Longrightarrow> key_of (g e) = key_of e) \<Longrightarrow> keys (upd_sp a g s) = keys s"
  by (subst keys_upd_sp [where f = id]) (auto simp: upd_key_def intro: map_idI)

text \<open>Looking an entry up.\<close>

definition found :: "nat \<Rightarrow> spool_entry \<Rightarrow> server \<Rightarrow> bool" where
  "found a e s \<longleftrightarrow> find (\<lambda>e. sp_addr e = a) (sv_spool s) = Some e"

lemma with_sp_Inr [simp]:
  "with_sp a f s = Inr r \<longleftrightarrow> (\<exists>e. found a e s \<and> f e s = Inr r)"
  by (auto simp: with_sp_def found_def split: option.splits)

lemma with_sp_found: "found a e s \<Longrightarrow> with_sp a f s = f e s"
  by (simp add: with_sp_def found_def)

lemma found_unique: "found a e s \<Longrightarrow> found a e' s \<Longrightarrow> e' = e"
  by (simp add: found_def)

lemma found_key: "found a e s \<Longrightarrow> sp_addr e = a \<and> key_of e \<in> set (keys s) \<and> e \<in> set (sv_spool s)"
  by (auto simp: found_def find_Some_iff keys_def)

lemma find_map_upd:
  "(\<And>e. sp_addr e = a \<Longrightarrow> sp_addr (g e) = a) \<Longrightarrow>
   find (\<lambda>e. sp_addr e = a) (map (\<lambda>e. if sp_addr e = a then g e else e) es)
     = map_option g (find (\<lambda>e. sp_addr e = a) es)"
  by (induction es) auto

lemma found_upd_sp:
  assumes "\<And>e. sp_addr e = a \<Longrightarrow> sp_addr (g e) = a"
  shows "found a e' (upd_sp a g s) \<longleftrightarrow> (\<exists>e. found a e s \<and> e' = g e)"
  using find_map_upd [of a g "sv_spool s", OF assms] by (auto simp: found_def upd_sp_def)

lemma found_updates [simp]:
  "found a e (s\<lparr>spool_size := n\<rparr>) = found a e s" "found a e (s\<lparr>spool_nplaying := n\<rparr>) = found a e s"
  "found a e (s\<lparr>spool_npaused := n\<rparr>) = found a e s" "found a e (s\<lparr>spool_prio := n\<rparr>) = found a e s"
  "found a e (s\<lparr>spool_needs_update := n\<rparr>) = found a e s" "found a e (s\<lparr>sv_sounds := m\<rparr>) = found a e s"
  "found a e (s\<lparr>sv_pool := p\<rparr>) = found a e s" "found a e (s\<lparr>sv_trace := t\<rparr>) = found a e s"
  "found a e (s\<lparr>spool_last_id := n\<rparr>) = found a e s"
  "found a e (emit c s) = found a e s" "found a e (notify k e2 s) = found a e s"
  "found a e (dealloc b f s) = found a e s" "found a e (close_si e2 s) = found a e s"
  by (simp_all add: found_def)

section \<open>How a step preserves the invariant\<close>

text \<open>An entry moves from key \<open>k\<close> to \<open>f k\<close> and the counters follow.\<close>

lemma move_ok:
  assumes "spool_ok s" "k \<in> set (keys s)" "fst k = a" "fst (f k) = a" "key_ok (f k)"
    "keys s' = upd_key a f (keys s)" "spool_size s' = spool_size s" "sv_fresh s' = sv_fresh s"
    "spool_nplaying s' = spool_nplaying s - of_bool (playing k) + of_bool (playing (f k))"
    "spool_npaused s' = spool_npaused s - of_bool (paused k) + of_bool (paused (f k))"
  shows "spool_ok s'"
proof -
  have d: "distinct (map fst (keys s))" using assms(1) by (simp add: spool_ok_def)
  have one: "\<And>k'. k' \<in> set (keys s) \<Longrightarrow> fst k' = a \<Longrightarrow> k' = k"
    using d assms(2,3) by (metis distinct_map inj_onD)
  have u: "upd_key a f (keys s) = upd_key a (\<lambda>_. f k) (keys s)"
    using one by (auto simp: upd_key_def)
  have m: "map fst (keys s') = map fst (keys s)"
    unfolding assms(6) u by (rule map_fst_upd_key) (use assms(4) in simp)
  have len: "length (sv_spool s') = length (sv_spool s)"
    using arg_cong [OF m, of length] by (simp add: keys_def)
  have ks: "fst k' < sv_fresh s' \<and> key_ok k'" if "k' \<in> set (keys s')" for k'
  proof -
    have ok: "\<forall>k \<in> set (keys s). fst k < sv_fresh s \<and> key_ok k"
      using assms(1) by (simp add: spool_ok_def)
    have "(k' \<in> set (keys s) \<and> fst k' \<noteq> a) \<or> k' = f k"
      using set_upd_key [of k' a "\<lambda>_. f k" "keys s"] that unfolding assms(6) u by auto
    moreover have "fst (f k) < sv_fresh s" using ok assms(2-4) by metis
    ultimately show ?thesis using ok assms(5,8) by auto
  qed
  have "spool_nplaying s' = count_of playing (keys s')" "spool_npaused s' = count_of paused (keys s')"
    using assms(1,9,10) count_of_upd [OF d assms(2,3), of _ f]
    unfolding assms(6) spool_ok_def by auto
  then show ?thesis
    using ks m d len assms(1,7) by (simp add: spool_ok_def)
qed

text \<open>An entry is removed.\<close>

lemma remove_ok:
  assumes "spool_ok s" "k \<in> set (keys s)" "fst k = a"
    "keys s' = filter (\<lambda>k. fst k \<noteq> a) (keys s)" "spool_size s' = spool_size s - 1"
    "sv_fresh s' = sv_fresh s"
    "spool_nplaying s' = spool_nplaying s - of_bool (playing k)"
    "spool_npaused s' = spool_npaused s - of_bool (paused k)"
  shows "spool_ok s'"
proof -
  have d: "distinct (map fst (keys s))" using assms(1) by (simp add: spool_ok_def)
  have "distinct (map fst (keys s'))" unfolding assms(4) using d by (simp add: distinct_map_filter)
  moreover have "int (length (sv_spool s')) = int (length (sv_spool s)) - 1"
    using length_remove [OF d assms(2,3)] assms(4)
    by (metis keys_def length_map)
  ultimately show ?thesis
    using assms count_of_remove [OF d assms(2,3)] by (auto simp: spool_ok_def)
qed


section \<open>Effects of the operations\<close>

lemma spool_setprio_effect:
  "spool_setprio s = Inr s' \<Longrightarrow> \<exists>m. s' = s\<lparr>spool_prio := m\<rparr>"
  by (auto simp: spool_setprio_def)

lemma quiet_updates [simp]:
  "quiet s (s\<lparr>spool_prio := n\<rparr>)" "quiet s (s\<lparr>spool_needs_update := n\<rparr>)"
  "quiet s (s\<lparr>sv_sounds := m\<rparr>)" "quiet s (s\<lparr>spool_last_id := n\<rparr>)" "quiet s (s\<lparr>sv_pool := p\<rparr>)"
  "quiet s (emit c s)" "quiet s (notify k e s)" "quiet s (dealloc b f s)" "quiet s (close_si e s)"
  by (simp_all add: quiet_def)

lemma quiet_upd_sp:
  "(\<And>e. sp_addr e = a \<Longrightarrow> key_of (g e) = key_of e) \<Longrightarrow> quiet s (upd_sp a g s)"
  by (simp add: quiet_def keys_upd_sp_same)

lemma spool_setprio_quiet: "spool_setprio s = Inr s' \<Longrightarrow> quiet s s' \<and> sv_spool s' = sv_spool s"
  using spool_setprio_effect by fastforce

text \<open>The entry with its position notification off.\<close>

definition position_off :: "spool_entry \<Rightarrow> spool_entry" where
  "position_off e = (if sp_notify_position e \<noteq> 0 then e\<lparr>sp_notify_position := 0\<rparr> else e)"

lemma position_off_fields [simp]:
  "sp_addr (position_off e) = sp_addr e" "sp_state (position_off e) = sp_state e"
  "sp_auto_pause (position_off e) = sp_auto_pause e" "sp_rp (position_off e) = sp_rp e"
  "key_of (position_off e) = key_of e" "sp_si (position_off e) = sp_si e"
  by (simp_all add: position_off_def key_of_def)

lemma notify_position_off_effect:
  assumes "notify_position_off a s = Inr s'" "found a e s"
  shows "quiet s s' \<and> found a (position_off e) s'"
proof -
  have s': "s' = (if sp_notify_position e \<noteq> 0
      then upd_sp a (\<lambda>e. e\<lparr>sp_notify_position := 0\<rparr>) (notify NOTIFY_POSITION e s) else s)"
    using assms found_unique by (fastforce simp: notify_position_off_def)
  have "quiet (notify NOTIFY_POSITION e s) (upd_sp a (\<lambda>e. e\<lparr>sp_notify_position := 0\<rparr>) (notify NOTIFY_POSITION e s))"
    by (rule quiet_upd_sp) (simp add: key_of_def)
  then have "quiet s s'"
    unfolding s' by (auto simp: quiet_def)
  moreover have "found a (position_off e) s'"
    unfolding s' using assms(2) by (auto simp: position_off_def found_upd_sp)
  ultimately show ?thesis by simp
qed

lemma clean_sounds_quiet: "clean_sounds e s = Inr s' \<Longrightarrow> quiet s s' \<and> sv_spool s' = sv_spool s"
proof -
  assume a: "clean_sounds e s = Inr s'"
  have "quiet s s' \<and> sv_spool s' = sv_spool s"
    if "foldE (\<lambda>i s. bindE (sound_at e i) (\<lambda>x. Inr (emit (SoundClean x) s))) xs s = Inr s'" for xs
    by (rule foldE_invariant [OF _ _ that, where P = "\<lambda>t. quiet s t \<and> sv_spool t = sv_spool s"])
      (auto intro: quiet_trans)
  then show ?thesis using a by (auto simp: clean_sounds_def split: option.splits)
qed

definition null_key :: "nat \<Rightarrow> entry_key \<Rightarrow> entry_key" where
  "null_key a k = (a, SPOOL_NULL, True, True)"

lemma spool_reset_effect:
  assumes "spool_reset a s = Inr s'" "found a e s"
  shows "keys s' = upd_key a (null_key a) (keys s) \<and> spool_size s' = spool_size s
    \<and> sv_fresh s' = sv_fresh s \<and> spool_nplaying s' = spool_nplaying s
    \<and> spool_npaused s' = spool_npaused s
    \<and> (\<exists>e'. found a e' s' \<and> sp_state e' = SPOOL_NULL \<and> sp_rp e' = None \<and> sp_auto_pause e' = 0)"
proof -
  let ?s1 = "upd_sp a (\<lambda>e. e\<lparr>sp_state := SPOOL_NULL\<rparr>) s"
  let ?s2 = "if sp_id e > 0 then emit (FlowContinue (sp_id e)) ?s1 else ?s1"
  obtain s3 where s3: "clean_sounds e ?s2 = Inr s3"
    "spool_setprio (upd_sp a reset_entry (close_si e (dealloc (sp_next_buffer e) True
       (dealloc (sp_curr_buffer e) True s3)))) = Inr s'"
    using assms found_unique unfolding spool_reset_def Let_def by fastforce
  have q: "quiet ?s2 s3" "sv_spool s3 = sv_spool ?s2"
    using clean_sounds_quiet [OF s3(1)] by auto
  let ?s6 = "close_si e (dealloc (sp_next_buffer e) True (dealloc (sp_curr_buffer e) True s3))"
  have r: "quiet (upd_sp a reset_entry ?s6) s'" "sv_spool s' = sv_spool (upd_sp a reset_entry ?s6)"
    using spool_setprio_quiet [OF s3(2)] by auto
  have sp: "sv_spool s' = map (\<lambda>e. if sp_addr e = a then reset_entry (e\<lparr>sp_state := SPOOL_NULL\<rparr>) else e) (sv_spool s)"
    using r(2) q(2) by (auto simp: upd_sp_def reset_entry_def)
  have "keys s' = upd_key a (null_key a) (keys s)"
    unfolding keys_def sp by (auto simp: upd_key_def key_of_def null_key_def reset_entry_def)
  moreover have "found a (reset_entry (e\<lparr>sp_state := SPOOL_NULL\<rparr>)) s'"
    using assms(2) find_map_upd [of a "\<lambda>e. reset_entry (e\<lparr>sp_state := SPOOL_NULL\<rparr>)" "sv_spool s"]
    by (simp add: found_def sp reset_entry_def)
  ultimately show ?thesis
    using q(1) r(1) by (auto simp: quiet_def reset_entry_def intro!: exI)
qed

lemma filter_upd_key:
  "(\<And>k. fst k = a \<Longrightarrow> fst (f k) = a) \<Longrightarrow>
   filter (\<lambda>k. fst k \<noteq> a) (upd_key a f ks) = filter (\<lambda>k. fst k \<noteq> a) ks"
  by (induction ks) (auto simp: upd_key_def)

lemma spool_destroy_effect:
  assumes "spool_destroy a s = Inr s'" "found a e s"
  shows "keys s' = filter (\<lambda>k. fst k \<noteq> a) (keys s) \<and> spool_size s' = spool_size s - 1
    \<and> sv_fresh s' = sv_fresh s \<and> spool_nplaying s' = spool_nplaying s
    \<and> spool_npaused s' = spool_npaused s"
proof -
  obtain s1 where s1: "spool_reset a s = Inr s1"
    "s' = s1\<lparr>sv_spool := filter (\<lambda>e. sp_addr e \<noteq> a) (sv_spool s1), spool_size := spool_size s1 - 1\<rparr>"
    using assms(1) by (auto simp: spool_destroy_def)
  have "keys s' = filter (\<lambda>k. fst k \<noteq> a) (keys s1)"
    unfolding s1(2) keys_def by (auto simp: filter_map o_def key_of_def)
  then show ?thesis
    using spool_reset_effect [OF s1(1) assms(2)] s1(2)
    by (auto simp: filter_upd_key null_key_def)
qed

text \<open>An entry that leaves the spool together with its share of the counters.\<close>

definition counted :: "spool_entry \<Rightarrow> int \<times> int" where
  "counted e = (of_bool (playing (key_of e)), of_bool (paused (key_of e)))"

lemma destroy_ok:
  assumes "spool_ok s" "found a e s" "found a e' t" "spool_destroy a t = Inr s'" "keys t = keys s"
    "spool_size t = spool_size s" "sv_fresh t = sv_fresh s"
    "spool_nplaying t = spool_nplaying s - of_bool (playing (key_of e))"
    "spool_npaused t = spool_npaused s - of_bool (paused (key_of e))"
  shows "spool_ok s'"
  using spool_destroy_effect [OF assms(4,3)] found_key [OF assms(2)] assms
  by (intro remove_ok [OF assms(1), of "key_of e" a]) (auto simp: key_of_def)

lemma active_playing:
  "sp_state e = SPOOL_PLAY \<Longrightarrow> playing (key_of e)" "sp_state e = SPOOL_PAUSE \<Longrightarrow> \<not> playing (key_of e)"
  "sp_state e = SPOOL_WAIT \<Longrightarrow> \<not> playing (key_of e)" "sp_state e = SPOOL_NULL \<Longrightarrow> \<not> playing (key_of e)"
  "paused (key_of e) \<longleftrightarrow> sp_state e = SPOOL_PAUSE"
  "sp_state e = SPOOL_NEXT \<or> sp_state e = SPOOL_SKIP \<Longrightarrow> playing (key_of e) \<longleftrightarrow> sp_auto_pause e = 0"
  by (auto simp: playing_def paused_def key_of_def)

lemma uncount_fields:
  "sp_state e \<in> {SPOOL_PLAY, SPOOL_PAUSE, SPOOL_WAIT} \<Longrightarrow>
    spool_nplaying (uncount e s) = spool_nplaying s - of_bool (playing (key_of e))
    \<and> spool_npaused (uncount e s) = spool_npaused s - of_bool (paused (key_of e))"
  "keys (uncount e s) = keys s" "spool_size (uncount e s) = spool_size s"
  "sv_fresh (uncount e s) = sv_fresh s" "found a e2 (uncount e s) = found a e2 s"
  by (auto simp: uncount_def active_playing)

text \<open>The pattern of \<open>spool_stop\<close> and \<open>spool_done\<close>: uncount, notify, destroy.\<close>

lemma retire_ok:
  assumes "spool_ok s" "found a e s" "sp_state e \<in> {SPOOL_PLAY, SPOOL_PAUSE, SPOOL_WAIT}"
    "notify_position_off a (uncount e s) = Inr s1" "quiet s1 t" "sv_spool t = sv_spool s1"
    "spool_destroy a t = Inr s'"
  shows "spool_ok s'"
proof -
  have f: "found a e (uncount e s)" using assms(2) by (simp add: uncount_fields)
  have q: "quiet (uncount e s) s1" "found a (position_off e) s1"
    using notify_position_off_effect [OF assms(4) f] by auto
  have "found a (position_off e) t" using q(2) assms(6) by (simp add: found_def)
  then show ?thesis
    using destroy_ok [OF assms(1,2) _ assms(7)] q(1) assms(5) uncount_fields(1) [OF assms(3), of s]
    by (auto simp: quiet_def uncount_fields(2-4))
qed

lemmas retire_done = retire_ok [where t = "notify NOTIFY_DONE _ _", simplified]
  retire_ok [where t = "notify NOTIFY_DONE _ (notify NOTIFY_STOP _ _)", simplified]

lemma spool_stop_ok: "spool_ok s \<Longrightarrow> spool_stop a s = Inr s' \<Longrightarrow> spool_ok s'"
  by (auto simp: spool_stop_def quiet_def split: if_splits dest: retire_done)

lemma spool_done_ok: "spool_ok s \<Longrightarrow> spool_done a s = Inr s' \<Longrightarrow> spool_ok s'"
  by (auto simp: spool_done_def key_of_def quiet_def split: if_splits option.splits
      dest: retire_done intro: quiet_ok [OF quiet_upd_sp])


definition state_key :: "spool_state \<Rightarrow> entry_key \<Rightarrow> entry_key" where
  "state_key st k = (fst k, st, snd (snd k))"

lemma keys_set_state: "keys (set_state a st s) = upd_key a (state_key st) (keys s)"
  unfolding set_state_def by (rule keys_upd_sp) (simp add: key_of_def state_key_def)

lemma set_state_fields [simp]:
  "spool_size (set_state a st s) = spool_size s" "spool_nplaying (set_state a st s) = spool_nplaying s"
  "spool_npaused (set_state a st s) = spool_npaused s" "sv_fresh (set_state a st s) = sv_fresh s"
  by (simp_all add: set_state_def)

lemma found_set_state: "found a e s \<Longrightarrow> found a (e\<lparr>sp_state := st\<rparr>) (set_state a st s)"
  unfolding set_state_def by (subst found_upd_sp) auto

text \<open>Properties of an entry of a well-formed spool.\<close>

lemma entry_ok:
  assumes "spool_ok s" "found a e s"
  shows "sp_auto_pause e = 0 \<or> sp_state e = SPOOL_SKIP" "sp_state e \<noteq> SPOOL_NULL \<Longrightarrow> sp_rp e \<noteq> None"
  using assms found_key [OF assms(2)] by (auto simp: spool_ok_def key_ok_def key_of_def)

text \<open>A change of state of one entry with the counters adjusted.\<close>

lemma set_state_ok:
  assumes "spool_ok s" "found a e s" "keys s' = upd_key a (state_key st) (keys s)"
    "spool_size s' = spool_size s" "sv_fresh s' = sv_fresh s"
    "sp_auto_pause e = 0 \<or> st = SPOOL_SKIP" "sp_state e \<noteq> SPOOL_NULL"
    "spool_nplaying s' = spool_nplaying s - of_bool (playing (key_of e)) + of_bool (playing (state_key st (key_of e)))"
    "spool_npaused s' = spool_npaused s - of_bool (sp_state e = SPOOL_PAUSE) + of_bool (st = SPOOL_PAUSE)"
  shows "spool_ok s'"
proof (rule move_ok [OF assms(1), of "key_of e" a "state_key st"])
  show "key_of e \<in> set (keys s)" "fst (key_of e) = a" "fst (state_key st (key_of e)) = a"
    using found_key [OF assms(2)] by (auto simp: key_of_def state_key_def)
  show "key_ok (state_key st (key_of e))"
    using assms(6,7) entry_ok [OF assms(1,2)] by (auto simp: key_ok_def state_key_def key_of_def)
qed (use assms in \<open>auto simp: paused_def key_of_def state_key_def\<close>)

lemma playing_state_key: "playing (state_key st (key_of e)) \<longleftrightarrow>
  st = SPOOL_PLAY \<or> (st = SPOOL_NEXT \<or> st = SPOOL_SKIP) \<and> sp_auto_pause e = 0"
  by (auto simp: playing_def state_key_def key_of_def)

lemma spool_pause_ok:
  assumes "spool_ok s" "spool_pause a s = Inr s'"
  shows "spool_ok s'"
proof -
  obtain e where e: "found a e s" using assms(2) by (auto simp: spool_pause_def)
  show ?thesis
  proof (cases "sp_state e = SPOOL_PLAY")
    case True
    let ?s2 = "(set_state a SPOOL_PAUSE s)\<lparr>spool_nplaying := spool_nplaying s - 1, spool_npaused := spool_npaused s + 1\<rparr>"
    obtain s3 where s3: "notify_position_off a ?s2 = Inr s3" "s' = notify NOTIFY_PAUSE e s3"
      using assms(2) True
      by (auto simp: spool_pause_def with_sp_found [OF e] Let_def simp del: with_sp_Inr)
    have "found a (e\<lparr>sp_state := SPOOL_PAUSE\<rparr>) ?s2" using found_set_state [OF e] by simp
    then have "quiet ?s2 s'"
      using notify_position_off_effect [OF s3(1)] s3(2) by (auto simp: quiet_def)
    moreover have "spool_ok ?s2"
      using entry_ok [OF assms(1) e] True
      by (intro set_state_ok [OF assms(1) e, of _ SPOOL_PAUSE])
        (auto simp: keys_set_state active_playing playing_state_key)
    ultimately show ?thesis using quiet_ok by blast
  next
    case False
    then show ?thesis
      using assms by (auto simp: spool_pause_def with_sp_found [OF e] simp del: with_sp_Inr)
  qed
qed

lemma one_entry_ok:
  assumes "spool_ok s" "with_sp a f s = Inr s'" "\<And>e. found a e s \<Longrightarrow> f e s = Inr s' \<Longrightarrow> spool_ok s'"
  shows "spool_ok s'"
  using assms by auto

lemma spool_continue_ok:
  assumes "spool_ok s" "spool_continue ev a s = Inr s'"
  shows "spool_ok s'"
  using assms(2) unfolding spool_continue_def
proof (rule one_entry_ok [OF assms(1)])
  fix e assume e: "found a e s" and s': "(if sp_state e = SPOOL_PAUSE
     then (let s1 = set_state a SPOOL_PLAY s;
               s2 = (if ev_audio_match ev then emit (AudioMatch a) s1 else s1)
           in Inr (notify NOTIFY_CONTINUE e
                (s2\<lparr>spool_nplaying := spool_nplaying s2 + 1, spool_npaused := spool_npaused s2 - 1,
                    spool_needs_update := spool_needs_update s2 + 1\<rparr>)))
     else Inr s) = Inr s'"
  show "spool_ok s'"
  proof (cases "sp_state e = SPOOL_PAUSE")
    case True
    then show ?thesis
      using s' entry_ok [OF assms(1) e]
      by (intro set_state_ok [OF assms(1) e, of _ SPOOL_PLAY])
        (auto simp: keys_set_state active_playing playing_state_key Let_def)
  qed (use s' assms(1) in simp)
qed

lemma spool_flow_ok:
  "spool_ok s \<Longrightarrow> spool_flow_pause a s = Inr s' \<Longrightarrow> spool_ok s'"
  "spool_ok s \<Longrightarrow> spool_flow_continue a s = Inr s' \<Longrightarrow> spool_ok s'"
proof -
  assume ok: "spool_ok s"
  { assume "spool_flow_pause a s = Inr s'"
    then obtain e where e: "found a e s" "s' = (if sp_state e = SPOOL_PLAY
        then (set_state a SPOOL_WAIT s)\<lparr>spool_nplaying := spool_nplaying s - 1\<rparr> else s)"
      by (auto simp: spool_flow_pause_def)
    show "spool_ok s'"
    proof (cases "sp_state e = SPOOL_PLAY")
      case True
      then show ?thesis
        using e entry_ok [OF ok e(1)]
        by (intro set_state_ok [OF ok e(1), of _ SPOOL_WAIT])
          (auto simp: keys_set_state active_playing playing_state_key)
    qed (use e ok in simp) }
  { assume "spool_flow_continue a s = Inr s'"
    then obtain e where e: "found a e s" "s' = (if sp_state e = SPOOL_WAIT
        then (set_state a SPOOL_PLAY s)\<lparr>spool_nplaying := spool_nplaying s + 1,
                 spool_needs_update := spool_needs_update s + 1\<rparr> else s)"
      by (auto simp: spool_flow_continue_def)
    show "spool_ok s'"
    proof (cases "sp_state e = SPOOL_WAIT")
      case True
      then show ?thesis
        using e entry_ok [OF ok e(1)]
        by (intro set_state_ok [OF ok e(1), of _ SPOOL_PLAY])
          (auto simp: keys_set_state active_playing playing_state_key)
    qed (use e ok in simp) }
qed

definition skip_key :: "entry_key \<Rightarrow> entry_key" where
  "skip_key k = (fst k, SPOOL_SKIP, fst (snd k) \<noteq> SPOOL_PAUSE \<and> fst (snd (snd k)), snd (snd (snd k)))"

text \<open>Every entry with the address of \<open>e\<close> has the key of \<open>e\<close>.\<close>

lemma same_key:
  assumes "spool_ok s" "found a e s" "e' \<in> set (sv_spool s)" "sp_addr e' = a"
  shows "key_of e' = key_of e"
proof -
  have "distinct (map fst (keys s))" using assms(1) by (simp add: spool_ok_def)
  moreover have "key_of e' \<in> set (keys s)" using assms(3) by (simp add: keys_def)
  moreover have "key_of e \<in> set (keys s)" using found_key [OF assms(2)] by simp
  moreover have "fst (key_of e') = fst (key_of e)"
    using found_key [OF assms(2)] assms(4) by (simp add: key_of_def)
  ultimately show ?thesis by (metis distinct_map inj_onD)
qed

lemma keys_upd_sp_found:
  assumes "spool_ok s" "found a e s"
    "\<And>e'. e' \<in> set (sv_spool s) \<Longrightarrow> key_of e' = key_of e \<Longrightarrow> key_of (g e') = k"
  shows "keys (upd_sp a g s) = upd_key a (\<lambda>_. k) (keys s)"
  using same_key [OF assms(1,2)] assms(3)
  by (auto simp: keys_def upd_sp_def upd_key_def key_of_def)

text \<open>An entry whose key becomes \<open>k\<close>.\<close>

lemma set_key_ok:
  assumes "spool_ok s" "found a e s" "keys s' = upd_key a (\<lambda>_. k) (keys s)"
    "spool_size s' = spool_size s" "sv_fresh s' = sv_fresh s" "fst k = a" "key_ok k"
    "spool_nplaying s' = spool_nplaying s - of_bool (playing (key_of e)) + of_bool (playing k)"
    "spool_npaused s' = spool_npaused s - of_bool (paused (key_of e)) + of_bool (paused k)"
  shows "spool_ok s'"
  using found_key [OF assms(2)] assms
  by (intro move_ok [OF assms(1), of "key_of e" a "\<lambda>_. k"]) (auto simp: key_of_def)

lemma spool_skip_ok:
  assumes "spool_ok s" "spool_skip count a s = Inr s'"
  shows "spool_ok s'"
proof -
  obtain e where e: "found a e s" using assms(2) by (auto simp: spool_skip_def)
  show ?thesis
  proof (cases "s' = s")
    case False
    let ?s1 = "if sp_state e = SPOOL_PAUSE
      then upd_sp a (\<lambda>e. e\<lparr>sp_auto_pause := sp_auto_pause e + 1\<rparr>) (s\<lparr>spool_npaused := spool_npaused s - 1\<rparr>)
      else s"
    let ?s2 = "upd_sp a (\<lambda>e. e\<lparr>sp_state := SPOOL_SKIP, sp_skip_count := count\<rparr>) ?s1"
    have st: "sp_state e = SPOOL_PLAY \<or> sp_state e = SPOOL_PAUSE"
      and s': "s' = notify NOTIFY_SKIP e (?s2\<lparr>spool_needs_update := spool_needs_update ?s2 + 1\<rparr>)"
      using assms(2) False
      by (auto simp: spool_skip_def with_sp_found [OF e] Let_def simp del: with_sp_Inr split: if_splits)
    have ap: "sp_auto_pause e = 0" "sp_rp e \<noteq> None" using entry_ok [OF assms(1) e] st by auto
    let ?k = "(a, SPOOL_SKIP, sp_state e \<noteq> SPOOL_PAUSE, False)"
    have "keys ?s2 = upd_key a (\<lambda>_. ?k) (keys s)"
    proof (cases "sp_state e = SPOOL_PAUSE")
      case True
      have "keys (upd_sp a ((\<lambda>e. e\<lparr>sp_state := SPOOL_SKIP, sp_skip_count := count\<rparr>)
          \<circ> (\<lambda>e. e\<lparr>sp_auto_pause := sp_auto_pause e + 1\<rparr>)) s) = upd_key a (\<lambda>_. ?k) (keys s)"
        by (rule keys_upd_sp_found [OF assms(1) e]) (use ap True found_key [OF e] in \<open>auto simp: key_of_def\<close>)
      then show ?thesis
        using True by (simp add: upd_sp_def keys_def o_def if_distrib cong: if_cong)
    next
      case False
      then show ?thesis
        by simp (rule keys_upd_sp_found [OF assms(1) e], use ap found_key [OF e] in \<open>auto simp: key_of_def\<close>)
    qed
    then show ?thesis
      using st ap s' by (intro set_key_ok [OF assms(1) e, of _ ?k])
        (auto simp: active_playing key_ok_def playing_def paused_def key_of_def)
  qed (use assms in simp)
qed


section \<open>An entry between two sounds\<close>

text \<open>The invariant with one entry, \<open>a\<close>, counted nowhere: the state in which
  \<open>spool_play\<close> is called.\<close>

definition loose :: "nat \<Rightarrow> server \<Rightarrow> bool" where
  "loose a s \<longleftrightarrow> (\<exists>e. found a e s) \<and> distinct (map fst (keys s))
     \<and> (\<forall>k \<in> set (keys s). fst k < sv_fresh s \<and> (fst k \<noteq> a \<longrightarrow> key_ok k))
     \<and> spool_size s = int (length (sv_spool s))
     \<and> spool_nplaying s = count_of playing (filter (\<lambda>k. fst k \<noteq> a) (keys s))
     \<and> spool_npaused s = count_of paused (filter (\<lambda>k. fst k \<noteq> a) (keys s))"

lemma loose_quiet: "loose a s \<Longrightarrow> quiet s s' \<Longrightarrow> found a e s' \<Longrightarrow> loose a s'"
  unfolding loose_def quiet_def by (metis keys_def length_map)

lemma loose_destroy:
  assumes "loose a s" "spool_destroy a s = Inr s'"
  shows "spool_ok s'"
proof -
  obtain e where e: "found a e s" using assms(1) by (auto simp: loose_def)
  have d: "distinct (map fst (keys s))" using assms(1) by (simp add: loose_def)
  note eff = spool_destroy_effect [OF assms(2) e]
  have "int (length (sv_spool s')) = int (length (sv_spool s)) - 1"
    using length_remove [OF d, of "key_of e" a] found_key [OF e] eff
    by (metis keys_def length_map key_of_def fst_conv)
  then show ?thesis
    using assms(1) eff d by (auto simp: spool_ok_def loose_def distinct_map_filter)
qed

lemma loose_settle:
  assumes "loose a s" "keys s' = upd_key a (\<lambda>_. k) (keys s)" "fst k = a" "key_ok k"
    "spool_size s' = spool_size s" "sv_fresh s' = sv_fresh s"
    "spool_nplaying s' = spool_nplaying s + of_bool (playing k)"
    "spool_npaused s' = spool_npaused s + of_bool (paused k)"
  shows "spool_ok s'"
proof -
  obtain e where e: "found a e s" using assms(1) by (auto simp: loose_def)
  have ke: "key_of e \<in> set (keys s)" "fst (key_of e) = a"
    using found_key [OF e] by (auto simp: key_of_def)
  have d: "distinct (map fst (keys s))" using assms(1) by (simp add: loose_def)
  have m: "map fst (keys s') = map fst (keys s)"
    unfolding assms(2) by (rule map_fst_upd_key) (use assms(3) in simp)
  have len: "length (sv_spool s') = length (sv_spool s)"
    using arg_cong [OF m, of length] by (simp add: keys_def)
  have c: "count_of P (keys s') = count_of P (filter (\<lambda>k. fst k \<noteq> a) (keys s)) + of_bool (P k)" for P
    unfolding assms(2) using count_of_upd [OF d ke, of P "\<lambda>_. k"] count_of_remove [OF d ke, of P] by simp
  have "fst k' < sv_fresh s' \<and> key_ok k'" if "k' \<in> set (keys s')" for k'
  proof -
    have fr: "\<forall>k \<in> set (keys s). fst k < sv_fresh s \<and> (fst k \<noteq> a \<longrightarrow> key_ok k)"
      using assms(1) by (simp add: loose_def)
    have "(k' \<in> set (keys s) \<and> fst k' \<noteq> a) \<or> k' = k"
      using set_upd_key [of k' a "\<lambda>_. k" "keys s"] that unfolding assms(2) by auto
    then show ?thesis using fr ke assms(3,4,6) by auto
  qed
  then show ?thesis
    using assms(1,5,7,8) m d len c by (auto simp: spool_ok_def loose_def)
qed

lemma loose_from_ok:
  assumes "spool_ok s" "found a e s" "quiet (s\<lparr>spool_nplaying := spool_nplaying s - of_bool (playing (key_of e)),
      spool_npaused := spool_npaused s - of_bool (paused (key_of e))\<rparr>) s'" "found a e' s'"
  shows "loose a s'"
proof -
  have d: "distinct (map fst (keys s))" using assms(1) by (simp add: spool_ok_def)
  have ke: "key_of e \<in> set (keys s)" "fst (key_of e) = a"
    using found_key [OF assms(2)] by (auto simp: key_of_def)
  have "length (sv_spool s') = length (sv_spool s)"
    using assms(3) by (metis quiet_def keys_def keys_updates(2,3) length_map)
  then show ?thesis
    using assms(1,3,4) d count_of_remove [OF d ke]
    by (auto simp: loose_def quiet_def spool_ok_def)
qed

lemma loose_same_key:
  assumes "loose a s" "found a e s" "e' \<in> set (sv_spool s)" "sp_addr e' = a"
  shows "key_of e' = key_of e"
proof -
  have "distinct (map fst (keys s))" using assms(1) by (simp add: loose_def)
  moreover have "key_of e' \<in> set (keys s)" using assms(3) by (simp add: keys_def)
  moreover have "key_of e \<in> set (keys s)" using found_key [OF assms(2)] by simp
  moreover have "fst (key_of e') = fst (key_of e)"
    using found_key [OF assms(2)] assms(4) by (simp add: key_of_def)
  ultimately show ?thesis by (metis distinct_map inj_onD)
qed

lemma loose_keys_upd_sp:
  assumes "loose a s" "found a e s"
    "\<And>e'. e' \<in> set (sv_spool s) \<Longrightarrow> key_of e' = key_of e \<Longrightarrow> key_of (g e') = k"
  shows "keys (upd_sp a g s) = upd_key a (\<lambda>_. k) (keys s)"
  using loose_same_key [OF assms(1,2)] assms(3)
  by (auto simp: keys_def upd_sp_def upd_key_def key_of_def)

section \<open>spool_play\<close>

lemma spool_set_sample_rate_effect:
  assumes "spool_set_sample_rate ev r a s = Inr s'" "found a e s"
  shows "quiet s s' \<and> (\<exists>e'. found a e' s' \<and> sp_auto_pause e' = sp_auto_pause e
     \<and> sp_rp e \<noteq> None \<and> sp_rp e' \<noteq> None)"
proof -
  obtain q att where q: "curr_attrs e = Inr att"
    "s' = (if ev_audio_match ev then emit (AudioMatch a) (upd_sp a (rate_entry ev r q) s)
           else upd_sp a (rate_entry ev r q) s)"
    using assms(1)
    by (auto simp: spool_set_sample_rate_def with_sp_found [OF assms(2)] Let_def simp del: with_sp_Inr)
  have k: "sp_addr (rate_entry ev r q e') = sp_addr e'" "key_of (rate_entry ev r q e') = key_of e'"
    "sp_auto_pause (rate_entry ev r q e') = sp_auto_pause e'"
    "sp_rp (rate_entry ev r q e') = None \<longleftrightarrow> sp_rp e' = None" for e'
    by (simp_all add: rate_entry_def key_of_def)
  have "quiet s (upd_sp a (rate_entry ev r q) s)"
    by (rule quiet_upd_sp) (simp add: k)
  moreover have "found a (rate_entry ev r q e) (upd_sp a (rate_entry ev r q) s)"
    using assms(2) by (subst found_upd_sp) (auto simp: k)
  moreover have "sp_rp e \<noteq> None" using q(1) by (auto simp: curr_attrs_def the_rp_def split: option.splits)
  moreover have "sp_rp (rate_entry ev r q e) \<noteq> None" using calculation(3) k(4) by simp
  ultimately show ?thesis
    unfolding q(2) using k(3) [of e] by (auto simp: quiet_def intro!: exI [of _ "rate_entry ev r q e"])
qed

lemma play_opened_ok:
  assumes "loose a s" "play_opened ev x a s = Inr s'"
  shows "spool_ok s'"
proof -
  obtain e where e: "found a e s" using assms(1) by (auto simp: loose_def)
  show ?thesis
  proof (cases "ev_open ev x")
    case None
    then have d: "spool_destroy a (upd_sp a (\<lambda>e. e\<lparr>sp_si := None\<rparr>) s) = Inr s'"
      using assms(2) by (simp add: play_opened_def with_sp_found [OF e] del: with_sp_Inr)
    have "loose a (upd_sp a (\<lambda>e. e\<lparr>sp_si := None\<rparr>) s)"
      by (rule loose_quiet [OF assms(1) quiet_upd_sp, where e = "e\<lparr>sp_si := None\<rparr>"])
        (use e in \<open>auto simp: key_of_def found_upd_sp\<close>)
    then show ?thesis using loose_destroy d by blast
  next
    case (Some si)
    let ?s1 = "upd_sp a (\<lambda>e. e\<lparr>sp_si := Some si, sp_curr_buffer := [], sp_next_buffer := [],
                sp_sample_index := 0\<rparr>) (emit SoundSeek s)"
    let ?e1 = "e\<lparr>sp_si := Some si, sp_curr_buffer := [], sp_next_buffer := [], sp_sample_index := 0\<rparr>"
    obtain att r s2 s4 where s2: "spool_set_sample_rate ev r a ?s1 = Inr s2"
      and s4: "spool_setprio ((set_state a SPOOL_PLAY s2)\<lparr>spool_nplaying :=
                 spool_nplaying (set_state a SPOOL_PLAY s2) + 1\<rparr>) = Inr s4"
      and s': "(let s5 = notify NOTIFY_POSITION e (notify NOTIFY_PLAY e
                           (s4\<lparr>spool_needs_update := spool_needs_update s4 + 1\<rparr>))
                in if sp_auto_pause e \<noteq> 0
                   then bindE (spool_pause a s5) (\<lambda>s6.
                          Inr (upd_sp a (\<lambda>e. e\<lparr>sp_auto_pause := 0\<rparr>) s6))
                   else Inr s5) = Inr s'"
      using assms(2) Some
      by (auto simp: play_opened_def with_sp_found [OF e] Let_def simp del: with_sp_Inr)
    have f1: "found a ?e1 ?s1" using e by (auto simp: found_upd_sp)
    have q1: "quiet s ?s1"
      using quiet_upd_sp [of a "\<lambda>e. e\<lparr>sp_si := Some si, sp_curr_buffer := [], sp_next_buffer := [],
                sp_sample_index := 0\<rparr>" "emit SoundSeek s"] by (auto simp: quiet_def key_of_def)
    obtain e2 where e2: "quiet ?s1 s2" "found a e2 s2" "sp_auto_pause e2 = sp_auto_pause e"
      "sp_rp e2 \<noteq> None"
      using spool_set_sample_rate_effect [OF s2 f1] by auto
    have l2: "loose a s2" using loose_quiet [OF assms(1) quiet_trans [OF q1 e2(1)] e2(2)] .
    let ?k = "(a, SPOOL_PLAY, sp_auto_pause e = 0, False)"
    have k: "keys (set_state a SPOOL_PLAY s2) = upd_key a (\<lambda>_. ?k) (keys s2)"
      unfolding set_state_def
      by (rule loose_keys_upd_sp [OF l2 e2(2)]) (use e2 found_key [OF e2(2)] in \<open>auto simp: key_of_def\<close>)
    obtain m where m: "s4 = (set_state a SPOOL_PLAY s2)\<lparr>spool_nplaying := spool_nplaying s2 + 1, spool_prio := m\<rparr>"
      using spool_setprio_effect [OF s4] by auto
    let ?s5 = "notify NOTIFY_POSITION e (notify NOTIFY_PLAY e
                           (s4\<lparr>spool_needs_update := spool_needs_update s4 + 1\<rparr>))"
    show ?thesis
    proof (cases "sp_auto_pause e = 0")
      case True
      then have "s' = ?s5" using s' by (simp add: Let_def)
      then show ?thesis
        using True k m by (intro loose_settle [OF l2, of _ ?k]) (auto simp: key_ok_def playing_def paused_def)
    next
      case False
      obtain s6 where s6: "spool_pause a ?s5 = Inr s6" "s' = upd_sp a (\<lambda>e. e\<lparr>sp_auto_pause := 0\<rparr>) s6"
        using s' False by (auto simp: Let_def)
      let ?e5 = "e2\<lparr>sp_state := SPOOL_PLAY\<rparr>"
      have f5: "found a ?e5 ?s5" using found_set_state [OF e2(2)] m by simp
      let ?t = "(set_state a SPOOL_PAUSE ?s5)\<lparr>spool_nplaying := spool_nplaying ?s5 - 1, spool_npaused := spool_npaused ?s5 + 1\<rparr>"
      obtain t' where t': "notify_position_off a ?t = Inr t'" "s6 = notify NOTIFY_PAUSE ?e5 t'"
        using s6(1) by (auto simp: spool_pause_def with_sp_found [OF f5] Let_def simp del: with_sp_Inr)
      have ft: "found a (?e5\<lparr>sp_state := SPOOL_PAUSE\<rparr>) ?t" using found_set_state [OF f5] by simp
      have qt: "quiet ?t s6" using notify_position_off_effect [OF t'(1) ft] t'(2) by (auto simp: quiet_def)
      have k6: "keys s6 = upd_key a (\<lambda>_. (a, SPOOL_PAUSE, False, False)) (keys s2)"
        using qt k m False
        by (auto simp: quiet_def keys_set_state upd_key_def state_key_def)
      have "keys s' = upd_key a (\<lambda>_. (a, SPOOL_PAUSE, True, False)) (keys s2)"
      proof -
        have "keys s' = upd_key a (\<lambda>k. (fst k, fst (snd k), True, snd (snd (snd k)))) (keys s6)"
          unfolding s6(2) by (rule keys_upd_sp) (simp add: key_of_def)
        then show ?thesis unfolding k6 by (auto simp: upd_key_def)
      qed
      then show ?thesis
        using qt m s6(2)
        by (intro loose_settle [OF l2, of _ "(a, SPOOL_PAUSE, True, False)"])
          (auto simp: key_ok_def playing_def paused_def quiet_def)
    qed
  qed
qed


text \<open>A sound on CD whose name has no colon is not played: \<open>spool_play\<close> returns and
  the entry stays uncounted in its old state.  The invariant is stated for spools
  without CD sounds.\<close>

definition no_cdrom :: "server \<Rightarrow> bool" where
  "no_cdrom s \<longleftrightarrow> (\<forall>x. s_type (sv_sounds s x) \<noteq> SOUND_CDROM)"

lemma spool_play_ok:
  assumes "loose a s" "no_cdrom s" "spool_play ev a s = Inr s'"
  shows "spool_ok s'"
  using assms(2,3) play_opened_ok [OF assms(1)]
  by (auto simp: spool_play_def no_cdrom_def Let_def split: if_splits)

section \<open>The periodic update\<close>

lemma apply_skip_fields [simp]:
  "sp_addr (apply_skip r n e) = sp_addr e" "sp_rp (apply_skip r n e) = sp_rp e"
  "sp_auto_pause (apply_skip r n e) = sp_auto_pause e" "sp_state (apply_skip r n e) = sp_state e"
  by (simp_all add: apply_skip_def Let_def)

lemma advance_fields:
  "advance e = Inr (Some e') \<Longrightarrow> sp_addr e' = sp_addr e \<and> sp_rp e' = sp_rp e
     \<and> sp_auto_pause e' = sp_auto_pause e \<and> sp_state e' = sp_state e"
  by (auto simp: advance_def Let_def split: if_splits)

lemma found_replace_sp:
  "found a e s \<Longrightarrow> sp_addr e' = a \<Longrightarrow> found a e' (replace_sp a e' s)"
  unfolding replace_sp_def by (subst found_upd_sp) auto

lemma quiet_replace_sp:
  assumes "distinct (map fst (keys s))" "found a e s" "key_of e' = key_of e"
  shows "quiet s (replace_sp a e' s)"
proof -
  have "key_of e'' = key_of e" if "e'' \<in> set (sv_spool s)" "sp_addr e'' = a" for e''
  proof -
    have "key_of e'' \<in> set (keys s)" using that by (simp add: keys_def)
    moreover have "key_of e \<in> set (keys s)" "fst (key_of e) = a"
      using found_key [OF assms(2)] by (auto simp: key_of_def)
    moreover have "fst (key_of e'') = a" using that by (simp add: key_of_def)
    ultimately show ?thesis using assms(1) by (metis distinct_map inj_onD)
  qed
  then have "keys (replace_sp a e' s) = keys s"
    using assms(3) by (auto simp: replace_sp_def keys_def upd_sp_def)
  then show ?thesis by (simp add: quiet_def replace_sp_def)
qed

lemma loose_replace_sp:
  assumes "loose a s" "found a e s" "key_of e' = key_of e"
  shows "loose a (replace_sp a e' s)"
proof (rule loose_quiet [OF assms(1)])
  show "quiet s (replace_sp a e' s)"
    using quiet_replace_sp assms by (auto simp: loose_def)
  have "sp_addr e' = a" using assms(3) found_key [OF assms(2)] by (simp add: key_of_def)
  then show "found a e' (replace_sp a e' s)" using found_replace_sp [OF assms(2)] by blast
qed

text \<open>The state in which the next sound of an entry is chosen.\<close>

lemma next_sound_loose:
  assumes "spool_ok s" "found a e s" "sp_state e = SPOOL_SKIP \<or> sp_state e = SPOOL_NEXT"
  shows "loose a (dealloc bs f (dealloc bs' f' (close_si e
     (if sp_auto_pause e = 0 then s\<lparr>spool_nplaying := spool_nplaying s - 1\<rparr> else s))))"
  using assms(3)
  by (intro loose_from_ok [OF assms(1,2), where e' = e])
    (auto simp: quiet_def active_playing assms(2))

lemma loose_emit: "loose a s \<Longrightarrow> loose a (notify k e s)"
  unfolding loose_def by (auto simp: found_def)

lemma notify_position_off_entry:
  assumes "notify_position_off a s0 = Inr s" "spool_ok s0"
  shows "spool_ok s"
proof -
  obtain e where "found a e s0" using assms(1) by (auto simp: notify_position_off_def)
  then show ?thesis using notify_position_off_effect [OF assms(1)] quiet_ok assms(2) by blast
qed

lemma notify_position_off_sounds:
  "notify_position_off a s0 = Inr s \<Longrightarrow> sv_sounds s = sv_sounds s0"
  by (auto simp: notify_position_off_def upd_sp_def notify_def emit_def)

lemma no_cdrom_updates [simp]:
  "no_cdrom (notify k e s) = no_cdrom s" "no_cdrom (emit c s) = no_cdrom s"
  "no_cdrom (dealloc b f s) = no_cdrom s" "no_cdrom (close_si e s) = no_cdrom s"
  "no_cdrom (replace_sp a e s) = no_cdrom s" "no_cdrom (upd_sp a g s) = no_cdrom s"
  "no_cdrom (s\<lparr>spool_nplaying := n\<rparr>) = no_cdrom s" "no_cdrom (s\<lparr>spool_npaused := n\<rparr>) = no_cdrom s"
  "no_cdrom (s\<lparr>spool_needs_update := n\<rparr>) = no_cdrom s" "no_cdrom (s\<lparr>spool_prio := n\<rparr>) = no_cdrom s"
  "no_cdrom (s\<lparr>sv_pool := p\<rparr>) = no_cdrom s" "no_cdrom (s\<lparr>spool_last_id := n\<rparr>) = no_cdrom s"
  "no_cdrom (set_state a st s) = no_cdrom s"
  by (simp_all add: no_cdrom_def notify_def emit_def dealloc_def close_si_def replace_sp_def upd_sp_def
      set_state_def split: option.splits)

lemma next_sound_ok:
  assumes "spool_ok s0" "no_cdrom s0" "found a e0 s0" "sp_state e0 = SPOOL_SKIP \<or> sp_state e0 = SPOOL_NEXT"
    "next_sound ev a s0 = Inr (go, s')"
  shows "spool_ok s'"
proof -
  obtain s where s: "notify_position_off a s0 = Inr s"
    using assms(5) by (auto simp: next_sound_def simp del: with_sp_Inr)
  define e where "e = position_off e0"
  have e: "found a e s" "sp_state e = SPOOL_SKIP \<or> sp_state e = SPOOL_NEXT"
    using notify_position_off_effect [OF s assms(3)] assms(4) by (auto simp: e_def)
  have ok: "spool_ok s" using notify_position_off_entry [OF s assms(1)] .
  have nc: "no_cdrom s" using assms(2) notify_position_off_sounds [OF s] by (simp add: no_cdrom_def)
  let ?s3 = "dealloc (sp_next_buffer e) False (dealloc (sp_curr_buffer e) False (close_si e
     (if sp_auto_pause e = 0 then s\<lparr>spool_nplaying := spool_nplaying s - 1\<rparr> else s)))"
  let ?e1 = "e\<lparr>sp_si := None, sp_curr_buffer := [], sp_next_buffer := [], sp_offset := 0\<rparr>"
  have l3: "loose a ?s3" using next_sound_loose [OF ok e] .
  have nc3: "no_cdrom ?s3" using nc by simp
  have f3: "found a e ?s3" using e(1) by simp
  let ?pick = "if sp_state e = SPOOL_SKIP
                 then (if sp_skip_count e = 0
                       then Inr (apply_skip (ev_audio_rate ev) 0 ?e1, notify NOTIFY_DONE e ?s3)
                       else bindE (the_rp e) (\<lambda>rp.
                              Inr (apply_skip (ev_audio_rate ev) (r_nsounds rp) ?e1, notify NOTIFY_DONE e ?s3)))
                 else Inr (?e1, ?s3)"
  let ?go = "\<lambda>e2 s4 adv. case adv of
              Some e3 \<Rightarrow> bindE (spool_play ev a (replace_sp a e3 s4)) (\<lambda>s5. Inr (True, s5))
            | None \<Rightarrow>
                bindE (spool_destroy a (replace_sp a e2
                         (if sp_state e \<noteq> SPOOL_SKIP then notify NOTIFY_DONE e s4 else s4)))
                  (\<lambda>s5. Inr (False, s5))"
  have "bindE ?pick (\<lambda>(e2, s4). bindE (advance e2) (?go e2 s4)) = Inr (go, s')"
    using assms(5) s by (simp add: next_sound_def with_sp_found [OF e(1)] Let_def del: with_sp_Inr bindE_Inr)
  then obtain e2 s4 adv where pick: "?pick = Inr (e2, s4)" and adv: "advance e2 = Inr adv"
    and r: "?go e2 s4 adv = Inr (go, s')"
    by (simp only: bindE_Inr) (auto simp only: prod.case bindE_Inr)
  have e2: "key_of e2 = key_of e" "s4 = ?s3 \<or> s4 = notify NOTIFY_DONE e ?s3"
    using pick by (auto simp: key_of_def split: if_splits)
  have l4: "loose a s4" and nc4: "no_cdrom s4" and f4: "found a e s4"
    using e2(2) l3 nc3 f3 loose_emit by auto
  show ?thesis
  proof (cases adv)
    case None
    let ?s5 = "if sp_state e \<noteq> SPOOL_SKIP then notify NOTIFY_DONE e s4 else s4"
    have "loose a ?s5" "found a e ?s5" using l4 f4 loose_emit by auto
    then have "loose a (replace_sp a e2 ?s5)" using loose_replace_sp e2(1) by blast
    then show ?thesis using r None loose_destroy by auto
  next
    case (Some e3)
    have "key_of e3 = key_of e" using advance_fields adv Some e2(1) by (auto simp: key_of_def)
    then have "loose a (replace_sp a e3 s4)" using loose_replace_sp [OF l4 f4] by blast
    then show ?thesis using r Some nc4 spool_play_ok by auto
  qed
qed


lemma source_empty_ok: "spool_ok s \<Longrightarrow> source_empty a s = Inr s' \<Longrightarrow> spool_ok s'"
proof -
  assume ok: "spool_ok s" and r: "source_empty a s = Inr s'"
  have q: "quiet s (upd_sp a (\<lambda>e. e\<lparr>sp_si := None\<rparr>) ((emit SoundClose s)\<lparr>spool_needs_update := n\<rparr>))" for n
    by (auto simp: quiet_def key_of_def keys_upd_sp_same)
  show ?thesis
    using r ok spool_flow_ok(1) quiet_ok [OF q]
    by (auto simp: source_empty_def split: if_splits option.splits)
qed

lemma fill_result_ok:
  assumes "spool_ok s" "fill_result ev a sd i r s = Inr s'"
  shows "spool_ok s'"
proof -
  obtain n si b where r: "r = (n, si, b)" by (cases r) auto
  let ?s1 = "upd_sp a (\<lambda>e. e\<lparr>sp_si := Some si\<rparr>) s"
  let ?s2 = "dealloc b True ?s1"
  let ?t2 = "upd_sp a (\<lambda>e. if sp_curr_buffer e = []
                                 then e\<lparr>sp_time := ev_now ev, sp_curr_buffer := b\<rparr>
                                 else e\<lparr>sp_time := ev_now ev, sp_next_buffer := b\<rparr>) ?s1"
  have q1: "quiet s ?s1" by (rule quiet_upd_sp) (simp add: key_of_def)
  have q2: "quiet s ?s2" using quiet_trans [OF q1 quiet_updates(8)] .
  have q3: "quiet s (upd_sp a (\<lambda>e. e\<lparr>sp_si := None\<rparr>) (emit SoundClose ?s2))"
    by (rule quiet_trans [OF quiet_trans [OF q2 quiet_updates(6)] quiet_upd_sp]) (simp add: key_of_def)
  have "quiet ?s1 ?t2" by (rule quiet_upd_sp) (auto simp: key_of_def)
  then have q4: "spool_ok ?t2" using quiet_ok [OF quiet_trans [OF q1] assms(1)] by blast
  show ?thesis
  proof (cases "n \<le> 0")
    case True
    show ?thesis
      using assms(2) True source_empty_ok [OF quiet_ok [OF q2 assms(1)]] quiet_ok [OF q2 assms(1)]
        quiet_ok [OF q3 assms(1)]
      by (auto simp: fill_result_def r Let_def simp del: split_paired_All split: if_splits)
  next
    case False
    then have "quiet ?t2 s'"
      using assms(2) by (auto simp: fill_result_def r Let_def quiet_def split: if_splits)
    then show ?thesis using q4 quiet_ok by blast
  qed
qed

lemma fill_entry_ok: "spool_ok s \<Longrightarrow> fill_entry ev a s = Inr s' \<Longrightarrow> spool_ok s'"
  by (auto simp: fill_entry_def Let_def split: if_splits option.splits prod.splits
      intro: fill_result_ok [OF quiet_ok [OF quiet_updates(5)]])

lemma end_dead_sound_ok:
  assumes "spool_ok s" "end_dead_sound a s = Inr s'"
  shows "spool_ok s'"
proof -
  obtain e where e: "found a e s" "s' = (if sp_state e = SPOOL_PLAY \<and> sp_curr_buffer e = [] \<and> sp_si e = None
          then set_state a SPOOL_NEXT s else s)"
    using assms(2) by (auto simp: end_dead_sound_def)
  show ?thesis
  proof (cases "sp_state e = SPOOL_PLAY \<and> sp_curr_buffer e = [] \<and> sp_si e = None")
    case True
    then show ?thesis
      using e entry_ok [OF assms(1) e(1)]
      by (intro set_state_ok [OF assms(1) e(1), of _ SPOOL_NEXT])
        (auto simp: keys_set_state active_playing playing_state_key)
  next
    case False
    then show ?thesis using e(2) assms(1) by (simp only: if_False)
  qed
qed

lemma process_entry_ok:
  assumes "spool_ok s" "process_entry ev a s = Inr s'"
  shows "spool_ok s'"
proof -
  obtain e where e: "found a e s" using assms(2) by (auto simp: process_entry_def)
  show ?thesis
  proof (cases "sp_state e = SPOOL_PLAY")
    case True
    let ?r = "ev_native ev e"
    let ?st = "if pl_more ?r then SPOOL_PLAY else SPOOL_NEXT"
    let ?s2 = "upd_sp a (\<lambda>e. e\<lparr>sp_curr_buffer := pl_curr ?r, sp_next_buffer := pl_next ?r,
                      sp_offset := pl_offset ?r, sp_sample_index := pl_index ?r,
                      sp_state := ?st,
                      sp_notify_position := sp_notify_position e + 1\<rparr>) (dealloc (pl_released ?r) False s)"
    have ap: "sp_auto_pause e = 0" "sp_rp e \<noteq> None" using entry_ok [OF assms(1) e] True by auto
    have k: "keys ?s2 = upd_key a (state_key ?st) (keys s)"
      by (subst keys_upd_sp [where f = "state_key ?st"]) (auto simp: key_of_def state_key_def)
    have "quiet ?s2 s'"
      using assms(2) True
      by (auto simp: process_entry_def with_sp_found [OF e] Let_def simp del: with_sp_Inr split: if_splits)
    moreover have "spool_ok ?s2"
      using k ap True by (intro set_state_ok [OF assms(1) e, of _ ?st])
        (auto simp: active_playing playing_state_key)
    ultimately show ?thesis using quiet_ok by blast
  next
    case False
    then show ?thesis
      using assms by (simp add: process_entry_def with_sp_found [OF e] del: with_sp_Inr)
  qed
qed


text \<open>No operation changes the type of a sound.\<close>

lemma sounds_updates [simp]:
  "sv_sounds (emit c s) = sv_sounds s" "sv_sounds (notify k e s) = sv_sounds s"
  "sv_sounds (dealloc b f s) = sv_sounds s" "sv_sounds (close_si e s) = sv_sounds s"
  "sv_sounds (upd_sp a g s) = sv_sounds s" "sv_sounds (replace_sp a e s) = sv_sounds s"
  "sv_sounds (set_state a st s) = sv_sounds s" "sv_sounds (uncount e s) = sv_sounds s"
  by (simp_all add: emit_def notify_def dealloc_def close_si_def upd_sp_def replace_sp_def
      set_state_def uncount_def split: option.splits)

lemma sounds_results:
  "spool_setprio s = Inr s' \<Longrightarrow> sv_sounds s' = sv_sounds s"
  "notify_position_off a s = Inr s' \<Longrightarrow> sv_sounds s' = sv_sounds s"
  "spool_set_sample_rate ev r a s = Inr s' \<Longrightarrow> sv_sounds s' = sv_sounds s"
  "spool_flow_pause a s = Inr s' \<Longrightarrow> sv_sounds s' = sv_sounds s"
  "source_empty a s = Inr s' \<Longrightarrow> sv_sounds s' = sv_sounds s"
  "end_dead_sound a s = Inr s' \<Longrightarrow> sv_sounds s' = sv_sounds s"
proof -
  show "spool_setprio s = Inr s' \<Longrightarrow> sv_sounds s' = sv_sounds s"
    by (auto dest: spool_setprio_effect)
  show "notify_position_off a s = Inr s' \<Longrightarrow> sv_sounds s' = sv_sounds s"
    by (auto simp: notify_position_off_def)
  show "spool_set_sample_rate ev r a s = Inr s' \<Longrightarrow> sv_sounds s' = sv_sounds s"
    by (auto simp: spool_set_sample_rate_def Let_def)
  have fp: "\<And>s. spool_flow_pause a s = Inr s' \<Longrightarrow> sv_sounds s' = sv_sounds s"
    by (auto simp: spool_flow_pause_def)
  then show "spool_flow_pause a s = Inr s' \<Longrightarrow> sv_sounds s' = sv_sounds s" .
  show "source_empty a s = Inr s' \<Longrightarrow> sv_sounds s' = sv_sounds s"
    using fp by (auto simp: source_empty_def split: if_splits option.splits)
  show "end_dead_sound a s = Inr s' \<Longrightarrow> sv_sounds s' = sv_sounds s"
    by (auto simp: end_dead_sound_def)
qed

lemma sounds_clean: "clean_sounds e s = Inr s' \<Longrightarrow> sv_sounds s' = sv_sounds s"
proof -
  assume a: "clean_sounds e s = Inr s'"
  have "sv_sounds s' = sv_sounds s"
    if "foldE (\<lambda>i s. bindE (sound_at e i) (\<lambda>x. Inr (emit (SoundClean x) s))) xs s = Inr s'" for xs
    by (rule foldE_invariant [OF _ _ that, where P = "\<lambda>t. sv_sounds t = sv_sounds s"]) auto
  then show ?thesis using a by (auto simp: clean_sounds_def split: option.splits)
qed

lemma sounds_destroy: "spool_destroy a s = Inr s' \<Longrightarrow> sv_sounds s' = sv_sounds s"
  by (auto simp: spool_destroy_def spool_reset_def Let_def dest!: sounds_clean sounds_results)

lemma sounds_pause: "spool_pause a s = Inr s' \<Longrightarrow> sv_sounds s' = sv_sounds s"
  by (auto simp: spool_pause_def Let_def dest!: sounds_results split: if_splits)

lemma sounds_play_opened:
  assumes "play_opened ev x a s = Inr s'"
  shows "sv_sounds s' = sv_sounds s"
proof -
  obtain e where e: "found a e s" using assms by (auto simp: play_opened_def)
  show ?thesis
  proof (cases "ev_open ev x")
    case None
    then show ?thesis
      using assms by (auto simp: play_opened_def with_sp_found [OF e] simp del: with_sp_Inr
          dest!: sounds_destroy)
  next
    case (Some si)
    let ?s1 = "upd_sp a (\<lambda>e. e\<lparr>sp_si := Some si, sp_curr_buffer := [], sp_next_buffer := [],
                sp_sample_index := 0\<rparr>) (emit SoundSeek s)"
    obtain r s2 s4 where s2: "spool_set_sample_rate ev r a ?s1 = Inr s2"
      and s4: "spool_setprio ((set_state a SPOOL_PLAY s2)\<lparr>spool_nplaying :=
                 spool_nplaying (set_state a SPOOL_PLAY s2) + 1\<rparr>) = Inr s4"
      and s': "(let s5 = notify NOTIFY_POSITION e (notify NOTIFY_PLAY e
                           (s4\<lparr>spool_needs_update := spool_needs_update s4 + 1\<rparr>))
                in if sp_auto_pause e \<noteq> 0
                   then bindE (spool_pause a s5) (\<lambda>s6.
                          Inr (upd_sp a (\<lambda>e. e\<lparr>sp_auto_pause := 0\<rparr>) s6))
                   else Inr s5) = Inr s'"
      using assms Some
      by (auto simp: play_opened_def with_sp_found [OF e] Let_def simp del: with_sp_Inr)
    have "sv_sounds s4 = sv_sounds s" using sounds_results(1) [OF s4] sounds_results(3) [OF s2] by simp
    then show ?thesis using s' sounds_pause by (fastforce simp: Let_def split: if_splits)
  qed
qed

lemma no_cdrom_play: "no_cdrom s \<Longrightarrow> spool_play ev a s = Inr s' \<Longrightarrow> no_cdrom s'"
  by (auto simp: spool_play_def Let_def no_cdrom_def split: if_splits dest!: sounds_play_opened)

lemma no_cdrom_next_sound:
  assumes "no_cdrom s0" "next_sound ev a s0 = Inr (go, s')"
  shows "no_cdrom s'"
proof -
  obtain s e where s: "notify_position_off a s0 = Inr s" and e: "found a e s"
    using assms(2) by (auto simp: next_sound_def)
  let ?s3 = "dealloc (sp_next_buffer e) False (dealloc (sp_curr_buffer e) False (close_si e
     (if sp_auto_pause e = 0 then s\<lparr>spool_nplaying := spool_nplaying s - 1\<rparr> else s)))"
  let ?e1 = "e\<lparr>sp_si := None, sp_curr_buffer := [], sp_next_buffer := [], sp_offset := 0\<rparr>"
  let ?pick = "if sp_state e = SPOOL_SKIP
                 then (if sp_skip_count e = 0
                       then Inr (apply_skip (ev_audio_rate ev) 0 ?e1, notify NOTIFY_DONE e ?s3)
                       else bindE (the_rp e) (\<lambda>rp.
                              Inr (apply_skip (ev_audio_rate ev) (r_nsounds rp) ?e1, notify NOTIFY_DONE e ?s3)))
                 else Inr (?e1, ?s3)"
  let ?go = "\<lambda>e2 s4 adv. case adv of
              Some e3 \<Rightarrow> bindE (spool_play ev a (replace_sp a e3 s4)) (\<lambda>s5. Inr (True, s5))
            | None \<Rightarrow>
                bindE (spool_destroy a (replace_sp a e2
                         (if sp_state e \<noteq> SPOOL_SKIP then notify NOTIFY_DONE e s4 else s4)))
                  (\<lambda>s5. Inr (False, s5))"
  have "bindE ?pick (\<lambda>(e2, s4). bindE (advance e2) (?go e2 s4)) = Inr (go, s')"
    using assms(2) s by (simp add: next_sound_def with_sp_found [OF e] Let_def del: with_sp_Inr bindE_Inr)
  then obtain e2 s4 adv where pick: "?pick = Inr (e2, s4)"
    and r: "?go e2 s4 adv = Inr (go, s')"
    by (simp only: bindE_Inr) (auto simp only: prod.case bindE_Inr)
  have p: "sv_sounds s4 = sv_sounds s" using pick by (auto split: if_splits)
  have nc: "no_cdrom s4" using assms(1) sounds_results(2) [OF s] p by (simp add: no_cdrom_def)
  show ?thesis
  proof (cases adv)
    case None
    then show ?thesis using r nc by (auto simp: no_cdrom_def dest!: sounds_destroy split: if_splits)
  next
    case (Some e3)
    moreover have "no_cdrom (replace_sp a e3 s4)" using nc by simp
    ultimately show ?thesis using r no_cdrom_play [of "replace_sp a e3 s4"] by auto
  qed
qed

lemma sounds_fill_result:
  assumes "fill_result ev a sd i r s = Inr s'"
  shows "sv_sounds s' = sv_sounds s"
proof -
  obtain n si b where r: "r = (n, si, b)" by (cases r) auto
  let ?s2 = "dealloc b True (upd_sp a (\<lambda>e. e\<lparr>sp_si := Some si\<rparr>) s)"
  show ?thesis
  proof (cases "n \<le> 0")
    case True
    then show ?thesis
      using assms sounds_results(5) [of a ?s2 s']
      by (simp add: fill_result_def r Let_def split: if_splits) auto
  next
    case False
    then show ?thesis
      using assms by (auto simp: fill_result_def r Let_def split: if_splits)
  qed
qed

lemma no_cdrom_fill: "no_cdrom s \<Longrightarrow> fill_entry ev a s = Inr s' \<Longrightarrow> no_cdrom s'"
proof -
  assume nc: "no_cdrom s" and f: "fill_entry ev a s = Inr s'"
  have "sv_sounds s' = sv_sounds s"
    using f by (auto simp: fill_entry_def Let_def split: if_splits option.splits
        dest!: sounds_fill_result)
  then show ?thesis using nc by (simp add: no_cdrom_def)
qed

definition spool_inv :: "server \<Rightarrow> bool" where
  "spool_inv s \<longleftrightarrow> spool_ok s \<and> no_cdrom s"

lemma update_entry_inv:
  assumes "spool_inv s" "update_entry ev a s = Inr s'"
  shows "spool_inv s'"
proof -
  have ok: "spool_ok s" and nc: "no_cdrom s" using assms(1) by (auto simp: spool_inv_def)
  obtain s1 e where s1: "end_dead_sound a s = Inr s1" and e: "found a e s1"
    and r: "(if sp_state e = SPOOL_SKIP \<or> sp_state e = SPOOL_NEXT
       then bindE (next_sound ev a s1) (\<lambda>(go, s2). if go then fill_entry ev a s2 else Inr s2)
       else if sp_state e = SPOOL_PLAY then fill_entry ev a s1
       else Inr s1) = Inr s'"
    using assms(2) by (auto simp: update_entry_def)
  have ok1: "spool_ok s1" using end_dead_sound_ok [OF ok s1] .
  have nc1: "no_cdrom s1" using nc sounds_results(6) [OF s1] by (simp add: no_cdrom_def)
  show ?thesis
  proof (cases "sp_state e = SPOOL_SKIP \<or> sp_state e = SPOOL_NEXT")
    case True
    then obtain go s2 where n: "next_sound ev a s1 = Inr (go, s2)"
      "(if go then fill_entry ev a s2 else Inr s2) = Inr s'"
      using r by auto
    have "spool_ok s2" "no_cdrom s2"
      using next_sound_ok [OF ok1 nc1 e True n(1)] no_cdrom_next_sound [OF nc1 n(1)] by auto
    then show ?thesis
      using n(2) fill_entry_ok no_cdrom_fill by (auto simp: spool_inv_def split: if_splits)
  next
    case False
    then show ?thesis
      using r ok1 nc1 fill_entry_ok no_cdrom_fill by (auto simp: spool_inv_def split: if_splits)
  qed
qed

lemma spool_update_inv:
  assumes "spool_inv s" "spool_update ev s = Inr s'"
  shows "spool_inv s'"
proof (rule foldE_invariant [where P = spool_inv and f = "update_entry ev"])
  show "spool_inv (s\<lparr>spool_needs_update := 0\<rparr>)"
    using assms(1) quiet_ok [OF quiet_updates(2)] by (auto simp: spool_inv_def)
  show "foldE (update_entry ev) (map sp_addr (sv_spool s)) (s\<lparr>spool_needs_update := 0\<rparr>) = Inr s'"
    using assms(2) by (simp add: spool_update_def)
qed (use update_entry_inv in blast)

end
