(* ===== verification/SpoolSteps.thy ===== *)
theory SpoolSteps
  imports SpoolInv "HOL-Library.Sublist"
begin

text \<open>
  What the operations of the spool leave alone: an operation on the entry at address
  \<open>a\<close> changes no other entry, gives no id away and keeps the entry in its place or
  removes it.  With the counting invariant of \<open>SpoolInv\<close> this gives the invariant of
  every reachable spool.
\<close>

section \<open>Operations on one entry\<close>

definition tag :: "spool_entry \<Rightarrow> nat \<times> int" where
  "tag e = (sp_addr e, sp_id e)"

definition tags :: "server \<Rightarrow> (nat \<times> int) list" where
  "tags s = map tag (sv_spool s)"

definition others :: "nat \<Rightarrow> server \<Rightarrow> spool_entry list" where
  "others a s = filter (\<lambda>e. sp_addr e \<noteq> a) (sv_spool s)"

definition null_entry :: "nat \<Rightarrow> server \<Rightarrow> bool" where
  "null_entry a s \<longleftrightarrow> (\<exists>e \<in> set (sv_spool s). sp_addr e = a \<and> sp_state e = SPOOL_NULL)"

definition sound_types :: "server \<Rightarrow> nat \<Rightarrow> sound_type" where
  "sound_types s x = s_type (sv_sounds s x)"

definition touches :: "nat \<Rightarrow> server \<Rightarrow> server \<Rightarrow> bool" where
  "touches a s s' \<longleftrightarrow>
     (tags s' = tags s \<or> tags s' = filter (\<lambda>t. fst t \<noteq> a) (tags s)) \<and> others a s' = others a s
     \<and> (null_entry a s' \<longrightarrow> null_entry a s) \<and> sv_fresh s' = sv_fresh s
     \<and> spool_last_id s' = spool_last_id s \<and> sound_types s' = sound_types s"

named_theorems touch_rules \<open>operations that touch one entry\<close>

lemma touches_refl [simp]: "touches a s s"
  by (simp add: touches_def)

lemma touches_trans: "touches a s s1 \<Longrightarrow> touches a s1 s2 \<Longrightarrow> touches a s s2"
  by (auto simp: touches_def)

lemma touches_updates [simp]:
  "touches a s0 (s\<lparr>spool_size := n\<rparr>) = touches a s0 s" "touches a s0 (s\<lparr>spool_nplaying := n\<rparr>) = touches a s0 s"
  "touches a s0 (s\<lparr>spool_npaused := n\<rparr>) = touches a s0 s" "touches a s0 (s\<lparr>spool_prio := n\<rparr>) = touches a s0 s"
  "touches a s0 (s\<lparr>spool_needs_update := n\<rparr>) = touches a s0 s" "touches a s0 (s\<lparr>sv_pool := p\<rparr>) = touches a s0 s"
  "touches a s0 (emit c s) = touches a s0 s" "touches a s0 (notify k e s) = touches a s0 s"
  "touches a s0 (dealloc b f s) = touches a s0 s" "touches a s0 (close_si e s) = touches a s0 s"
  "touches a s0 (uncount e s) = touches a s0 s"
  by (simp_all add: touches_def tags_def others_def null_entry_def sound_types_def fun_eq_iff emit_def
      notify_def dealloc_def close_si_def uncount_def split: option.splits)

text \<open>What an update of one entry must keep.\<close>

definition keeps :: "(spool_entry \<Rightarrow> spool_entry) \<Rightarrow> bool" where
  "keeps g \<longleftrightarrow> (\<forall>e. tag (g e) = tag e \<and> (sp_state (g e) = SPOOL_NULL \<longrightarrow> sp_state e = SPOOL_NULL))"

lemma touches_upd_sp:
  assumes "touches a s0 s" "keeps g"
  shows "touches a s0 (upd_sp a g s)"
proof (rule touches_trans [OF assms(1)])
  have g: "\<And>e. sp_addr (g e) = sp_addr e" "\<And>e. tag (g e) = tag e"
    using assms(2) by (auto simp: keeps_def tag_def)
  have "tags (upd_sp a g s) = tags s"
    using g by (auto simp: tags_def upd_sp_def)
  moreover have "filter (\<lambda>e. sp_addr e \<noteq> a) (map (\<lambda>e. if sp_addr e = a then g e else e) es)
      = filter (\<lambda>e. sp_addr e \<noteq> a) es" for es
    using g(1) by (induction es) auto
  then have "others a (upd_sp a g s) = others a s" by (simp add: others_def upd_sp_def)
  moreover have "null_entry a (upd_sp a g s) \<longrightarrow> null_entry a s"
    using assms(2) by (auto simp: null_entry_def upd_sp_def keeps_def)
  ultimately show "touches a s (upd_sp a g s)"
    by (simp add: touches_def sound_types_def fun_eq_iff) (simp add: upd_sp_def)
qed

lemma keeps_fields [simp]:
  "keeps (\<lambda>e. e\<lparr>sp_notify_position := n\<rparr>)" "keeps (\<lambda>e. e\<lparr>sp_si := i\<rparr>)"
  "keeps (\<lambda>e. e\<lparr>sp_auto_pause := n\<rparr>)" "keeps (\<lambda>e. e\<lparr>sp_auto_pause := sp_auto_pause e + n\<rparr>)"
  "st \<noteq> SPOOL_NULL \<Longrightarrow> keeps (\<lambda>e. e\<lparr>sp_state := st\<rparr>)"
  "keeps (\<lambda>e. e\<lparr>sp_state := SPOOL_SKIP, sp_skip_count := n\<rparr>)"
  "keeps (\<lambda>e. e\<lparr>sp_si := i, sp_curr_buffer := b1, sp_next_buffer := b2, sp_sample_index := x\<rparr>)"
  "keeps (rate_entry ev r q)" "keeps (\<lambda>e. e\<lparr>sp_sin := c\<rparr>)"
  "keeps (\<lambda>e. if sp_curr_buffer e = [] then e\<lparr>sp_time := now, sp_curr_buffer := b1\<rparr>
              else e\<lparr>sp_time := now, sp_next_buffer := b2\<rparr>)"
  "st \<noteq> SPOOL_NULL \<Longrightarrow> keeps (\<lambda>e. e\<lparr>sp_curr_buffer := b1, sp_next_buffer := b2, sp_offset := n,
       sp_sample_index := x, sp_state := st, sp_notify_position := sp_notify_position e + m\<rparr>)"
  "keeps (\<lambda>e. e\<lparr>sp_curr_count := n\<rparr>)" "keeps (upd_curr h)" "keeps (upd_rp k)"
  "keeps (\<lambda>e. upd_rp k (e\<lparr>sp_list_count := n\<rparr>))"
  by (auto simp: keeps_def tag_def rate_entry_def upd_curr_def upd_rp_def)

lemma touches_set_state:
  "touches a s0 s \<Longrightarrow> st \<noteq> SPOOL_NULL \<Longrightarrow> touches a s0 (set_state a st s)"
  by (simp add: set_state_def touches_upd_sp)

lemma touches_setprio [touch_rules]:
  "spool_setprio s = Inr s' \<Longrightarrow> touches a s0 s \<Longrightarrow> touches a s0 s'"
  using spool_setprio_effect [of s s'] by auto

lemma touches_position_off [touch_rules]:
  "notify_position_off a s = Inr s' \<Longrightarrow> touches a s0 s \<Longrightarrow> touches a s0 s'"
  by (auto simp: notify_position_off_def touches_upd_sp)

lemma spool_last_id_clean: "clean_sounds e s = Inr s' \<Longrightarrow> spool_last_id s' = spool_last_id s"
proof -
  assume a: "clean_sounds e s = Inr s'"
  have "spool_last_id s' = spool_last_id s"
    if "foldE (\<lambda>i s. bindE (sound_at e i) (\<lambda>x. Inr (emit (SoundClean x) s))) xs s = Inr s'" for xs
    by (rule foldE_invariant [OF _ _ that, where P = "\<lambda>t. spool_last_id t = spool_last_id s"])
      (auto simp: emit_def)
  then show ?thesis using a by (auto simp: clean_sounds_def split: option.splits)
qed

lemma spool_reset_list:
  assumes "spool_reset a s = Inr s'"
  shows "sv_spool s' = map (\<lambda>e. if sp_addr e = a then reset_entry e else e) (sv_spool s)
    \<and> spool_last_id s' = spool_last_id s \<and> sv_sounds s' = sv_sounds s"
proof -
  obtain e where e: "found a e s" using assms by (auto simp: spool_reset_def)
  let ?s1 = "upd_sp a (\<lambda>e. e\<lparr>sp_state := SPOOL_NULL\<rparr>) s"
  let ?s2 = "if sp_id e > 0 then emit (FlowContinue (sp_id e)) ?s1 else ?s1"
  obtain s3 where s3: "clean_sounds e ?s2 = Inr s3"
    "spool_setprio (upd_sp a reset_entry (close_si e (dealloc (sp_next_buffer e) True
       (dealloc (sp_curr_buffer e) True s3)))) = Inr s'"
    using assms by (auto simp: spool_reset_def with_sp_found [OF e] Let_def simp del: with_sp_Inr)
  have "sv_spool s3 = sv_spool ?s1" "spool_last_id s3 = spool_last_id s" "sv_sounds s3 = sv_sounds s"
    using clean_sounds_quiet [OF s3(1)] spool_last_id_clean [OF s3(1)] sounds_clean [OF s3(1)]
    by (auto simp: emit_def upd_sp_def)
  moreover have "sv_spool s' = sv_spool (upd_sp a reset_entry s3)" "spool_last_id s' = spool_last_id s3"
    "sv_sounds s' = sv_sounds s3"
    using spool_setprio_effect [OF s3(2)]
    by (auto simp: upd_sp_def close_si_def dealloc_def emit_def split: option.splits)
  moreover have "map (\<lambda>e. if sp_addr e = a then reset_entry e else e)
      (map (\<lambda>e. if sp_addr e = a then e\<lparr>sp_state := SPOOL_NULL\<rparr> else e) es)
      = map (\<lambda>e. if sp_addr e = a then reset_entry e else e) es" for es
    by (induction es) (auto simp: reset_entry_def)
  ultimately show ?thesis by (simp add: upd_sp_def)
qed

lemma filter_reset:
  "filter (\<lambda>e. sp_addr e \<noteq> a) (map (\<lambda>e. if sp_addr e = a then reset_entry e else e) es)
     = filter (\<lambda>e. sp_addr e \<noteq> a) es"
  by (induction es) (auto simp: reset_entry_def)

lemma spool_destroy_list:
  assumes "spool_destroy a s = Inr s'"
  shows "sv_spool s' = filter (\<lambda>e. sp_addr e \<noteq> a) (sv_spool s) \<and> spool_last_id s' = spool_last_id s"
  using assms filter_reset by (auto simp: spool_destroy_def dest!: spool_reset_list)

lemma touches_destroy [touch_rules]:
  assumes "spool_destroy a s = Inr s'" "touches a s0 s"
  shows "touches a s0 s'"
proof (rule touches_trans [OF assms(2)])
  obtain e where e: "found a e s" using assms(1) by (auto simp: spool_destroy_def spool_reset_def)
  note l = spool_destroy_list [OF assms(1)]
  have "tags s' = filter (\<lambda>t. fst t \<noteq> a) (tags s)"
    by (simp add: tags_def l filter_map o_def tag_def)
  then show "touches a s s'"
    using l sounds_destroy [OF assms(1)] spool_destroy_effect [OF assms(1) e]
    by (auto simp: touches_def others_def null_entry_def sound_types_def fun_eq_iff)
qed

lemma touches_stop [touch_rules]:
  "spool_stop a s = Inr s' \<Longrightarrow> touches a s0 s \<Longrightarrow> touches a s0 s'"
  by (auto simp: spool_stop_def split: if_splits) (erule touch_rules | simp)+

lemma touches_done [touch_rules]:
  "spool_done a s = Inr s' \<Longrightarrow> touches a s0 s \<Longrightarrow> touches a s0 s'"
  by (auto simp: spool_done_def touches_upd_sp split: if_splits option.splits) (erule touch_rules | simp)+

lemma touches_pause [touch_rules]:
  "spool_pause a s = Inr s' \<Longrightarrow> touches a s0 s \<Longrightarrow> touches a s0 s'"
  by (auto simp: spool_pause_def Let_def split: if_splits)
    (erule touch_rules | simp add: touches_set_state)+

lemma touches_continue [touch_rules]:
  "spool_continue ev a s = Inr s' \<Longrightarrow> touches a s0 s \<Longrightarrow> touches a s0 s'"
  by (auto simp: spool_continue_def Let_def touches_set_state split: if_splits)

lemma touches_flow_pause [touch_rules]:
  "spool_flow_pause a s = Inr s' \<Longrightarrow> touches a s0 s \<Longrightarrow> touches a s0 s'"
  by (auto simp: spool_flow_pause_def touches_set_state split: if_splits)

lemma touches_flow_continue [touch_rules]:
  "spool_flow_continue a s = Inr s' \<Longrightarrow> touches a s0 s \<Longrightarrow> touches a s0 s'"
  by (auto simp: spool_flow_continue_def touches_set_state split: if_splits)

lemma touches_skip [touch_rules]:
  "spool_skip n a s = Inr s' \<Longrightarrow> touches a s0 s \<Longrightarrow> touches a s0 s'"
  by (auto simp: spool_skip_def Let_def touches_upd_sp split: if_splits)

lemma touches_sample_rate [touch_rules]:
  "spool_set_sample_rate ev r a s = Inr s' \<Longrightarrow> touches a s0 s \<Longrightarrow> touches a s0 s'"
  by (auto simp: spool_set_sample_rate_def Let_def touches_upd_sp split: if_splits)

lemma touches_play_opened [touch_rules]:
  assumes "play_opened ev x a s = Inr s'" "touches a s0 s"
  shows "touches a s0 s'"
proof -
  obtain e where e: "found a e s" using assms(1) by (auto simp: play_opened_def)
  show ?thesis
  proof (cases "ev_open ev x")
    case None
    then have "spool_destroy a (upd_sp a (\<lambda>e. e\<lparr>sp_si := None\<rparr>) s) = Inr s'"
      using assms(1) by (simp add: play_opened_def with_sp_found [OF e] del: with_sp_Inr)
    then show ?thesis by (rule touches_destroy) (simp add: assms(2) touches_upd_sp)
  next
    case (Some si)
    let ?s1 = "upd_sp a (\<lambda>e. e\<lparr>sp_si := Some si, sp_curr_buffer := [], sp_next_buffer := [],
                sp_sample_index := 0\<rparr>) (emit SoundSeek s)"
    obtain r s2 s4 where s2: "spool_set_sample_rate ev r a ?s1 = Inr s2"
      and s4: "spool_setprio ((set_state a SPOOL_PLAY s2)\<lparr>spool_nplaying :=
                 spool_nplaying (set_state a SPOOL_PLAY s2) + 1\<rparr>) = Inr s4"
      and s': "(let s5 = notify NOTIFY_POSITION e (notify NOTIFY_PLAY e
                           (s4\<lparr>spool_needs_update := spool_needs_update s4 + 1\<rparr>))
                in if sp_auto_pause e \<noteq> 0
                   then bindE (spool_pause a s5) (\<lambda>s6.
                          Inr (upd_sp a (\<lambda>e. e\<lparr>sp_auto_pause := 0\<rparr>) s6))
                   else Inr s5) = Inr s'"
      using assms Some
      by (auto simp: play_opened_def with_sp_found [OF e] Let_def simp del: with_sp_Inr)
    have "touches a s0 s2"
      by (rule touches_sample_rate [OF s2]) (simp add: assms(2) touches_upd_sp)
    then have "touches a s0 s4"
      by (intro touches_setprio [OF s4]) (simp add: touches_set_state)
    then show ?thesis
      using s' by (auto simp: Let_def split: if_splits intro!: touches_upd_sp elim: touches_pause)
  qed
qed

lemma touches_play [touch_rules]:
  assumes "no_cdrom s" "spool_play ev a s = Inr s'" "touches a s0 s"
  shows "touches a s0 s'"
  using assms by (auto simp: spool_play_def Let_def no_cdrom_def split: if_splits elim: touches_play_opened)

lemma touches_source_empty [touch_rules]:
  "source_empty a s = Inr s' \<Longrightarrow> touches a s0 s \<Longrightarrow> touches a s0 s'"
  by (auto simp: source_empty_def touches_upd_sp split: if_splits option.splits elim: touches_flow_pause)

lemma touches_fill_result [touch_rules]:
  assumes "fill_result ev a sd i r s = Inr s'" "touches a s0 s"
  shows "touches a s0 s'"
proof -
  obtain n si b where r: "r = (n, si, b)" by (cases r) auto
  let ?s2 = "dealloc b True (upd_sp a (\<lambda>e. e\<lparr>sp_si := Some si\<rparr>) s)"
  have t: "touches a s0 ?s2" using assms(2) by (simp add: touches_upd_sp)
  show ?thesis
  proof (cases "n \<le> 0")
    case True
    then show ?thesis
      using assms touches_source_empty [of a ?s2 s' s0] t
      by (simp add: fill_result_def r Let_def split: if_splits) (auto intro!: touches_upd_sp)
  next
    case False
    then show ?thesis
      using assms by (auto simp: fill_result_def r Let_def touches_upd_sp split: if_splits)
  qed
qed

lemma touches_fill_entry [touch_rules]:
  "fill_entry ev a s = Inr s' \<Longrightarrow> touches a s0 s \<Longrightarrow> touches a s0 s'"
  by (auto simp: fill_entry_def Let_def split: if_splits option.splits elim!: touches_fill_result)

lemma touches_dead_sound [touch_rules]:
  "end_dead_sound a s = Inr s' \<Longrightarrow> touches a s0 s \<Longrightarrow> touches a s0 s'"
  by (auto simp: end_dead_sound_def touches_set_state split: if_splits)

lemma touches_process [touch_rules]:
  "process_entry ev a s = Inr s' \<Longrightarrow> touches a s0 s \<Longrightarrow> touches a s0 s'"
  by (auto simp: process_entry_def Let_def touches_upd_sp split: if_splits)


lemma touches_replace_sp:
  assumes "touches a s0 s" "distinct (map fst (keys s))" "found a e s" "tag e' = tag e"
    "sp_state e' = sp_state e"
  shows "touches a s0 (replace_sp a e' s)"
proof (rule touches_trans [OF assms(1)])
  have one: "e'' = e" if "e'' \<in> set (sv_spool s)" "sp_addr e'' = a" for e''
  proof -
    have "distinct (map sp_addr (sv_spool s))"
      using assms(2) by (simp add: keys_def key_of_def o_def)
    then show ?thesis
      using that found_key [OF assms(3)] by (metis distinct_map inj_onD)
  qed
  have "tags (replace_sp a e' s) = tags s"
    using one assms(4) by (auto simp: tags_def replace_sp_def upd_sp_def)
  moreover have a': "sp_addr e' = a" using assms(4) found_key [OF assms(3)] by (simp add: tag_def)
  have "filter (\<lambda>e. sp_addr e \<noteq> a) (map (\<lambda>e. if sp_addr e = a then e' else e) es)
      = filter (\<lambda>e. sp_addr e \<noteq> a) es" for es
    using a' by (induction es) auto
  then have "others a (replace_sp a e' s) = others a s"
    by (simp add: others_def replace_sp_def upd_sp_def)
  moreover have "null_entry a (replace_sp a e' s) \<longrightarrow> null_entry a s"
    using assms(5) found_key [OF assms(3)] by (auto simp: null_entry_def replace_sp_def upd_sp_def split: if_splits)
  ultimately show "touches a s (replace_sp a e' s)"
    by (simp add: touches_def sound_types_def fun_eq_iff) (simp add: replace_sp_def upd_sp_def)
qed

lemma touches_next_sound:
  assumes "spool_ok s0" "no_cdrom s0" "next_sound ev a s0 = Inr (go, s')"
  shows "touches a s0 s'"
proof -
  obtain s e where s: "notify_position_off a s0 = Inr s" and e: "found a e s"
    using assms(3) by (auto simp: next_sound_def)
  let ?s3 = "dealloc (sp_next_buffer e) False (dealloc (sp_curr_buffer e) False (close_si e
     (if sp_auto_pause e = 0 then s\<lparr>spool_nplaying := spool_nplaying s - 1\<rparr> else s)))"
  let ?e1 = "e\<lparr>sp_si := None, sp_curr_buffer := [], sp_next_buffer := [], sp_offset := 0\<rparr>"
  let ?pick = "if sp_state e = SPOOL_SKIP
                 then (if sp_skip_count e = 0
                       then Inr (apply_skip (ev_audio_rate ev) 0 ?e1, notify NOTIFY_DONE e ?s3)
                       else bindE (the_rp e) (\<lambda>rp.
                              Inr (apply_skip (ev_audio_rate ev) (r_nsounds rp) ?e1, notify NOTIFY_DONE e ?s3)))
                 else Inr (?e1, ?s3)"
  let ?go = "\<lambda>e2 s4 adv. case adv of
              Some e3 \<Rightarrow> bindE (spool_play ev a (replace_sp a e3 s4)) (\<lambda>s5. Inr (True, s5))
            | None \<Rightarrow>
                bindE (spool_destroy a (replace_sp a e2
                         (if sp_state e \<noteq> SPOOL_SKIP then notify NOTIFY_DONE e s4 else s4)))
                  (\<lambda>s5. Inr (False, s5))"
  have "bindE ?pick (\<lambda>(e2, s4). bindE (advance e2) (?go e2 s4)) = Inr (go, s')"
    using assms(3) s by (simp add: next_sound_def with_sp_found [OF e] Let_def del: with_sp_Inr bindE_Inr)
  then obtain e2 s4 adv where pick: "?pick = Inr (e2, s4)" and adv: "advance e2 = Inr adv"
    and r: "?go e2 s4 adv = Inr (go, s')"
    by (simp only: bindE_Inr) (auto simp only: prod.case bindE_Inr)
  have ok: "spool_ok s" using notify_position_off_entry [OF s assms(1)] .
  have nc: "no_cdrom s" using assms(2) notify_position_off_sounds [OF s] by (simp add: no_cdrom_def)
  have ts: "touches a s0 s" by (rule touches_position_off [OF s touches_refl])
  have e2: "tag e2 = tag e" "sp_state e2 = sp_state e" "s4 = ?s3 \<or> s4 = notify NOTIFY_DONE e ?s3"
    using pick by (auto simp: tag_def apply_skip_def Let_def split: if_splits)
  have s4: "touches a s0 s4" "distinct (map fst (keys s4))" "found a e s4" "no_cdrom s4"
    using e2(3) ts ok e nc by (auto simp: spool_ok_def)
  show ?thesis
  proof (cases adv)
    case None
    let ?s5 = "if sp_state e \<noteq> SPOOL_SKIP then notify NOTIFY_DONE e s4 else s4"
    have "touches a s0 (replace_sp a e2 ?s5)"
      by (rule touches_replace_sp [OF _ _ _ e2(1,2)]) (use s4 in auto)
    then show ?thesis using r None by (auto elim: touches_destroy)
  next
    case (Some e3)
    have "tag e3 = tag e2 \<and> sp_state e3 = sp_state e2"
      using adv Some by (auto simp: advance_def tag_def Let_def split: if_splits)
    then have "touches a s0 (replace_sp a e3 s4)"
      by (intro touches_replace_sp [OF s4(1-3)]) (use e2 in auto)
    moreover have "no_cdrom (replace_sp a e3 s4)" using s4(4) by simp
    ultimately show ?thesis using r Some touches_play [of "replace_sp a e3 s4"] by auto
  qed
qed

lemma touches_update_entry:
  assumes "spool_inv s" "update_entry ev a s = Inr s'"
  shows "touches a s s'"
proof -
  have ok: "spool_ok s" and nc: "no_cdrom s" using assms(1) by (auto simp: spool_inv_def)
  obtain s1 e where s1: "end_dead_sound a s = Inr s1" and e: "found a e s1"
    and r: "(if sp_state e = SPOOL_SKIP \<or> sp_state e = SPOOL_NEXT
       then bindE (next_sound ev a s1) (\<lambda>(go, s2). if go then fill_entry ev a s2 else Inr s2)
       else if sp_state e = SPOOL_PLAY then fill_entry ev a s1
       else Inr s1) = Inr s'"
    using assms(2) by (auto simp: update_entry_def)
  have ok1: "spool_ok s1" using end_dead_sound_ok [OF ok s1] .
  have nc1: "no_cdrom s1" using nc sounds_results(6) [OF s1] by (simp add: no_cdrom_def)
  have t1: "touches a s s1" by (rule touches_dead_sound [OF s1 touches_refl])
  show ?thesis
  proof (cases "sp_state e = SPOOL_SKIP \<or> sp_state e = SPOOL_NEXT")
    case True
    then obtain go s2 where n: "next_sound ev a s1 = Inr (go, s2)"
      "(if go then fill_entry ev a s2 else Inr s2) = Inr s'"
      using r by auto
    have "touches a s s2" using touches_trans [OF t1 touches_next_sound [OF ok1 nc1 n(1)]] .
    then show ?thesis using n(2) by (auto split: if_splits elim: touches_fill_entry)
  next
    case False
    then show ?thesis using r t1 by (auto split: if_splits elim: touches_fill_entry)
  qed
qed

section \<open>The invariant of a server between two requests\<close>

definition server_ok :: "server \<Rightarrow> bool" where
  "server_ok s \<longleftrightarrow> spool_inv s \<and> distinct (map sp_id (sv_spool s))
     \<and> (\<forall>e \<in> set (sv_spool s). sp_state e \<noteq> SPOOL_NULL \<and> SPOOL_MIN_ID \<le> sp_id e \<and> sp_id e \<le> SPOOL_MAX_ID)
     \<and> int (length (sv_spool s)) \<le> SPOOL_SIZE
     \<and> 0 \<le> spool_last_id s \<and> spool_last_id s \<le> SPOOL_MAX_ID"

lemma touches_keeps_ids:
  assumes "touches a s s'" "distinct (map sp_id (sv_spool s))"
  shows "distinct (map sp_id (sv_spool s')) \<and> sp_id ` set (sv_spool s') \<subseteq> sp_id ` set (sv_spool s)
    \<and> length (sv_spool s') \<le> length (sv_spool s)"
proof -
  have m: "map sp_id (sv_spool t) = map snd (tags t)" "length (sv_spool t) = length (tags t)" for t
    by (simp_all add: tags_def tag_def)
  have i: "sp_id ` set (sv_spool t) = set (map snd (tags t))" for t
    by (simp add: m(1) [symmetric])
  have "tags s' = tags s \<or> tags s' = filter (\<lambda>t. fst t \<noteq> a) (tags s)"
    using assms(1) by (simp add: touches_def)
  then show ?thesis
    using assms(2) unfolding m i by (auto simp: distinct_map_filter)
qed

lemma touches_server_ok:
  assumes "server_ok s" "touches a s s'" "spool_ok s'"
  shows "server_ok s'"
proof -
  have ids: "distinct (map sp_id (sv_spool s'))" "sp_id ` set (sv_spool s') \<subseteq> sp_id ` set (sv_spool s)"
    "length (sv_spool s') \<le> length (sv_spool s)"
    using touches_keeps_ids [OF assms(2)] assms(1) by (auto simp: server_ok_def)
  have "sp_state e \<noteq> SPOOL_NULL" if "e \<in> set (sv_spool s')" for e
  proof (cases "sp_addr e = a")
    case True
    then show ?thesis
      using assms(1,2) that by (auto simp: touches_def null_entry_def server_ok_def)
  next
    case False
    then have "e \<in> set (others a s')" using that by (simp add: others_def)
    then have "e \<in> set (others a s)" using assms(2) by (simp add: touches_def)
    then have "e \<in> set (sv_spool s)" by (simp add: others_def)
    then show ?thesis using assms(1) by (simp add: server_ok_def)
  qed
  moreover have "no_cdrom s'"
    using assms(1,2) by (auto simp: touches_def no_cdrom_def server_ok_def spool_inv_def sound_types_def fun_eq_iff)
  moreover have "SPOOL_MIN_ID \<le> sp_id e \<and> sp_id e \<le> SPOOL_MAX_ID" if "e \<in> set (sv_spool s')" for e
  proof -
    obtain e0 where "e0 \<in> set (sv_spool s)" "sp_id e = sp_id e0" using ids(2) \<open>e \<in> _\<close> by fastforce
    then show ?thesis using assms(1) by (simp add: server_ok_def)
  qed
  moreover have "int (length (sv_spool s')) \<le> SPOOL_SIZE" using ids(3) assms(1) by (simp add: server_ok_def)
  ultimately show ?thesis
    using assms ids(1) by (auto simp: server_ok_def spool_inv_def touches_def)
qed


text \<open>A use of \<open>touches\<close>: other entries are found as before.\<close>

lemma find_filter_other:
  "(\<And>e. P e \<Longrightarrow> Q e) \<Longrightarrow> find P (filter Q es) = find P es"
  by (induction es) auto

lemma touches_found:
  assumes "touches a s s'" "b \<noteq> a"
  shows "found b e s' = found b e s"
proof -
  have f: "find (\<lambda>e. sp_addr e = b) (sv_spool t) = find (\<lambda>e. sp_addr e = b) (others a t)" for t
    unfolding others_def using assms(2) by (subst find_filter_other) auto
  have "others a s' = others a s" using assms(1) by (simp add: touches_def)
  then show ?thesis by (simp add: found_def f)
qed

lemma found_iff:
  assumes "spool_ok s"
  shows "found a e s \<longleftrightarrow> e \<in> set (sv_spool s) \<and> sp_addr e = a"
proof
  assume r: "e \<in> set (sv_spool s) \<and> sp_addr e = a"
  have d: "distinct (map sp_addr (sv_spool s))"
    using assms by (simp add: spool_ok_def keys_def key_of_def o_def)
  have "find (\<lambda>e. sp_addr e = a) (sv_spool s) \<noteq> None" using r by (auto simp: find_None_iff)
  then obtain e' where e': "found a e' s" by (auto simp: found_def)
  then have "e' = e" using r found_key [OF e'] d by (metis distinct_map inj_onD)
  then show "found a e s" using e' by simp
qed (use found_key in auto)

section \<open>Requests that select entries\<close>

text \<open>The actions of \<open>spool_match\<close>: they keep the counters and touch one entry.\<close>

locale spool_action =
  fixes act :: "nat \<Rightarrow> server \<Rightarrow> server result"
  assumes act_ok: "spool_ok s \<Longrightarrow> act a s = Inr s' \<Longrightarrow> spool_ok s'"
    and act_touches: "act a s = Inr s' \<Longrightarrow> touches a s s'"
begin

lemma match_one_cases:
  assumes "match_one as act client a (s, n) = Inr (s', n')" "spool_ok s" "found a e s"
  shows "spool_ok s' \<and> touches a s s' \<and>
    (if entry_matches as e = Inr True
     then n' = n + 1 \<and> act a (upd_sp a (\<lambda>e. e\<lparr>sp_sin := client\<rparr>) s) = Inr s'
     else n' = n \<and> s' = s \<and> entry_matches as e = Inr False)"
proof -
  let ?s1 = "upd_sp a (\<lambda>e. e\<lparr>sp_sin := client\<rparr>) s"
  have t: "touches a s ?s1" by (simp add: touches_upd_sp)
  have ok: "spool_ok ?s1"
    by (rule quiet_ok [OF quiet_upd_sp assms(2)]) (simp add: key_of_def)
  obtain m where m: "entry_matches as e = Inr m"
    "(if m then bindE (act a ?s1) (\<lambda>s1. Inr (s1, n + 1)) else Inr (s, n)) = Inr (s', n')"
    using assms(1) by (auto simp: match_one_def with_sp_found [OF assms(3)] simp del: with_sp_Inr)
  show ?thesis
  proof (cases m)
    case True
    then have "act a ?s1 = Inr s'" "n' = n + 1" using m(2) by auto
    then show ?thesis
      using m(1) True act_ok [OF ok] touches_trans [OF t act_touches] by auto
  qed (use m assms(2) in auto)
qed

lemma match_one_found: "match_one as act client a (s, n) = Inr r \<Longrightarrow> \<exists>e. found a e s"
  by (auto simp: match_one_def)

lemma match_fold:
  assumes "foldE (match_one as act client) (map sp_addr es) (t, m) = Inr (s', n)"
    "\<forall>e \<in> set es. found (sp_addr e) e t" "distinct (map sp_addr es)" "server_ok t"
  shows "server_ok s' \<and> n = m + count_of (\<lambda>e. entry_matches as e = Inr True) es
    \<and> (\<forall>b e. b \<notin> sp_addr ` set es \<longrightarrow> found b e s' = found b e t)
    \<and> (\<forall>e \<in> set es. entry_matches as e = Inr False \<longrightarrow> found (sp_addr e) e s')"
  using assms
proof (induction es arbitrary: t m)
  case (Cons e es)
  obtain t1 m1 where one: "match_one as act client (sp_addr e) (t, m) = Inr (t1, m1)"
    and rest: "foldE (match_one as act client) (map sp_addr es) (t1, m1) = Inr (s', n)"
    using Cons.prems(1) by auto
  have fe: "found (sp_addr e) e t" and sok: "spool_ok t"
    using Cons.prems(2,4) by (auto simp: server_ok_def spool_inv_def)
  note c = match_one_cases [OF one sok fe]
  have ok1: "server_ok t1" using touches_server_ok Cons.prems(4) c by blast
  have other: "found b e' t1 = found b e' t" if "b \<noteq> sp_addr e" for b e'
    using touches_found c that by blast
  have fr: "found (sp_addr e') e' t1" if "e' \<in> set es" for e'
  proof -
    have "sp_addr e' \<noteq> sp_addr e" using Cons.prems(3) that by (auto simp: image_iff)
    then show ?thesis using other Cons.prems(2) that by simp
  qed
  have ih: "server_ok s'" "n = m1 + count_of (\<lambda>e. entry_matches as e = Inr True) es"
    "\<And>b e. b \<notin> sp_addr ` set es \<Longrightarrow> found b e s' = found b e t1"
    "\<And>e. e \<in> set es \<Longrightarrow> entry_matches as e = Inr False \<Longrightarrow> found (sp_addr e) e s'"
    using Cons.IH [OF rest _ _ ok1] Cons.prems(3) fr by (simp_all only: list.map distinct.simps) blast+
  have ne: "sp_addr e \<notin> sp_addr ` set es" using Cons.prems(3) by simp
  have "n = m + count_of (\<lambda>e. entry_matches as e = Inr True) (e # es)"
    using ih(2) c by (cases "entry_matches as e = Inr True") auto
  moreover have "found b e' s' = found b e' t" if "b \<notin> sp_addr ` set (e # es)" for b e'
    using ih(3) [of b e'] other [of b e'] that by simp
  moreover have "found (sp_addr e') e' s'" if "e' \<in> set (e # es)" "entry_matches as e' = Inr False" for e'
  proof (cases "e' = e")
    case True
    then have "t1 = t" using c that(2) by simp
    then show ?thesis using ih(3) [OF ne] fe True by simp
  qed (use ih(4) that in simp)
  ultimately show ?case using ih(1) by blast
qed simp

lemma match_result:
  assumes "spool_match as act client s = Inr (s', n)" "server_ok s"
  shows "server_ok s'" "n = count_of (\<lambda>e. entry_matches as e = Inr True) (sv_spool s)"
    "e \<in> set (sv_spool s) \<Longrightarrow> entry_matches as e = Inr False \<Longrightarrow> e \<in> set (sv_spool s')"
proof -
  have sok: "spool_ok s" using assms(2) by (simp add: server_ok_def spool_inv_def)
  have d: "distinct (map sp_addr (sv_spool s))"
    using sok by (simp add: spool_ok_def keys_def key_of_def o_def)
  have "\<forall>e \<in> set (sv_spool s). found (sp_addr e) e s" using found_iff [OF sok] by simp
  note m = match_fold [OF assms(1) [unfolded spool_match_def] this d assms(2)]
  show "server_ok s'" using m by blast
  show "n = count_of (\<lambda>e. entry_matches as e = Inr True) (sv_spool s)" using m by simp
  show "e \<in> set (sv_spool s) \<Longrightarrow> entry_matches as e = Inr False \<Longrightarrow> e \<in> set (sv_spool s')"
    using m found_key by blast
qed

end

text \<open>An action that removes every entry that plays, is paused or waits.\<close>

locale spool_remover = spool_action +
  assumes act_removes: "act a s = Inr s' \<Longrightarrow> found a e s \<Longrightarrow>
    sp_state e \<in> {SPOOL_PLAY, SPOOL_PAUSE, SPOOL_WAIT} \<Longrightarrow> \<not> found a e' s'"
begin

lemma match_fold_removes:
  assumes "foldE (match_one as act client) (map sp_addr es) (t, m) = Inr (s', n)"
    "\<forall>e \<in> set es. found (sp_addr e) e t" "distinct (map sp_addr es)" "server_ok t"
    "e \<in> set es" "entry_matches as e = Inr True" "sp_state e \<in> {SPOOL_PLAY, SPOOL_PAUSE, SPOOL_WAIT}"
  shows "\<not> found (sp_addr e) e' s'"
  using assms
proof (induction es arbitrary: t m)
  case (Cons x es)
  obtain t1 m1 where one: "match_one as act client (sp_addr x) (t, m) = Inr (t1, m1)"
    and rest: "foldE (match_one as act client) (map sp_addr es) (t1, m1) = Inr (s', n)"
    using Cons.prems(1) by auto
  have fx: "found (sp_addr x) x t" and sok: "spool_ok t"
    using Cons.prems(2,4) by (auto simp: server_ok_def spool_inv_def)
  note c = match_one_cases [OF one sok fx]
  have ok1: "server_ok t1" using touches_server_ok Cons.prems(4) c by blast
  have found1: "\<forall>e' \<in> set es. found (sp_addr e') e' t1"
  proof
    fix e' assume e': "e' \<in> set es"
    have "sp_addr e' \<noteq> sp_addr x" using Cons.prems(3) e' by (auto simp: image_iff)
    moreover have "touches (sp_addr x) t t1" using c by simp
    ultimately show "found (sp_addr e') e' t1" using touches_found Cons.prems(2) e' by auto
  qed
  show ?case
  proof (cases "e = x")
    case True
    have act: "act (sp_addr x) (upd_sp (sp_addr x) (\<lambda>e. e\<lparr>sp_sin := client\<rparr>) t) = Inr t1"
      using c Cons.prems(6) True by simp
    have "found (sp_addr x) (x\<lparr>sp_sin := client\<rparr>) (upd_sp (sp_addr x) (\<lambda>e. e\<lparr>sp_sin := client\<rparr>) t)"
      using fx by (subst found_upd_sp) auto
    then have "\<not> found (sp_addr x) e' t1"
      using act_removes [OF act] Cons.prems(7) True by auto
    moreover have "found (sp_addr x) e' s' = found (sp_addr x) e' t1"
      using match_fold [OF rest found1 _ ok1] Cons.prems(3) by auto
    ultimately show ?thesis using True by simp
  next
    case False
    then show ?thesis using Cons.IH [OF rest found1 _ ok1] Cons.prems by auto
  qed
qed simp

lemma match_removes:
  assumes "spool_match as act client s = Inr (s', n)" "server_ok s"
    "e \<in> set (sv_spool s)" "entry_matches as e = Inr True"
    "sp_state e \<in> {SPOOL_PLAY, SPOOL_PAUSE, SPOOL_WAIT}"
  shows "sp_addr e \<notin> sp_addr ` set (sv_spool s')"
proof -
  have sok: "spool_ok s" "spool_ok s'"
    using assms(2) match_result(1) [OF assms(1,2)] by (auto simp: server_ok_def spool_inv_def)
  have "distinct (map sp_addr (sv_spool s))"
    using sok(1) by (simp add: spool_ok_def keys_def key_of_def o_def)
  then have "\<not> found (sp_addr e) e' s'" for e'
    using match_fold_removes [OF assms(1) [unfolded spool_match_def] _ _ assms(2-5)] found_iff [OF sok(1)]
    by simp
  then show ?thesis using found_iff [OF sok(2)] by fastforce
qed

end

interpretation stop_action: spool_remover spool_stop
proof unfold_locales
  fix a s s'
  show "spool_ok s \<Longrightarrow> spool_stop a s = Inr s' \<Longrightarrow> spool_ok s'" by (rule spool_stop_ok)
  assume r: "spool_stop a s = Inr s'"
  show "touches a s s'" by (rule touches_stop [OF r touches_refl])
  fix e e' assume e: "found a e s" "sp_state e \<in> {SPOOL_PLAY, SPOOL_PAUSE, SPOOL_WAIT}"
  then obtain s1 where "spool_destroy a s1 = Inr s'"
    using r by (auto simp: spool_stop_def with_sp_found [OF e(1)] simp del: with_sp_Inr)
  then show "\<not> found a e' s'"
    using spool_destroy_list [of a s1 s'] found_key [of a e' s'] by auto
qed

interpretation pause_action: spool_action spool_pause
  by unfold_locales (auto intro: spool_pause_ok touches_pause [OF _ touches_refl])

interpretation continue_action: spool_action "spool_continue ev" for ev
  by unfold_locales (auto intro: spool_continue_ok touches_continue [OF _ touches_refl])

interpretation done_action: spool_action spool_done
  by unfold_locales (auto intro: spool_done_ok touches_done [OF _ touches_refl])


section \<open>Operations on the whole spool\<close>

lemma server_okD:
  assumes "server_ok s"
  shows "spool_ok s" "no_cdrom s" "spool_inv s"
  using assms by (auto simp: server_ok_def spool_inv_def)

lemma server_ok_updates [simp]:
  "server_ok (s\<lparr>spool_needs_update := n\<rparr>) = server_ok s" "server_ok (s\<lparr>spool_prio := n\<rparr>) = server_ok s"
  "server_ok (emit c s) = server_ok s" "server_ok (s\<lparr>sv_pool := p\<rparr>) = server_ok s"
  by (auto simp: server_ok_def spool_inv_def spool_ok_def no_cdrom_def keys_def emit_def)

lemma one_entry_server_ok:
  "server_ok s \<Longrightarrow> touches a s s' \<Longrightarrow> spool_ok s' \<Longrightarrow> server_ok s'"
  by (rule touches_server_ok)

lemma foldE_server_ok:
  assumes "foldE f as s = Inr s'" "server_ok s"
    "\<And>a t t'. server_ok t \<Longrightarrow> f a t = Inr t' \<Longrightarrow> touches a t t' \<and> spool_ok t'"
  shows "server_ok s'"
  by (rule foldE_invariant [where P = server_ok, OF _ assms(2,1)]) (use assms(3) touches_server_ok in blast)

lemma spool_update_server_ok:
  assumes "server_ok s" "spool_update ev s = Inr s'"
  shows "server_ok s'"
proof (rule foldE_server_ok [of "update_entry ev"])
  show "foldE (update_entry ev) (map sp_addr (sv_spool s)) (s\<lparr>spool_needs_update := 0\<rparr>) = Inr s'"
    using assms(2) by (simp add: spool_update_def)
  show "touches a t t' \<and> spool_ok t'" if "server_ok t" "update_entry ev a t = Inr t'" for a t t'
    using touches_update_entry [OF server_okD(3) [OF that(1)] that(2)]
      update_entry_inv [OF server_okD(3) [OF that(1)] that(2)] by (simp add: spool_inv_def)
qed (use assms(1) in simp)

lemma spool_process_server_ok:
  assumes "server_ok s" "spool_process ev s = Inr s'"
  shows "server_ok s'"
  using assms(2) unfolding spool_process_def
  by (rule foldE_server_ok [OF _ assms(1)])
    (blast intro: touches_process [OF _ touches_refl] process_entry_ok server_okD)

lemma remove_one_effect:
  "server_ok s \<Longrightarrow> remove_one x a s = Inr s' \<Longrightarrow> touches a s s' \<and> spool_ok s'"
  using spool_done_ok server_okD touches_done
  by (auto simp: remove_one_def split: if_splits)

lemma spool_remove_server_ok:
  assumes "server_ok s" "spool_remove x s = Inr s'"
  shows "server_ok s'"
  using assms(2) unfolding spool_remove_def
  by (rule foldE_server_ok [OF _ assms(1)]) (rule remove_one_effect)

lemma cleanup_one_effect:
  "server_ok s \<Longrightarrow> cleanup_one a s = Inr s' \<Longrightarrow> touches a s s' \<and> spool_ok s'"
  using spool_done_ok server_okD touches_done
  by (auto simp: cleanup_one_def still_there_def split: if_splits)

lemma spool_cleanup_server_ok:
  assumes "server_ok s" "spool_cleanup s = Inr s'"
  shows "server_ok s'"
  using assms(2) unfolding spool_cleanup_def
  by (rule foldE_server_ok [OF _ assms(1)]) (rule cleanup_one_effect)

lemma fold_emit_effect:
  "quiet s (fold (\<lambda>y s. emit (f y) s) xs s) \<and> (\<forall>s0 a. touches a s0 (fold (\<lambda>y s. emit (f y) s) xs s) = touches a s0 s)
    \<and> (\<forall>a e. found a e (fold (\<lambda>y s. emit (f y) s) xs s) = found a e s)
    \<and> no_cdrom (fold (\<lambda>y s. emit (f y) s) xs s) = no_cdrom s"
proof (induction xs arbitrary: s)
  case (Cons x xs)
  show ?case using Cons.IH [of "emit (f x) s"] by (auto simp: quiet_def)
qed simp

text \<open>An uncounted entry may be played.\<close>

lemma loose_uncounted:
  assumes "spool_ok s" "found a e s" "\<not> playing (key_of e)" "\<not> paused (key_of e)"
  shows "loose a s"
  by (rule loose_from_ok [OF assms(1,2) _ assms(2)]) (use assms(3,4) in \<open>simp add: quiet_def\<close>)

lemma play_uncounted_effect:
  assumes "spool_ok s" "no_cdrom s" "found a e s" "\<not> playing (key_of e)" "\<not> paused (key_of e)"
    "spool_play ev a s = Inr s'"
  shows "touches a s s' \<and> spool_ok s'"
  using touches_play [OF assms(2,6) touches_refl] spool_play_ok [OF loose_uncounted [OF assms(1,3-5)] assms(2,6)]
  by simp

lemma ready_one_effect:
  assumes "server_ok s" "ready_one ev x a s = Inr s'"
  shows "touches a s s' \<and> spool_ok s'"
proof -
  obtain e where e: "found a e s" using assms(2) by (auto simp: ready_one_def)
  show ?thesis
  proof (cases "s' = s")
    case False
    then obtain xs where w: "sp_state e = SPOOL_WAIT"
      and p: "spool_play ev a (fold (\<lambda>y s. emit (SoundMap (the y)) s) xs s) = Inr s'"
      using assms(2) by (auto simp: ready_one_def still_there_def with_sp_found [OF e] split: if_splits)
    let ?t = "fold (\<lambda>y s. emit (SoundMap (the y)) s) xs s"
    note eff = fold_emit_effect [of s "\<lambda>y. SoundMap (the y)" xs]
    have "touches a ?t s' \<and> spool_ok s'"
    proof (rule play_uncounted_effect [OF _ _ _ _ _ p])
      show "spool_ok ?t" using quiet_ok eff server_okD(1) [OF assms(1)] by blast
      show "no_cdrom ?t" using eff server_okD(2) [OF assms(1)] by blast
      show "found a e ?t" using eff e by blast
    qed (use w active_playing in auto)
    moreover have "touches a s ?t" using eff by auto
    ultimately show ?thesis using touches_trans by blast
  qed (use assms(1) server_okD in auto)
qed

lemma spool_ready_server_ok:
  assumes "server_ok s" "spool_ready ev x s = Inr s'"
  shows "server_ok s'"
  using assms(2) unfolding spool_ready_def
  by (rule foldE_server_ok [OF _ assms(1)]) (rule ready_one_effect)

lemma server_ok_upd_sound [simp]:
  "(\<And>sd. s_type (f sd) = s_type sd) \<Longrightarrow> server_ok (upd_sound x f s) = server_ok s"
  by (auto simp: server_ok_def spool_inv_def spool_ok_def no_cdrom_def keys_def upd_sound_def)

lemma flow_account_server_ok:
  assumes "server_ok s" "flow_account ev x b a s = Inr s'"
  shows "server_ok s'"
proof -
  obtain e si where e: "found a e s" and si: "sp_si e = Some si"
    using assms(2) by (auto simp: flow_account_def split: option.splits)
  let ?w = "si_water_mark si + buffer_nbytes b"
  let ?s1 = "upd_sp a (\<lambda>e. e\<lparr>sp_si := Some (si\<lparr>si_water_mark := ?w\<rparr>)\<rparr>) s"
  let ?s2 = "upd_sound x (\<lambda>sd. sd\<lparr>s_samples := ev_samples ev x ?w\<rparr>) ?s1"
  have "server_ok ?s1"
  proof (rule one_entry_server_ok [OF assms(1)])
    show "touches a s ?s1" by (simp add: touches_upd_sp)
    show "spool_ok ?s1"
      by (rule quiet_ok [OF quiet_upd_sp server_okD(1) [OF assms(1)]]) (simp add: key_of_def)
  qed
  then have s2: "server_ok ?s2" by simp
  have "s' = ?s2 \<or> spool_flow_continue a ?s2 = Inr s'"
    using assms(2) si by (auto simp: flow_account_def with_sp_found [OF e] Let_def simp del: with_sp_Inr split: if_splits)
  then show ?thesis
    using s2 one_entry_server_ok [OF s2] touches_flow_continue [OF _ touches_refl] spool_flow_ok(2) server_okD(1)
    by blast
qed

lemma spool_flow_insert_server_ok:
  assumes "server_ok s" "spool_flow_insert ev a b s = Inr (r, s')"
  shows "server_ok s'"
proof -
  obtain e x where e: "found a e s" and x: "sound_at e (sp_curr_sound e) = Inr x"
    using assms(2) by (auto simp: spool_flow_insert_def)
  let ?s1 = "upd_sound x (\<lambda>sd. sd\<lparr>s_flow := s_flow sd @ b\<rparr>) s"
  let ?s2 = "emit (SoundMap x) (upd_sound x (\<lambda>sd. sd\<lparr>s_status := SOUND_READY\<rparr>) ?s1)"
  have ok: "server_ok ?s1" "server_ok ?s2" using assms(1) by simp_all
  have r: "(if s_status (sv_sounds ?s1 x) = SOUND_NOT_READY
        then (if \<not> ev_map ev x
                 then bindE (spool_remove x ?s2) (\<lambda>s3. Inr (False, s3))
                 else bindE (spool_ready ev x ?s2) (\<lambda>s3.
                        bindE (flow_account ev x b a s3) (\<lambda>s4. Inr (True, s4))))
        else bindE (flow_account ev x b a ?s1) (\<lambda>s2. Inr (True, s2))) = Inr (r, s')"
    using assms(2) unfolding spool_flow_insert_def with_sp_found [OF e] Let_def x bindE.simps .
  then show ?thesis
    using assms(1)
    by (auto split: if_splits elim!: flow_account_server_ok [rotated] spool_remove_server_ok [rotated]
        spool_ready_server_ok [rotated])
qed

lemma set_curr_effect:
  assumes "server_ok s" "set_curr f a s = Inr s'"
  shows "touches a s s' \<and> spool_ok s'"
proof -
  have "s' = upd_sp a (upd_curr f) s" using assms(2) by (auto simp: set_curr_def)
  then show ?thesis
    using quiet_ok [OF quiet_upd_sp server_okD(1) [OF assms(1)], of a "upd_curr f"]
    by (auto simp: touches_upd_sp key_of_def upd_curr_def upd_rp_def)
qed

lemma set_attributes_server_ok:
  assumes "server_ok s"
  shows "spool_set_count n a s = Inr s' \<Longrightarrow> server_ok s'"
    "spool_set_list_count n a s = Inr s' \<Longrightarrow> server_ok s'"
    "spool_set_priority n a s = Inr s' \<Longrightarrow> server_ok s'"
    "spool_set_volume n a s = Inr s' \<Longrightarrow> server_ok s'"
    "spool_set_channel_volume c n a s = Inr s' \<Longrightarrow> server_ok s'"
    "spool_set_client_data d a s = Inr s' \<Longrightarrow> server_ok s'"
    "spool_set_sample_rate ev n a s = Inr s' \<Longrightarrow> server_ok s'"
proof -
  have upd: "server_ok (upd_sp a g t)" if "keeps g" "\<And>e. key_of (g e) = key_of e" "server_ok t" for g t
    using that(3)
  proof (rule one_entry_server_ok)
    show "touches a t (upd_sp a g t)" using that(1) by (simp add: touches_upd_sp)
    show "spool_ok (upd_sp a g t)"
      using quiet_ok [OF quiet_upd_sp server_okD(1) [OF that(3)]] that(2) by blast
  qed
  have curr: "server_ok t" if "set_curr f a s = Inr t" for f t
    using set_curr_effect [OF assms that] one_entry_server_ok [OF assms] by blast
  have k: "key_of (upd_rp f e) = key_of e" for f e by (simp add: key_of_def upd_rp_def)
  show "spool_set_count n a s = Inr s' \<Longrightarrow> server_ok s'"
    using curr by (auto simp: spool_set_count_def key_of_def intro!: upd)
  show "spool_set_list_count n a s = Inr s' \<Longrightarrow> server_ok s'"
    using assms by (auto simp: spool_set_list_count_def key_of_def upd_rp_def keeps_def tag_def intro!: upd)
  show "spool_set_priority n a s = Inr s' \<Longrightarrow> server_ok s'"
    using upd [OF _ k assms] by (auto simp: spool_set_priority_def dest!: spool_setprio_effect)
  show "spool_set_volume n a s = Inr s' \<Longrightarrow> server_ok s'"
    "spool_set_channel_volume c n a s = Inr s' \<Longrightarrow> server_ok s'"
    "spool_set_client_data d a s = Inr s' \<Longrightarrow> server_ok s'"
    using curr by (auto simp: spool_set_volume_def spool_set_channel_volume_def spool_set_client_data_def)
  show "server_ok s'" if r: "spool_set_sample_rate ev n a s = Inr s'"
  proof -
    obtain e where e: "found a e s" using r by (auto simp: spool_set_sample_rate_def)
    show ?thesis
      using one_entry_server_ok [OF assms touches_sample_rate [OF r touches_refl]]
        quiet_ok [OF _ server_okD(1) [OF assms]] spool_set_sample_rate_effect [OF r e] by blast
  qed
qed

end
