(* ===== verification/Rplayd.thy ===== *)
theory Rplayd
  imports SpoolSteps
begin

text \<open>
  The requests of the daemon that work on the spool (\<open>rplayd_play\<close>, \<open>rplayd_stop\<close>,
  \<open>rplayd_pause\<close>, \<open>rplayd_continue\<close>, \<open>rplayd_done\<close>, \<open>rplayd_put\<close> of
  \<open>src/rplayd/rplayd.c\<close>), the allocation of spool entries and ids, the step relation of the
  daemon over all operations of the spool, and the invariant of its reachable states.
  The result of \<open>sound_lookup\<close> for a set of attributes is an input: the sound's index
  and its current contents, or \<open>None\<close> for NULL.
\<close>

section \<open>Requests\<close>

type_synonym lookup = "rplay_attrs \<Rightarrow> server \<Rightarrow> (nat \<times> sound) option"

text \<open>The entry whose list has the given name.\<close>

fun find_list :: "cstring \<Rightarrow> spool_entry list \<Rightarrow> spool_entry option result" where
  "find_list name [] = Inr None"
| "find_list name (e # es) = bindE (the_rp e) (\<lambda>rp.
     if r_list_name rp \<noteq> [] \<and> r_list_name rp = name then Inr (Some e) else find_list name es)"

text \<open>The loop that fills \<open>sound[i..end_sound-1]\<close>; it returns the number of sounds that
  are not ready, or \<open>None\<close> when a lookup returned NULL.\<close>

fun add_sounds :: "lookup \<Rightarrow> nat \<Rightarrow> int \<Rightarrow> int \<Rightarrow> rplay_attrs list \<Rightarrow> int \<Rightarrow> server
     \<Rightarrow> (int option \<times> server) result" where
  "add_sounds lk a i end_sound [] n s = Inr (Some n, s)"
| "add_sounds lk a i end_sound (att # as) n s =
     (if i \<ge> end_sound then Inr (Some n, s)
      else if i < 0 \<or> i \<ge> SOUND_LIST_SIZE then Inl OutOfBounds
      else case lk att s of
        None \<Rightarrow> Inr (None, upd_sp a (\<lambda>e. e\<lparr>sp_sound := (sp_sound e)(i := None)\<rparr>) s)
      | Some (x, sd) \<Rightarrow>
          add_sounds lk a (i + 1) end_sound as (if s_status sd \<noteq> SOUND_READY then n + 1 else n)
            (upd_sp a (\<lambda>e. e\<lparr>sp_sound := (sp_sound e)(i := Some x)\<rparr>) (upd_sound x (\<lambda>_. sd) s)))"

definition merge_rp :: "rplay \<Rightarrow> rplay \<Rightarrow> rplay" where
  "merge_rp rp old = old\<lparr>r_attrs := r_attrs old @ r_attrs rp, r_nsounds := r_nsounds old + r_nsounds rp\<rparr>"

text \<open>The fields of a new entry; the attributes are not empty here.\<close>

definition fill_in :: "rplay \<Rightarrow> nat \<Rightarrow> spool_entry \<Rightarrow> spool_entry" where
  "fill_in rp client e = e\<lparr>sp_rp := Some rp, sp_curr_attrs := 0, sp_curr_sound := 0,
     sp_curr_count := a_count (hd (r_attrs rp)), sp_list_count := r_count rp, sp_sin := client\<rparr>"

definition read_id :: "nat \<Rightarrow> server \<Rightarrow> (int \<times> server) result" where
  "read_id a = with_sp a (\<lambda>e s. Inr (sp_id e, s))"

text \<open>A list that is not playing yet.\<close>

definition play_new :: "spool_env \<Rightarrow> lookup \<Rightarrow> int \<Rightarrow> rplay \<Rightarrow> nat \<Rightarrow> server \<Rightarrow> (int \<times> server) result" where
  "play_new ev lk threshold rp client s =
     (if r_priority rp < threshold then Inr (-1, s)
      else bindE (spool_next (r_priority rp) s) (\<lambda>(r, s1).
        case r of
          None \<Rightarrow> Inr (-1, s1)
        | Some a \<Rightarrow>
            if r_attrs rp = [] then bindE (spool_destroy a s1) (\<lambda>s2. Inr (-1, s2))
            else bindE (add_sounds lk a 0 (r_nsounds rp) (r_attrs rp) 0 s1) (\<lambda>(n, s2).
              case n of
                None \<Rightarrow> bindE (spool_destroy a s2) (\<lambda>s3. Inr (-1, s3))
              | Some n \<Rightarrow>
                  (let s3 = upd_sp a (fill_in rp client) s2
                   in bindE (if n \<noteq> 0 then Inr (set_state a SPOOL_WAIT s3) else spool_play ev a s3)
                        (read_id a)))))"

text \<open>A list with the name of a list in the spool is appended to it.  When a lookup
  fails, \<open>rplay_destroy(rp)\<close> frees attributes the entry's list has taken over, and
  \<open>spool_destroy\<close> frees them again.\<close>

definition play_merged :: "lookup \<Rightarrow> rplay \<Rightarrow> spool_entry \<Rightarrow> server \<Rightarrow> (int \<times> server) result" where
  "play_merged lk rp e s = bindE (the_rp e) (\<lambda>old.
     let a = sp_addr e;
         s1 = upd_sp a (upd_rp (merge_rp rp)) s
     in if r_attrs rp = [] then bindE (spool_destroy a s1) (\<lambda>s2. Inr (-1, s2))
        else bindE (add_sounds lk a (r_nsounds old) (r_nsounds old + r_nsounds rp) (r_attrs rp) 0 s1)
          (\<lambda>(n, s2). if n = None then Inl UseAfterFree else read_id a s2))"

definition rplayd_play :: "spool_env \<Rightarrow> lookup \<Rightarrow> bool \<Rightarrow> int \<Rightarrow> rplay \<Rightarrow> nat \<Rightarrow> server
     \<Rightarrow> (int \<times> server) result" where
  "rplayd_play ev lk audio_enabled threshold rp client s =
     (if \<not> audio_enabled then Inr (-1, s)
      else bindE (if r_list_name rp \<noteq> [] then find_list (r_list_name rp) (sv_spool s) else Inr None)
        (\<lambda>m. case m of
               Some e \<Rightarrow> play_merged lk rp e s
             | None \<Rightarrow> play_new ev lk threshold rp client s))"

definition match_request :: "(nat \<Rightarrow> server \<Rightarrow> server result) \<Rightarrow> bool \<Rightarrow> rplay \<Rightarrow> nat \<Rightarrow> server
     \<Rightarrow> (int \<times> server) result" where
  "match_request action audio_enabled rp client s =
     (if \<not> audio_enabled then Inr (-1, s)
      else bindE (spool_match (r_attrs rp) action client s) (\<lambda>(s1, n).
             Inr (if n > 0 then 0 else -1, s1)))"

definition rplayd_stop :: "bool \<Rightarrow> rplay \<Rightarrow> nat \<Rightarrow> server \<Rightarrow> (int \<times> server) result" where
  "rplayd_stop = match_request spool_stop"

definition rplayd_pause :: "bool \<Rightarrow> rplay \<Rightarrow> nat \<Rightarrow> server \<Rightarrow> (int \<times> server) result" where
  "rplayd_pause = match_request spool_pause"

definition rplayd_continue :: "spool_env \<Rightarrow> bool \<Rightarrow> rplay \<Rightarrow> nat \<Rightarrow> server \<Rightarrow> (int \<times> server) result" where
  "rplayd_continue ev = match_request (spool_continue ev)"

definition rplayd_done :: "bool \<Rightarrow> rplay \<Rightarrow> nat \<Rightarrow> server \<Rightarrow> (int \<times> server) result" where
  "rplayd_done = match_request spool_done"

text \<open>\<open>memcpy\<close> of \<open>data_size\<close> bytes into the 8192 bytes of a buffer.\<close>

definition rplayd_put :: "spool_env \<Rightarrow> bool \<Rightarrow> rplay \<Rightarrow> server \<Rightarrow> (int \<times> server) result" where
  "rplayd_put ev audio_enabled rp s =
     (if \<not> audio_enabled then Inr (-1, s)
      else case spool_find (r_id rp) s of
        None \<Rightarrow> Inr (-1, s)
      | Some a \<Rightarrow>
          (let (b, p) = buffer_create (sv_pool s);
               n = uint (r_data_size rp)
           in if n > BUFFER_SIZE then Inl OutOfBounds
              else if n > 0 \<and> r_data rp = None then Inl NullPointer
              else bindE (spool_flow_insert ev a [b\<lparr>b_nbytes := n\<rparr>] (s\<lparr>sv_pool := p\<rparr>))
                     (\<lambda>(ok, s1). Inr (0, s1))))"

section \<open>Identifiers\<close>

lemma next_id_range: "0 \<le> i \<Longrightarrow> SPOOL_MIN_ID \<le> next_id i \<and> next_id i \<le> SPOOL_MAX_ID"
  by (auto simp: next_id_def)

lemma find_id_Some:
  "find_id n es i = Some j \<Longrightarrow> 0 \<le> i \<Longrightarrow> \<not> id_in_use es j \<and> SPOOL_MIN_ID \<le> j \<and> j \<le> SPOOL_MAX_ID"
proof (induction n arbitrary: i)
  case (Suc n)
  have "0 \<le> next_id i" "SPOOL_MIN_ID \<le> next_id i \<and> next_id i \<le> SPOOL_MAX_ID"
    using next_id_range [OF Suc.prems(2)] by auto
  then show ?case using Suc by (auto split: if_splits)
qed simp

text \<open>The ids that the loop tries from \<open>i\<close> on.\<close>

definition nth_id :: "int \<Rightarrow> nat \<Rightarrow> int" where
  "nth_id i k = (i + int k) mod SPOOL_MAX_ID + 1"

lemma next_id_mod: "0 \<le> i \<Longrightarrow> i \<le> SPOOL_MAX_ID \<Longrightarrow> next_id i = i mod SPOOL_MAX_ID + 1"
  by (cases "i = 999") (auto simp: next_id_def)

lemma nth_id_Suc:
  assumes "0 \<le> i" "i \<le> SPOOL_MAX_ID"
  shows "nth_id (next_id i) k = nth_id i (Suc k)"
proof -
  have "(i mod 999 + (1 + int k)) mod 999 = (i + (1 + int k)) mod 999" by (rule mod_add_left_eq)
  then show ?thesis by (simp add: nth_id_def next_id_mod [OF assms] add.assoc)
qed

lemma find_id_None:
  "find_id n es i = None \<Longrightarrow> 0 \<le> i \<Longrightarrow> i \<le> SPOOL_MAX_ID \<Longrightarrow> k < n \<Longrightarrow> id_in_use es (nth_id i k)"
proof (induction n arbitrary: i k)
  case (Suc n)
  have u: "id_in_use es (next_id i)" "find_id n es (next_id i) = None"
    using Suc.prems(1) by (auto split: if_splits)
  show ?case
  proof (cases k)
    case 0
    then show ?thesis using u(1) next_id_mod [OF Suc.prems(2,3)] by (simp add: nth_id_def)
  next
    case (Suc k')
    have "0 \<le> next_id i" "next_id i \<le> SPOOL_MAX_ID"
      using next_id_range [OF Suc.prems(2)] by auto
    then have "id_in_use es (nth_id (next_id i) k')"
      using Suc.IH [OF u(2)] Suc.prems(4) \<open>k = Suc k'\<close> by simp
    then show ?thesis using nth_id_Suc Suc.prems(2,3) \<open>k = Suc k'\<close> by simp
  qed
qed simp


lemma nth_id_inj: "inj_on (nth_id i) {..<999}"
proof (rule inj_onI)
  fix k l assume kl: "k \<in> {..<999::nat}" "l \<in> {..<999}" "nth_id i k = nth_id i l"
  have "(999::int) dvd (i + int k) - (i + int l)"
    using kl(3) by (simp add: nth_id_def mod_eq_dvd_iff)
  then have d: "(999::int) dvd int k - int l" by simp
  have "int k - int l < 999" "- 999 < int k - int l" using kl(1,2) by auto
  then have "int k - int l = 0" using d zdvd_not_zless [of "int k - int l" 999] zdvd_not_zless [of "int l - int k" 999]
    by (cases "int k - int l" "0::int" rule: linorder_cases) (auto simp: dvd_diff_commute)
  then show "k = l" by simp
qed

lemma find_id_total:
  assumes "length es < 999" "0 \<le> i" "i \<le> SPOOL_MAX_ID"
  shows "\<exists>j. find_id 999 es i = Some j"
proof (rule ccontr)
  assume "\<not> ?thesis"
  then have n: "find_id 999 es i = None" by auto
  have "nth_id i ` {..<999} \<subseteq> sp_id ` set es"
  proof (rule image_subsetI)
    fix k :: nat assume "k \<in> {..<999}"
    then have "id_in_use es (nth_id i k)" using find_id_None [OF n assms(2,3)] by simp
    then show "nth_id i k \<in> sp_id ` set es" by (force simp: id_in_use_def)
  qed
  then have "card (nth_id i ` {..<999}) \<le> card (sp_id ` set es)" by (intro card_mono) auto
  moreover have "card (nth_id i ` {..<999}) = 999" using card_image [OF nth_id_inj] by simp
  moreover have "card (sp_id ` set es) \<le> length es" using card_image_le [of "set es" sp_id] card_length [of es]
    by (meson finite_set le_trans)
  ultimately show False using assms(1) by simp
qed

lemma spool_id_fresh:
  assumes "spool_id s = Inr (i, s')" "0 \<le> spool_last_id s"
  shows "SPOOL_MIN_ID \<le> i" "i \<le> SPOOL_MAX_ID" "s' = s\<lparr>spool_last_id := i\<rparr>"
    "e \<in> set (sv_spool s) \<Longrightarrow> sp_state e \<noteq> SPOOL_NULL \<Longrightarrow> sp_id e \<noteq> i"
  using assms find_id_Some [of 999 "sv_spool s" "spool_last_id s" i]
  by (auto simp: spool_id_def id_in_use_def split: option.splits)

section \<open>Allocation of an entry\<close>

text \<open>A state in which the entry at \<open>a\<close> has just been allocated: it is in state NULL with
  a new id, and the rest of the spool is in order.\<close>

definition allocated :: "nat \<Rightarrow> server \<Rightarrow> bool" where
  "allocated a s \<longleftrightarrow> spool_inv s \<and> distinct (map sp_id (sv_spool s))
     \<and> (\<forall>e \<in> set (sv_spool s). (sp_state e = SPOOL_NULL \<longleftrightarrow> sp_addr e = a)
           \<and> SPOOL_MIN_ID \<le> sp_id e \<and> sp_id e \<le> SPOOL_MAX_ID)
     \<and> (\<exists>e. found a e s \<and> sp_auto_pause e = 0)
     \<and> int (length (sv_spool s)) \<le> SPOOL_SIZE
     \<and> 0 \<le> spool_last_id s \<and> spool_last_id s \<le> SPOOL_MAX_ID"

lemma assign_id_allocated:
  assumes "assign_id a s = Inr s'" "spool_inv s" "0 \<le> spool_last_id s"
    "found a e s" "sp_state e = SPOOL_NULL" "sp_auto_pause e = 0"
    "\<And>e'. e' \<in> set (sv_spool s) \<Longrightarrow> sp_addr e' \<noteq> a \<Longrightarrow>
       sp_state e' \<noteq> SPOOL_NULL \<and> SPOOL_MIN_ID \<le> sp_id e' \<and> sp_id e' \<le> SPOOL_MAX_ID"
    "distinct (map sp_id (others a s))" "int (length (sv_spool s)) \<le> SPOOL_SIZE"
  shows "allocated a s' \<and> others a s' = others a s \<and> length (sv_spool s') = length (sv_spool s)"
proof -
  obtain i s1 where i1: "spool_id s = Inr (i, s1)" and s1: "s' = upd_sp a (\<lambda>e. e\<lparr>sp_id := i\<rparr>) s1"
    using assms(1) by (auto simp: assign_id_def)
  then have e1: "s1 = s\<lparr>spool_last_id := i\<rparr>" using spool_id_fresh(3) assms(3) by blast
  note i = i1 [unfolded e1] and s' = s1 [unfolded e1]
  note f = spool_id_fresh [OF i assms(3)]
  have ok: "spool_ok s" using assms(2) by (simp add: spool_inv_def)
  let ?g = "\<lambda>e. if sp_addr e = a then e\<lparr>sp_id := i\<rparr> else e"
  have sp: "sv_spool s' = map ?g (sv_spool s)" by (simp add: s' upd_sp_def)
  have d: "distinct (map sp_addr (sv_spool s))"
    using ok by (simp add: spool_ok_def keys_def key_of_def o_def)
  have null: "sp_state e' = SPOOL_NULL \<longleftrightarrow> sp_addr e' = a" if "e' \<in> set (sv_spool s)" for e'
    using assms(5,7) that found_iff [OF ok] assms(4) found_unique [OF assms(4)] by metis
  have o: "others a s' = others a s"
  proof -
    have "filter (\<lambda>e. sp_addr e \<noteq> a) (map ?g es) = filter (\<lambda>e. sp_addr e \<noteq> a) es" for es
      by (induction es) auto
    then show ?thesis by (simp add: others_def sp)
  qed
  have inv: "spool_inv s'"
  proof -
    have "quiet s s'" unfolding s'
      by (rule quiet_trans [OF quiet_updates(4) quiet_upd_sp]) (simp add: key_of_def)
    then have "spool_ok s'" using quiet_ok ok by blast
    moreover have "no_cdrom s'" using assms(2) by (simp add: s' spool_inv_def)
    ultimately show ?thesis by (simp add: spool_inv_def)
  qed
  have dist: "distinct (map sp_id (map ?g es))"
    if "distinct (map sp_addr es)" "distinct (map sp_id (filter (\<lambda>e. sp_addr e \<noteq> a) es))"
      "\<forall>e' \<in> set es. sp_addr e' \<noteq> a \<longrightarrow> sp_id e' \<noteq> i" for es
    using that by (induction es) (auto simp: image_iff)
  have "\<forall>e' \<in> set (sv_spool s). sp_addr e' \<noteq> a \<longrightarrow> sp_id e' \<noteq> i" using f(4) null by blast
  then have "distinct (map sp_id (sv_spool s'))"
    using dist [OF d] assms(8) by (simp add: sp others_def)
  moreover have "\<forall>e \<in> set (sv_spool s'). (sp_state e = SPOOL_NULL \<longleftrightarrow> sp_addr e = a)
           \<and> SPOOL_MIN_ID \<le> sp_id e \<and> sp_id e \<le> SPOOL_MAX_ID"
    using null assms(7) f(1,2) by (auto simp: sp)
  moreover have "found a (e\<lparr>sp_id := i\<rparr>) s'"
    unfolding s' using assms(4) by (subst found_upd_sp) auto
  ultimately show ?thesis
    using inv o sp assms(6,9) f(1,2) by (auto simp: allocated_def s' upd_sp_def)
qed


lemma spool_create_effect:
  assumes "spool_create s = Inr (a, s')" "server_ok s"
  shows "a = sv_fresh s \<and> spool_inv s' \<and> found a (reset_entry (blank_entry a)) s' \<and> others a s' = sv_spool s
    \<and> length (sv_spool s') = Suc (length (sv_spool s)) \<and> spool_last_id s' = spool_last_id s
    \<and> a \<notin> sp_addr ` set (sv_spool s)"
proof -
  obtain m where s': "a = sv_fresh s" "s' = s\<lparr>spool_prio := m, sv_fresh := Suc a,
      sv_spool := reset_entry (blank_entry a) # sv_spool s, spool_size := spool_size s + 1\<rparr>"
    using assms(1) by (auto simp: spool_create_def Let_def dest!: spool_setprio_effect)
  have ok: "spool_ok s" "no_cdrom s" using assms(2) server_okD by auto
  have lt: "sp_addr e < sv_fresh s" if "e \<in> set (sv_spool s)" for e
    using ok(1) that by (auto simp: spool_ok_def keys_def key_of_def)
  then have na: "a \<notin> sp_addr ` set (sv_spool s)" unfolding s'(1) by fastforce
  have k: "keys s' = (a, SPOOL_NULL, True, True) # keys s"
    by (simp add: s' keys_def key_of_def reset_entry_def blank_entry_def)
  have f: "map fst (keys s) = map sp_addr (sv_spool s)" by (simp add: keys_def key_of_def)
  have "spool_ok s'"
    unfolding spool_ok_def k using ok(1) na
    by (auto simp: spool_ok_def f playing_def paused_def key_ok_def s' less_Suc_eq)
  moreover have "others a s' = sv_spool s"
    using na by (auto simp: others_def s'(2) reset_entry_def blank_entry_def intro!: filter_True)
  moreover have "found a (reset_entry (blank_entry a)) s'"
    by (simp add: found_def s'(2) reset_entry_def blank_entry_def)
  ultimately show ?thesis
    using ok(2) na s' by (auto simp: spool_inv_def no_cdrom_def)
qed

lemma lowest_entry_result:
  assumes "lowest_entry es m low = Inr (m', low')"
  shows "m' \<le> m \<and> (\<forall>e \<in> set es. \<forall>rp. sp_state e = SPOOL_PLAY \<longrightarrow> sp_rp e = Some rp \<longrightarrow> m' \<le> r_priority rp)
    \<and> (low' = low \<and> m' = m \<or>
       (\<exists>e \<in> set es. \<exists>rp. low' = Some (sp_addr e) \<and> sp_state e = SPOOL_PLAY \<and> sp_rp e = Some rp
          \<and> r_priority rp = m' \<and> m' < m))"
  using assms
proof (induction es arbitrary: m low)
  case (Cons e es)
  show ?case
  proof (cases "sp_state e = SPOOL_PLAY")
    case True
    then obtain rp where rp: "sp_rp e = Some rp"
      and r: "lowest_entry es (if r_priority rp < m then r_priority rp else m)
        (if r_priority rp < m then Some (sp_addr e) else low) = Inr (m', low')"
      using Cons.prems by (auto simp: the_rp_def split: option.splits if_splits)
    show ?thesis using Cons.IH [OF r] True rp by (auto split: if_splits)
  next
    case False
    then show ?thesis using Cons.IH [of m low] Cons.prems by auto
  qed
qed simp

text \<open>The steps that replace the entry at \<open>a\<close>.\<close>

lemma replace_effect:
  assumes "server_ok s" "found a e s" "sp_state e = SPOOL_PLAY"
    "notify_position_off a s = Inr s1" "with_sp a (\<lambda>e s. Inr (notify NOTIFY_DONE e s)) s1 = Inr s2"
    "spool_reset a s2 = Inr s3"
    "assign_id a (s3\<lparr>spool_nplaying := spool_nplaying s3 - 1\<rparr>) = Inr s'"
  shows "allocated a s' \<and> others a s' = others a s \<and> length (sv_spool s') = length (sv_spool s)"
proof -
  have ok: "spool_ok s" "no_cdrom s" using assms(1) server_okD by auto
  note p = notify_position_off_effect [OF assms(4,2)] touches_position_off [OF assms(4) touches_refl]
  have s2: "quiet s s2" "found a (position_off e) s2" "touches a s s2"
    using assms(5) p by (auto simp: quiet_def)
  note r = spool_reset_effect [OF assms(6) s2(2)] and l = spool_reset_list [OF assms(6)]
  obtain e' where e': "found a e' s3" "sp_state e' = SPOOL_NULL" "sp_auto_pause e' = 0" using r by auto
  let ?t = "s3\<lparr>spool_nplaying := spool_nplaying s3 - 1\<rparr>"
  have ne: "sp_state e \<noteq> SPOOL_NULL" using assms(3) by simp
  have tok: "spool_ok ?t"
    using r s2(1) assms(3) found_key [OF assms(2)]
    by (intro move_ok [OF ok(1), of "key_of e" a "null_key a"])
      (auto simp: quiet_def key_of_def null_key_def key_ok_def playing_def paused_def)
  have nc: "no_cdrom ?t"
    using ok(2) l s2(3) by (auto simp: no_cdrom_def touches_def sound_types_def fun_eq_iff)
  have o3: "others a ?t = others a s"
    using l filter_reset s2(3) by (simp add: others_def touches_def)
  have tl: "length (sv_spool ?t) = length (sv_spool s)"
    using l s2(1) by (simp add: quiet_def keys_def) (metis length_map)
  have "allocated a s' \<and> others a s' = others a ?t \<and> length (sv_spool s') = length (sv_spool ?t)"
  proof (rule assign_id_allocated [OF assms(7)])
    show "spool_inv ?t" using tok nc by (simp add: spool_inv_def)
    show "0 \<le> spool_last_id ?t" using assms(1) l s2(3) by (simp add: server_ok_def touches_def)
    show "found a e' ?t" using e'(1) by simp
    show "sp_state e'' \<noteq> SPOOL_NULL \<and> SPOOL_MIN_ID \<le> sp_id e'' \<and> sp_id e'' \<le> SPOOL_MAX_ID"
      if "e'' \<in> set (sv_spool ?t)" "sp_addr e'' \<noteq> a" for e''
    proof -
      have "e'' \<in> set (others a ?t)" using that by (simp add: others_def)
      then have "e'' \<in> set (sv_spool s)" unfolding o3 by (simp add: others_def)
      then show ?thesis using assms(1) by (simp add: server_ok_def)
    qed
    show "distinct (map sp_id (others a ?t))"
      unfolding o3 using assms(1) by (simp add: others_def server_ok_def distinct_map_filter)
    show "int (length (sv_spool ?t)) \<le> SPOOL_SIZE" unfolding tl using assms(1) by (simp add: server_ok_def)
  qed (use e' in auto)
  then show ?thesis using o3 tl by simp
qed

lemma spool_next_result:
  assumes "spool_next p s = Inr (r, s')" "server_ok s"
  shows "case r of None \<Rightarrow> s' = s | Some a \<Rightarrow> allocated a s' \<and> others a s' = others a s
    \<and> length (sv_spool s') = (if spool_size s < SPOOL_SIZE then Suc (length (sv_spool s)) else length (sv_spool s))"
proof (cases "spool_size s < SPOOL_SIZE")
  case True
  then obtain a s1 where c: "spool_create s = Inr (a, s1)" "assign_id a s1 = Inr s'" "r = Some a"
    using assms(1) by (auto simp: spool_next_def)
  note e = spool_create_effect [OF c(1) assms(2)]
  have len: "int (length (sv_spool s)) < SPOOL_SIZE"
    using True server_okD(1) [OF assms(2)] by (simp add: spool_ok_def)
  have "allocated a s' \<and> others a s' = others a s1 \<and> length (sv_spool s') = length (sv_spool s1)"
  proof (rule assign_id_allocated [OF c(2)])
    show "sp_state e'' \<noteq> SPOOL_NULL \<and> SPOOL_MIN_ID \<le> sp_id e'' \<and> sp_id e'' \<le> SPOOL_MAX_ID"
      if "e'' \<in> set (sv_spool s1)" "sp_addr e'' \<noteq> a" for e''
    proof -
      have "e'' \<in> set (others a s1)" using that by (simp add: others_def)
      then have "e'' \<in> set (sv_spool s)" using e by metis
      then show ?thesis using assms(2) by (simp add: server_ok_def)
    qed
    show "found a (reset_entry (blank_entry a)) s1" using e by blast
  qed (use e assms(2) len in \<open>auto simp: server_ok_def reset_entry_def\<close>)
  moreover have "others a s = sv_spool s"
  proof -
    have "\<forall>e \<in> set (sv_spool s). sp_addr e \<noteq> a" using e by (metis imageI)
    then show ?thesis by (simp add: others_def filter_True)
  qed
  moreover have "others a s1 = sv_spool s" "length (sv_spool s1) = Suc (length (sv_spool s))"
    using e by blast+
  ultimately show ?thesis using c(3) True by simp
next
  case False
  obtain m low where low: "lowest_entry (sv_spool s) RPLAY_MAX_PRIORITY None = Inr (m, low)"
    and r: "(case low of
          Some a \<Rightarrow>
            if p > m
            then bindE (notify_position_off a s) (\<lambda>s1.
                 bindE (with_sp a (\<lambda>e s. Inr (notify NOTIFY_DONE e s)) s1) (\<lambda>s2.
                 bindE (spool_reset a s2) (\<lambda>s3.
                 bindE (assign_id a (s3\<lparr>spool_nplaying := spool_nplaying s3 - 1\<rparr>)) (\<lambda>s4.
                 Inr (Some a, s4)))))
            else Inr (None, s)
        | None \<Rightarrow> Inr (None, s)) = Inr (r, s')"
    using assms(1) False by (auto simp: spool_next_def)
  show ?thesis
  proof (cases r)
    case None
    then show ?thesis using r by (auto split: option.splits if_splits)
  next
    case (Some a)
    then obtain s1 s2 s3 where st: "low = Some a" "notify_position_off a s = Inr s1"
      "with_sp a (\<lambda>e s. Inr (notify NOTIFY_DONE e s)) s1 = Inr s2" "spool_reset a s2 = Inr s3"
      "assign_id a (s3\<lparr>spool_nplaying := spool_nplaying s3 - 1\<rparr>) = Inr s'"
      using r by (auto split: option.splits if_splits simp del: with_sp_Inr)
    obtain e where e: "e \<in> set (sv_spool s)" "sp_addr e = a" "sp_state e = SPOOL_PLAY"
      using lowest_entry_result [OF low] st(1) by auto
    have "found a e s" using e found_iff server_okD(1) [OF assms(2)] by blast
    from replace_effect [OF assms(2) this e(3) st(2-5)] show ?thesis using Some False by simp
  qed
qed


section \<open>rplayd_play keeps the invariant\<close>

text \<open>Lookups never give a sound on CD.\<close>

definition lookup_ok :: "lookup \<Rightarrow> bool" where
  "lookup_ok lk \<longleftrightarrow> (\<forall>att s x sd. lk att s = Some (x, sd) \<longrightarrow> s_type sd \<noteq> SOUND_CDROM)"

lemma add_sounds_invariant:
  assumes "add_sounds lk a i en as n s = Inr (r, s')" "P s" "lookup_ok lk"
    "\<And>t f. P t \<Longrightarrow> P (upd_sp a (\<lambda>e. e\<lparr>sp_sound := f e\<rparr>) t)"
    "\<And>t x sd. P t \<Longrightarrow> s_type sd \<noteq> SOUND_CDROM \<Longrightarrow> P (upd_sound x (\<lambda>_. sd) t)"
  shows "P s'"
  using assms(1,2)
proof (induction as arbitrary: i n s)
  case (Cons att as)
  show ?case
  proof (cases "lk att s")
    case None
    then show ?thesis using Cons.prems assms(4) [OF Cons.prems(2)] by (auto split: if_splits)
  next
    case (Some y)
    obtain x sd where y: "y = (x, sd)" by (cases y)
    have "s_type sd \<noteq> SOUND_CDROM" using assms(3) Some y by (auto simp: lookup_ok_def)
    then have "P (upd_sp a (\<lambda>e. e\<lparr>sp_sound := (sp_sound e)(i := Some x)\<rparr>) (upd_sound x (\<lambda>_. sd) s))"
      using assms(4) [of "upd_sound x (\<lambda>_. sd) s" "\<lambda>e. (sp_sound e)(i := Some x)"] assms(5) Cons.prems(2) by blast
    then show ?thesis
      using Cons.IH Cons.prems Some y by (auto split: if_splits)
  qed
qed simp

lemma upd_sound_fields [simp]:
  "sv_spool (upd_sound x f s) = sv_spool s" "keys (upd_sound x f s) = keys s"
  "others a (upd_sound x f s) = others a s" "tags (upd_sound x f s) = tags s"
  "found a e (upd_sound x f s) = found a e s" "null_entry a (upd_sound x f s) = null_entry a s"
  "spool_last_id (upd_sound x f s) = spool_last_id s" "spool_ok (upd_sound x f s) = spool_ok s"
  by (simp_all add: upd_sound_def keys_def others_def tags_def found_def null_entry_def spool_ok_def)

lemma no_cdrom_upd_sound:
  "no_cdrom s \<Longrightarrow> s_type sd \<noteq> SOUND_CDROM \<Longrightarrow> no_cdrom (upd_sound x (\<lambda>_. sd) s)"
  by (simp add: no_cdrom_def upd_sound_def)

lemma server_ok_new_sound:
  "server_ok s \<Longrightarrow> s_type sd \<noteq> SOUND_CDROM \<Longrightarrow> server_ok (upd_sound x (\<lambda>_. sd) s)"
  using no_cdrom_upd_sound by (simp add: server_ok_def spool_inv_def)

lemma allocated_new_sound:
  "allocated a s \<Longrightarrow> s_type sd \<noteq> SOUND_CDROM \<Longrightarrow> allocated a (upd_sound x (\<lambda>_. sd) s)"
  using no_cdrom_upd_sound by (simp add: allocated_def spool_inv_def)

text \<open>An update of the allocated entry that keeps its key apart from the packet.\<close>

lemma allocated_upd:
  assumes "allocated a s" "keeps g" "\<And>e. sp_state (g e) = sp_state e"
    "\<And>e. sp_auto_pause (g e) = sp_auto_pause e"
  shows "allocated a (upd_sp a g s)"
proof -
  obtain e where e: "found a e s" "sp_auto_pause e = 0" using assms(1) by (auto simp: allocated_def)
  have ok: "spool_ok s" "no_cdrom s" using assms(1) by (auto simp: allocated_def spool_inv_def)
  have g: "sp_addr (g e') = sp_addr e'" "sp_id (g e') = sp_id e'" for e'
    using assms(2) by (auto simp: keeps_def tag_def)
  have sp: "sv_spool (upd_sp a g s) = map (\<lambda>e. if sp_addr e = a then g e else e) (sv_spool s)"
    by (simp add: upd_sp_def)
  have st: "sp_state e = SPOOL_NULL" using assms(1) found_key [OF e(1)] by (auto simp: allocated_def)
  have one: "e' = e" if "e' \<in> set (sv_spool s)" "sp_addr e' = a" for e'
    using that found_iff [OF ok(1)] found_unique [OF e(1)] by blast
  have "spool_ok (upd_sp a g s)"
  proof (rule set_key_ok [OF ok(1) e(1), of _ "(a, SPOOL_NULL, True, sp_rp (g e) = None)"])
    show "keys (upd_sp a g s) = upd_key a (\<lambda>_. (a, SPOOL_NULL, True, sp_rp (g e) = None)) (keys s)"
      using one g assms(3,4) st e(2)
      by (auto simp: keys_def upd_sp_def upd_key_def key_of_def)
  qed (auto simp: key_ok_def playing_def paused_def active_playing st key_of_def)
  moreover have "distinct (map sp_id (sv_spool (upd_sp a g s)))"
  proof -
    have "map sp_id (sv_spool (upd_sp a g s)) = map sp_id (sv_spool s)" using g by (auto simp: sp)
    then show ?thesis using assms(1) by (simp only: allocated_def)
  qed
  moreover have "\<forall>e \<in> set (sv_spool (upd_sp a g s)). (sp_state e = SPOOL_NULL \<longleftrightarrow> sp_addr e = a)
           \<and> SPOOL_MIN_ID \<le> sp_id e \<and> sp_id e \<le> SPOOL_MAX_ID"
    using assms(1,3) g by (auto simp: sp allocated_def)
  moreover have "found a (g e) (upd_sp a g s)"
    using e(1) g by (subst found_upd_sp) auto
  moreover have "spool_last_id (upd_sp a g s) = spool_last_id s" by (simp add: upd_sp_def)
  moreover have "no_cdrom (upd_sp a g s)" using ok(2) by simp
  moreover have "sp_auto_pause (g e) = 0" using e(2) assms(4) by simp
  moreover have "length (sv_spool (upd_sp a g s)) = length (sv_spool s)" by (simp add: sp)
  moreover have "int (length (sv_spool s)) \<le> SPOOL_SIZE" "0 \<le> spool_last_id s" "spool_last_id s \<le> SPOOL_MAX_ID"
    using assms(1) by (auto simp: allocated_def)
  ultimately show ?thesis unfolding allocated_def spool_inv_def by metis
qed

text \<open>The allocated entry is put in order.\<close>

lemma allocated_settle:
  assumes "allocated a s" "touches a s s'" "spool_ok s'" "\<not> null_entry a s'"
  shows "server_ok s'"
proof -
  have ids: "distinct (map sp_id (sv_spool s'))" "sp_id ` set (sv_spool s') \<subseteq> sp_id ` set (sv_spool s)"
    "length (sv_spool s') \<le> length (sv_spool s)"
    using touches_keeps_ids [OF assms(2)] assms(1) by (auto simp: allocated_def)
  have "sp_state e \<noteq> SPOOL_NULL" if "e \<in> set (sv_spool s')" for e
  proof (cases "sp_addr e = a")
    case True
    then show ?thesis using assms(4) that by (auto simp: null_entry_def)
  next
    case False
    then have "e \<in> set (others a s')" using that by (simp add: others_def)
    then have "e \<in> set (others a s)" using assms(2) by (simp add: touches_def)
    then show ?thesis using assms(1) by (auto simp: others_def allocated_def)
  qed
  moreover have "no_cdrom s'"
    using assms(1,2) by (auto simp: touches_def no_cdrom_def allocated_def spool_inv_def sound_types_def fun_eq_iff)
  moreover have "SPOOL_MIN_ID \<le> sp_id e \<and> sp_id e \<le> SPOOL_MAX_ID" if "e \<in> set (sv_spool s')" for e
  proof -
    obtain e0 where "e0 \<in> set (sv_spool s)" "sp_id e = sp_id e0"
      using ids(2) \<open>e \<in> set (sv_spool s')\<close> by fastforce
    then show ?thesis using assms(1) by (simp add: allocated_def)
  qed
  moreover have "int (length (sv_spool s')) \<le> SPOOL_SIZE" using ids(3) assms(1) by (simp add: allocated_def)
  ultimately show ?thesis
    using assms ids(1) by (auto simp: server_ok_def spool_inv_def touches_def allocated_def)
qed

lemma allocated_destroy:
  assumes "allocated a s" "spool_destroy a s = Inr s'"
  shows "server_ok s'"
proof -
  obtain e where e: "found a e s" using assms(1) by (auto simp: allocated_def)
  have ok: "spool_ok s" using assms(1) by (simp add: allocated_def spool_inv_def)
  have st: "sp_state e = SPOOL_NULL" using assms(1) found_key [OF e] by (auto simp: allocated_def)
  show ?thesis
  proof (rule allocated_settle [OF assms(1) touches_destroy [OF assms(2) touches_refl]])
    show "spool_ok s'"
      by (rule destroy_ok [OF ok e e assms(2)]) (auto simp: active_playing st)
    show "\<not> null_entry a s'" using spool_destroy_list [OF assms(2)] by (auto simp: null_entry_def)
  qed
qed


lemma touches_null: "touches a s s' \<Longrightarrow> null_entry a s' \<Longrightarrow> null_entry a s"
  unfolding touches_def by (elim conjE mp) assumption

lemma set_state_not_null:
  assumes "st \<noteq> SPOOL_NULL"
  shows "\<not> null_entry a (set_state a st s)"
proof
  assume "null_entry a (set_state a st s)"
  then obtain e where e: "e \<in> set (sv_spool (set_state a st s))" "sp_addr e = a" "sp_state e = SPOOL_NULL"
    unfolding null_entry_def by blast
  have "sv_spool (set_state a st s) = map (\<lambda>e. if sp_addr e = a then e\<lparr>sp_state := st\<rparr> else e) (sv_spool s)"
    by (simp add: set_state_def upd_sp_def)
  then have "e \<in> (\<lambda>e. if sp_addr e = a then e\<lparr>sp_state := st\<rparr> else e) ` set (sv_spool s)"
    using e(1) by (simp only: set_map)
  then obtain e0 where "e = (if sp_addr e0 = a then e0\<lparr>sp_state := st\<rparr> else e0)" by (rule imageE)
  then show False using assms e(2,3) by (cases "sp_addr e0 = a") simp_all
qed

lemma play_not_null:
  assumes "no_cdrom s" "spool_play ev a s = Inr s'"
  shows "\<not> null_entry a s'"
proof -
  obtain x where p: "play_opened ev x a s = Inr s'"
    using assms by (auto simp: spool_play_def Let_def no_cdrom_def split: if_splits)
  obtain e where e: "found a e s" using p by (auto simp: play_opened_def)
  show ?thesis
  proof (cases "ev_open ev x")
    case None
    then show ?thesis
      using p spool_destroy_list [of a _ s']
      by (auto simp: play_opened_def null_entry_def with_sp_found [OF e] simp del: with_sp_Inr)
  next
    case (Some si)
    then obtain s2 s4 where s4: "spool_setprio ((set_state a SPOOL_PLAY s2)\<lparr>spool_nplaying :=
                 spool_nplaying (set_state a SPOOL_PLAY s2) + 1\<rparr>) = Inr s4"
      and s': "(let s5 = notify NOTIFY_POSITION e (notify NOTIFY_PLAY e
                           (s4\<lparr>spool_needs_update := spool_needs_update s4 + 1\<rparr>))
                in if sp_auto_pause e \<noteq> 0
                   then bindE (spool_pause a s5) (\<lambda>s6.
                          Inr (upd_sp a (\<lambda>e. e\<lparr>sp_auto_pause := 0\<rparr>) s6))
                   else Inr s5) = Inr s'"
      using p by (auto simp: play_opened_def with_sp_found [OF e] Let_def simp del: with_sp_Inr)
    define s3 where "s3 = set_state a SPOOL_PLAY s2"
    have "touches a s3 s4" by (rule touches_setprio [OF s4 [folded s3_def]]) simp
    then have t5: "touches a s3 (notify NOTIFY_POSITION e (notify NOTIFY_PLAY e
                           (s4\<lparr>spool_needs_update := spool_needs_update s4 + 1\<rparr>)))" (is "touches a s3 ?s5")
      by simp
    have "touches a s3 s'"
    proof (cases "sp_auto_pause e = 0")
      case True
      then show ?thesis using s' t5 by (simp only: Let_def) simp
    next
      case False
      then obtain s6 where s6: "spool_pause a ?s5 = Inr s6" "s' = upd_sp a (\<lambda>e. e\<lparr>sp_auto_pause := 0\<rparr>) s6"
        using s' by (auto simp only: Let_def bindE_Inr if_True simp_thms sum.inject)
      show ?thesis
        unfolding s6(2) by (rule touches_upd_sp [OF touches_pause [OF s6(1) t5]]) simp
    qed
    moreover have "\<not> null_entry a s3" unfolding s3_def by (rule set_state_not_null) simp
    ultimately show ?thesis using touches_null by blast
  qed
qed

lemma find_list_member: "find_list name es = Inr (Some e) \<Longrightarrow> e \<in> set es"
  by (induction es) (auto split: if_splits)

lemma server_ok_upd_sound_slot:
  "server_ok s \<Longrightarrow> server_ok (upd_sp a (\<lambda>e. e\<lparr>sp_sound := f e\<rparr>) s)"
  by (rule one_entry_server_ok [OF _ touches_upd_sp [OF touches_refl]])
    (auto simp: keeps_def tag_def key_of_def intro: quiet_ok [OF quiet_upd_sp] dest: server_okD)

lemma play_merged_server_ok:
  assumes "server_ok s" "lookup_ok lk" "r_attrs rp \<noteq> []" "play_merged lk rp e s = Inr (r, s')"
  shows "server_ok s'"
proof -
  let ?a = "sp_addr e"
  let ?s1 = "upd_sp ?a (upd_rp (merge_rp rp)) s"
  obtain n i en where "add_sounds lk ?a i en (r_attrs rp) 0 ?s1 = Inr (n, s')"
    using assms(3,4) by (auto simp: play_merged_def Let_def read_id_def split: if_splits)
  then show ?thesis
  proof (rule add_sounds_invariant [where P = server_ok, OF _ _ assms(2)])
    show "server_ok ?s1"
    proof (rule one_entry_server_ok [OF assms(1) touches_upd_sp [OF touches_refl]])
      show "spool_ok ?s1"
        by (rule quiet_ok [OF quiet_upd_sp server_okD(1) [OF assms(1)]]) (simp add: key_of_def upd_rp_def)
    qed simp
  qed (use server_ok_upd_sound_slot server_ok_new_sound in auto)
qed

lemma allocated_entry:
  assumes "allocated a s"
  shows "\<exists>e. found a e s \<and> sp_state e = SPOOL_NULL \<and> sp_auto_pause e = 0"
  using assms found_key by (fastforce simp: allocated_def)

lemma play_new_server_ok:
  assumes "server_ok s" "lookup_ok lk" "play_new ev lk thr rp client s = Inr (r, s')"
  shows "server_ok s'"
proof (cases "r_priority rp < thr")
  case True
  then show ?thesis using assms(1,3) by (simp add: play_new_def)
next
  case False
  obtain q s1 where n: "spool_next (r_priority rp) s = Inr (q, s1)"
    using assms(3) False by (auto simp: play_new_def)
  note res = spool_next_result [OF n assms(1)]
  show ?thesis
  proof (cases q)
    case None
    then show ?thesis using res assms(1,3) n False by (simp add: play_new_def)
  next
    case (Some a)
    then have al: "allocated a s1" using res by simp
    show ?thesis
    proof (cases "r_attrs rp = []")
      case True
      then show ?thesis
        using assms(3) n False Some allocated_destroy [OF al] by (auto simp: play_new_def)
    next
      case ne: False
      obtain k s2 where add: "add_sounds lk a 0 (r_nsounds rp) (r_attrs rp) 0 s1 = Inr (k, s2)"
        and rest: "(case k of
                None \<Rightarrow> bindE (spool_destroy a s2) (\<lambda>s3. Inr (-1, s3))
              | Some n \<Rightarrow>
                  (let s3 = upd_sp a (fill_in rp client) s2
                   in bindE (if n \<noteq> 0 then Inr (set_state a SPOOL_WAIT s3) else spool_play ev a s3)
                        (read_id a))) = Inr (r, s')"
        using assms(3) n False Some ne by (auto simp: play_new_def)
      have al2: "allocated a s2"
        by (rule add_sounds_invariant [where P = "allocated a", OF add al assms(2)])
          (auto simp: keeps_def tag_def intro: allocated_upd allocated_new_sound)
      show ?thesis
      proof (cases k)
        case None
        then show ?thesis using rest allocated_destroy [OF al2] by auto
      next
        case (Some m)
        let ?s3 = "upd_sp a (fill_in rp client) s2"
        have al3: "allocated a ?s3"
          by (rule allocated_upd [OF al2]) (auto simp: keeps_def tag_def fill_in_def)
        have ok3: "spool_ok ?s3" "no_cdrom ?s3" using al3 by (auto simp: allocated_def spool_inv_def)
        obtain e where e: "found a e ?s3" "sp_state e = SPOOL_NULL" "sp_auto_pause e = 0"
          using allocated_entry [OF al3] by blast
        have rp: "sp_rp e \<noteq> None"
        proof -
          have "found a e ?s3 \<longleftrightarrow> (\<exists>e'. found a e' s2 \<and> e = fill_in rp client e')"
            by (rule found_upd_sp) (simp add: fill_in_def)
          then show ?thesis using e(1) by (auto simp: fill_in_def)
        qed
        have rd: "t = s'" if "read_id a t = Inr (r, s')" for t using that by (auto simp: read_id_def)
        have b: "bindE (if m \<noteq> 0 then Inr (set_state a SPOOL_WAIT ?s3) else spool_play ev a ?s3) (read_id a)
            = Inr (r, s')"
          using rest Some by (simp only: option.case Let_def)
        consider "s' = set_state a SPOOL_WAIT ?s3" | "spool_play ev a ?s3 = Inr s'"
        proof (cases "m = 0")
          case True
          then obtain t where "spool_play ev a ?s3 = Inr t" "read_id a t = Inr (r, s')"
            using b by (auto simp only: simp_thms if_False bindE_Inr)
          then show thesis using rd that(2) by blast
        next
          case False
          then have "read_id a (set_state a SPOOL_WAIT ?s3) = Inr (r, s')"
            using b by (simp only: simp_thms if_True bindE.simps)
          then show thesis using rd that(1) by blast
        qed
        then show ?thesis
        proof cases
          case 1
          have k: "key_of e = (a, SPOOL_NULL, True, False)" "key_of e \<in> set (keys ?s3)"
            using e rp found_key [OF e(1)] by (simp add: key_of_def, blast)
          have "spool_ok s'"
          proof (rule move_ok [OF ok3(1), of "key_of e" a "state_key SPOOL_WAIT"])
            show "keys s' = upd_key a (state_key SPOOL_WAIT) (keys ?s3)" unfolding 1 by (rule keys_set_state)
            show "key_of e \<in> set (keys ?s3)" by (rule k(2))
          qed (simp_all add: 1 k(1) state_key_def key_ok_def playing_def paused_def)
          moreover have "\<not> null_entry a s'" unfolding 1 by (rule set_state_not_null) simp
          ultimately show ?thesis
            using allocated_settle [OF al3 _ _, of s'] 1 by (simp add: touches_set_state)
        next
          case 2
          have "touches a ?s3 s' \<and> spool_ok s'"
            by (rule play_uncounted_effect [OF ok3 e(1) _ _ 2]) (auto simp: active_playing e(2))
          then show ?thesis using allocated_settle [OF al3] play_not_null [OF ok3(2) 2] by blast
        qed
      qed
    qed
  qed
qed

lemma rplayd_play_server_ok:
  assumes "server_ok s" "lookup_ok lk" "r_attrs rp \<noteq> []"
    "rplayd_play ev lk en thr rp client s = Inr (r, s')"
  shows "server_ok s'"
  using assms play_merged_server_ok [OF assms(1-3)] play_new_server_ok [OF assms(1,2)]
  by (auto simp: rplayd_play_def split: if_splits option.splits)


section \<open>The steps of the daemon\<close>

context spool_action
begin

lemma match_request_result:
  assumes "match_request act True rp client s = Inr (r, s')" "server_ok s"
  shows "\<exists>n. spool_match (r_attrs rp) act client s = Inr (s', n) \<and> r = (if n > 0 then 0 else -1)"
  using assms by (auto simp: match_request_def)

lemma match_request_ok:
  assumes "match_request act en rp client s = Inr (r, s')" "server_ok s"
  shows "server_ok s'"
proof (cases en)
  case True
  then have "match_request act True rp client s = Inr (r, s')" using assms(1) by simp
  then obtain n where "spool_match (r_attrs rp) act client s = Inr (s', n)"
    using match_request_result assms(2) by blast
  then show ?thesis by (rule match_result(1) [OF _ assms(2)])
qed (use assms in \<open>simp add: match_request_def\<close>)

end

lemma rplayd_match_server_ok:
  assumes "server_ok s"
  shows "rplayd_stop en rp c s = Inr (r, s') \<Longrightarrow> server_ok s'"
    "rplayd_pause en rp c s = Inr (r, s') \<Longrightarrow> server_ok s'"
    "rplayd_continue ev en rp c s = Inr (r, s') \<Longrightarrow> server_ok s'"
    "rplayd_done en rp c s = Inr (r, s') \<Longrightarrow> server_ok s'"
  unfolding rplayd_stop_def rplayd_pause_def rplayd_continue_def rplayd_done_def
  by (rule stop_action.match_request_ok [OF _ assms] pause_action.match_request_ok [OF _ assms]
      continue_action.match_request_ok [OF _ assms] done_action.match_request_ok [OF _ assms], assumption)+

lemma rplayd_put_server_ok:
  assumes "server_ok s" "rplayd_put ev en rp s = Inr (r, s')"
  shows "server_ok s'"
proof -
  obtain b p where b: "buffer_create (sv_pool s) = (b, p)" by fastforce
  have ok: "server_ok (s\<lparr>sv_pool := p\<rparr>)" using assms(1) by simp
  show ?thesis
    using assms b by (auto simp: rplayd_put_def Let_def split: if_splits option.splits
        elim!: spool_flow_insert_server_ok [OF ok])
qed

text \<open>One operation of the daemon on the spool, with any environment.  A request to play
  names at least one sound.\<close>

inductive daemon_step :: "server \<Rightarrow> server \<Rightarrow> bool" where
  step_play: "lookup_ok lk \<Longrightarrow> r_attrs rp \<noteq> [] \<Longrightarrow> rplayd_play ev lk en thr rp c s = Inr (r, s')
    \<Longrightarrow> daemon_step s s'"
| step_stop: "rplayd_stop en rp c s = Inr (r, s') \<Longrightarrow> daemon_step s s'"
| step_pause: "rplayd_pause en rp c s = Inr (r, s') \<Longrightarrow> daemon_step s s'"
| step_continue: "rplayd_continue ev en rp c s = Inr (r, s') \<Longrightarrow> daemon_step s s'"
| step_done: "rplayd_done en rp c s = Inr (r, s') \<Longrightarrow> daemon_step s s'"
| step_put: "rplayd_put ev en rp s = Inr (r, s') \<Longrightarrow> daemon_step s s'"
| step_update: "spool_update ev s = Inr s' \<Longrightarrow> daemon_step s s'"
| step_process: "spool_process ev s = Inr s' \<Longrightarrow> daemon_step s s'"
| step_skip: "spool_skip n a s = Inr s' \<Longrightarrow> daemon_step s s'"
| step_ready: "spool_ready ev x s = Inr s' \<Longrightarrow> daemon_step s s'"
| step_remove: "spool_remove x s = Inr s' \<Longrightarrow> daemon_step s s'"
| step_cleanup: "spool_cleanup s = Inr s' \<Longrightarrow> daemon_step s s'"
| step_entry_stop: "spool_stop a s = Inr s' \<Longrightarrow> daemon_step s s'"
| step_entry_done: "spool_done a s = Inr s' \<Longrightarrow> daemon_step s s'"
| step_flow_pause: "spool_flow_pause a s = Inr s' \<Longrightarrow> daemon_step s s'"
| step_flow_continue: "spool_flow_continue a s = Inr s' \<Longrightarrow> daemon_step s s'"
| step_flow_insert: "spool_flow_insert ev a b s = Inr (q, s') \<Longrightarrow> daemon_step s s'"
| step_count: "spool_set_count n a s = Inr s' \<Longrightarrow> daemon_step s s'"
| step_list_count: "spool_set_list_count n a s = Inr s' \<Longrightarrow> daemon_step s s'"
| step_priority: "spool_set_priority n a s = Inr s' \<Longrightarrow> daemon_step s s'"
| step_volume: "spool_set_volume n a s = Inr s' \<Longrightarrow> daemon_step s s'"
| step_channel: "spool_set_channel_volume ch n a s = Inr s' \<Longrightarrow> daemon_step s s'"
| step_client_data: "spool_set_client_data d a s = Inr s' \<Longrightarrow> daemon_step s s'"
| step_sample_rate: "spool_set_sample_rate ev n a s = Inr s' \<Longrightarrow> daemon_step s s'"

definition init_server :: "(nat \<Rightarrow> sound) \<Rightarrow> server" where
  "init_server sounds = \<lparr>sv_spool = [], spool_size = 0, spool_nplaying = 0, spool_npaused = 0,
     spool_prio = 0, spool_needs_update = 0, spool_last_id = 0, sv_sounds = sounds,
     sv_pool = pool_init, sv_fresh = 1, sv_trace = []\<rparr>"

lemma init_server_ok: "\<forall>x. s_type (sounds x) \<noteq> SOUND_CDROM \<Longrightarrow> server_ok (init_server sounds)"
  by (simp add: server_ok_def spool_inv_def spool_ok_def no_cdrom_def keys_def init_server_def)

lemma entry_server_ok:
  assumes "server_ok s"
  shows "spool_skip n a s = Inr s' \<Longrightarrow> server_ok s'" "spool_stop a s = Inr s' \<Longrightarrow> server_ok s'"
    "spool_done a s = Inr s' \<Longrightarrow> server_ok s'" "spool_flow_pause a s = Inr s' \<Longrightarrow> server_ok s'"
    "spool_flow_continue a s = Inr s' \<Longrightarrow> server_ok s'"
  using one_entry_server_ok [OF assms] server_okD(1) [OF assms] touches_skip [OF _ touches_refl] spool_skip_ok
    touches_stop [OF _ touches_refl] spool_stop_ok touches_done [OF _ touches_refl] spool_done_ok
    touches_flow_pause [OF _ touches_refl] touches_flow_continue [OF _ touches_refl] spool_flow_ok
  by metis+

lemma daemon_step_ok:
  assumes "daemon_step s s'" "server_ok s"
  shows "server_ok s'"
  using assms
proof (cases rule: daemon_step.cases)
  case (step_play lk rp ev en thr c r)
  then show ?thesis using rplayd_play_server_ok assms(2) by blast
qed (use assms(2) in \<open>blast intro: rplayd_match_server_ok rplayd_put_server_ok spool_update_server_ok
  spool_process_server_ok spool_ready_server_ok spool_remove_server_ok spool_cleanup_server_ok
  spool_flow_insert_server_ok set_attributes_server_ok entry_server_ok\<close>)+

lemma daemon_reachable_ok:
  assumes "rtranclp daemon_step s s'" "server_ok s"
  shows "server_ok s'"
  using assms by (induction rule: rtranclp_induct) (auto intro: daemon_step_ok)

lemma count_of_map: "count_of P (map f xs) = count_of (\<lambda>x. P (f x)) xs"
  by (simp add: count_of_def filter_map o_def)

end
