(* ===== verification/Daemon.thy ===== *)
theory Daemon
  imports Rplayd
begin

text \<open>
  The properties of the spool and of the requests that use it, with the concrete
  daemon their witnesses run: one file sound called \<open>a\<close> that is ready.
\<close>

section \<open>A concrete daemon\<close>

definition demo_sounds :: "nat \<Rightarrow> sound" where
  "demo_sounds x = \<lparr>s_type = SOUND_FILE, s_name = [97], s_status = SOUND_READY, s_sample_rate = 8000,
     s_output_sample_size = 1, s_samples = 8000, s_flow = [], s_needs_helper = False,
     s_starting_track = 0, s_ending_track = 0\<rparr>"

definition demo_si :: sindex where
  "demo_si = \<lparr>si_eof = False, si_is_flow = False, si_offset = 0, si_water_mark = 0,
     si_low_water_mark = 0, si_fd = 3, si_pid = -1\<rparr>"

definition demo_env :: spool_env where
  "demo_env = \<lparr>ev_now = 0, ev_audio_rate = 8000, ev_audio_match = False, ev_open = (\<lambda>_. Some demo_si),
     ev_map = (\<lambda>_. True), ev_samples = (\<lambda>_ n. n), ev_fill = (\<lambda>si b. (0, si, b)),
     ev_native = (\<lambda>e. \<lparr>pl_curr = [], pl_next = [], pl_offset = 0, pl_index = 0, pl_released = [],
       pl_more = False\<rparr>)\<rparr>"

definition demo_rp :: "cstring list \<Rightarrow> int \<Rightarrow> cstring \<Rightarrow> rplay" where
  "demo_rp names prio list = \<lparr>r_pbuf = new_packet_buf, r_command = RPLAY_PLAY,
     r_nsounds = int (length names), r_count = 1, r_priority = prio, r_random_sound = -1,
     r_list_name = list, r_id = 1, r_sequence = 0, r_data_size = 0, r_data = None,
     r_attrs = map (\<lambda>n. rplay_attrs_create\<lparr>a_sound := n\<rparr>) names\<rparr>"

definition demo_lookup :: lookup where
  "demo_lookup att s = (if a_sound att = [97] then Some (0, demo_sounds 0) else None)"

definition demo_play :: "server \<Rightarrow> (int \<times> server) result" where
  "demo_play = rplayd_play demo_env demo_lookup True 0 (demo_rp [[97]] 0 []) 7"

definition demo_server :: server where
  "demo_server = (case demo_play (init_server demo_sounds) of Inr (r, s) \<Rightarrow> s | Inl c \<Rightarrow> init_server demo_sounds)"

lemma demo_lookup_ok: "lookup_ok demo_lookup"
  by (simp add: lookup_ok_def demo_lookup_def demo_sounds_def)

lemma demo_run: "demo_play (init_server demo_sounds) = Inr (1, demo_server)"
proof -
  have "map_sum id fst (demo_play (init_server demo_sounds)) = Inr 1" by code_simp
  then show ?thesis by (cases "demo_play (init_server demo_sounds)") (auto simp: demo_server_def)
qed

lemma demo_reachable: "rtranclp daemon_step (init_server demo_sounds) demo_server"
proof (rule r_into_rtranclp, rule step_play [OF demo_lookup_ok])
  show "rplayd_play demo_env demo_lookup True 0 (demo_rp [[97]] 0 []) 7 (init_server demo_sounds)
      = Inr (1, demo_server)"
    using demo_run by (simp add: demo_play_def)
qed (simp add: demo_rp_def)

lemma demo_server_ok: "server_ok demo_server"
  by (rule daemon_reachable_ok [OF demo_reachable init_server_ok]) (simp add: demo_sounds_def)

lemma demo_state:
  "spool_size demo_server = 1" "spool_nplaying demo_server = 1" "map sp_id (sv_spool demo_server) = [1]"
  "map sp_state (sv_spool demo_server) = [SPOOL_PLAY]" "map sp_addr (sv_spool demo_server) = [1]"
  by code_simp+

section \<open>The counters and ids of every reachable state\<close>



text \<open>C34.  With fewer than 999 entries in the spool the loop of \<open>spool_id\<close> ends within 999
  rounds; the id it returns lies between 1 and 999 and is not the id of any active entry,
  and only the last id changes.\<close>

theorem spool_id_returns_fresh_id:
  assumes "length (sv_spool s) < 999" "0 \<le> spool_last_id s" "spool_last_id s \<le> SPOOL_MAX_ID"
  shows "\<exists>i. spool_id s = Inr (i, s\<lparr>spool_last_id := i\<rparr>) \<and> SPOOL_MIN_ID \<le> i \<and> i \<le> SPOOL_MAX_ID
    \<and> (\<forall>e \<in> set (sv_spool s). sp_state e \<noteq> SPOOL_NULL \<longrightarrow> sp_id e \<noteq> i)"
proof -
  obtain i where i: "spool_id s = Inr (i, s\<lparr>spool_last_id := i\<rparr>)"
    using find_id_total [OF assms] by (auto simp: spool_id_def)
  show ?thesis using spool_id_fresh [OF i assms(2)] i by blast
qed

theorem spool_id_returns_fresh_id_witness:
  "\<exists>i. spool_id demo_server = Inr (i, demo_server\<lparr>spool_last_id := i\<rparr>) \<and> 1 \<le> i \<and> i \<noteq> 1"
proof -
  have "length (sv_spool demo_server) < 999" "0 \<le> spool_last_id demo_server"
    "spool_last_id demo_server \<le> SPOOL_MAX_ID" by code_simp+
  from spool_id_returns_fresh_id [OF this] show ?thesis
    using demo_state(3,4) by auto
qed

text \<open>C23.  \<open>spool_next\<close> on a spool in order: while there is room the new entry is added;
  a full spool gives up its playing entry of lowest priority, when that is below the
  requested priority (and 255), and otherwise the request is refused and nothing changes.
  No other entry is touched and the new entry has an id of its own.\<close>

theorem spool_next_policy:
  assumes "server_ok s" "spool_next p s = Inr (r, s')"
  shows "case r of
      None \<Rightarrow> s' = s \<and> spool_size s = SPOOL_SIZE \<and>
        (\<forall>e \<in> set (sv_spool s). \<forall>rp. sp_state e = SPOOL_PLAY \<and> sp_rp e = Some rp \<longrightarrow>
           p \<le> r_priority rp \<or> RPLAY_MAX_PRIORITY \<le> r_priority rp)
    | Some a \<Rightarrow> filter (\<lambda>e. sp_addr e \<noteq> a) (sv_spool s') = filter (\<lambda>e. sp_addr e \<noteq> a) (sv_spool s)
        \<and> distinct (map sp_id (sv_spool s')) \<and> spool_size s' \<le> SPOOL_SIZE
        \<and> (\<exists>e \<in> set (sv_spool s'). sp_addr e = a \<and> sp_state e = SPOOL_NULL)
        \<and> (if spool_size s < SPOOL_SIZE then a \<notin> sp_addr ` set (sv_spool s)
           else \<exists>e \<in> set (sv_spool s). \<exists>rp. sp_addr e = a \<and> sp_state e = SPOOL_PLAY \<and> sp_rp e = Some rp
             \<and> r_priority rp < p \<and> r_priority rp < RPLAY_MAX_PRIORITY
             \<and> (\<forall>e2 \<in> set (sv_spool s). \<forall>rp2. sp_state e2 = SPOOL_PLAY \<and> sp_rp e2 = Some rp2 \<longrightarrow>
                  r_priority rp \<le> r_priority rp2))"
proof (cases r)
  case None
  have sz: "spool_size s = int (length (sv_spool s))" "int (length (sv_spool s)) \<le> SPOOL_SIZE"
    using assms(1) server_okD(1) [OF assms(1)] by (simp_all add: server_ok_def spool_ok_def)
  have full: "\<not> spool_size s < SPOOL_SIZE"
    using assms(2) None by (auto simp: spool_next_def)
  then obtain m low where low: "lowest_entry (sv_spool s) RPLAY_MAX_PRIORITY None = Inr (m, low)"
    and r: "low = None \<or> p \<le> m"
    using assms(2) None by (fastforce simp: spool_next_def split: option.splits if_splits)
  have "s' = s" using spool_next_result [OF assms(2,1)] None by simp
  then show ?thesis
    using lowest_entry_result [OF low] r None full sz by fastforce
next
  case (Some a)
  have al: "allocated a s'" "others a s' = others a s"
    using spool_next_result [OF assms(2,1)] Some by auto
  have "if spool_size s < SPOOL_SIZE then a \<notin> sp_addr ` set (sv_spool s)
           else \<exists>e \<in> set (sv_spool s). \<exists>rp. sp_addr e = a \<and> sp_state e = SPOOL_PLAY \<and> sp_rp e = Some rp
             \<and> r_priority rp < p \<and> r_priority rp < RPLAY_MAX_PRIORITY
             \<and> (\<forall>e2 \<in> set (sv_spool s). \<forall>rp2. sp_state e2 = SPOOL_PLAY \<and> sp_rp e2 = Some rp2 \<longrightarrow>
                  r_priority rp \<le> r_priority rp2)"
  proof (cases "spool_size s < SPOOL_SIZE")
    case True
    then obtain s1 where "spool_create s = Inr (a, s1)"
      using assms(2) Some by (auto simp: spool_next_def)
    then have "a \<notin> sp_addr ` set (sv_spool s)" using spool_create_effect assms(1) by blast
    then show ?thesis using True by simp
  next
    case False
    then obtain m where low: "lowest_entry (sv_spool s) RPLAY_MAX_PRIORITY None = Inr (m, Some a)" "m < p"
      using assms(2) Some by (auto simp: spool_next_def split: option.splits if_splits)
    show ?thesis using lowest_entry_result [OF low(1)] low(2) False by auto
  qed
  moreover have "spool_size s' \<le> SPOOL_SIZE"
    using al(1) by (auto simp: allocated_def spool_inv_def spool_ok_def)
  moreover have "\<exists>e \<in> set (sv_spool s'). sp_addr e = a \<and> sp_state e = SPOOL_NULL"
    using allocated_entry [OF al(1)] found_key by blast
  ultimately show ?thesis
    using al Some by (simp add: others_def allocated_def)
qed

theorem spool_next_policy_witness:
  "\<exists>a s'. spool_next 5 demo_server = Inr (Some a, s') \<and> a \<notin> sp_addr ` set (sv_spool demo_server)
     \<and> distinct (map sp_id (sv_spool s'))"
proof -
  have "map_sum id fst (spool_next 5 demo_server) = Inr (Some 2)" by code_simp
  then obtain s' where s': "spool_next 5 demo_server = Inr (Some 2, s')"
    by (cases "spool_next 5 demo_server") auto
  from spool_next_policy [OF demo_server_ok this] show ?thesis
    using s' demo_state(1) by auto
qed


section \<open>Requests that select entries\<close>

text \<open>C27.  \<open>rplayd_stop\<close> answers 0 exactly when some entry matches the request; every
  matching entry that plays, is paused or waits is gone afterwards, every entry that
  does not match is still there unchanged, and the counters stay consistent.\<close>

theorem rplayd_stop_effect:
  assumes "server_ok s" "rplayd_stop True rp client s = Inr (r, s')"
  shows "server_ok s'
    \<and> (r = 0 \<longleftrightarrow> (\<exists>e \<in> set (sv_spool s). entry_matches (r_attrs rp) e = Inr True))
    \<and> (\<forall>e \<in> set (sv_spool s). entry_matches (r_attrs rp) e = Inr True
         \<and> sp_state e \<in> {SPOOL_PLAY, SPOOL_PAUSE, SPOOL_WAIT} \<longrightarrow> sp_addr e \<notin> sp_addr ` set (sv_spool s'))
    \<and> (\<forall>e \<in> set (sv_spool s). entry_matches (r_attrs rp) e = Inr False \<longrightarrow> e \<in> set (sv_spool s'))"
proof -
  obtain n where n: "spool_match (r_attrs rp) spool_stop client s = Inr (s', n)" "r = (if n > 0 then 0 else -1)"
    using stop_action.match_request_result [OF assms(2) [unfolded rplayd_stop_def] assms(1)] by blast
  have c: "n = count_of (\<lambda>e. entry_matches (r_attrs rp) e = Inr True) (sv_spool s)"
    by (rule stop_action.match_result(2) [OF n(1) assms(1)])
  have "n > 0 \<longleftrightarrow> (\<exists>e \<in> set (sv_spool s). entry_matches (r_attrs rp) e = Inr True)"
    unfolding c by (auto simp: count_of_def filter_empty_conv)
  then have "r = 0 \<longleftrightarrow> (\<exists>e \<in> set (sv_spool s). entry_matches (r_attrs rp) e = Inr True)"
    using n(2) by auto
  then show ?thesis
    using stop_action.match_result(1,3) [OF n(1) assms(1)] stop_action.match_removes [OF n(1) assms(1)]
    by blast
qed

definition stop_all :: rplay where
  "stop_all = demo_rp [[35, 48]] 0 []"

theorem rplayd_stop_effect_witness:
  "\<exists>s'. rplayd_stop True stop_all 7 demo_server = Inr (0, s') \<and> server_ok s' \<and> 1 \<notin> sp_addr ` set (sv_spool s')"
proof -
  have "map_sum id fst (rplayd_stop True stop_all 7 demo_server) = Inr 0" by code_simp
  then obtain s' where s': "rplayd_stop True stop_all 7 demo_server = Inr (0, s')"
    by (cases "rplayd_stop True stop_all 7 demo_server") auto
  have "list_all (\<lambda>e. sp_addr e = 1 \<and> sp_state e = SPOOL_PLAY
      \<and> entry_matches (r_attrs stop_all) e = Inr True) (sv_spool demo_server)"
    by code_simp
  moreover have "sv_spool demo_server \<noteq> []" using demo_state(5) by auto
  ultimately obtain e where "e \<in> set (sv_spool demo_server)" "sp_addr e = 1" "sp_state e = SPOOL_PLAY"
    "entry_matches (r_attrs stop_all) e = Inr True"
    by (cases "sv_spool demo_server") auto
  then show ?thesis
    using rplayd_stop_effect [OF demo_server_ok s'] s' by auto
qed

lemma unique_entry:
  assumes "spool_ok s" "e \<in> set (sv_spool s)" "e' \<in> set (sv_spool s)" "sp_addr e = sp_addr e'"
  shows "e = e'"
  using assms found_iff found_unique by blast

text \<open>Continuing a paused sound undoes the pause: the entries are as before except that
  the position report of this entry is off, both counters and the sounds are as before,
  and the spool is marked for an update.  \<open>spool_prio\<close> keeps its value all along: neither
  operation recomputes it.\<close>

theorem pause_continue_roundtrip:
  assumes "server_ok s" "e \<in> set (sv_spool s)" "sp_addr e = a" "sp_state e = SPOOL_PLAY"
    "spool_pause a s = Inr s1" "spool_continue ev a s1 = Inr s2"
  shows "sv_spool s2 = map (\<lambda>x. if sp_addr x = a then x\<lparr>sp_notify_position := 0\<rparr> else x) (sv_spool s)
    \<and> spool_nplaying s1 = spool_nplaying s - 1 \<and> spool_npaused s1 = spool_npaused s + 1
    \<and> spool_nplaying s2 = spool_nplaying s \<and> spool_npaused s2 = spool_npaused s
    \<and> sv_sounds s2 = sv_sounds s \<and> spool_prio s1 = spool_prio s \<and> spool_prio s2 = spool_prio s
    \<and> spool_needs_update s2 = spool_needs_update s + 1"
proof -
  have ok: "spool_ok s" using assms(1) by (rule server_okD)
  have f: "found a e s" using assms(2,3) found_iff [OF ok] by blast
  have one: "x = e" if "x \<in> set (sv_spool s)" "sp_addr x = a" for x
    using unique_entry [OF ok] assms(2,3) that by metis
  let ?off = "\<lambda>x. x\<lparr>sp_notify_position := 0\<rparr>"
  let ?sp1 = "map (\<lambda>x. if sp_addr x = a then ?off (x\<lparr>sp_state := SPOOL_PAUSE\<rparr>) else x) (sv_spool s)"
  let ?t = "(set_state a SPOOL_PAUSE s)\<lparr>spool_nplaying := spool_nplaying s - 1, spool_npaused := spool_npaused s + 1\<rparr>"
  obtain s3 where s3: "notify_position_off a ?t = Inr s3" "s1 = notify NOTIFY_PAUSE e s3"
    using assms(4,5) by (auto simp: spool_pause_def with_sp_found [OF f] Let_def simp del: with_sp_Inr)
  have ft: "found a (e\<lparr>sp_state := SPOOL_PAUSE\<rparr>) ?t" using found_set_state [OF f] by simp
  have s3': "s3 = (if sp_notify_position e \<noteq> 0 then upd_sp a ?off (notify NOTIFY_POSITION (e\<lparr>sp_state := SPOOL_PAUSE\<rparr>) ?t) else ?t)"
    using s3(1) by (simp add: notify_position_off_def with_sp_found [OF ft] del: with_sp_Inr)
  have off: "?off (e\<lparr>sp_state := SPOOL_PAUSE\<rparr>) = e\<lparr>sp_state := SPOOL_PAUSE\<rparr>" if "sp_notify_position e = 0"
    using that by (cases e) simp
  have sp1: "sv_spool s1 = ?sp1"
  proof (cases "sp_notify_position e = 0")
    case True
    have "sv_spool s1 = map (\<lambda>x. if sp_addr x = a then x\<lparr>sp_state := SPOOL_PAUSE\<rparr> else x) (sv_spool s)"
      by (simp add: s3(2) s3' True set_state_def upd_sp_def)
    also have "\<dots> = ?sp1"
    proof (rule map_cong [OF refl])
      fix x assume x: "x \<in> set (sv_spool s)"
      show "(if sp_addr x = a then x\<lparr>sp_state := SPOOL_PAUSE\<rparr> else x)
          = (if sp_addr x = a then ?off (x\<lparr>sp_state := SPOOL_PAUSE\<rparr>) else x)"
      proof (cases "sp_addr x = a")
        case True
        then show ?thesis using one [OF x True] off \<open>sp_notify_position e = 0\<close> by metis
      qed simp
    qed
    finally show ?thesis .
  next
    case False
    then show ?thesis
      by (simp add: s3(2) s3' set_state_def upd_sp_def)
  qed
  have g1: "spool_nplaying s1 = spool_nplaying s - 1" "spool_npaused s1 = spool_npaused s + 1"
    "sv_sounds s1 = sv_sounds s" "spool_prio s1 = spool_prio s" "spool_needs_update s1 = spool_needs_update s"
    by (auto simp: s3(2) s3' notify_def emit_def set_state_def upd_sp_def)
  have "find (\<lambda>x. sp_addr x = a) ?sp1 = map_option (\<lambda>x. ?off (x\<lparr>sp_state := SPOOL_PAUSE\<rparr>)) (find (\<lambda>x. sp_addr x = a) (sv_spool s))"
    by (rule find_map_upd) simp
  then have f1: "found a (?off (e\<lparr>sp_state := SPOOL_PAUSE\<rparr>)) s1"
    using f by (simp add: found_def sp1)
  have s2: "s2 = notify NOTIFY_CONTINUE (?off (e\<lparr>sp_state := SPOOL_PAUSE\<rparr>)) (let s1' = set_state a SPOOL_PLAY s1;
               s2 = (if ev_audio_match ev then emit (AudioMatch a) s1' else s1')
           in (s2\<lparr>spool_nplaying := spool_nplaying s2 + 1, spool_npaused := spool_npaused s2 - 1,
                    spool_needs_update := spool_needs_update s2 + 1\<rparr>))"
    using assms(6) by (simp add: spool_continue_def with_sp_found [OF f1] Let_def del: with_sp_Inr)
  have "sv_spool s2 = map (\<lambda>x. if sp_addr x = a then x\<lparr>sp_state := SPOOL_PLAY\<rparr> else x) ?sp1"
    by (simp add: s2 Let_def set_state_def upd_sp_def sp1)
  also have "\<dots> = map (\<lambda>x. if sp_addr x = a then ?off x else x) (sv_spool s)"
  proof -
    have "(?off (x\<lparr>sp_state := SPOOL_PAUSE\<rparr>))\<lparr>sp_state := SPOOL_PLAY\<rparr> = ?off x"
      if "x \<in> set (sv_spool s)" "sp_addr x = a" for x
      using one [OF that] assms(4) by (cases e) simp
    then show ?thesis by (simp add: o_def)
  qed
  finally show ?thesis
    using g1 by (simp add: s2 Let_def) (simp add: notify_def emit_def set_state_def upd_sp_def)
qed

theorem pause_continue_roundtrip_witness:
  "\<exists>s1 s2. spool_pause 1 demo_server = Inr s1 \<and> spool_continue demo_env 1 s1 = Inr s2
     \<and> spool_nplaying s1 = 0 \<and> spool_nplaying s2 = 1"
proof -
  have "map_sum id spool_nplaying (bindE (spool_pause 1 demo_server) (spool_continue demo_env 1)) = Inr 1"
    by code_simp
  then obtain s1 s2 where s: "spool_pause 1 demo_server = Inr s1" "spool_continue demo_env 1 s1 = Inr s2"
    by (cases "spool_pause 1 demo_server"; cases "bindE (spool_pause 1 demo_server) (spool_continue demo_env 1)") auto
  obtain e where "sv_spool demo_server = [e]" "sp_addr e = 1" "sp_state e = SPOOL_PLAY"
    using demo_state(4,5) by (cases "sv_spool demo_server") auto
  then show ?thesis
    using pause_continue_roundtrip [OF demo_server_ok _ _ _ s, of e] s demo_state(2) by auto
qed


section \<open>Skipping in a list of sounds\<close>

text \<open>The sound a request to skip \<open>k\<close> sounds aims at: backwards, a sound that has played for
  more than a second counts as the first one skipped.\<close>

definition skip_target :: "int \<Rightarrow> spool_entry \<Rightarrow> int" where
  "skip_target rate e = sp_curr_sound e
     + (if sp_skip_count e < 0 \<and> sp_sample_index e > of_int rate then sp_skip_count e + 1 else sp_skip_count e)"

text \<open>C30.  Where a skip lands, for an entry with \<open>n\<close> sounds: a target before the first sound
  plays the first, a target in the list plays that sound, the two targets just past the
  end end the list (or start it again while its count allows), and any target beyond
  runs off the list of attributes.\<close>

theorem skip_lands:
  assumes "sp_state e = SPOOL_SKIP" "sp_skip_count e \<noteq> 0" "sp_rp e = Some rp"
    "r_nsounds rp = int (length (r_attrs rp))" "0 \<le> sp_curr_sound e" "sp_curr_sound e < r_nsounds rp"
  shows "let n = r_nsounds rp; t = skip_target rate e; e' = apply_skip rate n e;
      first = a_count (hd (r_attrs rp)) in
    advance e' =
      (if t > n + 1 then Inl NullPointer
       else if t \<ge> n then
         (if sp_list_count e > 1 then Inr (Some (e'\<lparr>sp_list_count := sp_list_count e - 1, sp_curr_attrs := 0,
              sp_curr_sound := 0, sp_curr_count := first\<rparr>))
          else if sp_list_count e = 0 then Inr (Some (e'\<lparr>sp_curr_attrs := 0, sp_curr_sound := 0,
              sp_curr_count := first\<rparr>))
          else Inr None)
       else Inr (Some (e'\<lparr>sp_curr_sound := max 0 t, sp_curr_attrs := nat t, sp_skip_count := 0,
              sp_curr_count := a_count (r_attrs rp ! nat t)\<rparr>)))"
proof -
  let ?n = "r_nsounds rp"
  let ?t = "skip_target rate e"
  let ?e' = "apply_skip rate ?n e"
  have f: "sp_curr_count ?e' = 1" "sp_rp ?e' = Some rp" "sp_state ?e' = SPOOL_SKIP"
    "sp_list_count ?e' = sp_list_count e"
    using assms(1-3) by (auto simp: apply_skip_def Let_def)
  have c: "sp_curr_sound ?e' = (if ?t - 1 < 0 then -1 else if ?t - 1 = ?n then ?n - 1 else ?t - 1)"
    using assms(2) by (auto simp: apply_skip_def skip_target_def Let_def)
  have ne: "r_attrs rp \<noteq> []" using assms(4-6) by auto
  then have hd: "r_attrs rp ! 0 = hd (r_attrs rp)" by (simp add: hd_conv_nth)
  have len: "?n > 0" using assms(5,6) by simp
  consider "?t > ?n + 1" | "?t = ?n + 1 \<or> ?t = ?n" | "0 < ?t" "?t < ?n" | "?t \<le> 0" by linarith
  then show ?thesis
  proof cases
    case 1
    then have "sp_curr_sound ?e' + 1 = ?t" using c len by simp
    then show ?thesis
      using 1 f assms(4) by (simp add: advance_def the_rp_def Let_def)
  next
    case 2
    then have "sp_curr_sound ?e' + 1 = ?n" using c len by auto
    moreover have "\<not> ?t > ?n + 1" "?t \<ge> ?n" using 2 by auto
    ultimately show ?thesis
      using f ne hd by (simp add: advance_def the_rp_def curr_attrs_def Let_def)
  next
    case 3
    then have "sp_curr_sound ?e' + 1 = ?t" using c by simp
    moreover have "nat ?t < length (r_attrs rp)" using 3 assms(4) by simp
    ultimately show ?thesis
      using 3 f assms(4) by (simp add: advance_def the_rp_def curr_attrs_def Let_def max_def)
  next
    case 4
    then have "sp_curr_sound ?e' + 1 = 0" using c by simp
    moreover have "\<not> ?t > ?n + 1" "\<not> ?t \<ge> ?n" "nat ?t = 0" "max 0 ?t = 0" using 4 len by auto
    ultimately show ?thesis
      using f ne len assms(4) by (simp add: advance_def the_rp_def curr_attrs_def Let_def)
  qed
qed

definition demo_skip :: "int \<Rightarrow> spool_entry" where
  "demo_skip k = (blank_entry 1)\<lparr>sp_state := SPOOL_SKIP, sp_skip_count := k,
     sp_rp := Some (demo_rp [[97]] 0 []), sp_list_count := 1\<rparr>"

theorem skip_lands_witness:
  "advance (apply_skip 8000 1 (demo_skip 3)) = Inl NullPointer
   \<and> advance (apply_skip 8000 1 (demo_skip 1)) = Inr None"
proof -
  have p: "sp_state (demo_skip k) = SPOOL_SKIP" "sp_skip_count (demo_skip k) = k" "sp_list_count (demo_skip k) = 1"
    "sp_rp (demo_skip k) = Some (demo_rp [[97]] 0 [])" "sp_curr_sound (demo_skip k) = 0" for k
    by (simp_all add: demo_skip_def blank_entry_def)
  have q: "r_nsounds (demo_rp [[97]] 0 []) = 1" "length (r_attrs (demo_rp [[97]] 0 [])) = 1"
    by (simp_all add: demo_rp_def)
  show ?thesis
    using skip_lands [of "demo_skip 3" "demo_rp [[97]] 0 []" 8000]
      skip_lands [of "demo_skip 1" "demo_rp [[97]] 0 []" 8000]
    by (simp add: p q skip_target_def)
qed

section \<open>Requests that break the spool\<close>

text \<open>A request to play that names a playing list and carries no sounds destroys that
  list's entry without taking it out of the counters: from then on \<open>spool_nplaying\<close> is
  one more than the number of entries that play.\<close>

theorem empty_merge_miscounts:
  assumes "server_ok s" "find_list (r_list_name rp) (sv_spool s) = Inr (Some e)" "r_list_name rp \<noteq> []"
    "sp_state e = SPOOL_PLAY" "r_attrs rp = []" "rplayd_play ev lk True thr rp client s = Inr (r, s')"
  shows "r = -1 \<and> e \<notin> set (sv_spool s') \<and> spool_nplaying s' = count_of playing (keys s') + 1"
proof -
  have ok: "spool_ok s" using assms(1) by (rule server_okD)
  have f: "found (sp_addr e) e s" using find_list_member [OF assms(2)] found_iff [OF ok] by blast
  let ?s1 = "upd_sp (sp_addr e) (upd_rp (merge_rp rp)) s"
  have d: "r = -1" "spool_destroy (sp_addr e) ?s1 = Inr s'"
    using assms(2,3,5,6) by (auto simp: rplayd_play_def play_merged_def Let_def)
  have k: "key_of (upd_rp (merge_rp rp) x) = key_of x" for x by (simp add: key_of_def upd_rp_def)
  have q: "quiet s ?s1" by (rule quiet_upd_sp) (simp add: k)
  have f1: "found (sp_addr e) (upd_rp (merge_rp rp) e) ?s1"
    using f by (subst found_upd_sp) (auto simp: upd_rp_def)
  have "distinct (map fst (keys ?s1))" "key_of e \<in> set (keys ?s1)" "fst (key_of e) = sp_addr e"
    using ok q found_key [OF f] by (auto simp: spool_ok_def quiet_def key_of_def)
  from count_of_remove [OF this, of playing]
  have "count_of playing (keys s') = count_of playing (keys ?s1) - of_bool (playing (key_of e))"
    using spool_destroy_effect [OF d(2) f1] by simp
  moreover have "playing (key_of e)" using assms(4) by (rule active_playing)
  moreover have "spool_nplaying s' = count_of playing (keys ?s1)"
    using spool_destroy_effect [OF d(2) f1] ok q by (simp add: quiet_def spool_ok_def)
  moreover have "e \<notin> set (sv_spool s')" using spool_destroy_list [OF d(2)] by simp
  ultimately show ?thesis using d(1) by simp
qed

definition named_server :: server where
  "named_server = (case rplayd_play demo_env demo_lookup True 0 (demo_rp [[97]] 0 [76]) 7 (init_server demo_sounds)
     of Inr (r, s) \<Rightarrow> s | Inl c \<Rightarrow> init_server demo_sounds)"

lemma named_server_ok: "server_ok named_server"
proof -
  have "map_sum id fst (rplayd_play demo_env demo_lookup True 0 (demo_rp [[97]] 0 [76]) 7 (init_server demo_sounds)) = Inr 1"
    by code_simp
  then obtain s where s: "rplayd_play demo_env demo_lookup True 0 (demo_rp [[97]] 0 [76]) 7 (init_server demo_sounds) = Inr (1, s)"
    by (cases "rplayd_play demo_env demo_lookup True 0 (demo_rp [[97]] 0 [76]) 7 (init_server demo_sounds)") auto
  have i: "server_ok (init_server demo_sounds)" by (rule init_server_ok) (simp add: demo_sounds_def)
  have "server_ok s"
    by (rule rplayd_play_server_ok [OF i demo_lookup_ok _ s]) (simp add: demo_rp_def)
  then show ?thesis by (simp add: named_server_def s)
qed

theorem empty_merge_miscounts_witness:
  "\<exists>s'. rplayd_play demo_env demo_lookup True 0 (demo_rp [] 0 [76]) 7 named_server = Inr (-1, s')
     \<and> spool_nplaying s' = count_of playing (keys s') + 1"
proof -
  have "map_sum id fst (rplayd_play demo_env demo_lookup True 0 (demo_rp [] 0 [76]) 7 named_server) = Inr (-1)"
    by code_simp
  then obtain s' where s': "rplayd_play demo_env demo_lookup True 0 (demo_rp [] 0 [76]) 7 named_server = Inr (-1, s')"
    by (cases "rplayd_play demo_env demo_lookup True 0 (demo_rp [] 0 [76]) 7 named_server") auto
  have "map_sum id (map_option sp_state) (find_list [76] (sv_spool named_server)) = Inr (Some SPOOL_PLAY)"
    by code_simp
  then obtain e where "find_list [76] (sv_spool named_server) = Inr (Some e)" "sp_state e = SPOOL_PLAY"
    by (cases "find_list [76] (sv_spool named_server)") auto
  moreover have "r_list_name (demo_rp [] 0 [76]) = [76]" "r_attrs (demo_rp [] 0 [76]) = []"
    by (simp_all add: demo_rp_def)
  ultimately show ?thesis
    using empty_merge_miscounts [OF named_server_ok _ _ _ _ s', of e] s' by simp
qed

text \<open>\<open>rplayd_put\<close> on an existing entry copies \<open>data_size\<close> bytes into a buffer of 8192
  bytes: a request with a larger size writes outside the buffer, whatever the entry.\<close>

theorem rplayd_put_overflow:
  assumes "e \<in> set (sv_spool s)" "sp_id e = r_id rp" "uint (r_data_size rp) > BUFFER_SIZE"
  shows "rplayd_put ev True rp s = Inl OutOfBounds"
proof -
  have "spool_find (r_id rp) s \<noteq> None"
    using assms(1,2) by (auto simp: spool_find_def find_None_iff)
  then show ?thesis
    using assms(3) by (auto simp: rplayd_put_def Let_def split: option.splits prod.splits)
qed

theorem rplayd_put_overflow_witness:
  "rplayd_put demo_env True ((demo_rp [] 0 [])\<lparr>r_data_size := 9000\<rparr>) demo_server = Inl OutOfBounds"
proof -
  obtain e where "e \<in> set (sv_spool demo_server)" "sp_id e = 1"
    using demo_state(3) by (cases "sv_spool demo_server") auto
  then show ?thesis by (intro rplayd_put_overflow) (auto simp: demo_rp_def)
qed

end
