(* ===== verification/Misc.thy ===== *)
theory Misc
  imports Complex_Main Prelude
begin

unbundle bit_operations_syntax

text \<open>
  The small conversions of the daemon (\<open>src/rplayd/misc.c\<close>): names of formats, byte
  orders, storages and inputs, times, integers in files, the 80-bit numbers of AIFF.
  A name is a \<open>string\<close>; a pointer into a buffer is the position of the bytes read.
\<close>

section \<open>The constants\<close>

datatype audio_format =
    FORMAT_NONE | LINEAR_8 | ULINEAR_8 | LINEAR_16 | ULINEAR_16 | ULAW | G721 | G723_3 | G723_5 | GSM

datatype byte_order = ORDER_NONE | BIG_ENDIAN | LITTLE_ENDIAN

datatype storage = STORAGE_NULL | STORAGE_NONE | STORAGE_DISK | STORAGE_MEMORY

datatype input = INPUT_NONE | INPUT_FILE | INPUT_FLOW | INPUT_CDROM | INPUT_VIRTUAL

section \<open>Names\<close>

definition audio_format_to_string :: "audio_format \<Rightarrow> string" where
  "audio_format_to_string f =
     (case f of
        ULAW \<Rightarrow> ''ulaw''
      | LINEAR_8 \<Rightarrow> ''linear-8''
      | ULINEAR_8 \<Rightarrow> ''ulinear-8''
      | LINEAR_16 \<Rightarrow> ''linear-16''
      | ULINEAR_16 \<Rightarrow> ''ulinear-16''
      | G721 \<Rightarrow> ''g721''
      | G723_3 \<Rightarrow> ''g723-3''
      | G723_5 \<Rightarrow> ''g723-5''
      | GSM \<Rightarrow> ''gsm''
      | _ \<Rightarrow> ''unknown'')"

definition string_to_audio_format :: "string \<Rightarrow> audio_format" where
  "string_to_audio_format s =
     (if s \<in> {''ulaw'', ''u_law'', ''u-law''} then ULAW
      else if s \<in> {''linear-16'', ''linear_16'', ''linear16''} then LINEAR_16
      else if s \<in> {''ulinear-16'', ''ulinear_16'', ''ulinear16''} then ULINEAR_16
      else if s \<in> {''linear-8'', ''linear_8'', ''linear8''} then LINEAR_8
      else if s \<in> {''ulinear-8'', ''ulinear_8'', ''ulinear8''} then ULINEAR_8
      else if s = ''g721'' then G721
      else if s \<in> {''g723-3'', ''g723_3''} then G723_3
      else if s \<in> {''g723-5'', ''g723_5''} then G723_5
      else if s \<in> {''gsm'', ''GSM''} then GSM
      else FORMAT_NONE)"

definition byte_order_to_string :: "byte_order \<Rightarrow> string" where
  "byte_order_to_string b =
     (case b of
        BIG_ENDIAN \<Rightarrow> ''big-endian''
      | LITTLE_ENDIAN \<Rightarrow> ''little-endian''
      | _ \<Rightarrow> ''unknown'')"

definition string_to_byte_order :: "string \<Rightarrow> byte_order" where
  "string_to_byte_order s =
     (if s \<in> {''big-endian'', ''big''} then BIG_ENDIAN
      else if s \<in> {''little-endian'', ''little''} then LITTLE_ENDIAN
      else ORDER_NONE)"

definition storage_to_string :: "storage \<Rightarrow> string" where
  "storage_to_string s =
     (case s of
        STORAGE_NONE \<Rightarrow> ''none''
      | STORAGE_DISK \<Rightarrow> ''disk''
      | STORAGE_MEMORY \<Rightarrow> ''memory''
      | _ \<Rightarrow> ''unknown'')"

definition string_to_storage :: "string \<Rightarrow> storage" where
  "string_to_storage s =
     (if s = ''none'' then STORAGE_NONE
      else if s = ''disk'' then STORAGE_DISK
      else if s = ''memory'' then STORAGE_MEMORY
      else STORAGE_NULL)"

definition input_to_string :: "input \<Rightarrow> string" where
  "input_to_string i =
     (case i of
        INPUT_FILE \<Rightarrow> ''file''
      | INPUT_FLOW \<Rightarrow> ''flow''
      | INPUT_CDROM \<Rightarrow> ''cdrom''
      | INPUT_VIRTUAL \<Rightarrow> ''virtual''
      | _ \<Rightarrow> ''unknown'')"

definition string_to_input :: "string \<Rightarrow> input" where
  "string_to_input s =
     (if s = ''file'' then INPUT_FILE else if s = ''flow'' then INPUT_FLOW else INPUT_NONE)"

text \<open>Every name the daemon prints in a reply is read back as the same value by the
  commands that take it: formats, byte orders and storages; inputs as well, except
  that CD and virtual inputs cannot be asked for.\<close>

theorem names_read_back:
  "string_to_audio_format (audio_format_to_string f) = f
   \<and> string_to_byte_order (byte_order_to_string b) = b
   \<and> string_to_storage (storage_to_string s) = s
   \<and> string_to_input (input_to_string i) = (if i \<in> {INPUT_CDROM, INPUT_VIRTUAL} then INPUT_NONE else i)"
  by (cases f; cases b; cases s; cases i)
     (simp_all add: audio_format_to_string_def string_to_audio_format_def byte_order_to_string_def
        string_to_byte_order_def storage_to_string_def string_to_storage_def input_to_string_def
        string_to_input_def)


section \<open>Times and ports\<close>

fun decimal :: "nat \<Rightarrow> string" where
  "decimal n = (if n < 10 then [char_of (48 + n)] else decimal (n div 10) @ [char_of (48 + n mod 10)])"

declare decimal.simps [simp del]

definition two_digits :: "nat \<Rightarrow> string" where
  "two_digits n = (if n < 10 then ''0'' else []) @ decimal n"

text \<open>\<open>t\<close> is not negative.\<close>

definition time2string :: "nat \<Rightarrow> string" where
  "time2string t =
     (let days = t div 86400; t1 = t mod 86400;
          hours = t1 div 3600; t2 = t1 mod 3600;
          mins = t2 div 60; secs = t2 mod 60
      in (if days > 0 then decimal days @ ''+'' else [])
         @ two_digits hours @ '':'' @ two_digits mins @ '':'' @ two_digits secs)"

text \<open>The bits of a port; the last comma is cut off, and without any bit the store is to
  \<open>string[-1]\<close>: \<open>None\<close>.\<close>

definition audio_port_to_string :: "32 word \<Rightarrow> string option" where
  "audio_port_to_string port =
     (let s = (if port AND 1 \<noteq> 0 then ''none,'' else [])
            @ (if port AND 2 \<noteq> 0 then ''speaker,'' else [])
            @ (if port AND 4 \<noteq> 0 then ''headphone,'' else [])
            @ (if port AND 8 \<noteq> 0 then ''lineout,'' else [])
      in if s = [] then None else Some (butlast s))"

section \<open>Integers in a file\<close>

text \<open>The functions read 2 or 4 bytes at a pointer; the list starts there.\<close>

definition little_short :: "bytes \<Rightarrow> int" where
  "little_short p = uint (p ! 1) * 256 + uint (p ! 0)"

definition big_short :: "bytes \<Rightarrow> int" where
  "big_short p = uint (p ! 0) * 256 + uint (p ! 1)"

definition little_long :: "bytes \<Rightarrow> int" where
  "little_long p = uint (p ! 3) * 2 ^ 24 + uint (p ! 2) * 2 ^ 16 + uint (p ! 1) * 256 + uint (p ! 0)"

definition big_long :: "bytes \<Rightarrow> int" where
  "big_long p = uint (p ! 0) * 2 ^ 24 + uint (p ! 1) * 2 ^ 16 + uint (p ! 2) * 256 + uint (p ! 3)"

text \<open>The encodings they invert.\<close>

definition little16 :: "int \<Rightarrow> bytes" where
  "little16 n = [word_of_int n, word_of_int (n div 256)]"

definition big16 :: "int \<Rightarrow> bytes" where
  "big16 n = rev (little16 n)"

definition little32 :: "int \<Rightarrow> bytes" where
  "little32 n = [word_of_int n, word_of_int (n div 256), word_of_int (n div 2 ^ 16), word_of_int (n div 2 ^ 24)]"

definition big32 :: "int \<Rightarrow> bytes" where
  "big32 n = rev (little32 n)"

text \<open>The base-256 digits of a number.\<close>

lemma digits_256:
  fixes n :: int
  shows "n mod 65536 = n div 256 mod 256 * 256 + n mod 256"
    "n mod 4294967296 = n div 16777216 mod 256 * 16777216 + n div 65536 mod 256 * 65536
       + n div 256 mod 256 * 256 + n mod 256"
proof -
  have a: "n mod (256 * c) = 256 * (n div 256 mod c) + n mod 256" if "0 \<le> c" for n c :: int
    using that by (rule zmod_zmult2_eq)
  have d: "n div 256 div 256 = n div 65536" "n div 65536 div 256 = n div 16777216"
    using zdiv_zmult2_eq [of 256 n 256] zdiv_zmult2_eq [of 256 n 65536] by (simp_all add: zdiv_zmult2_eq [symmetric])
  show two: "n mod 65536 = n div 256 mod 256 * 256 + n mod 256" for n :: int using a [of 256 n] by simp
  have "n mod 4294967296 = 256 * (n div 256 mod 16777216) + n mod 256" using a [of 16777216 n] by simp
  moreover have "n div 256 mod 16777216 = 256 * (n div 65536 mod 65536) + n div 256 mod 256"
    using a [of 65536 "n div 256"] d(1) by simp
  moreover have "n div 65536 mod 65536 = n div 16777216 mod 256 * 256 + n div 65536 mod 256"
    using two [of "n div 65536"] by (simp only: d)
  ultimately show "n mod 4294967296 = n div 16777216 mod 256 * 16777216 + n div 65536 mod 256 * 65536
       + n div 256 mod 256 * 256 + n mod 256" by linarith
qed

lemma uint_byte: "uint (word_of_int k :: byte) = k mod 256"
  by (simp add: uint_word_of_int)

lemma nth_numerals: "(x # xs) ! 0 = x" "(x # xs) ! 1 = xs ! 0" "(x # xs) ! 2 = xs ! 1" "(x # xs) ! 3 = xs ! 2"
  by (simp_all add: nth_Cons')

lemma little_big_read [codec_simps]:
  "little_short (little16 n @ r) = n mod 65536"
  "big_short (big16 n @ r) = n mod 65536"
  "little_long (little32 n @ r) = n mod 4294967296"
  "big_long (big32 n @ r) = n mod 4294967296"
  unfolding digits_256 [of n]
  by (simp_all only: little_short_def little16_def big_short_def big16_def little_long_def
      little32_def big_long_def big32_def rev.simps append.simps nth_numerals uint_byte power2_eq_square)
    simp_all

lemma little_big_lengths [codec_simps]:
  "length (little16 n) = 2" "length (big16 n) = 2" "length (little32 n) = 4" "length (big32 n) = 4"
  by (simp_all add: little16_def big16_def little32_def big32_def)

text \<open>A floating-point value stored in an \<open>int\<close>.\<close>

definition trunc :: "rat \<Rightarrow> int" where
  "trunc r = (if r < 0 then - \<lfloor>- r\<rfloor> else \<lfloor>r\<rfloor>)"

section \<open>The 80-bit numbers of AIFF\<close>

text \<open>\<open>HUGE_VAL\<close> or a finite value, exact here.\<close>

datatype extended = Finite rat | Huge bool

definition ldexp :: "int \<Rightarrow> int \<Rightarrow> rat" where
  "ldexp m e = (if e \<ge> 0 then of_int m * 2 ^ nat e else of_int m / 2 ^ nat (- e))"

definition ConvertFromIeeeExtended :: "bytes \<Rightarrow> extended" where
  "ConvertFromIeeeExtended b =
     (let expon = uint (b ! 0 AND 0x7f) * 256 + uint (b ! 1);
          hi = big_long (drop 2 b);
          lo = big_long (drop 6 b);
          neg = (b ! 0 AND 0x80 \<noteq> 0)
      in if expon = 0 \<and> hi = 0 \<and> lo = 0 then Finite 0
         else if expon = 0x7fff then Huge neg
         else (let f = ldexp hi (expon - 16383 - 31) + ldexp lo (expon - 16383 - 63)
               in Finite (if neg then - f else f)))"

text \<open>An integral sample rate below \<open>2 ^ 16\<close> as an extended number: the mantissa starts
  with its top bit.\<close>

fun rate_exponent :: "nat \<Rightarrow> int \<Rightarrow> int" where
  "rate_exponent 0 r = 0"
| "rate_exponent (Suc n) r = (if r < 2 then 0 else 1 + rate_exponent n (r div 2))"

definition extended_of_rate :: "int \<Rightarrow> bytes" where
  "extended_of_rate r =
     (let e = rate_exponent 16 r in big16 (16383 + e) @ big32 (r * 2 ^ nat (31 - e)) @ big32 0)"

end
