(* ===== verification/Ulaw.thy ===== *)
theory Ulaw
  imports Prelude
begin

text \<open>
  The mu-law tables (\<open>src/rplayd/ulaw.c\<close>, \<open>ulaw.h\<close>).  \<open>_ulaw2linear\<close> is written out;
  the 8192 entries of \<open>_ulinear2ulaw\<close> are given as runs of equal values, in the order
  of the array.
\<close>

section \<open>The tables\<close>

definition ulaw2linear :: "int list" where
  "ulaw2linear = [
    -32256, -31228, -30200, -29172, -28143, -27115, -26087, -25059, -24031, -23002, -21974,
    -20946, -19918, -18889, -17861, -16833, -16062, -15548, -15033, -14519, -14005, -13491,
    -12977, -12463, -11949, -11435, -10920, -10406, -9892, -9378, -8864, -8350, -7964,
    -7707, -7450, -7193, -6936, -6679, -6422, -6165, -5908, -5651, -5394, -5137, -4880,
    -4623, -4365, -4108, -3916, -3787, -3659, -3530, -3402, -3273, -3144, -3016, -2887,
    -2759, -2630, -2502, -2373, -2245, -2116, -1988, -1891, -1827, -1763, -1698, -1634,
    -1570, -1506, -1441, -1377, -1313, -1249, -1184, -1120, -1056, -992, -927, -879, -847,
    -815, -783, -751, -718, -686, -654, -622, -590, -558, -526, -494, -461, -429, -397,
    -373, -357, -341, -325, -309, -293, -277, -261, -245, -228, -212, -196, -180, -164,
    -148, -132, -120, -112, -104, -96, -88, -80, -72, -64, -56, -48, -40, -32, -24, -16, -8,
    0, 32256, 31228, 30200, 29172, 28143, 27115, 26087, 25059, 24031, 23002, 21974, 20946,
    19918, 18889, 17861, 16833, 16062, 15548, 15033, 14519, 14005, 13491, 12977, 12463,
    11949, 11435, 10920, 10406, 9892, 9378, 8864, 8350, 7964, 7707, 7450, 7193, 6936, 6679,
    6422, 6165, 5908, 5651, 5394, 5137, 4880, 4623, 4365, 4108, 3916, 3787, 3659, 3530,
    3402, 3273, 3144, 3016, 2887, 2759, 2630, 2502, 2373, 2245, 2116, 1988, 1891, 1827,
    1763, 1698, 1634, 1570, 1506, 1441, 1377, 1313, 1249, 1184, 1120, 1056, 992, 927, 879,
    847, 815, 783, 751, 718, 686, 654, 622, 590, 558, 526, 494, 461, 429, 397, 373, 357,
    341, 325, 309, 293, 277, 261, 245, 228, 212, 196, 180, 164, 148, 132, 120, 112, 104, 96,
    88, 80, 72, 64, 56, 48, 40, 32, 24, 16, 8, 0]"

definition ulinear_runs1 :: "(int \<times> int) list" where
  "ulinear_runs1 = [
    (128, 0), (129, 1), (128, 2), (129, 3), (128, 4), (129, 5), (128, 6), (129, 7),
    (129, 8), (128, 9), (129, 10), (128, 11), (129, 12), (128, 13), (129, 14), (128,
    15), (64, 16), (65, 17)]"

definition ulinear_runs2 :: "(int \<times> int) list" where
  "ulinear_runs2 = [
    (64, 18), (64, 19), (65, 20), (64, 21), (64, 22), (64, 23), (65, 24), (64, 25), (64,
    26), (64, 27), (65, 28), (64, 29), (64, 30), (64, 31), (33, 32), (32, 33), (32, 34),
    (32, 35), (32, 36), (32, 37), (32, 38), (33, 39), (32, 40), (32, 41), (32, 42), (32,
    43), (32, 44), (32, 45), (32, 46), (33, 47), (16, 48), (16, 49), (16, 50), (16, 51),
    (16, 52), (16, 53), (16, 54), (16, 55), (16, 56), (16, 57), (16, 58), (16, 59), (16,
    60), (17, 61), (16, 62), (16, 63), (8, 64), (8, 65), (8, 66), (8, 67), (8, 68), (8,
    69), (8, 70), (8, 71), (8, 72), (8, 73), (8, 74), (8, 75), (8, 76), (8, 77), (8,
    78), (8, 79), (4, 80), (4, 81), (4, 82), (4, 83), (4, 84), (4, 85), (4, 86), (4,
    87), (4, 88), (4, 89), (4, 90), (4, 91), (4, 92), (4, 93), (4, 94), (4, 95), (2,
    96), (2, 97), (2, 98), (2, 99), (2, 100), (2, 101), (2, 102), (2, 103), (3, 104),
    (2, 105), (2, 106), (2, 107), (2, 108), (2, 109), (2, 110), (2, 111), (1, 112), (1,
    113), (1, 114), (1, 115), (1, 116), (1, 117), (1, 118), (1, 119), (1, 120), (1,
    121), (1, 122), (1, 123), (1, 124), (1, 125), (1, 126), (1, 255), (1, 254), (1,
    253), (1, 252), (1, 251), (1, 250), (1, 249), (1, 248), (1, 247), (1, 246), (1,
    245), (1, 244), (1, 243), (1, 242), (1, 241), (1, 240), (2, 239), (2, 238), (2,
    237), (2, 236), (2, 235), (2, 234), (2, 233), (2, 232), (2, 231), (2, 230), (2,
    229), (2, 228), (2, 227), (2, 226), (2, 225), (2, 224), (4, 223), (4, 222), (4,
    221), (4, 220), (4, 219), (4, 218), (4, 217), (4, 216), (4, 215), (4, 214), (4,
    213), (4, 212), (4, 211), (4, 210), (4, 209), (4, 208), (8, 207), (8, 206), (8,
    205), (8, 204), (8, 203), (8, 202), (8, 201), (8, 200), (8, 199), (8, 198), (8,
    197), (8, 196), (9, 195), (8, 194), (8, 193), (8, 192), (16, 191), (16, 190), (16,
    189)]"

definition ulinear_runs3 :: "(int \<times> int) list" where
  "ulinear_runs3 = [
    (16, 188), (16, 187), (16, 186), (16, 185), (16, 184), (16, 183), (16, 182), (16,
    181), (16, 180), (16, 179), (17, 178), (16, 177), (16, 176), (32, 175), (32, 174),
    (32, 173), (32, 172), (32, 171), (32, 170), (33, 169), (32, 168), (32, 167), (32,
    166), (32, 165), (32, 164), (32, 163), (33, 162), (32, 161), (32, 160), (64, 159),
    (64, 158), (65, 157), (64, 156), (64, 155), (64, 154), (65, 153), (64, 152), (64,
    151), (64, 150), (65, 149), (64, 148), (64, 147), (64, 146), (65, 145), (64, 144),
    (129, 143), (128, 142), (129, 141)]"

definition ulinear_runs4 :: "(int \<times> int) list" where
  "ulinear_runs4 = [
    (128, 140), (129, 139), (128, 138), (129, 137), (128, 136), (129, 135), (128, 134),
    (129, 133), (128, 132), (129, 131), (128, 130), (129, 129), (128, 128)]"

definition ulinear_runs :: "(int \<times> int) list" where
  "ulinear_runs = ulinear_runs1 @ ulinear_runs2 @ ulinear_runs3 @ ulinear_runs4"

text \<open>The array the runs describe.\<close>

definition ulinear2ulaw :: "int list" where
  "ulinear2ulaw = concat (map (\<lambda>(n, v). replicate (nat n) v) ulinear_runs)"

fun run_at :: "(int \<times> int) list \<Rightarrow> int \<Rightarrow> int" where
  "run_at [] i = 0"
| "run_at ((n, v) # rs) i = (if i < n then v else run_at rs (i - n))"

text \<open>\<open>ulaw_to_linear\<close> and \<open>linear_to_ulaw\<close>; \<open>_linear2ulaw\<close> points to the middle of the
  array, and \<open>>> 3\<close> on a \<open>short\<close> is a division rounding down.\<close>

definition ulaw_to_linear :: "8 word \<Rightarrow> 16 word" where
  "ulaw_to_linear u = word_of_int (ulaw2linear ! unat u)"

definition linear_to_ulaw :: "16 word \<Rightarrow> 8 word" where
  "linear_to_ulaw x = word_of_int (run_at ulinear_runs (4096 + sint x div 8))"

section \<open>The runs are the array\<close>

lemma run_at_concat:
  assumes "list_all (\<lambda>(n, v). 0 \<le> n) rs" "0 \<le> i" "i < sum_list (map fst rs)"
  shows "nat i < length (concat (map (\<lambda>(n, v). replicate (nat n) v) rs))
    \<and> run_at rs i = concat (map (\<lambda>(n, v). replicate (nat n) v) rs) ! nat i"
  using assms
proof (induction rs i rule: run_at.induct)
  case (2 n v rs i)
  show ?case
  proof (cases "i < n")
    case False
    have "0 \<le> n" using "2.prems" by simp
    then have "nat i - nat n = nat (i - n)" using False by linarith
    then show ?thesis using 2 False by (auto simp: nth_append)
  qed (use 2 in \<open>simp add: nth_append\<close>)
qed simp

lemma sum_runs: "sum_list (map fst ulinear_runs) = 8192 \<and> list_all (\<lambda>(n, v). 0 \<le> n) ulinear_runs"
  by code_simp

lemma short_range: "- 32768 \<le> sint (x :: 16 word)" "sint x < 32768"
  using sint_greater_eq [of x] sint_less [of x] by simp_all

text \<open>The macro reads inside the array and gives the array's element.\<close>

lemma linear_to_ulaw_array:
  "nat (4096 + sint x div 8) < length ulinear2ulaw \<and>
   linear_to_ulaw x = word_of_int (ulinear2ulaw ! nat (4096 + sint x div 8))"
proof -
  have "0 \<le> 4096 + sint x div 8" "4096 + sint x div 8 < 8192" using short_range [of x] by linarith+
  then show ?thesis
    using run_at_concat [of ulinear_runs "4096 + sint x div 8"] sum_runs
    by (simp add: linear_to_ulaw_def ulinear2ulaw_def)
qed

section \<open>Companding\<close>

text \<open>Every value of a run decodes close to the samples that select it.\<close>

definition decoded :: "int \<Rightarrow> int" where
  "decoded v = ulaw2linear ! nat v"

definition near :: "int \<Rightarrow> int \<Rightarrow> bool" where
  "near y x \<longleftrightarrow> 16 * \<bar>y - x\<bar> \<le> \<bar>x\<bar> + 112"

text \<open>The bound at both ends of a stretch of samples of one sign gives it in between.\<close>

lemma near_between:
  assumes "near y a" "near y b" "a \<le> x" "x \<le> b" "0 \<le> a \<or> b \<le> 0"
  shows "near y x"
  using assms unfolding near_def by (auto simp: abs_if split: if_splits)

fun runs_near :: "(int \<times> int) list \<Rightarrow> int \<Rightarrow> bool" where
  "runs_near [] i = True"
| "runs_near ((n, v) # rs) i =
     (0 \<le> v \<and> v < 256 \<and> near (decoded v) (8 * i) \<and> near (decoded v) (8 * (i + n) - 1)
      \<and> 0 < n \<and> i \<le> decoded v div 8 \<and> decoded v div 8 < i + n \<and> (0 \<le> i \<or> i + n \<le> 0) \<and> runs_near rs (i + n))"

lemma runs_near_table: "runs_near ulinear_runs (-4096)"
  by code_simp

lemma runs_near_at:
  assumes "runs_near rs i" "0 \<le> k" "k < sum_list (map fst rs)" "8 * (i + k) \<le> x" "x \<le> 8 * (i + k) + 7"
  shows "0 \<le> run_at rs k \<and> run_at rs k < 256 \<and> near (decoded (run_at rs k)) x"
  using assms
proof (induction rs i arbitrary: k rule: runs_near.induct)
  case (2 n v rs i)
  show ?case
  proof (cases "k < n")
    case True
    have v: "0 \<le> v" "v < 256" "near (decoded v) (8 * i)" "near (decoded v) (8 * (i + n) - 1)"
      "0 \<le> i \<or> i + n \<le> 0" using "2.prems"(1) by auto
    have "near (decoded v) x"
    proof (rule near_between [OF v(3,4)])
      have "8 * i \<le> 8 * (i + k)" "8 * (i + k) + 8 \<le> 8 * (i + n)" using "2.prems"(2) True by auto
      then show "8 * i \<le> x" "x \<le> 8 * (i + n) - 1" using "2.prems"(4,5) by linarith+
      show "0 \<le> 8 * i \<or> 8 * (i + n) - 1 \<le> 0" using v(5) by auto
    qed
    then show ?thesis using v True by simp
  next
    case False
    then show ?thesis using "2.IH" [of "k - n"] "2.prems" by simp
  qed
qed simp

lemma sint_short: "- 32768 \<le> k \<Longrightarrow> k < 32768 \<Longrightarrow> sint (word_of_int k :: 16 word) = k"
  by (rule signed_take_bit_int_eq_self [THEN trans [OF sint_sbintrunc']]) simp_all

lemma ulaw2linear_range: "list_all (\<lambda>y. - 32768 \<le> y \<and> y < 32768) ulaw2linear \<and> length ulaw2linear = 256"
  by code_simp

text \<open>C40.  Companding loses little: a sample that is encoded to mu-law and decoded again
  differs from the original by at most a sixteenth of its size plus seven.\<close>

theorem ulaw_error_bound:
  "16 * \<bar>sint (ulaw_to_linear (linear_to_ulaw x)) - sint x\<bar> \<le> \<bar>sint x\<bar> + 112"
proof -
  let ?k = "4096 + sint x div 8"
  have k: "0 \<le> ?k" "?k < 8192" using short_range [of x] by linarith+
  have m: "8 * (sint x div 8) = sint x - sint x mod 8" by (simp add: minus_mod_eq_mult_div)
  have b: "0 \<le> sint x mod 8" "sint x mod 8 < 8" by simp_all
  have r: "0 \<le> run_at ulinear_runs ?k \<and> run_at ulinear_runs ?k < 256
      \<and> near (decoded (run_at ulinear_runs ?k)) (sint x)"
  proof (rule runs_near_at [OF runs_near_table k(1)])
    show "?k < sum_list (map fst ulinear_runs)" using k(2) sum_runs by simp
    show "8 * (- 4096 + ?k) \<le> sint x" "sint x \<le> 8 * (- 4096 + ?k) + 7"
      using m b by simp_all
  qed
  let ?v = "run_at ulinear_runs ?k"
  have u: "unat (word_of_int ?v :: 8 word) = nat ?v"
    using r by (simp add: unat_eq_nat_uint uint_word_of_int)
  have "ulaw2linear ! nat ?v \<in> set ulaw2linear" using ulaw2linear_range r by (intro nth_mem) linarith
  then have "- 32768 \<le> decoded ?v" "decoded ?v < 32768"
    using ulaw2linear_range by (auto simp: list_all_iff decoded_def)
  then have "sint (ulaw_to_linear (linear_to_ulaw x)) = decoded ?v"
    using sint_short by (simp add: ulaw_to_linear_def linear_to_ulaw_def u decoded_def)
  then show ?thesis using r by (simp add: near_def)
qed

text \<open>A value of the table decodes to a sample of its own run.\<close>

lemma run_at_decoded:
  "runs_near rs i \<Longrightarrow> (n, v) \<in> set rs \<Longrightarrow> i \<le> decoded v div 8 \<and> run_at rs (decoded v div 8 - i) = v"
proof (induction rs i rule: runs_near.induct)
  case (2 n1 v1 rs i)
  show ?case
  proof (cases "(n, v) \<in> set rs")
    case True
    then have "i + n1 \<le> decoded v div 8" "run_at rs (decoded v div 8 - (i + n1)) = v"
      using 2 by auto
    then show ?thesis using "2.prems"(1) by (simp add: diff_diff_eq)
  next
    case False
    then show ?thesis using "2.prems" by auto
  qed
qed simp

lemma ulaw_values: "map snd ulinear_runs = [0..126] @ rev [128..255]"
  by code_simp

lemma ulaw_zeros: "decoded 127 = 0 \<and> decoded 255 = 0"
  by code_simp

text \<open>Encoding inverts decoding: every mu-law byte comes back, except that the two
  encodings of zero become one.\<close>

theorem ulaw_decode_encode:
  "linear_to_ulaw (ulaw_to_linear u) = (if u = 0x7f then 0xff else u)"
proof -
  have lt: "unat u < 256" using unsigned_less [of u, where ?'a = nat] by simp
  have "ulaw2linear ! unat u \<in> set ulaw2linear" using ulaw2linear_range lt by (intro nth_mem) simp
  then have "sint (ulaw_to_linear u) = decoded (uint u)"
    using ulaw2linear_range sint_short by (auto simp: list_all_iff ulaw_to_linear_def decoded_def)
  then have l: "linear_to_ulaw (ulaw_to_linear u) = word_of_int (run_at ulinear_runs (decoded (uint u) div 8 - (- 4096)))"
    by (simp add: linear_to_ulaw_def add.commute)
  have inv: "run_at ulinear_runs (decoded v div 8 - (- 4096)) = v" if "v \<in> set (map snd ulinear_runs)" for v
    using run_at_decoded [OF runs_near_table] that by auto
  have in_runs: "v \<in> set (map snd ulinear_runs)" if "0 \<le> v" "v \<le> 255" "v \<noteq> 127" for v
    using that by (simp only: ulaw_values set_append set_rev set_upto Un_iff atLeastAtMost_iff) arith
  show ?thesis
  proof (cases "u = 0x7f")
    case True
    then have "decoded (uint u) = decoded 255" using ulaw_zeros by simp
    then have "linear_to_ulaw (ulaw_to_linear u) = word_of_int (run_at ulinear_runs (decoded 255 div 8 - (- 4096)))"
      using l by (simp only:)
    also have "\<dots> = word_of_int 255" using inv [OF in_runs [of 255]] by simp
    finally show ?thesis using True by simp
  next
    case False
    have "uint u < 256" "0 \<le> uint u" using unsigned_less [of u, where ?'a = int] by simp_all
    moreover have "uint u \<noteq> 127"
    proof
      assume "uint u = 127"
      then have "uint u = uint (0x7f :: 8 word)" by simp
      then show False using False by (simp only: word_uint_eq_iff)
    qed
    ultimately have "uint u \<in> set (map snd ulinear_runs)" by (intro in_runs) auto
    then have "linear_to_ulaw (ulaw_to_linear u) = word_of_int (uint u)" using l inv by presburger
    then show ?thesis using False by simp
  qed
qed

end
