(* ===== verification/Native.thy ===== *)
theory Native
  imports Misc Ulaw
begin

unbundle bit_operations_syntax

text \<open>
  Sample conversion and mixing (\<open>src/rplayd/native.c\<close>): samples of a playing sound are
  read from its chains of buffers at the sound's rate, scaled by volume and added to
  the 16-bit audio buffer, which is then converted to the format of the device.  The
  \<open>double\<close> values are exact rationals here.  The properties: the cutting of the data
  into buffers does not matter, and the position of each sample read.
\<close>

section \<open>Reading one sample\<close>

datatype native_error = Outside

text \<open>A filled buffer: \<open>nbytes\<close> and the contents of \<open>buf\<close>.\<close>

record chunk =
  ck_nbytes :: int
  ck_data :: bytes

datatype native_format =
  Ulaw8 | S8 | U8 | Big_S16 | Little_S16 | Big_U16 | Little_U16 | Host_S16

definition byte_at :: "chunk \<Rightarrow> int \<Rightarrow> native_error + byte" where
  "byte_at ck p =
     (if 0 \<le> p \<and> nat p < length (ck_data ck) then Inr (ck_data ck ! nat p) else Inl Outside)"

definition width :: "native_format \<Rightarrow> int" where
  "width f = (if f \<in> {Ulaw8, S8, U8} then 1 else 2)"

definition join16 :: "byte \<Rightarrow> byte \<Rightarrow> 16 word" where
  "join16 hi lo = (push_bit 8 (ucast hi)) OR ucast lo"

text \<open>\<open>SAMPLE_TO_NATIVE\<close> for a channel of the frame at \<open>p\<close>; \<open>Host_S16\<close> reads a \<open>short\<close> of
  a little-endian host.\<close>

definition sample_at :: "native_format \<Rightarrow> chunk \<Rightarrow> int \<Rightarrow> nat \<Rightarrow> native_error + 16 word" where
  "sample_at f ck p ch =
     bindE (byte_at ck (p + width f * int ch)) (\<lambda>b0.
     if width f = 1 then
       Inr (if f = Ulaw8 then ulaw_to_linear b0
            else if f = S8 then push_bit 8 (ucast b0)
            else push_bit 8 (ucast (b0 XOR 0x80)))
     else
       bindE (byte_at ck (p + width f * int ch + 1)) (\<lambda>b1.
       Inr (if f = Big_S16 then join16 b0 b1
            else if f = Big_U16 then join16 b0 b1 XOR 0x8000
            else if f = Little_U16 then join16 b1 b0 XOR 0x8000
            else join16 b1 b0)))"

section \<open>Volume\<close>

abbreviation "RPLAY_MIN_VOLUME \<equiv> (0 :: int)"

definition new_volumes :: "int \<Rightarrow> int \<Rightarrow> int \<Rightarrow> int \<Rightarrow> int \<Rightarrow> int \<times> int" where
  "new_volumes prio nplaying priority vl vr =
     (if prio \<noteq> 0 \<and> nplaying > 1
      then (let scale = (prio - priority) div 2
            in (max (vl - scale) RPLAY_MIN_VOLUME, max (vr - scale) RPLAY_MIN_VOLUME))
      else (vl, vr))"

text \<open>\<open>*buf += (linear * volume) >> 7\<close>\<close>

definition mix :: "16 word \<Rightarrow> 16 word \<Rightarrow> int \<Rightarrow> 16 word" where
  "mix old x volume = old + word_of_int ((sint x * volume) div 128)"

section \<open>The mixing loop\<close>

record sound_info =
  si_format :: native_format
  si_channels :: nat
  si_frame :: int         \<comment> \<open>output_sample_size\<close>
  si_samples :: int
  si_ends :: bool         \<comment> \<open>a file, or the source is at its end\<close>
  si_vl :: int
  si_vr :: int

record voice =
  vo_pos :: int           \<comment> \<open>ptr, from the start of the current buffer\<close>
  vo_offset :: int
  vo_index :: rat
  vo_factor :: rat
  vo_over :: "nat \<Rightarrow> rat"
  vo_inc :: "nat \<Rightarrow> rat"

definition volume_of :: "sound_info \<Rightarrow> nat \<Rightarrow> int" where
  "volume_of I ch = (if ch = 0 then si_vl I else if ch = 1 then si_vr I else max (si_vl I) (si_vr I))"

text \<open>One step of the oversampling: the value played, and the new slope when the next
  sample is due.\<close>

definition oversample :: "nat \<Rightarrow> 16 word \<Rightarrow> voice \<Rightarrow> native_error + 16 word \<times> voice" where
  "oversample ch orig v =
     (if ch \<ge> 2 then Inl Outside
      else
        (let played = word_of_int (trunc (vo_over v ch));
             o1 = vo_over v ch + vo_inc v ch;
             v1 = v\<lparr>vo_over := (vo_over v)(ch := o1)\<rparr>
         in Inr (played,
              if vo_index v + vo_factor v > of_int (vo_offset v) + 1
              then v1\<lparr>vo_inc := (vo_inc v)(ch := (of_int (sint orig) - o1) * vo_factor v)\<rparr>
              else v1)))"

text \<open>One channel of the output frame; a channel the sound does not have repeats the
  previous one.\<close>

definition mix_channel :: "sound_info \<Rightarrow> chunk \<Rightarrow> int \<Rightarrow> nat \<Rightarrow> nat
     \<Rightarrow> 16 word \<times> 16 word list \<times> voice \<Rightarrow> native_error + 16 word \<times> 16 word list \<times> voice" where
  "mix_channel I ck p base ch = (\<lambda>(lin, buf, v).
     bindE (if ch < si_channels I
            then bindE (sample_at (si_format I) ck p ch) (\<lambda>x.
                   if vo_factor v < 1 then oversample ch x v else Inr (x, v))
            else Inr (lin, v)) (\<lambda>(lin', v').
     if base + ch < length buf
     then Inr (lin', buf[base + ch := mix (buf ! (base + ch)) lin' (volume_of I ch)], v')
     else Inl Outside))"

definition mix_frame :: "sound_info \<Rightarrow> chunk \<Rightarrow> int \<Rightarrow> nat \<Rightarrow> nat
     \<Rightarrow> 16 word \<times> 16 word list \<times> voice \<Rightarrow> native_error + 16 word \<times> 16 word list \<times> voice" where
  "mix_frame I ck p nchannels k = foldE (mix_channel I ck p (k * nchannels)) [0..<nchannels]"

text \<open>\<open>next_sample\<close>; the flag is the macro's \<open>return 0\<close>.\<close>

definition next_sample :: "sound_info \<Rightarrow> voice \<Rightarrow> bool \<times> voice" where
  "next_sample I v =
     (let x = vo_index v + vo_factor v
      in (si_samples I > 0 \<and> x \<ge> of_int (si_samples I) \<and> si_ends I,
          v\<lparr>vo_index := x, vo_offset := trunc (x - of_int (trunc (vo_index v))) * si_frame I\<rparr>))"

text \<open>The loop of \<open>x_to_native\<close> with \<open>check_buffers\<close>: \<open>cs\<close> is the chain at \<open>curr_buffer\<close>,
  \<open>nx\<close> the chain at \<open>next_buffer\<close>.  The result \<open>True\<close> is 1; the chains that remain are
  returned.\<close>

function to_native :: "sound_info \<Rightarrow> nat \<Rightarrow> nat \<Rightarrow> nat \<Rightarrow> 16 word \<Rightarrow> 16 word list \<Rightarrow> chunk list \<Rightarrow> chunk list
     \<Rightarrow> voice \<Rightarrow> native_error + bool \<times> 16 word list \<times> chunk list \<times> chunk list \<times> voice" where
  "to_native I n nc k lin buf cs nx v =
     (if cs = [] \<or> k \<ge> n then Inr (True, buf, cs, nx, v)
      else
        (let p = vo_pos v + vo_offset v;
             v1 = v\<lparr>vo_pos := p\<rparr>;
             ck = hd cs
         in if p < ck_nbytes ck then
              bindE (mix_frame I ck p nc k (lin, buf, v1)) (\<lambda>(lin', buf', v2).
                if fst (next_sample I v2) then Inr (False, buf', cs, nx, snd (next_sample I v2))
                else to_native I n nc (Suc k) lin' buf' cs nx (snd (next_sample I v2)))
            else
              (let v2 = v1\<lparr>vo_offset := p - ck_nbytes ck, vo_pos := 0\<rparr>
               in if tl cs \<noteq> [] \<and> ck_nbytes (hd (tl cs)) > 0
                  then to_native I n nc k lin buf (tl cs) nx v2
                  else if nx \<noteq> [] then to_native I n nc k lin buf nx [] v2
                  else Inr (True, buf, [], nx, v2))))"
  by auto
termination
  by (relation "measure (\<lambda>(I, n, nc, k, lin, buf, cs, nx, v). (n - k) + length cs + length nx)") (auto simp: neq_Nil_conv)

declare to_native.simps [simp del]

text \<open>What \<open>spool_update\<close> does to \<open>ptr\<close> when it gives an entry without current buffer new
  data (\<open>spool.c\<close>): \<open>ptr = b->buf + sp->offset\<close>.\<close>

definition refill :: "voice \<Rightarrow> voice" where
  "refill v = v\<lparr>vo_pos := vo_offset v\<rparr>"

section \<open>Levels and device formats\<close>

text \<open>\<open>level\<close>: the loop counts \<open>n\<close> down, and an odd \<open>n\<close> is taken as the right channel.\<close>

definition level_sample :: "int \<Rightarrow> 16 word \<Rightarrow> int" where
  "level_sample volume x = (sint x * volume) div 16384"

fun level_stereo :: "int \<Rightarrow> 16 word list \<Rightarrow> int \<Rightarrow> int \<Rightarrow> int \<times> int" where
  "level_stereo volume [] l r = (l, r)"
| "level_stereo volume (x # xs) l r =
     (let s = level_sample volume x
      in if odd (length xs) then level_stereo volume xs l (max r s)
         else level_stereo volume xs (max l s) r)"

fun level_mono :: "int \<Rightarrow> 16 word list \<Rightarrow> int \<Rightarrow> int" where
  "level_mono volume [] l = l"
| "level_mono volume (x # xs) l = level_mono volume xs (max l (level_sample volume x))"

definition level :: "int \<Rightarrow> nat \<Rightarrow> 16 word list \<Rightarrow> int \<times> int" where
  "level volume nchannels buf =
     (if nchannels = 2 then level_stereo volume buf 0 0
      else (let l = level_mono volume buf 0 in (l, l)))"

text \<open>Conversion in place: the memory is the bytes of the buffer, shorts little-endian,
  and sample \<open>i\<close> is stored as byte \<open>i\<close> of the same memory.\<close>

definition short_at :: "bytes \<Rightarrow> nat \<Rightarrow> 16 word" where
  "short_at m i = join16 (m ! (2 * i + 1)) (m ! (2 * i))"

fun narrow_loop :: "(16 word \<Rightarrow> byte) \<Rightarrow> nat \<Rightarrow> nat \<Rightarrow> bytes \<Rightarrow> bytes" where
  "narrow_loop f i 0 m = m"
| "narrow_loop f i (Suc n) m = narrow_loop f (Suc i) n (m[i := f (short_at m i)])"

definition native_to_ulaw :: "bytes \<Rightarrow> nat \<Rightarrow> bytes" where
  "native_to_ulaw m n = narrow_loop linear_to_ulaw 0 n m"

definition to_s8 :: "16 word \<Rightarrow> byte" where
  "to_s8 x = word_of_int (sint x div 256)"

definition native_to_s8 :: "bytes \<Rightarrow> nat \<Rightarrow> bytes" where
  "native_to_s8 m n = narrow_loop to_s8 0 n m"

definition native_to_u8 :: "bytes \<Rightarrow> nat \<Rightarrow> bytes" where
  "native_to_u8 m n = narrow_loop (\<lambda>x. to_s8 x XOR 0x80) 0 n m"

definition native_to_u16 :: "16 word list \<Rightarrow> 16 word list" where
  "native_to_u16 buf = map (\<lambda>x. x XOR 0x8000) buf"

definition zero_native :: "nat \<Rightarrow> nat \<Rightarrow> 16 word list" where
  "zero_native nsamples nchannels = replicate (nsamples * nchannels) 0"


section \<open>The stream of samples\<close>

text \<open>The bytes a voice will read: its buffers up to the first empty one of a chain.\<close>

fun live :: "chunk list \<Rightarrow> chunk list" where
  "live [] = []"
| "live (ck # cks) = ck # takeWhile (\<lambda>c. ck_nbytes c > 0) cks"

definition valid :: "chunk \<Rightarrow> bytes" where
  "valid ck = take (nat (ck_nbytes ck)) (ck_data ck)"

definition stream :: "chunk list \<Rightarrow> chunk list \<Rightarrow> bytes" where
  "stream cs nx = concat (map valid (live cs @ live nx))"

text \<open>The reference: the same mixing from one buffer that holds all the data.\<close>

function flat_native :: "sound_info \<Rightarrow> nat \<Rightarrow> nat \<Rightarrow> nat \<Rightarrow> 16 word \<Rightarrow> 16 word list \<Rightarrow> bytes \<Rightarrow> int
     \<Rightarrow> voice \<Rightarrow> native_error + bool \<times> 16 word list \<times> voice" where
  "flat_native I n nc k lin buf data p v =
     (if k \<ge> n \<or> p \<ge> int (length data) then Inr (True, buf, v)
      else
        bindE (mix_frame I \<lparr>ck_nbytes = int (length data), ck_data = data\<rparr> p nc k (lin, buf, v))
          (\<lambda>(lin', buf', v2).
             if fst (next_sample I v2) then Inr (False, buf', snd (next_sample I v2))
             else flat_native I n nc (Suc k) lin' buf' data
                    (p + vo_offset (snd (next_sample I v2))) (snd (next_sample I v2))))"
  by auto
termination
  by (relation "measure (\<lambda>(I, n, nc, k, lin, buf, data, p, v). n - k)") auto

declare flat_native.simps [simp del]

text \<open>A buffer holds whole frames.\<close>

definition whole :: "sound_info \<Rightarrow> chunk \<Rightarrow> bool" where
  "whole I ck \<longleftrightarrow> 0 \<le> ck_nbytes ck \<and> nat (ck_nbytes ck) \<le> length (ck_data ck) \<and> si_frame I dvd ck_nbytes ck"

definition sound_ok :: "sound_info \<Rightarrow> bool" where
  "sound_ok I \<longleftrightarrow> 0 < si_channels I \<and> si_frame I = width (si_format I) * int (si_channels I)"

text \<open>The parts of a voice that playing without oversampling depends on.\<close>

definition same_voice :: "voice \<Rightarrow> voice \<Rightarrow> bool" where
  "same_voice v w \<longleftrightarrow> vo_index v = vo_index w \<and> vo_factor v = vo_factor w"

lemma sample_at_shift:
  assumes "\<And>q. p \<le> q \<Longrightarrow> q < p + m \<Longrightarrow> byte_at ck q = byte_at ck' (q + d)"
    "width f * int ch + width f \<le> m"
  shows "sample_at f ck p ch = sample_at f ck' (p + d) ch"
proof -
  have w: "width f = 1 \<or> width f = 2" by (simp add: width_def)
  then have nn: "0 \<le> width f * int ch" by auto
  have "byte_at ck (p + width f * int ch) = byte_at ck' (p + d + width f * int ch)"
    using assms(1) [of "p + width f * int ch"] assms(2) w nn by (auto simp: algebra_simps)
  moreover have "byte_at ck (p + width f * int ch + 1) = byte_at ck' (p + d + width f * int ch + 1)"
    if "width f = 2"
    using assms(1) [of "p + width f * int ch + 1"] assms(2) that nn by (auto simp: algebra_simps)
  ultimately show ?thesis using w by (auto simp: sample_at_def)
qed


text \<open>Without oversampling a frame only depends on the samples read.\<close>

lemma mix_frame_cong:
  assumes "\<And>ch. ch < si_channels I \<Longrightarrow> sample_at (si_format I) ck p ch = sample_at (si_format I) ck' p' ch"
    "\<not> vo_factor v < 1" "\<not> vo_factor w < 1"
  shows "foldE (mix_channel I ck' p' base) chs (lin, buf, w)
    = map_sum id (\<lambda>(l, b, x). (l, b, w)) (foldE (mix_channel I ck p base) chs (lin, buf, v))
    \<and> (\<forall>l b x. foldE (mix_channel I ck p base) chs (lin, buf, v) = Inr (l, b, x) \<longrightarrow> x = v \<and> length b = length buf)"
proof (induction chs arbitrary: lin buf)
  case (Cons ch chs)
  define s where "s = (if ch < si_channels I then sample_at (si_format I) ck p ch else Inr lin)"
  have one: "mix_channel I ck p base ch (lin, buf, v) = bindE s (\<lambda>l.
      if base + ch < length buf then Inr (l, buf[base + ch := mix (buf ! (base + ch)) l (volume_of I ch)], v) else Inl Outside)"
    using assms(2) by (cases s) (auto simp: mix_channel_def s_def split: if_splits)
  have two: "mix_channel I ck' p' base ch (lin, buf, w) = bindE s (\<lambda>l.
      if base + ch < length buf then Inr (l, buf[base + ch := mix (buf ! (base + ch)) l (volume_of I ch)], w) else Inl Outside)"
    using assms(1,3) by (cases s) (auto simp: mix_channel_def s_def split: if_splits)
  show ?case
  proof (cases s)
    case (Inl e)
    then show ?thesis using one two by simp
  next
    case (Inr l)
    show ?thesis
    proof (cases "base + ch < length buf")
      case True
      then show ?thesis using one two Inr Cons.IH [of l "buf[base + ch := mix (buf ! (base + ch)) l (volume_of I ch)]"]
        by simp
    qed (use one two Inr in simp)
  qed
qed simp

lemma byte_at_flat:
  assumes "whole I ck" "0 \<le> q" "q < ck_nbytes ck"
  shows "byte_at ck q = byte_at \<lparr>ck_nbytes = int (length (pre @ valid ck @ post)), ck_data = pre @ valid ck @ post\<rparr>
    (q + int (length pre))"
proof -
  have q: "nat q < nat (ck_nbytes ck)" "nat q < length (ck_data ck)" using assms by (auto simp: whole_def)
  have n: "nat (q + int (length pre)) = length pre + nat q" using assms(2) by simp
  have "(pre @ valid ck @ post) ! (length pre + nat q) = ck_data ck ! nat q"
    using q by (simp add: nth_append valid_def)
  moreover have "nat q < length (valid ck)" using q by (simp add: valid_def)
  ultimately show ?thesis using q assms(2) n by (simp add: byte_at_def)
qed

lemma length_valid: "whole I ck \<Longrightarrow> int (length (valid ck)) = ck_nbytes ck"
  by (auto simp: whole_def valid_def)

lemma stream_step:
  assumes "tl cs \<noteq> []" "ck_nbytes (hd (tl cs)) > 0"
  shows "stream cs nx = valid (hd cs) @ stream (tl cs) nx"
proof -
  obtain a b r where "cs = a # b # r" using assms(1) by (cases cs; cases "tl cs") auto
  then show ?thesis using assms(2) by (simp add: stream_def)
qed

lemma stream_last:
  assumes "cs \<noteq> []" "\<not> (tl cs \<noteq> [] \<and> ck_nbytes (hd (tl cs)) > 0)"
  shows "stream cs nx = valid (hd cs) @ stream nx []"
proof -
  obtain a r where "cs = a # r" using assms(1) by (cases cs) auto
  then show ?thesis using assms(2) by (cases r) (auto simp: stream_def)
qed

lemma next_sample_fields:
  "vo_pos (snd (next_sample I v)) = vo_pos v" "vo_factor (snd (next_sample I v)) = vo_factor v"
  "vo_index (snd (next_sample I v)) = vo_index v + vo_factor v"
  "vo_offset (snd (next_sample I v)) = trunc (vo_index v + vo_factor v - of_int (trunc (vo_index v))) * si_frame I"
  by (simp_all add: next_sample_def Let_def)

lemma next_sample_same:
  "same_voice v w \<Longrightarrow> fst (next_sample I v) = fst (next_sample I w)
     \<and> vo_offset (snd (next_sample I v)) = vo_offset (snd (next_sample I w))
     \<and> same_voice (snd (next_sample I v)) (snd (next_sample I w))"
  by (simp add: same_voice_def next_sample_def Let_def)

lemma trunc_delta_nonneg: "0 \<le> x \<Longrightarrow> 0 \<le> f \<Longrightarrow> 0 \<le> trunc (x + f - of_int (trunc x))"
  by (simp add: trunc_def) linarith

lemma to_native_flat:
  assumes "cs \<noteq> []" "\<forall>ck \<in> set cs \<union> set nx. whole I ck" "sound_ok I" "1 \<le> vo_factor v" "0 \<le> vo_index v"
    "0 \<le> vo_pos v + vo_offset v" "si_frame I dvd vo_pos v + vo_offset v" "same_voice v w"
  shows "map_sum id (\<lambda>(r, b, cs', nx', v'). (r, b, vo_index v')) (to_native I n nc k lin buf cs nx v)
    = map_sum id (\<lambda>(r, b, w'). (r, b, vo_index w'))
        (flat_native I n nc k lin buf (pre @ stream cs nx) (int (length pre) + (vo_pos v + vo_offset v)) w)"
  using assms
proof (induction "(n - k) + length cs + length nx" arbitrary: k lin buf cs nx v pre w rule: less_induct)
  case less
  note prems = less.prems
  let ?p = "vo_pos v + vo_offset v"
  let ?v1 = "v\<lparr>vo_pos := ?p\<rparr>"
  let ?ck = "hd cs"
  let ?D = "pre @ stream cs nx"
  let ?P = "int (length pre) + ?p"
  have w: "whole I ?ck" using prems(1,2) by simp
  have fr: "0 < si_frame I" using prems(3) by (auto simp: sound_ok_def width_def)
  have idx: "vo_index v = vo_index w" "vo_factor v = vo_factor w"
    using prems(8) by (auto simp: same_voice_def)
  consider "k \<ge> n" | "k < n" "?p < ck_nbytes ?ck"
    | "k < n" "\<not> ?p < ck_nbytes ?ck" "tl cs \<noteq> []" "ck_nbytes (hd (tl cs)) > 0"
    | "k < n" "\<not> ?p < ck_nbytes ?ck" "\<not> (tl cs \<noteq> [] \<and> ck_nbytes (hd (tl cs)) > 0)" "nx \<noteq> []"
    | "k < n" "\<not> ?p < ck_nbytes ?ck" "\<not> (tl cs \<noteq> [] \<and> ck_nbytes (hd (tl cs)) > 0)" "nx = []"
    by linarith
  then show ?case
  proof cases
    case 1
    then show ?thesis
      using idx by (simp add: to_native.simps [of I n nc k lin buf cs nx v] flat_native.simps [of I n nc k lin buf ?D ?P w])
  next
    case 2
    obtain post where D: "?D = pre @ valid ?ck @ post"
      using prems(1) by (cases cs) (auto simp: stream_def)
    let ?flat = "\<lparr>ck_nbytes = int (length ?D), ck_data = ?D\<rparr>"
    have lt: "?P < int (length ?D)"
      unfolding D using 2(2) length_valid [OF w] by simp
    have fit: "?p + si_frame I \<le> ck_nbytes ?ck"
    proof -
      obtain a b where "?p = si_frame I * a" "ck_nbytes ?ck = si_frame I * b"
        using prems(7) w by (auto simp: whole_def elim!: dvdE)
      moreover have "a < b" using calculation 2(2) fr by simp
      ultimately show ?thesis
        using mult_left_mono [of "a + 1" b "si_frame I"] fr by (simp add: algebra_simps)
    qed
    have samples: "sample_at (si_format I) ?ck ?p ch = sample_at (si_format I) ?flat (?p + int (length pre)) ch"
      if ch: "ch < si_channels I" for ch
    proof (rule sample_at_shift [where m = "si_frame I"])
      show "byte_at ?ck q = byte_at ?flat (q + int (length pre))" if "?p \<le> q" "q < ?p + si_frame I" for q
        unfolding D by (rule byte_at_flat [OF w]) (use that fit prems(6) in linarith)+
      have "width (si_format I) * int (ch + 1) \<le> width (si_format I) * int (si_channels I)"
        using ch by (intro mult_left_mono) (auto simp: width_def)
      then show "width (si_format I) * int ch + width (si_format I) \<le> si_frame I"
        using prems(3) by (simp add: sound_ok_def algebra_simps)
    qed
    have nf: "\<not> vo_factor ?v1 < 1" "\<not> vo_factor w < 1" using prems(4) idx by auto
    let ?m = "mix_frame I ?ck ?p nc k (lin, buf, ?v1)"
    note c = mix_frame_cong [of I ?ck ?p ?flat "?p + int (length pre)" ?v1 w "k * nc" "[0..<nc]" lin buf, OF samples nf,
        folded mix_frame_def]
    have fe: "flat_native I n nc k lin buf ?D ?P w =
        bindE (map_sum id (\<lambda>(l, b, x). (l, b, w)) ?m) (\<lambda>(lin', buf', v2).
             if fst (next_sample I v2) then Inr (False, buf', snd (next_sample I v2))
             else flat_native I n nc (Suc k) lin' buf' ?D (?P + vo_offset (snd (next_sample I v2))) (snd (next_sample I v2)))"
      using 2(1) lt c by (subst flat_native.simps) (simp add: add.commute)
    have te: "to_native I n nc k lin buf cs nx v = bindE ?m (\<lambda>(lin', buf', v2).
                if fst (next_sample I v2) then Inr (False, buf', cs, nx, snd (next_sample I v2))
                else to_native I n nc (Suc k) lin' buf' cs nx (snd (next_sample I v2)))"
      using 2 prems(1) by (subst to_native.simps) (simp add: Let_def)
    show ?thesis
    proof (cases ?m)
      case (Inl e)
      then show ?thesis using te fe by simp
    next
      case (Inr r)
      obtain l b where r: "r = (l, b, ?v1)" using c Inr by (cases r) auto
      let ?v3 = "snd (next_sample I ?v1)" and ?w3 = "snd (next_sample I w)"
      have sv: "same_voice ?v1 w" using prems(8) by (simp add: same_voice_def)
      note ns = next_sample_same [OF sv, of I]
      show ?thesis
      proof (cases "fst (next_sample I ?v1)")
        case True
        then show ?thesis using te fe Inr r ns by (simp add: same_voice_def)
      next
        case False
        have "0 \<le> vo_offset ?v3"
          unfolding next_sample_fields using trunc_delta_nonneg [of "vo_index ?v1" "vo_factor ?v1"] prems(4,5) fr by simp
        then have p3: "0 \<le> vo_pos ?v3 + vo_offset ?v3" using prems(6) by (simp add: next_sample_fields(1))
        have d3: "si_frame I dvd vo_pos ?v3 + vo_offset ?v3"
          using prems(7) by (simp add: next_sample_fields)
        have i3: "0 \<le> vo_index ?v3" "1 \<le> vo_factor ?v3"
          using prems(4,5) by (simp_all add: next_sample_fields)
        have "map_sum id (\<lambda>(r, b, cs', nx', v'). (r, b, vo_index v')) (to_native I n nc (Suc k) l b cs nx ?v3)
          = map_sum id (\<lambda>(r, b, w'). (r, b, vo_index w'))
              (flat_native I n nc (Suc k) l b ?D (int (length pre) + (vo_pos ?v3 + vo_offset ?v3)) ?w3)"
          by (rule less.hyps [OF _ prems(1-3) i3(2,1) p3 d3]) (use ns 2(1) in auto)
        then show ?thesis using te fe Inr r ns False by (simp add: next_sample_fields(1) add.assoc)
      qed
    qed
  next
    case 3
    let ?v2 = "?v1\<lparr>vo_offset := ?p - ck_nbytes ?ck, vo_pos := 0\<rparr>"
    have st: "?D = (pre @ valid ?ck) @ stream (tl cs) nx" using stream_step [OF 3(3,4)] by simp
    have te: "to_native I n nc k lin buf cs nx v = to_native I n nc k lin buf (tl cs) nx ?v2"
      using 3 prems(1) by (subst to_native.simps) (simp add: Let_def)
    have "map_sum id (\<lambda>(r, b, cs', nx', v'). (r, b, vo_index v')) (to_native I n nc k lin buf (tl cs) nx ?v2)
      = map_sum id (\<lambda>(r, b, w'). (r, b, vo_index w'))
          (flat_native I n nc k lin buf ((pre @ valid ?ck) @ stream (tl cs) nx)
            (int (length (pre @ valid ?ck)) + (vo_pos ?v2 + vo_offset ?v2)) w)"
    proof (rule less.hyps)
      show "n - k + length (tl cs) + length nx < n - k + length cs + length nx"
        using 3(3) by (cases cs) auto
    qed (use 3 prems w in \<open>auto simp: whole_def same_voice_def dest: list.set_sel(2)\<close>)
    then show ?thesis unfolding te st using length_valid [OF w] by (simp add: add.assoc)
  next
    case 4
    let ?v2 = "?v1\<lparr>vo_offset := ?p - ck_nbytes ?ck, vo_pos := 0\<rparr>"
    have st: "?D = (pre @ valid ?ck) @ stream nx []" using stream_last [OF prems(1) 4(3)] by simp
    have te: "to_native I n nc k lin buf cs nx v = to_native I n nc k lin buf nx [] ?v2"
      using 4 prems(1) by (subst to_native.simps) (auto simp: Let_def)
    have "map_sum id (\<lambda>(r, b, cs', nx', v'). (r, b, vo_index v')) (to_native I n nc k lin buf nx [] ?v2)
      = map_sum id (\<lambda>(r, b, w'). (r, b, vo_index w'))
          (flat_native I n nc k lin buf ((pre @ valid ?ck) @ stream nx [])
            (int (length (pre @ valid ?ck)) + (vo_pos ?v2 + vo_offset ?v2)) w)"
    proof (rule less.hyps)
      show "n - k + length nx + length [] < n - k + length cs + length nx"
        using prems(1) by (cases cs) auto
    qed (use 4 prems w in \<open>auto simp: whole_def same_voice_def\<close>)
    then show ?thesis unfolding te st using length_valid [OF w] by (simp add: add.assoc)
  next
    case 5
    have st: "?D = pre @ valid ?ck" using stream_last [OF prems(1) 5(3), of nx] 5(4) by (simp add: stream_def)
    have te: "to_native I n nc k lin buf cs nx v
        = Inr (True, buf, [], [], ?v1\<lparr>vo_offset := ?p - ck_nbytes ?ck, vo_pos := 0\<rparr>)"
      using 5 prems(1) by (subst to_native.simps) (auto simp: Let_def)
    have "int (length ?D) \<le> ?P" unfolding st using 5(2) length_valid [OF w] by simp
    then show ?thesis
      unfolding te using idx by (subst flat_native.simps) simp
  qed
qed



definition demo_info :: sound_info where
  "demo_info = \<lparr>si_format = S8, si_channels = 1, si_frame = 1, si_samples = 0, si_ends = False,
     si_vl = 128, si_vr = 128\<rparr>"

definition demo_voice :: voice where
  "demo_voice = \<lparr>vo_pos = 0, vo_offset = 0, vo_index = 0, vo_factor = 3/2, vo_over = (\<lambda>_. 0), vo_inc = (\<lambda>_. 0)\<rparr>"


fun largest :: "int list \<Rightarrow> int" where
  "largest [] = 0"
| "largest (x # xs) = max x (largest xs)"

lemma largest_nonneg: "0 \<le> largest xs"
  by (induction xs) auto

lemma level_stereo_swapped:
  "0 \<le> l \<Longrightarrow> 0 \<le> r \<Longrightarrow> level_stereo vol (concat (map (\<lambda>(a, b). [a, b]) fs)) l r
     = (max l (largest (map (level_sample vol \<circ> snd) fs)), max r (largest (map (level_sample vol \<circ> fst) fs)))"
proof (induction fs arbitrary: l r)
  case (Cons f fs)
  have "even (length (concat (map (\<lambda>(a, b). [a, b]) fs)))" for fs :: "(16 word \<times> 16 word) list"
    by (induction fs) auto
  then show ?case
    using Cons.IH [of "max l (level_sample vol (snd f))" "max r (level_sample vol (fst f))"] Cons.prems
    by (cases f) (simp add: Let_def max.assoc le_max_iff_disj)
qed (simp add: max_absorb1)

text \<open>The levels of a stereo buffer are the wrong way round: the left level is the
  largest scaled sample of the odd positions, the right channel, and the right level
  that of the even positions, the left channel.\<close>

theorem level_swaps_channels:
  "level vol 2 (concat (map (\<lambda>(left, right). [left, right]) frames))
     = (largest (map (level_sample vol \<circ> snd) frames), largest (map (level_sample vol \<circ> fst) frames))"
  using level_stereo_swapped [of 0 0 vol frames] by (simp add: level_def max_absorb2 largest_nonneg)

section \<open>Conversion in place\<close>

lemma narrow_loop_result:
  assumes "2 * (i + n) \<le> length m"
  shows "length (narrow_loop f i n m) = length m
    \<and> (\<forall>j. j < i \<or> i + n \<le> j \<longrightarrow> j < length m \<longrightarrow> narrow_loop f i n m ! j = m ! j)
    \<and> (\<forall>j. i \<le> j \<and> j < i + n \<longrightarrow> narrow_loop f i n m ! j = f (short_at m j))"
  using assms
proof (induction n arbitrary: i m)
  case (Suc n)
  let ?m = "m[i := f (short_at m i)]"
  have ih: "length (narrow_loop f (Suc i) n ?m) = length m"
    "\<And>j. j < Suc i \<or> Suc i + n \<le> j \<Longrightarrow> j < length m \<Longrightarrow> narrow_loop f (Suc i) n ?m ! j = ?m ! j"
    "\<And>j. Suc i \<le> j \<Longrightarrow> j < Suc i + n \<Longrightarrow> narrow_loop f (Suc i) n ?m ! j = f (short_at ?m j)"
    using Suc.IH [of "Suc i" ?m] Suc.prems by auto
  have s: "short_at ?m j = short_at m j" if "Suc i \<le> j" for j
    using that by (simp add: short_at_def)
  have i: "i < length m" using Suc.prems by simp
  have "narrow_loop f (Suc i) n ?m ! j = f (short_at m j)" if "i \<le> j" "j < i + Suc n" for j
    using ih(2) [of i] ih(3) [of j] s [of j] i that by (cases "j = i") auto
  moreover have "narrow_loop f (Suc i) n ?m ! j = m ! j" if "j < i \<or> i + Suc n \<le> j" "j < length m" for j
    using ih(2) [of j] that by auto
  ultimately show ?case using ih(1) by simp
qed auto

text \<open>C39.  Converting in place is safe: although byte \<open>i\<close> of the result overwrites the memory
  the later samples are read from, the first \<open>n\<close> bytes are the conversions of the \<open>n\<close>
  original samples, for mu-law, signed and unsigned 8-bit output.\<close>

theorem in_place_conversion:
  assumes "2 * n \<le> length m"
  shows "take n (native_to_ulaw m n) = map (\<lambda>j. linear_to_ulaw (short_at m j)) [0..<n]
    \<and> take n (native_to_s8 m n) = map (\<lambda>j. to_s8 (short_at m j)) [0..<n]
    \<and> take n (native_to_u8 m n) = map (\<lambda>j. to_s8 (short_at m j) XOR 0x80) [0..<n]"
proof -
  have "take n (narrow_loop f 0 n m) = map (\<lambda>j. f (short_at m j)) [0..<n]" for f
    using narrow_loop_result [of 0 n m f] assms by (auto intro!: nth_equalityI)
  then show ?thesis by (simp add: native_to_ulaw_def native_to_s8_def native_to_u8_def)
qed

theorem in_place_conversion_witness:
  "take 2 (native_to_s8 [0, 1, 0, 2] 2) = [1, 2]"
  using in_place_conversion [of 2 "[0, 1, 0, 2]"]
  by (simp add: short_at_def join16_def to_s8_def upt_rec)

section \<open>Volume by priority\<close>

text \<open>While \<open>spool_prio\<close> is at least the priority of every playing entry, the priority
  scaling only lowers a volume and keeps it nonnegative, and a sound of the highest
  priority keeps its own; when \<open>spool_prio\<close> is stale and lower, the volume rises above
  what the client asked for.\<close>

theorem volume_by_priority:
  assumes "0 \<le> vl" "0 \<le> vr" "new_volumes prio np priority vl vr = (l, r)"
  shows "(priority \<le> prio \<longrightarrow> 0 \<le> l \<and> l \<le> vl \<and> 0 \<le> r \<and> r \<le> vr)
    \<and> (priority = prio \<longrightarrow> l = vl \<and> r = vr)
    \<and> (priority > prio + 1 \<and> prio \<noteq> 0 \<and> np > 1 \<longrightarrow> l > vl)"
  using assms by (auto simp: new_volumes_def Let_def max_def split: if_splits)

theorem volume_by_priority_witness:
  "new_volumes 10 2 20 100 2 = (105, 7) \<and> (105::int) > 100"
proof -
  have e: "new_volumes 10 2 20 100 2 = (105, 7)" by (simp add: new_volumes_def)
  show ?thesis using volume_by_priority [OF _ _ e] e by simp
qed

section \<open>Running dry\<close>

text \<open>When the buffers run dry while the position is \<open>d\<close> bytes past their end, the next
  buffer is read from \<open>2 * d\<close>: \<open>check_buffers\<close> keeps \<open>d\<close> in \<open>offset\<close>, \<open>spool_update\<close> points
  \<open>ptr\<close> to \<open>offset\<close>, and the loop adds \<open>offset\<close> once more.  The same data in one chain is
  read from \<open>d\<close>.\<close>

theorem dry_buffers_skip_twice:
  assumes "k < n" "vo_pos v + vo_offset v = ck_nbytes ck + d" "0 \<le> d" "ck_nbytes ck2 > 0"
  shows "(\<exists>v'. to_native I n nc k lin buf [ck] [] v = Inr (True, buf, [], [], v')
       \<and> vo_pos (refill v') + vo_offset (refill v') = 2 * d)
    \<and> (\<exists>v'. to_native I n nc k lin buf [ck, ck2] [] v = to_native I n nc k lin buf [ck2] [] v'
       \<and> vo_pos v' + vo_offset v' = d)"
proof -
  let ?v = "v\<lparr>vo_offset := vo_pos v + vo_offset v - ck_nbytes ck, vo_pos := 0\<rparr>"
  have p: "\<not> vo_pos v + vo_offset v < ck_nbytes ck" using assms(2,3) by simp
  have "to_native I n nc k lin buf [ck] [] v = Inr (True, buf, [], [], ?v)"
    using p assms(1) by (subst to_native.simps) (simp add: Let_def)
  moreover have "to_native I n nc k lin buf [ck, ck2] [] v = to_native I n nc k lin buf [ck2] [] ?v"
    using p assms(1,4) by (subst to_native.simps) (simp add: Let_def)
  moreover have "vo_pos (refill ?v) + vo_offset (refill ?v) = 2 * d" "vo_pos ?v + vo_offset ?v = d"
    using assms(2) by (simp_all add: refill_def)
  ultimately show ?thesis by blast
qed

theorem dry_buffers_skip_twice_witness:
  "\<exists>v'. to_native demo_info 3 1 0 0 [0, 0, 0] [\<lparr>ck_nbytes = 2, ck_data = [1, 2]\<rparr>] [] (demo_voice\<lparr>vo_pos := 3\<rparr>)
     = Inr (True, [0, 0, 0], [], [], v') \<and> vo_pos (refill v') + vo_offset (refill v') = 2"
  using dry_buffers_skip_twice [of 0 3 "demo_voice\<lparr>vo_pos := 3\<rparr>" "\<lparr>ck_nbytes = 2, ck_data = [1, 2]\<rparr>" 1
      "\<lparr>ck_nbytes = 2, ck_data = [1, 2]\<rparr>" demo_info 1 0 "[0, 0, 0]"]
  by (simp add: demo_voice_def)

end
