(* ===== verification/Single.thy ===== *)
theory Single
  imports Misc
begin

text \<open>
  Single-precision numbers (\<open>float\<close>): what a rational number becomes when it is rounded to 24
  significant binary digits, the nearest one and of two the even one.  The exponents of the program's
  numbers are far from their limits.
\<close>

function bit_length :: "int \<Rightarrow> nat" where
  "bit_length n = (if n \<le> 0 then 0 else Suc (bit_length (n div 2)))"
  by auto
termination by (relation "measure nat") auto

declare bit_length.simps [simp del]

lemma bit_length_one: "bit_length 1 = 1"
  by (subst bit_length.simps) (simp add: bit_length.simps [of 0])

lemma bit_length_bounds: "0 < n \<Longrightarrow> 2 ^ (bit_length n - 1) \<le> n \<and> n < 2 ^ bit_length n \<and> 0 < bit_length n"
proof (induction n rule: bit_length.induct)
  case (1 n)
  show ?case
  proof (cases "n = 1")
    case True
    then show ?thesis by (simp add: bit_length_one)
  next
    case False
    let ?b = "bit_length (n div 2)"
    have pos: "\<not> n \<le> 0" "0 < n div 2" using 1(2) False by simp_all
    have ih: "2 ^ (?b - 1) \<le> n div 2" "n div 2 < 2 ^ ?b" "0 < ?b" using 1(1) [OF pos] by blast+
    have s: "bit_length n = Suc ?b" using pos(1) by (subst bit_length.simps) (simp only: if_False)
    have "2 ^ ?b = 2 * (2 :: int) ^ (?b - 1)" using ih(3) by (cases "bit_length (n div 2)") simp_all
    then have "2 ^ ?b \<le> n" using ih(1) by linarith
    moreover have "n < 2 ^ Suc ?b" using ih(2) by simp
    ultimately show ?thesis using s by simp
  qed
qed

text \<open>The place of the first binary digit of a positive number.\<close>

definition exponent :: "rat \<Rightarrow> int" where
  "exponent x =
     (let (p, q) = quotient_of x; e = int (bit_length p) - int (bit_length q)
      in if 2 powi e \<le> x then e else e - 1)"

lemma exponent_bounds:
  assumes "0 < x"
  shows "2 powi exponent x \<le> x" "x < 2 powi (exponent x + 1)"
proof -
  obtain p q where pq: "quotient_of x = (p, q)" by fastforce
  have q: "0 < q" by (rule quotient_of_denom_pos [OF pq])
  have x: "x = of_int p / of_int q" by (rule quotient_of_div [OF pq])
  have p: "0 < p" using assms q unfolding x by (simp add: zero_less_divide_iff)
  define bp bq where "bp = bit_length p" and "bq = bit_length q"
  have bp: "2 ^ (bp - 1) \<le> p" "p < 2 ^ bp" "0 < bp" and bq: "2 ^ (bq - 1) \<le> q" "q < 2 ^ bq" "0 < bq"
    using bit_length_bounds [of p] bit_length_bounds [of q] p q by (simp_all add: bp_def bq_def)
  have P: "(2 :: rat) ^ (bp - 1) \<le> of_int p" "of_int p < (2 :: rat) ^ bp"
    and Q: "(2 :: rat) ^ (bq - 1) \<le> of_int q" "of_int q < (2 :: rat) ^ bq"
    using bp(1,2) bq(1,2)
    by (metis of_int_le_iff of_int_numeral of_int_power, metis of_int_less_iff of_int_numeral of_int_power,
        metis of_int_le_iff of_int_numeral of_int_power, metis of_int_less_iff of_int_numeral of_int_power)
  define e where "e = int bp - int bq"
  have pw: "(2 :: rat) powi (e - 1) = 2 ^ (bp - 1) / 2 ^ bq" "(2 :: rat) powi (e + 1) = 2 ^ bp / 2 ^ (bq - 1)"
  proof -
    have "(2 :: rat) powi (e - 1) = 2 powi (int (bp - 1) - int bq)" using bp(3) by (simp add: e_def of_nat_diff algebra_simps)
    also have "\<dots> = 2 ^ (bp - 1) / 2 ^ bq" by (simp add: power_int_diff)
    finally show "(2 :: rat) powi (e - 1) = 2 ^ (bp - 1) / 2 ^ bq" .
    have "(2 :: rat) powi (e + 1) = 2 powi (int bp - int (bq - 1))" using bq(3) by (simp add: e_def of_nat_diff algebra_simps)
    also have "\<dots> = 2 ^ bp / 2 ^ (bq - 1)" by (simp add: power_int_diff)
    finally show "(2 :: rat) powi (e + 1) = 2 ^ bp / 2 ^ (bq - 1)" .
  qed
  have lo: "2 powi (e - 1) \<le> x" unfolding pw x
    using P Q p q by (intro frac_le) (auto intro: less_imp_le)
  have hi: "x < 2 powi (e + 1)" unfolding pw x
    using P Q p q by (intro frac_less) (auto intro: less_imp_le)
  have ex: "exponent x = (if 2 powi e \<le> x then e else e - 1)" by (simp add: exponent_def pq e_def bp_def bq_def)
  show "2 powi exponent x \<le> x" using lo by (simp add: ex)
  show "x < 2 powi (exponent x + 1)" using hi by (simp add: ex)
qed

definition nearest :: "rat \<Rightarrow> int" where
  "nearest y =
     (let f = floor y; d = y - of_int f
      in if d < 1 / 2 then f else if 1 / 2 < d then f + 1 else if even f then f else f + 1)"

lemma nearest_error: "abs (of_int (nearest y) - y) \<le> 1 / 2"
proof -
  define f where "f = floor y"
  have "of_int f \<le> y" "y < of_int f + 1" unfolding f_def by linarith+
  then show ?thesis unfolding nearest_def Let_def f_def [symmetric] by (auto simp: abs_if field_simps)
qed

lemma nearest_int [simp]: "nearest (of_int k) = k"
  by (simp add: nearest_def)

definition single :: "rat \<Rightarrow> rat" where
  "single x = (if x = 0 then 0
     else let u = 2 powi (exponent (abs x) - 23) in of_int (nearest (x / u)) * u)"

lemma single_error: "abs (single x - x) \<le> abs x / 2 ^ 24"
proof (cases "x = 0")
  case False
  define u :: rat where "u = 2 powi (exponent (abs x) - 23)"
  have u: "0 < u" by (simp add: u_def)
  have "single x - x = (of_int (nearest (x / u)) - x / u) * u"
    using False u by (simp add: single_def u_def Let_def algebra_simps)
  then have "abs (single x - x) = abs (of_int (nearest (x / u)) - x / u) * u" using u by (simp add: abs_mult)
  also have "\<dots> \<le> 1 / 2 * u" using nearest_error u by (intro mult_right_mono) auto
  also have "\<dots> = 2 powi exponent (abs x) / 2 ^ 24" by (simp add: u_def power_int_diff)
  also have "\<dots> \<le> abs x / 2 ^ 24" using exponent_bounds(1) [of "abs x"] False by (intro divide_right_mono) auto
  finally show ?thesis .
qed (simp add: single_def)

lemma single_exact:
  assumes "abs k < 2 ^ 24"
  shows "single (of_int k * 2 ^ j) = of_int k * 2 ^ j"
proof (cases "k = 0")
  case False
  define x :: rat where "x = of_int k * 2 ^ j"
  have x: "x \<noteq> 0" using False by (simp add: x_def)
  have "(2 :: rat) powi exponent (abs x) \<le> abs x" using exponent_bounds(1) [of "abs x"] x by simp
  also have "abs x < 2 ^ 24 * 2 ^ j"
  proof -
    have "(of_int (abs k) :: rat) < 2 ^ 24" using assms by (metis of_int_less_iff of_int_numeral of_int_power)
    then show ?thesis by (simp add: x_def abs_mult)
  qed
  also have "\<dots> = 2 powi (24 + int j)" by (simp add: power_int_add)
  finally have "(2 :: rat) powi exponent (abs x) < 2 powi (24 + int j)" .
  then have "exponent (abs x) < 24 + int j" by (rule power_int_le_imp_less_exp [rotated]) simp_all
  then have e: "exponent (abs x) - 23 \<le> int j" by linarith
  define m where "m = nat (int j - (exponent (abs x) - 23))"
  have j: "int j = (exponent (abs x) - 23) + int m" using e by (simp add: m_def)
  define u :: rat where "u = 2 powi (exponent (abs x) - 23)"
  have u: "u \<noteq> 0" by (simp add: u_def)
  have pj: "(2 :: rat) ^ j = u * 2 ^ m"
    using arg_cong [OF j, of "\<lambda>i. (2 :: rat) powi i"] by (simp add: power_int_add u_def)
  have xu: "x / u = of_int (k * 2 ^ m)" unfolding x_def pj using u by simp
  have "single x = of_int (nearest (x / u)) * u" using x by (simp add: single_def u_def Let_def)
  also have "\<dots> = x / u * u" by (simp only: xu nearest_int)
  finally show ?thesis using u by (simp add: x_def)
qed (simp add: single_def)

lemma single_int: "abs k < 2 ^ 24 \<Longrightarrow> single (of_int k) = of_int k"
  using single_exact [of k 0] by simp

text \<open>Dividing integers of less than 24 digits does not reach the next one.\<close>

lemma floor_single_quotient:
  assumes "0 \<le> n" "n < 2 ^ 24" "0 < d"
  shows "floor (single (of_int n / of_int d)) = n div d"
proof -
  let ?q = "of_int n / of_int d :: rat"
  define m where "m = n div d"
  have n: "n = m * d + n mod d" "0 \<le> n mod d" "n mod d < d" using assms(3) by (simp_all add: m_def)
  have q0: "0 \<le> ?q" using assms by simp
  have "?q / 2 ^ 24 < 1 / of_int d" using assms by (simp add: field_simps)
  then have err: "abs (single ?q - ?q) < 1 / of_int d" using single_error [of ?q] q0 by simp
  have "n + 1 \<le> (m + 1) * d" using n by (simp add: algebra_simps)
  then have "of_int (n + 1) \<le> (of_int ((m + 1) * d) :: rat)" by (simp only: of_int_le_iff)
  then have up: "?q + 1 / of_int d \<le> of_int m + 1" using assms(3) by (simp add: field_simps)
  have lo: "of_int m \<le> single ?q"
  proof (cases "n mod d = 0")
    case True
    then have "?q = of_int m" using n(1) assms(3) by (simp add: field_simps)
    moreover have "abs m < 2 ^ 24"
    proof -
      have "0 \<le> m" using assms by (simp add: m_def pos_imp_zdiv_nonneg_iff)
      moreover have "m \<le> m * d" using mult_left_mono [of 1 d m] calculation assms(3) by simp
      ultimately show ?thesis using n assms(2) by linarith
    qed
    ultimately show ?thesis by (simp add: single_int)
  next
    case False
    then have "m * d + 1 \<le> n" using n by linarith
    then have "of_int (m * d + 1) \<le> (of_int n :: rat)" by (simp only: of_int_le_iff)
    then have "(of_int (m * d + 1) :: rat) / of_int d \<le> ?q" using assms(3) by (intro divide_right_mono) auto
    moreover have "(of_int (m * d + 1) :: rat) / of_int d = of_int m + 1 / of_int d"
      using assms(3) by (simp add: add_divide_distrib)
    ultimately have "of_int m + 1 / of_int d \<le> ?q" by simp
    then show ?thesis using err by (simp add: abs_if split: if_splits)
  qed
  have "single ?q < of_int m + 1" using err up by (simp add: abs_if split: if_splits)
  then show ?thesis using lo unfolding m_def [symmetric] by (intro floor_unique) auto
qed

end
