(* ===== verification/Header.thy ===== *)
theory Header
  imports Single
begin

unbundle bit_operations_syntax

text \<open>
  The headers of audio files: \<open>sound_map\<close>, \<open>bytes_in_sound\<close> and \<open>number_of_samples\<close>
  of \<open>src/rplayd/sound.c\<close>.  The header buffer has 1024 bytes; what the file does not
  fill is whatever the stack held.  \<open>long\<close> has 64 bits.  A read outside the buffer and
  a floating-point value that does not fit an \<open>int\<close> are errors.  The division in
  \<open>number_of_samples\<close> is one of single-precision numbers (\<open>single\<close>); other floating-point values are
  exact here.
\<close>

section \<open>The fields of a sound\<close>

datatype header_error = Outside | Undefined

abbreviation "SOUND_MAX_HEADER_SIZE \<equiv> (1024 :: nat)"

record header =
  h_type :: input
  h_storage :: storage
  h_format :: audio_format
  h_byte_order :: byte_order
  h_sample_rate :: int
  h_input_precision :: rat
  h_output_precision :: int
  h_channels :: int
  h_samples :: int
  h_input_sample_size :: rat
  h_output_sample_size :: int
  h_offset :: int
  h_size :: int
  h_tail :: int
  h_chunk_size :: int
  h_mapped :: bool
  h_needs_helper :: int

text \<open>\<open>HELPER\<close>, the fields used here.\<close>

record helper_info =
  hi_format :: audio_format
  hi_byte_order :: byte_order
  hi_sample_rate :: int
  hi_precision :: int
  hi_channels :: int

text \<open>What \<open>sound_create\<close> sets.\<close>

definition new_header :: "input \<Rightarrow> header" where
  "new_header t = \<lparr>h_type = t, h_storage = STORAGE_NULL, h_format = FORMAT_NONE,
     h_byte_order = ORDER_NONE, h_sample_rate = 0, h_input_precision = 0, h_output_precision = 0,
     h_channels = 0, h_samples = 0, h_input_sample_size = 0, h_output_sample_size = 0,
     h_offset = 0, h_size = 0, h_tail = 0, h_chunk_size = 0, h_mapped = False, h_needs_helper = 0\<rparr>"

section \<open>The number of samples\<close>

definition bytes_in_sound :: "header \<Rightarrow> int" where
  "bytes_in_sound h =
     (if h_chunk_size h \<noteq> 0 then h_chunk_size h
      else if h_tail h \<noteq> 0 then h_tail h - h_offset h
      else if h_size h \<noteq> 0 then h_size h - h_offset h
      else 0)"

text \<open>\<open>(bytes << 3) / (s->input_precision * s->channels)\<close>: the bits are an \<open>int\<close>, whose overflow
  wraps, and become a \<open>float\<close> like the product of the precision, a \<open>float\<close>, and the channels.\<close>

definition number_of_samples :: "header \<Rightarrow> int \<Rightarrow> int" where
  "number_of_samples h bytes =
     trunc (single (single (of_int (to_int (8 * (if bytes = 0 then bytes_in_sound h else bytes))))
            / single (single (h_input_precision h) * single (of_int (h_channels h)))))"

section \<open>The formats\<close>

text \<open>A parser gives the result of \<open>sound_map\<close> so far (\<open>False\<close>: it returns -1), the fields
  as they are then, and \<open>sound_chunk_size\<close>.\<close>

type_synonym parsed = "bool \<times> header \<times> int"

definition precision :: "int \<Rightarrow> int \<Rightarrow> header \<Rightarrow> header" where
  "precision i w h = h\<lparr>h_input_precision := of_int i, h_output_precision := w\<rparr>"

text \<open>\<open>.snd\<close>\<close>

definition ulaw_encoding :: "int \<Rightarrow> (audio_format \<times> int \<times> int) option" where
  "ulaw_encoding n =
     (if n = 1 then Some (ULAW, 8, 8)
      else if n = 2 then Some (LINEAR_8, 8, 8)
      else if n = 3 then Some (LINEAR_16, 16, 16)
      else if n = 23 then Some (G721, 4, 16)
      else if n = 25 then Some (G723_3, 3, 16)
      else if n = 26 then Some (G723_5, 5, 16)
      else None)"

definition ulaw_header :: "bytes \<Rightarrow> header \<Rightarrow> header_error + parsed" where
  "ulaw_header buf h =
     (let hdr_size = big_long (drop 4 buf);
          data_size = to_int (big_long (drop 8 buf))
      in if hdr_size < 24 then Inr (False, h, 0)
         else case ulaw_encoding (to_int (big_long (drop 12 buf))) of
                None \<Rightarrow> Inr (False, h, 0)
              | Some (f, i, w) \<Rightarrow>
                  (let h1 = (precision i w h)\<lparr>h_format := f, h_byte_order := BIG_ENDIAN,
                          h_sample_rate := to_int (big_long (drop 16 buf)),
                          h_channels := to_int (big_long (drop 20 buf)), h_offset := to_int hdr_size\<rparr>
                   in Inr (True, h1, if data_size = -1 then h_size h1 - h_offset h1 else data_size)))"

text \<open>A \<open>double\<close> stored in an \<open>int\<close>.\<close>

definition double_to_int :: "extended \<Rightarrow> header_error + int" where
  "double_to_int x =
     (case x of
        Finite r \<Rightarrow> if - (2 ^ 31) \<le> trunc r \<and> trunc r < 2 ^ 31 then Inr (trunc r) else Inl Undefined
      | Huge _ \<Rightarrow> Inl Undefined)"

text \<open>AIFF: the scan of the chunks gives the position of the data, channels, bits, rate
  and \<open>sound_chunk_size\<close>.\<close>

function aiff_scan :: "bytes \<Rightarrow> nat \<Rightarrow> int \<Rightarrow> int \<Rightarrow> extended
     \<Rightarrow> header_error + nat \<times> int \<times> int \<times> extended \<times> int" where
  "aiff_scan buf p channels bits rate =
     (if p + 8 > length buf then Inl Outside
      else
        (let id = take 4 (drop p buf); size = big_long (drop (p + 4) buf); q = p + 8
         in if id = bytes_of ''COMM'' then
              (if q + 18 > length buf then Inl Outside
               else aiff_scan buf (q + 18) (big_short (drop q buf)) (big_short (drop (q + 6) buf))
                      (ConvertFromIeeeExtended (drop (q + 8) buf)))
            else if id = bytes_of ''SSND'' then
              (if q + 8 > length buf then Inl Outside
               else Inr (q + 8, channels, bits, rate, to_int (big_long (drop (q + 4) buf))))
            else aiff_scan buf (q + nat size + (if size mod 2 = 1 then 1 else 0)) channels bits rate))"
  by auto
termination
  by (relation "measure (\<lambda>(buf, p, channels, bits, rate). length buf + 8 - p)") auto

declare aiff_scan.simps [simp del]

text \<open>The format of linear samples: by precision.\<close>

definition aiff_header :: "bytes \<Rightarrow> header \<Rightarrow> header_error + parsed" where
  "aiff_header buf h =
     (if take 4 (drop 8 buf) \<noteq> bytes_of ''AIFF'' then Inr (False, h, 0)
      else
        bindE (aiff_scan buf 12 0 0 (Finite 0)) (\<lambda>(p, channels, bits, rate, chunk).
        bindE (double_to_int rate) (\<lambda>r.
          let h1 = (precision bits bits h)\<lparr>h_byte_order := BIG_ENDIAN, h_offset := int p,
                     h_sample_rate := r, h_channels := channels\<rparr>
          in if bits = 8 then Inr (True, h1\<lparr>h_format := LINEAR_8\<rparr>, chunk)
             else if bits = 16 then Inr (True, h1\<lparr>h_format := LINEAR_16\<rparr>, chunk)
             else Inr (False, h1, chunk))))"

text \<open>deadsnd: the magic is compared as a 64-bit \<open>long\<close>, and the fields are those of
  \<open>DSID\<close> with 64-bit longs.\<close>

definition deadsnd_header :: "bytes \<Rightarrow> header \<Rightarrow> header_error + parsed" where
  "deadsnd_header buf h =
     (let bps = to_int (little_long (drop 16 buf));
          h1 = (precision bps bps h)\<lparr>h_offset := 104, h_sample_rate := to_int (little_long (drop 8 buf)),
                 h_channels := to_int (little_long (drop 20 buf)) + 1, h_byte_order := LITTLE_ENDIAN\<rparr>
      in if bps = 8 then Inr (True, h1\<lparr>h_format := ULINEAR_8\<rparr>, 0)
         else if bps = 16 then Inr (True, h1\<lparr>h_format := LINEAR_16\<rparr>, 0)
         else Inr (False, h1, 0))"

text \<open>WAVE: \<open>None\<close> for a format that is not PCM.\<close>

function wave_scan :: "bytes \<Rightarrow> nat \<Rightarrow> int \<Rightarrow> int \<Rightarrow> int
     \<Rightarrow> header_error + (nat \<times> int \<times> int \<times> int \<times> int) option" where
  "wave_scan buf p channels bits rate =
     (if p + 8 > length buf then Inl Outside
      else
        (let id = take 4 (drop p buf); size = little_long (drop (p + 4) buf); q = p + 8
         in if id = bytes_of ''fmt '' then
              (if q + 2 > length buf then Inl Outside
               else if little_short (drop q buf) = 1 then
                 (if q + 16 > length buf then Inl Outside
                  else wave_scan buf (q + nat size) (little_short (drop (q + 2) buf))
                         (little_short (drop (q + 14) buf)) (little_long (drop (q + 4) buf)))
               else Inr None)
            else if id = bytes_of ''data'' then Inr (Some (q, channels, bits, rate, to_int size))
            else wave_scan buf (q + nat size + (if size mod 2 = 1 then 1 else 0)) channels bits rate))"
  by auto
termination
  by (relation "measure (\<lambda>(buf, p, channels, bits, rate). length buf + 8 - p)") auto

declare wave_scan.simps [simp del]

definition wave_header :: "bytes \<Rightarrow> header \<Rightarrow> header_error + parsed" where
  "wave_header buf h =
     (if take 4 (drop 8 buf) \<noteq> bytes_of ''WAVE'' then Inr (False, h, 0)
      else
        bindE (wave_scan buf 12 0 0 0) (\<lambda>r. case r of
          None \<Rightarrow> Inr (False, h, 0)
        | Some (p, channels, bits, rate, chunk) \<Rightarrow>
            bindE (double_to_int (Finite (of_int rate))) (\<lambda>r.
              let h1 = (precision bits bits h)\<lparr>h_offset := int p, h_sample_rate := r, h_channels := channels\<rparr>
              in if bits = 8 then Inr (True, h1\<lparr>h_format := ULINEAR_8, h_byte_order := LITTLE_ENDIAN\<rparr>, chunk)
                 else if bits = 16 then Inr (True, h1\<lparr>h_format := LINEAR_16, h_byte_order := LITTLE_ENDIAN\<rparr>, chunk)
                 else Inr (False, h1, chunk))))"


text \<open>Creative voice files: blocks up to the first with data or the terminator.\<close>

definition voc_magic :: bytes where
  "voc_magic = bytes_of ''Creative Voice File'' @ [26]"

definition byte_at :: "bytes \<Rightarrow> nat \<Rightarrow> header_error + byte" where
  "byte_at buf p = (if p < length buf then Inr (buf ! p) else Inl Outside)"

definition voc_data_16 :: "bytes \<Rightarrow> nat \<Rightarrow> header \<Rightarrow> header_error + bool \<times> nat \<times> header" where
  "voc_data_16 buf p h =
     (if p + 5 > length buf then Inl Outside
      else
        (let h1 = h\<lparr>h_sample_rate := to_int (little_long (drop p buf))\<rparr>; bits = sint (buf ! (p + 4))
         in if bits = 8 \<or> bits = 16
            then bindE (byte_at buf (p + 5)) (\<lambda>c.
                   Inr (True, p + 12, (precision bits bits h1)\<lparr>h_channels := sint c\<rparr>))
            else Inr (False, p + 4, h1)))"

function voc_scan :: "bytes \<Rightarrow> nat \<Rightarrow> header \<Rightarrow> header_error + bool \<times> nat \<times> header" where
  "voc_scan buf p h =
     bindE (byte_at buf p) (\<lambda>block_id.
     if block_id = 0 then Inr (True, p + 1, h)
     else if p + 4 > length buf then Inl Outside
     else if block_id = 1 then
       bindE (byte_at buf (p + 4)) (\<lambda>rate.
         Inr (True, p + 5, (precision 8 8 h)\<lparr>h_sample_rate := 1000000 div (256 - uint rate), h_channels := 1\<rparr>))
     else if block_id = 9 then voc_data_16 buf (p + 4) h
     else voc_scan buf (p + 4 + nat (uint (buf ! (p + 1)) + uint (buf ! (p + 2)) * 256
                                     + uint (buf ! (p + 3)) * 65536)) h)"
  by auto
termination
  by (relation "measure (\<lambda>(buf, p, h). length buf - p)") (auto simp: byte_at_def split: if_splits)

declare voc_scan.simps [simp del]

definition voc_header :: "bytes \<Rightarrow> header \<Rightarrow> header_error + parsed" where
  "voc_header buf h =
     bindE (voc_scan buf 26 h) (\<lambda>(ok, p, h1).
       if \<not> ok then Inr (False, h1, 0)
       else
         (let h2 = h1\<lparr>h_offset := int p, h_byte_order := LITTLE_ENDIAN\<rparr>
          in if trunc (h_input_precision h2) = 8 then Inr (True, h2\<lparr>h_format := ULINEAR_8\<rparr>, 0)
             else if trunc (h_input_precision h2) = 16 then Inr (True, h2\<lparr>h_format := ULINEAR_16\<rparr>, 0)
             else Inr (False, h2, 0)))"

definition set_gsm :: "header \<Rightarrow> header" where
  "set_gsm h = h\<lparr>h_offset := 0, h_format := GSM, h_byte_order := BIG_ENDIAN, h_sample_rate := 8000,
     h_input_precision := 165/100, h_output_precision := 16, h_channels := 1\<rparr>"

definition set_cdrom :: "header \<Rightarrow> header" where
  "set_cdrom h = h\<lparr>h_offset := 0, h_format := LINEAR_16, h_byte_order := LITTLE_ENDIAN,
     h_sample_rate := 44100, h_input_precision := 16, h_output_precision := 16, h_channels := 2,
     h_storage := STORAGE_NONE\<rparr>"

text \<open>Without a header: the helper, the extension, or the options alone.\<close>

definition extension :: "cstring \<Rightarrow> cstring" where
  "extension path =
     (if 46 \<in> set path then 46 # rev (takeWhile (\<lambda>b. b \<noteq> 46) (rev path)) else [])"

definition set_8_bit :: "audio_format \<Rightarrow> int \<Rightarrow> header \<Rightarrow> header" where
  "set_8_bit f rate h = h\<lparr>h_offset := 0, h_format := f, h_byte_order := BIG_ENDIAN,
     h_sample_rate := rate, h_input_precision := 8, h_output_precision := 8, h_channels := 1\<rparr>"

definition set_helper :: "helper_info \<Rightarrow> header \<Rightarrow> header" where
  "set_helper u h = h\<lparr>h_offset := 0, h_format := hi_format u, h_byte_order := hi_byte_order u,
     h_sample_rate := hi_sample_rate u, h_input_precision := of_int (hi_precision u),
     h_output_precision := hi_precision u, h_channels := hi_channels u, h_storage := STORAGE_NONE\<rparr>"

definition no_header :: "helper_info option \<Rightarrow> cstring \<Rightarrow> header \<Rightarrow> header_error + bool \<times> header" where
  "no_header helper path h =
     (if h_needs_helper h \<noteq> 0
      then (case helper of None \<Rightarrow> Inl Undefined | Some u \<Rightarrow> Inr (True, set_helper u h))
      else
        (let x = extension path
         in if x = bytes_of ''.ub'' then Inr (True, set_8_bit ULINEAR_8 11025 h)
            else if x \<in> {bytes_of ''.au'', bytes_of ''.ul''} then Inr (True, set_8_bit ULAW 8000 h)
            else if x \<in> {bytes_of ''.gsm'', bytes_of ''.GSM''} then Inr (True, set_gsm h)
            else Inr (\<not> (h_format h = FORMAT_NONE \<and> h_byte_order h = ORDER_NONE \<and> h_sample_rate h = 0
                     \<and> h_input_precision h = 0 \<and> h_channels h = 0), h)))"

text \<open>The dispatch on the first bytes of the buffer.\<close>

definition parse_header :: "helper_info option \<Rightarrow> cstring \<Rightarrow> bytes \<Rightarrow> header \<Rightarrow> header_error + parsed" where
  "parse_header helper path buf h =
     (if take 4 buf = bytes_of ''.snd'' then ulaw_header buf h
      else if take 4 buf = bytes_of ''FORM'' then aiff_header buf h
      else if take 8 buf = [0xd2, 0xb6, 0x02, 0x4a, 0, 0, 0, 0] then deadsnd_header buf h
      else if take 4 buf = bytes_of ''RIFF'' then wave_header buf h
      else if take 20 buf = voc_magic then voc_header buf h
      else if drop_bit 4 (hd buf) = 0xd then Inr (True, set_gsm h, 0)
      else if take 6 buf = bytes_of ''CDROM'' @ [0] then Inr (True, set_cdrom h, 0)
      else bindE (no_header helper path h) (\<lambda>(ok, h1). Inr (ok, h1, 0)))"

section \<open>sound_map\<close>

text \<open>The settings the sound had before take precedence over the header.\<close>

definition keep_options :: "header \<Rightarrow> header \<Rightarrow> header" where
  "keep_options old h = h\<lparr>
     h_offset := (if h_offset old \<noteq> 0 then h_offset old else h_offset h),
     h_format := (if h_format old \<noteq> FORMAT_NONE then h_format old else h_format h),
     h_byte_order := (if h_byte_order old \<noteq> ORDER_NONE then h_byte_order old else h_byte_order h),
     h_sample_rate := (if h_sample_rate old \<noteq> 0 then h_sample_rate old else h_sample_rate h),
     h_input_precision := (if h_input_precision old \<noteq> 0 then h_input_precision old else h_input_precision h),
     h_output_precision := (if h_output_precision old \<noteq> 0 then h_output_precision old else h_output_precision h),
     h_channels := (if h_channels old \<noteq> 0 then h_channels old else h_channels h),
     h_storage := (if h_storage old \<noteq> STORAGE_NULL then h_storage old else h_storage h)\<rparr>"

definition fix_compressed :: "header \<Rightarrow> header" where
  "fix_compressed h =
     (if h_format h \<in> {G721, G723_3, G723_5} then h\<lparr>h_output_precision := 16\<rparr>
      else if h_format h = GSM
      then h\<lparr>h_output_precision := 16, h_input_precision := 165/100, h_byte_order := BIG_ENDIAN,
             h_channels := 1, h_offset := 0\<rparr>
      else h)"

definition valid_params :: "header \<Rightarrow> bool" where
  "valid_params h \<longleftrightarrow> h_format h \<noteq> FORMAT_NONE \<and> h_byte_order h \<noteq> ORDER_NONE \<and> h_sample_rate h \<noteq> 0
     \<and> h_input_precision h \<noteq> 0 \<and> h_output_precision h \<noteq> 0 \<and> h_channels h \<noteq> 0"

text \<open>Sizes and number of samples.\<close>

definition set_sizes :: "int \<Rightarrow> header \<Rightarrow> header" where
  "set_sizes chunk h =
     (let h1 = h\<lparr>h_input_sample_size := h_input_precision h / 8 * of_int (h_channels h),
               h_output_sample_size := h_output_precision h div 8 * h_channels h\<rparr>;
          h2 = (if chunk > 0 \<and> (h_size h1 = 0 \<or> chunk < h_size h1) then h1\<lparr>h_chunk_size := chunk\<rparr> else h1);
          h3 = (if h_chunk_size h2 \<noteq> 0 then h2\<lparr>h_tail := h_offset h2 + h_chunk_size h2\<rparr> else h2);
          h4 = (if h_chunk_size h3 = 0 \<and> h_size h3 \<noteq> 0
                then h3\<lparr>h_chunk_size := h_size h3 - h_offset h3\<rparr> else h3);
          h5 = (if h_type h4 \<noteq> INPUT_FILE \<or> h_needs_helper h4 \<noteq> 0
                then h4\<lparr>h_size := 0, h_samples := 0\<rparr>
                else h4\<lparr>h_samples := number_of_samples h4 0\<rparr>)
      in h5\<lparr>h_mapped := True\<rparr>)"

text \<open>What \<open>memcpy\<close> leaves in the buffer: the start of the data over what was there.\<close>

definition header_buffer :: "bytes \<Rightarrow> bytes \<Rightarrow> bytes" where
  "header_buffer data stale = take SOUND_MAX_HEADER_SIZE (data @ drop (length data) stale)"

text \<open>\<open>source\<close> is what \<open>sound_open\<close> and \<open>sound_fill\<close> give: \<open>None\<close> when they fail, otherwise
  the first bytes of the data (at least one) and the file size.\<close>

definition map_source :: "helper_info option \<Rightarrow> (bytes \<times> int) option \<Rightarrow> bytes \<Rightarrow> header \<Rightarrow> (bytes \<times> header) option" where
  "map_source helper source stale h =
     (if helper \<noteq> None
      then Some (header_buffer (bytes_of ''HELPER'' @ [0]) stale, h\<lparr>h_needs_helper := h_needs_helper h + 1\<rparr>)
      else if h_type h = INPUT_CDROM then Some (header_buffer (bytes_of ''CDROM'' @ [0]) stale, h)
      else (case source of
              None \<Rightarrow> None
            | Some (data, len) \<Rightarrow>
                Some (header_buffer data stale, if h_type h = INPUT_FILE then h\<lparr>h_size := len\<rparr> else h)))"

definition map_buffer :: "helper_info option \<Rightarrow> cstring \<Rightarrow> header \<Rightarrow> bytes \<Rightarrow> header \<Rightarrow> header_error + bool \<times> header" where
  "map_buffer helper path old buf h =
     bindE (parse_header helper path buf h) (\<lambda>(ok, h2, chunk).
       if \<not> ok then Inr (False, h2)
       else (let h3 = fix_compressed (keep_options old h2)
             in if valid_params h3 then Inr (True, set_sizes chunk h3) else Inr (False, h3)))"

text \<open>\<open>sound_map\<close> of a sound at \<open>path\<close>.  The result is \<open>True\<close> for 0.\<close>

definition sound_map :: "helper_info option \<Rightarrow> cstring \<Rightarrow> (bytes \<times> int) option \<Rightarrow> bytes \<Rightarrow> header
     \<Rightarrow> header_error + bool \<times> header" where
  "sound_map helper path source stale h =
     (if h_mapped h then Inr (True, h)
      else
        (case map_source helper source stale h of
           None \<Rightarrow> Inr (False, h)
         | Some (buf, h1) \<Rightarrow> map_buffer helper path h buf h1))"

text \<open>\<open>sound_unmap\<close> of the fields here.\<close>

definition unmap_header :: "header \<Rightarrow> header" where
  "unmap_header h = h\<lparr>h_mapped := False\<rparr>"


section \<open>Mapped sounds\<close>

text \<open>No parser touches the fields that are computed afterwards.\<close>

definition computed :: "header \<Rightarrow> input \<times> bool \<times> int \<times> int" where
  "computed h = (h_type h, h_mapped h, h_size h, h_needs_helper h)"

lemma computed_setters [simp]:
  "computed (precision i w h) = computed h" "computed (set_gsm h) = computed h"
  "computed (set_cdrom h) = computed h" "computed (set_8_bit f r h) = computed h"
  "computed (set_helper u h) = computed h" "computed (keep_options old h) = computed h"
  "computed (fix_compressed h) = computed h"
  "computed (h\<lparr>h_format := f\<rparr>) = computed h" "computed (h\<lparr>h_byte_order := b\<rparr>) = computed h"
  "computed (h\<lparr>h_sample_rate := r\<rparr>) = computed h" "computed (h\<lparr>h_channels := r\<rparr>) = computed h"
  "computed (h\<lparr>h_offset := r\<rparr>) = computed h"
  by (simp_all add: computed_def precision_def set_gsm_def set_cdrom_def set_8_bit_def set_helper_def
      keep_options_def fix_compressed_def)

lemma voc_scan_computed: "voc_scan buf p h = Inr (ok, q, h') \<Longrightarrow> computed h' = computed h"
proof (induction buf p h rule: voc_scan.induct)
  case (1 buf p h)
  then show ?case
    by (subst (asm) (2) voc_scan.simps) (auto simp: voc_data_16_def Let_def split: if_splits)
qed

lemma parse_header_computed:
  assumes "parse_header helper path buf h = Inr (ok, h', chunk)"
  shows "computed h' = computed h"
  using assms
  by (auto simp: parse_header_def ulaw_header_def aiff_header_def deadsnd_header_def wave_header_def
      voc_header_def no_header_def Let_def dest!: voc_scan_computed
      split: if_splits option.splits prod.splits)


lemma map_source_computed:
  assumes "map_source helper source stale h = Some (buf, h1)"
  shows "h_type h1 = h_type h \<and> h_mapped h1 = h_mapped h
    \<and> h_needs_helper h1 = h_needs_helper h + (if helper \<noteq> None then 1 else 0)"
  using assms by (auto simp: map_source_def split: if_splits option.splits)

lemma map_buffer_mapped:
  assumes "map_buffer helper path old buf h1 = Inr (True, h')"
  shows "\<exists>h2 chunk. h' = set_sizes chunk (fix_compressed (keep_options old h2))
    \<and> valid_params (fix_compressed (keep_options old h2)) \<and> computed h2 = computed h1"
  using assms by (auto simp: map_buffer_def Let_def split: if_splits prod.splits dest!: parse_header_computed)

lemma map_buffer_failed:
  assumes "map_buffer helper path old buf h1 = Inr (False, h')" 
  shows "h_mapped h' = h_mapped h1"
proof -
  have "computed h' = computed h1"
    using assms by (auto simp: map_buffer_def Let_def split: if_splits prod.splits dest!: parse_header_computed)
  then show ?thesis by (simp add: computed_def)
qed

lemma sound_map_mapped:
  assumes "sound_map helper path source stale h = Inr (True, h')" "\<not> h_mapped h"
  shows "\<exists>h2 chunk. h' = set_sizes chunk (fix_compressed (keep_options h h2))
    \<and> valid_params (fix_compressed (keep_options h h2)) \<and> h_type h2 = h_type h
    \<and> h_needs_helper h2 = h_needs_helper h + (if helper \<noteq> None then 1 else 0)"
proof -
  obtain buf h1 where s: "map_source helper source stale h = Some (buf, h1)" "map_buffer helper path h buf h1 = Inr (True, h')"
    using assms by (auto simp: sound_map_def split: option.splits)
  then show ?thesis
    using map_buffer_mapped [OF s(2)] map_source_computed [OF s(1)] unfolding computed_def by auto
qed

lemma sound_map_failed:
  assumes "sound_map helper path source stale h = Inr (False, h')" "\<not> h_mapped h"
  shows "\<not> h_mapped h'"
  using assms map_buffer_failed map_source_computed
  by (auto simp: sound_map_def split: option.splits)


text \<open>A mapped sound: its parameters are set, decompressed formats are 16 bits, and only a
  plain file has a size and a number of samples.\<close>

definition well_mapped :: "header \<Rightarrow> bool" where
  "well_mapped h \<longleftrightarrow> h_mapped h \<and> valid_params h
     \<and> (h_format h \<in> {G721, G723_3, G723_5, GSM} \<longrightarrow> h_output_precision h = 16)
     \<and> (h_format h = GSM \<longrightarrow> h_channels h = 1 \<and> h_offset h = 0)
     \<and> h_output_sample_size h = h_output_precision h div 8 * h_channels h
     \<and> h_input_sample_size h = h_input_precision h / 8 * of_int (h_channels h)
     \<and> (h_type h \<noteq> INPUT_FILE \<or> h_needs_helper h \<noteq> 0 \<longrightarrow> h_size h = 0 \<and> h_samples h = 0)"

lemma fix_compressed_fixed:
  "h_format (fix_compressed h) \<in> {G721, G723_3, G723_5, GSM} \<Longrightarrow> h_output_precision (fix_compressed h) = 16"
  "h_format (fix_compressed h) = GSM \<Longrightarrow> h_channels (fix_compressed h) = 1 \<and> h_offset (fix_compressed h) = 0"
  by (auto simp: fix_compressed_def split: if_splits)

lemma set_sizes_fields [simp]:
  "h_format (set_sizes c h) = h_format h" "h_byte_order (set_sizes c h) = h_byte_order h"
  "h_sample_rate (set_sizes c h) = h_sample_rate h" "h_input_precision (set_sizes c h) = h_input_precision h"
  "h_output_precision (set_sizes c h) = h_output_precision h" "h_channels (set_sizes c h) = h_channels h"
  "h_offset (set_sizes c h) = h_offset h" "h_storage (set_sizes c h) = h_storage h"
  "h_type (set_sizes c h) = h_type h" "h_needs_helper (set_sizes c h) = h_needs_helper h"
  "h_mapped (set_sizes c h)"
  "h_output_sample_size (set_sizes c h) = h_output_precision h div 8 * h_channels h"
  "h_input_sample_size (set_sizes c h) = h_input_precision h / 8 * of_int (h_channels h)"
  by (simp_all add: set_sizes_def Let_def)

lemma set_sizes_no_size:
  "h_type h \<noteq> INPUT_FILE \<or> h_needs_helper h \<noteq> 0 \<Longrightarrow> h_size (set_sizes c h) = 0 \<and> h_samples (set_sizes c h) = 0"
  by (auto simp: set_sizes_def Let_def)

lemma valid_set_sizes [simp]: "valid_params (set_sizes c h) = valid_params h"
  by (simp add: valid_params_def)

text \<open>C14.  \<open>sound_map\<close> leaves a sound mapped exactly when it succeeds, and a sound it has
  mapped is well formed, whatever the bytes of the file, the helper table and the
  options say: no parameter is missing, compressed data is played as 16 bits, and only
  a plain file has a size.\<close>

theorem sound_map_type:
  assumes "sound_map helper path source stale h = Inr (ok, h')" "\<not> h_mapped h"
  shows "h_mapped h' = ok \<and> (ok \<longrightarrow> well_mapped h' \<and> h_type h' = h_type h)"
proof (cases ok)
  case True
  then have m: "sound_map helper path source stale h = Inr (True, h')" using assms(1) by simp
  obtain h2 chunk where h: "h' = set_sizes chunk (fix_compressed (keep_options h h2))"
    "valid_params (fix_compressed (keep_options h h2))" "h_type h2 = h_type h"
    using sound_map_mapped [OF m assms(2)] by blast
  let ?f = "fix_compressed (keep_options h h2)"
  have "well_mapped h'"
    unfolding well_mapped_def h(1) using h(2) fix_compressed_fixed [of "keep_options h h2"] set_sizes_no_size [of ?f chunk]
    by simp
  moreover have "h_type ?f = h_type h" using h(3) by (simp add: fix_compressed_def keep_options_def)
  ultimately show ?thesis using True h(1) by (simp add: well_mapped_def)
next
  case False
  then have "sound_map helper path source stale h = Inr (False, h')" using assms(1) by simp
  then show ?thesis using sound_map_failed [OF _ assms(2)] False by simp
qed

theorem sound_map_type_witness:
  "well_mapped (snd (projr (sound_map None (bytes_of ''a.au'') (Some ([1, 2, 3], 3)) [] (new_header INPUT_FILE))))"
proof -
  obtain h' where h: "sound_map None (bytes_of ''a.au'') (Some ([1, 2, 3], 3)) [] (new_header INPUT_FILE) = Inr (True, h')"
    by (simp add: sound_map_def map_source_def map_buffer_def header_buffer_def parse_header_def bytes_of_def
        no_header_def new_header_def extension_def voc_magic_def set_8_bit_def keep_options_def fix_compressed_def
        valid_params_def)
  then show ?thesis using sound_map_type [OF h] by (simp add: new_header_def)
qed

text \<open>Mapping a sound again after \<open>sound_unmap\<close> does not read the file's parameters:
  the values of the first mapping count as options, so when the file has changed its
  new format, rate, precision, channels and byte order are ignored.\<close>

theorem remap_ignores_header:
  assumes "sound_map helper path source stale h = Inr (True, h1)" "\<not> h_mapped h"
    and "sound_map helper2 path source2 stale2 (unmap_header h1) = Inr (True, h2)"
  shows "h_format h2 = h_format h1 \<and> h_byte_order h2 = h_byte_order h1 \<and> h_sample_rate h2 = h_sample_rate h1
    \<and> h_input_precision h2 = h_input_precision h1 \<and> h_output_precision h2 = h_output_precision h1
    \<and> h_channels h2 = h_channels h1 \<and> (h_offset h1 \<noteq> 0 \<longrightarrow> h_offset h2 = h_offset h1)"
proof -
  obtain x c where x: "h2 = set_sizes c (fix_compressed (keep_options (unmap_header h1) x))"
    using sound_map_mapped [OF assms(3)] by (auto simp: unmap_header_def)
  obtain y d where y: "h1 = set_sizes d (fix_compressed (keep_options h y))"
    "valid_params (fix_compressed (keep_options h y))"
    using sound_map_mapped [OF assms(1,2)] by blast
  let ?u = "unmap_header h1"
  have v: "valid_params h1" using y by simp
  have k: "h_format (keep_options ?u x) = h_format h1" "h_byte_order (keep_options ?u x) = h_byte_order h1"
    "h_sample_rate (keep_options ?u x) = h_sample_rate h1" "h_input_precision (keep_options ?u x) = h_input_precision h1"
    "h_output_precision (keep_options ?u x) = h_output_precision h1" "h_channels (keep_options ?u x) = h_channels h1"
    "h_offset h1 \<noteq> 0 \<Longrightarrow> h_offset (keep_options ?u x) = h_offset h1"
    using v by (simp_all add: keep_options_def unmap_header_def valid_params_def)
  have f: "h_format h1 \<in> {G721, G723_3, G723_5, GSM} \<Longrightarrow> h_output_precision h1 = 16"
    "h_format h1 = GSM \<Longrightarrow> h_channels h1 = 1 \<and> h_offset h1 = 0 \<and> h_input_precision h1 = 165/100 \<and> h_byte_order h1 = BIG_ENDIAN"
    unfolding y(1) by (auto simp: fix_compressed_def split: if_splits)
  show ?thesis unfolding x using k f by (auto simp: fix_compressed_def)
qed


section \<open>Chunks\<close>

text \<open>A chunk of a RIFF file with its pad byte, and a list of chunks the scan skips.\<close>

definition riff_chunk :: "bytes \<times> bytes \<Rightarrow> bytes" where
  "riff_chunk c = fst c @ little32 (int (length (snd c))) @ snd c @ (if odd (length (snd c)) then [0] else [])"

definition skipped :: "bytes set \<Rightarrow> bytes \<times> bytes \<Rightarrow> bool" where
  "skipped ids c \<longleftrightarrow> length (fst c) = 4 \<and> fst c \<notin> ids \<and> length (snd c) < 2 ^ 32"

definition wave_ids :: "bytes set" where
  "wave_ids = {bytes_of ''fmt '', bytes_of ''data''}"

lemma drop_prefix: "drop (length xs + n) (xs @ ys) = drop n ys"
  by simp

text \<open>One round of the scan, by the kind of the chunk at \<open>p\<close>.\<close>

lemma wave_step_skip:
  assumes "take 4 (drop p buf) = name" "name \<notin> wave_ids" "little_long (drop (p + 4) buf) = n" "p + 8 \<le> length buf"
  shows "wave_scan buf p ch b r = wave_scan buf (p + 8 + nat n + (if n mod 2 = 1 then 1 else 0)) ch b r"
  using assms by (subst wave_scan.simps) (auto simp: wave_ids_def Let_def)

lemma wave_step_fmt:
  assumes "take 4 (drop p buf) = bytes_of ''fmt ''" "little_long (drop (p + 4) buf) = n" "p + 24 \<le> length buf"
    "little_short (drop (p + 8) buf) = 1" "little_short (drop (p + 10) buf) = channels"
    "little_long (drop (p + 12) buf) = rate" "little_short (drop (p + 22) buf) = bits"
  shows "wave_scan buf p ch b r = wave_scan buf (p + 8 + nat n) channels bits rate"
  using assms by (subst wave_scan.simps) (simp add: Let_def add.commute)

lemma wave_step_data:
  assumes "take 4 (drop p buf) = bytes_of ''data''" "little_long (drop (p + 4) buf) = n" "p + 8 \<le> length buf"
  shows "wave_scan buf p ch b r = Inr (Some (p + 8, ch, b, r, to_int n))"
  using assms by (subst wave_scan.simps) (simp add: Let_def bytes_of_def)

lemma wave_scan_skip:
  assumes "skipped wave_ids c"
  shows "wave_scan (pre @ riff_chunk c @ rest) (length pre) ch b r
    = wave_scan (pre @ riff_chunk c @ rest) (length (pre @ riff_chunk c)) ch b r"
proof -
  let ?n = "int (length (snd c))"
  let ?buf = "pre @ riff_chunk c @ rest"
  have l: "length (fst c) = 4" "fst c \<notin> wave_ids" "length (snd c) < 2 ^ 32" using assms by (auto simp: skipped_def)
  have id: "take 4 (drop (length pre) ?buf) = fst c" using l by (simp add: riff_chunk_def)
  have "drop (length pre + 4) ?buf = little32 ?n @ snd c @ (if odd (length (snd c)) then [0] else []) @ rest"
    unfolding drop_prefix using l by (simp add: riff_chunk_def)
  then have n: "little_long (drop (length pre + 4) ?buf) = ?n" using l by (simp add: little_big_read)
  have len: "length (riff_chunk c) = 8 + length (snd c) + (if odd (length (snd c)) then 1 else 0)"
    using l by (simp add: riff_chunk_def little_big_lengths)
  have "(?n mod 2 = 1) = odd (length (snd c))" by presburger
  then show ?thesis
    using wave_step_skip [OF id l(2) n, of ch b r] len by (simp add: ac_simps)
qed

lemma wave_scan_skips:
  "list_all (skipped wave_ids) cs \<Longrightarrow>
   wave_scan (pre @ concat (map riff_chunk cs) @ rest) (length pre) ch b r
    = wave_scan (pre @ concat (map riff_chunk cs) @ rest) (length (pre @ concat (map riff_chunk cs))) ch b r"
proof (induction cs arbitrary: pre)
  case (Cons c cs)
  then show ?case
    using wave_scan_skip [of c pre "concat (map riff_chunk cs) @ rest" ch b r] Cons.IH [of "pre @ riff_chunk c"]
    by simp
qed simp

text \<open>A WAVE file up to its samples: chunks, the format (with any extension of even
  length), chunks, the head of the data chunk.\<close>

definition fmt_chunk :: "int \<Rightarrow> int \<Rightarrow> int \<Rightarrow> bytes \<Rightarrow> bytes" where
  "fmt_chunk channels rate bits ext = bytes_of ''fmt '' @ little32 (16 + int (length ext))
     @ little16 1 @ little16 channels @ little32 rate @ little32 (rate * channels * (bits div 8))
     @ little16 (channels * (bits div 8)) @ little16 bits @ ext"

definition wave_file :: "(bytes \<times> bytes) list \<Rightarrow> int \<Rightarrow> int \<Rightarrow> int \<Rightarrow> bytes \<Rightarrow> (bytes \<times> bytes) list \<Rightarrow> int \<Rightarrow> int \<Rightarrow> bytes" where
  "wave_file before channels rate bits ext between riff_size n =
     bytes_of ''RIFF'' @ little32 riff_size @ bytes_of ''WAVE'' @ concat (map riff_chunk before)
     @ fmt_chunk channels rate bits ext @ concat (map riff_chunk between) @ bytes_of ''data'' @ little32 n"

lemma wave_scan_fmt:
  assumes "0 \<le> channels" "channels < 2 ^ 16" "0 \<le> rate" "rate < 2 ^ 32" "0 \<le> bits" "bits < 2 ^ 16" "length ext < 2 ^ 31"
  shows "wave_scan (pre @ fmt_chunk channels rate bits ext @ rest) (length pre) ch b r
    = wave_scan (pre @ fmt_chunk channels rate bits ext @ rest)
        (length (pre @ fmt_chunk channels rate bits ext)) channels bits rate"
proof -
  let ?c = "fmt_chunk channels rate bits ext"
  let ?buf = "pre @ ?c @ rest"
  note parts = fmt_chunk_def bytes_of_def little_big_lengths
  have len: "length ?c = 24 + length ext" by (simp add: parts)
  have "wave_scan ?buf (length pre) ch b r = wave_scan ?buf (length pre + 8 + nat (16 + int (length ext))) channels bits rate"
  proof (rule wave_step_fmt)
    show "take 4 (drop (length pre) ?buf) = bytes_of ''fmt ''" by (simp add: parts)
    have "drop (length pre + 4) ?buf = little32 (16 + int (length ext)) @ drop 8 ?c @ rest"
      unfolding drop_prefix by (simp add: parts)
    then show "little_long (drop (length pre + 4) ?buf) = 16 + int (length ext)"
      using assms(7) by (simp only: little_big_read) simp
    have "drop (length pre + 8) ?buf = little16 1 @ drop 10 ?c @ rest" unfolding drop_prefix by (simp add: parts)
    then show "little_short (drop (length pre + 8) ?buf) = 1" by (simp only: little_big_read) simp
    have "drop (length pre + 10) ?buf = little16 channels @ drop 12 ?c @ rest" unfolding drop_prefix by (simp add: parts)
    then show "little_short (drop (length pre + 10) ?buf) = channels" using assms by (simp only: little_big_read) simp
    have "drop (length pre + 12) ?buf = little32 rate @ drop 16 ?c @ rest" unfolding drop_prefix by (simp add: parts)
    then show "little_long (drop (length pre + 12) ?buf) = rate" using assms by (simp only: little_big_read) simp
    have "drop (length pre + 22) ?buf = little16 bits @ drop 24 ?c @ rest" unfolding drop_prefix by (simp add: parts)
    then show "little_short (drop (length pre + 22) ?buf) = bits" using assms by (simp only: little_big_read) simp
    show "length pre + 24 \<le> length ?buf" using len by simp
  qed
  then show ?thesis using len by (simp add: nat_add_distrib ac_simps)
qed

lemma wave_scan_data:
  assumes "0 \<le> n" "n < 2 ^ 32"
  shows "wave_scan (pre @ bytes_of ''data'' @ little32 n @ rest) (length pre) ch b r
    = Inr (Some (length pre + 8, ch, b, r, to_int n))"
proof (rule wave_step_data)
  let ?buf = "pre @ bytes_of ''data'' @ little32 n @ rest"
  show "take 4 (drop (length pre) ?buf) = bytes_of ''data''" by (simp add: bytes_of_def)
  have "drop (length pre + 4) ?buf = little32 n @ rest" unfolding drop_prefix by (simp add: bytes_of_def)
  then show "little_long (drop (length pre + 4) ?buf) = n" using assms by (simp only: little_big_read) simp
  show "length pre + 8 \<le> length ?buf" by (simp add: bytes_of_def little_big_lengths)
qed


lemma wave_scan_file:
  assumes "list_all (skipped wave_ids) before" "list_all (skipped wave_ids) between"
    "0 \<le> channels" "channels < 2 ^ 16" "0 \<le> rate" "rate < 2 ^ 32" "0 \<le> bits" "bits < 2 ^ 16" "length ext < 2 ^ 31"
    "0 \<le> n" "n < 2 ^ 32" and file_def: "file = wave_file before channels rate bits ext between riff_size n"
  shows "wave_scan (file @ rest) 12 0 0 0 = Inr (Some (length file, channels, bits, rate, to_int n))"
proof -
  let ?h = "bytes_of ''RIFF'' @ little32 riff_size @ bytes_of ''WAVE''"
  let ?b = "concat (map riff_chunk before)" and ?f = "fmt_chunk channels rate bits ext"
  let ?m = "concat (map riff_chunk between)" and ?d = "bytes_of ''data'' @ little32 n"
  have h: "length ?h = 12" by (simp add: bytes_of_def little_big_lengths)
  have e: "file @ rest = ?h @ ?b @ (?f @ ?m @ ?d @ rest)" "file @ rest = (?h @ ?b) @ ?f @ (?m @ ?d @ rest)"
    "file @ rest = (?h @ ?b @ ?f) @ ?m @ (?d @ rest)" "file @ rest = (?h @ ?b @ ?f @ ?m) @ bytes_of ''data'' @ little32 n @ rest"
    by (simp_all add: file_def wave_file_def)
  have len: "length file = length (?h @ ?b @ ?f @ ?m) + 8" by (simp add: file_def wave_file_def bytes_of_def little_big_lengths)
  have "wave_scan (file @ rest) 12 0 0 0 = wave_scan (file @ rest) (length (?h @ ?b)) 0 0 0"
    using wave_scan_skips [OF assms(1), of ?h "?f @ ?m @ ?d @ rest" 0 0 0] h unfolding e(1) by simp
  also have "\<dots> = wave_scan (file @ rest) (length (?h @ ?b @ ?f)) channels bits rate"
    using wave_scan_fmt [OF assms(3-9), of "?h @ ?b" "?m @ ?d @ rest" 0 0 0] unfolding e(2) by simp
  also have "\<dots> = wave_scan (file @ rest) (length (?h @ ?b @ ?f @ ?m)) channels bits rate"
    using wave_scan_skips [OF assms(2), of "?h @ ?b @ ?f" "?d @ rest" channels bits rate] unfolding e(3) by simp
  also have "\<dots> = Inr (Some (length (?h @ ?b @ ?f @ ?m) + 8, channels, bits, rate, to_int n))"
    unfolding e(4) by (rule wave_scan_data [OF assms(10,11)])
  finally show ?thesis using len by simp
qed

lemma header_buffer_prefix:
  assumes "length file \<le> 1024"
  shows "\<exists>rest. header_buffer (file @ samples) stale = file @ rest"
  using assms by (auto simp: header_buffer_def)

lemma to_int_small: "- (2 ^ 31) \<le> n \<Longrightarrow> n < 2 ^ 31 \<Longrightarrow> to_int n = n"
  unfolding to_int_def
  by (rule signed_take_bit_int_eq_self [THEN trans [OF sint_sbintrunc']]) simp_all

text \<open>Below 16 megabytes the number of samples is exact.\<close>

lemma number_of_samples_exact:
  assumes "h_input_precision h = of_int bits" "bits = 8 \<or> bits = 16" "0 < h_channels h" "h_channels h < 2 ^ 16"
    "0 < n" "n < 2 ^ 24" "(if bytes = 0 then bytes_in_sound h else bytes) = n"
  shows "number_of_samples h bytes = n * 8 div (bits * h_channels h)"
proof -
  obtain k where k: "bits = 8 * k" "k = 1 \<or> k = 2" using assms(2) by (cases "bits = 8") auto
  have d: "0 < k * h_channels h" using k assms(3) by auto
  have num: "single (of_int (to_int (8 * n))) = of_int (8 * n)"
    using single_exact [of n 3] assms(5,6) by (simp add: to_int_small mult.commute)
  have den: "single (single (of_int bits) * single (of_int (h_channels h))) = of_int (8 * (k * h_channels h))"
    using single_int [of bits] single_int [of "h_channels h"] single_int [of "bits * h_channels h"] k assms(3,4) by auto
  have q: "(of_int (8 * n) :: rat) / of_int (8 * (k * h_channels h)) = of_int n / of_int (k * h_channels h)" by simp
  have f: "floor (single (of_int n / of_int (k * h_channels h))) = n div (k * h_channels h)"
    by (rule floor_single_quotient) (use assms(5,6) d in auto)
  have "0 \<le> n div (k * h_channels h)" using assms(5) d by (simp add: pos_imp_zdiv_nonneg_iff)
  then have "\<not> single (of_int n / of_int (k * h_channels h)) < 0" using f by (metis floor_less_zero linorder_not_less)
  then have "number_of_samples h bytes = n div (k * h_channels h)"
    unfolding number_of_samples_def assms(1,7) num den q trunc_def f by (simp only: if_False)
  also have "\<dots> = n * 8 div (bits * h_channels h)"
    unfolding k(1) using d by (simp add: mult.assoc mult.commute [of n 8])
  finally show ?thesis .
qed

text \<open>A mono sound of 8 bits with one byte more is a sample short, and one of 256 megabytes has a
  negative number of samples.\<close>

definition big_sound :: "int \<Rightarrow> header" where
  "big_sound n = (new_header INPUT_FILE)\<lparr>h_input_precision := 8, h_channels := 1, h_chunk_size := n\<rparr>"

lemma big_sounds_miscount:
  "number_of_samples (big_sound (2 ^ 24 + 1)) 0 = 2 ^ 24" "number_of_samples (big_sound (2 ^ 28)) 0 = - (2 ^ 28)"
  by code_simp+



lemma header_buffer_length: "length stale = 1024 \<Longrightarrow> length (header_buffer data stale) = 1024"
  by (simp add: header_buffer_def)

text \<open>A chunk to skip whose end lies near the end of the buffer.\<close>

lemma wave_scan_overruns:
  assumes "length pre = 12" "length name = 4" "name \<notin> wave_ids" "997 \<le> n" "n < 2 ^ 32"
    "buf = pre @ name @ little32 n @ rest" "length buf = 1024"
  shows "wave_scan buf 12 ch b r = Inl Outside"
proof -
  have id: "take 4 (drop 12 buf) = name" using assms by simp
  have "drop (12 + 4) buf = little32 n @ rest" using assms by simp
  then have n: "little_long (drop (12 + 4) buf) = n" using assms by (simp only: little_big_read) simp
  have "wave_scan buf (12 + 8 + nat n + (if n mod 2 = 1 then 1 else 0)) ch b r = Inl Outside"
    using assms(4,7) by (subst wave_scan.simps) auto
  then show ?thesis using wave_step_skip [OF id assms(3) n, of ch b r] assms(7) by simp
qed

lemma aiff_scan_overruns:
  assumes "length pre = 12" "length name = 4" "name \<notin> {bytes_of ''COMM'', bytes_of ''SSND''}" "997 \<le> n" "n < 2 ^ 32"
    "buf = pre @ name @ big32 n @ rest" "length buf = 1024"
  shows "aiff_scan buf 12 ch b r = Inl Outside"
proof -
  have id: "take 4 (drop 12 buf) = name" using assms by simp
  have "drop (12 + 4) buf = big32 n @ rest" using assms by simp
  then have n: "big_long (drop (12 + 4) buf) = n" using assms by (simp only: little_big_read) simp
  have "aiff_scan buf (12 + 8 + nat n + (if n mod 2 = 1 then 1 else 0)) ch b r = Inl Outside"
    using assms(4,7) by (subst aiff_scan.simps) auto
  then show ?thesis using assms(3,7) id n by (subst aiff_scan.simps) (auto simp: Let_def)
qed

text \<open>The scan of the chunks trusts their sizes: a WAVE or AIFF file whose first chunk is
  unknown and longer than 996 bytes (a list of tags, say) makes \<open>sound_map\<close> read outside
  its header buffer.\<close>

theorem long_chunk_overruns:
  assumes "length name = 4" "name \<notin> wave_ids \<union> {bytes_of ''COMM'', bytes_of ''SSND''}" "997 \<le> n" "n < 2 ^ 32"
    "length stale = SOUND_MAX_HEADER_SIZE" "\<not> h_mapped h" "h_type h = INPUT_FILE" "length rest \<le> 1000"
  shows "sound_map None path (Some (bytes_of ''RIFF'' @ little32 k @ bytes_of ''WAVE'' @ name @ little32 n @ rest, len)) stale h
      = Inl Outside
    \<and> sound_map None path (Some (bytes_of ''FORM'' @ big32 k @ bytes_of ''AIFF'' @ name @ big32 n @ rest, len)) stale h
      = Inl Outside"
proof -
  let ?t = "rest @ drop (20 + length rest) stale"
  let ?w = "(bytes_of ''RIFF'' @ little32 k @ bytes_of ''WAVE'') @ name @ little32 n @ ?t"
  let ?a = "(bytes_of ''FORM'' @ big32 k @ bytes_of ''AIFF'') @ name @ big32 n @ ?t"
  have b: "header_buffer (bytes_of ''RIFF'' @ little32 k @ bytes_of ''WAVE'' @ name @ little32 n @ rest) stale = ?w"
    "header_buffer (bytes_of ''FORM'' @ big32 k @ bytes_of ''AIFF'' @ name @ big32 n @ rest) stale = ?a"
    using assms(1,5,8) by (simp_all add: header_buffer_def bytes_of_def little_big_lengths)
  have l: "length ?w = 1024" "length ?a = 1024"
    using assms(1,5,8) by (simp_all add: bytes_of_def little_big_lengths)
  have w: "wave_scan ?w 12 0 0 0 = Inl Outside"
    by (rule wave_scan_overruns [OF _ assms(1) _ assms(3,4) refl l(1)]) (use assms(2) in \<open>simp_all add: bytes_of_def little_big_lengths\<close>)
  have a: "aiff_scan ?a 12 0 0 (Finite 0) = Inl Outside"
    by (rule aiff_scan_overruns [OF _ assms(1) _ assms(3,4) refl l(2)]) (use assms(2) in \<open>simp_all add: bytes_of_def little_big_lengths\<close>)
  have "parse_header None path ?w g = Inl Outside" "parse_header None path ?a g = Inl Outside" for g
    using w a by (simp_all add: parse_header_def wave_header_def aiff_header_def bytes_of_def little_big_lengths)
  then show ?thesis
    using assms(6,7) b by (simp add: sound_map_def map_source_def map_buffer_def)
qed


theorem long_chunk_overruns_witness:
  "sound_map None (bytes_of ''t.wav'')
     (Some (bytes_of ''RIFF'' @ little32 2000 @ bytes_of ''WAVE'' @ bytes_of ''LIST'' @ little32 1200 @ [1, 2], 5000))
     (replicate 1024 0) (new_header INPUT_FILE) = Inl Outside"
  using long_chunk_overruns [of "bytes_of ''LIST''" 1200 "replicate 1024 0" "new_header INPUT_FILE" "[1, 2]"
      "bytes_of ''t.wav''" 2000 5000]
  by (simp add: bytes_of_def wave_ids_def new_header_def)



text \<open>A file without header that is replaced by one with a header of 44100 samples per second.\<close>

definition replaced_file :: bytes where
  "replaced_file = bytes_of ''.snd'' @ big32 24 @ big32 100 @ big32 3 @ big32 44100 @ big32 2"

theorem remap_ignores_header_witness:
  "\<exists>h1 h2. sound_map None (bytes_of ''a.au'') (Some ([1, 2, 3], 3)) [] (new_header INPUT_FILE) = Inr (True, h1)
    \<and> sound_map None (bytes_of ''a.au'') (Some (replaced_file, 124)) [] (unmap_header h1) = Inr (True, h2)
    \<and> h_sample_rate h2 = 8000 \<and> h_format h2 = ULAW"
proof -
  let ?h1 = "snd (projr (sound_map None (bytes_of ''a.au'') (Some ([1, 2, 3], 3)) [] (new_header INPUT_FILE)))"
  let ?m2 = "sound_map None (bytes_of ''a.au'') (Some (replaced_file, 124)) [] (unmap_header ?h1)"
  have one: "sound_map None (bytes_of ''a.au'') (Some ([1, 2, 3], 3)) [] (new_header INPUT_FILE) = Inr (True, ?h1)"
    by code_simp
  have two: "?m2 = Inr (True, snd (projr ?m2))" by code_simp
  have f: "h_sample_rate ?h1 = 8000 \<and> h_format ?h1 = ULAW" by code_simp
  show ?thesis
    using one two f remap_ignores_header [OF one _ two] by (intro exI conjI) (assumption | simp add: new_header_def)+
qed

end
