(* ===== verification/SoundTable.thy ===== *)
theory SoundTable
  imports Spool Header
begin

text \<open>
  The table of sounds (\<open>src/rplayd/sound.c\<close>, \<open>xhash.c\<close>): sounds with the same key (the
  name without directory and extension) form a doubly linked list (\<open>next\<close>, \<open>prev\<close>)
  whose first element is in the hash table and in the doubly linked list of all first
  elements (\<open>list\<close>, \<open>list_prev\<close>).  The pointers are addresses in a store; a freed
  address is not in the store and using it is an error.  The hash table is a map.
\<close>

section \<open>The store\<close>

datatype table_crash = Dangling | Cycle

record sound_node =
  nd_path :: cstring
  nd_name :: cstring
  nd_key :: cstring
  nd_status :: sound_status
  nd_count :: int
  nd_info :: header
  nd_cached :: bool
  nd_next :: "nat option"
  nd_prev :: "nat option"
  nd_list :: "nat option"
  nd_list_prev :: "nat option"

record table =
  tb_heap :: "nat \<Rightarrow> sound_node option"
  tb_hash :: "cstring \<Rightarrow> nat option"
  tb_sounds :: "nat option"
  tb_count :: int                       \<comment> \<open>sound_count\<close>
  tb_cache_size :: int
  tb_fresh :: nat
  tb_unlinked :: "cstring list"         \<comment> \<open>files given to unlink\<close>

type_synonym 'a table_result = "table_crash + 'a"

definition get :: "nat \<Rightarrow> table \<Rightarrow> sound_node table_result" where
  "get a t = (case tb_heap t a of None \<Rightarrow> Inl Dangling | Some n \<Rightarrow> Inr n)"

definition put :: "(sound_node \<Rightarrow> sound_node) \<Rightarrow> nat \<Rightarrow> table \<Rightarrow> table table_result" where
  "put f a t = bindE (get a t) (\<lambda>n. Inr (t\<lparr>tb_heap := (tb_heap t)(a := Some (f n))\<rparr>))"

text \<open>A write through a pointer that may be NULL, in which case something else is done.\<close>

definition put_or :: "(table \<Rightarrow> table) \<Rightarrow> (sound_node \<Rightarrow> sound_node) \<Rightarrow> nat option \<Rightarrow> table \<Rightarrow> table table_result" where
  "put_or g f p t = (case p of None \<Rightarrow> Inr (g t) | Some a \<Rightarrow> put f a t)"

section \<open>Keys\<close>

definition base_name :: "cstring \<Rightarrow> cstring" where
  "base_name path =
     (case path of c # _ \<Rightarrow> if c = 47 then rev (takeWhile (\<lambda>b. b \<noteq> 47) (rev path)) else path | [] \<Rightarrow> path)"

definition strip_extension :: "cstring \<Rightarrow> cstring" where
  "strip_extension name =
     (if 46 \<in> set name then rev (tl (dropWhile (\<lambda>b. b \<noteq> 46) (rev name))) else name)"

text \<open>\<open>xhash_name\<close>; paths are shorter than \<open>MAXPATHLEN\<close>.\<close>

definition xhash_name :: "cstring \<Rightarrow> cstring" where
  "xhash_name path = strip_extension (base_name path)"

section \<open>Insertion and lookup\<close>

text \<open>The walk along \<open>next\<close> to the first node with a property: the node and the one before
  it.  At most \<open>tb_fresh\<close> nodes exist; more steps mean a cycle.\<close>

fun find_in_chain :: "nat \<Rightarrow> table \<Rightarrow> (sound_node \<Rightarrow> bool) \<Rightarrow> nat option \<Rightarrow> nat option
     \<Rightarrow> (nat option \<times> nat option) table_result" where
  "find_in_chain n t P prv None = Inr (None, prv)"
| "find_in_chain 0 t P prv (Some a) = Inl Cycle"
| "find_in_chain (Suc n) t P prv (Some a) =
     bindE (get a t) (\<lambda>nd. if P nd then Inr (Some a, prv) else find_in_chain n t P (Some a) (nd_next nd))"

definition new_node :: "cstring \<Rightarrow> sound_status \<Rightarrow> input \<Rightarrow> sound_node" where
  "new_node path status typ = \<lparr>nd_path = path, nd_name = base_name path, nd_key = xhash_name path,
     nd_status = status, nd_count = 0, nd_info = new_header typ, nd_cached = False,
     nd_next = None, nd_prev = None, nd_list = None, nd_list_prev = None\<rparr>"

text \<open>\<open>bad\<close> is \<open>bad_dir\<close> of the path; the result \<open>None\<close> is NULL.\<close>

definition sound_insert :: "bool \<Rightarrow> cstring \<Rightarrow> sound_status \<Rightarrow> input \<Rightarrow> table
     \<Rightarrow> (nat option \<times> table) table_result" where
  "sound_insert bad path status typ t =
     (if bad then Inr (None, t)
      else
        (let a = tb_fresh t;
             s = new_node path status typ;
             t1 = t\<lparr>tb_fresh := Suc a\<rparr>
         in case tb_hash t (xhash_name path) of
              None \<Rightarrow>
                bindE (put_or (\<lambda>t. t) (\<lambda>n. n\<lparr>nd_list_prev := Some a\<rparr>) (tb_sounds t)
                  (t1\<lparr>tb_heap := (tb_heap t1)(a := Some (s\<lparr>nd_list := tb_sounds t\<rparr>)),
                      tb_hash := (tb_hash t1)(xhash_name path := Some a)\<rparr>)) (\<lambda>t2.
                Inr (Some a, t2\<lparr>tb_sounds := Some a\<rparr>))
            | Some h \<Rightarrow>
                bindE (find_in_chain (tb_fresh t) t (\<lambda>n. nd_path n = path) None (Some h)) (\<lambda>(found, last).
                  case found of
                    Some b \<Rightarrow> Inr (Some b, t)
                  | None \<Rightarrow>
                      bindE (put_or (\<lambda>t. t) (\<lambda>n. n\<lparr>nd_next := Some a\<rparr>) last
                        (t1\<lparr>tb_heap := (tb_heap t1)(a := Some (s\<lparr>nd_prev := last\<rparr>))\<rparr>)) (\<lambda>t2.
                      Inr (Some a, t2)))))"

datatype lookup_mode = SOUND_FIND | SOUND_DONT_FIND | SOUND_DONT_COUNT | SOUND_LOAD | SOUND_CREATE

text \<open>What a lookup depends on: files that exist, \<open>bad_dir\<close>, the names of the CD drives,
  whether there is a server to ask, the cache directory, and \<open>sound_map\<close>.\<close>

record lookup_env =
  lk_exists :: "cstring \<Rightarrow> bool"
  lk_bad :: "cstring \<Rightarrow> bool"
  lk_cdroms :: "cstring list"
  lk_server :: bool
  lk_cache_dir :: cstring
  lk_map :: "nat \<Rightarrow> table \<Rightarrow> bool \<times> table"

definition cache_name :: "lookup_env \<Rightarrow> cstring \<Rightarrow> cstring" where
  "cache_name ev name = lk_cache_dir ev @ [47] @ name"

definition is_path :: "cstring \<Rightarrow> bool" where
  "is_path name \<longleftrightarrow> (case name of c # _ \<Rightarrow> c = 47 | [] \<Rightarrow> False)"

text \<open>The hash table entry, the one of a CD drive first.\<close>

definition hash_entry :: "lookup_env \<Rightarrow> cstring \<Rightarrow> table \<Rightarrow> nat option" where
  "hash_entry ev name t =
     (case find (\<lambda>cd. take (length cd) name = cd) (lk_cdroms ev) of
        Some cd \<Rightarrow> (case tb_hash t (xhash_name cd) of
                      Some a \<Rightarrow> Some a
                    | None \<Rightarrow> tb_hash t (xhash_name name))
      | None \<Rightarrow> tb_hash t (xhash_name name))"

text \<open>The sound of a lookup before it is counted and mapped; the flag tells that a server
  connection is opened for it.\<close>

definition lookup_sound :: "lookup_env \<Rightarrow> cstring \<Rightarrow> lookup_mode \<Rightarrow> table
     \<Rightarrow> (nat option \<times> bool \<times> table) table_result" where
  "lookup_sound ev name mode t =
     (case hash_entry ev name t of
        None \<Rightarrow>
          if mode = SOUND_DONT_FIND \<or> mode = SOUND_DONT_COUNT then Inr (None, False, t)
          else if lk_exists ev name then
            bindE (sound_insert (lk_bad ev name) name SOUND_READY INPUT_FILE t) (\<lambda>(s, t1). Inr (s, False, t1))
          else if mode = SOUND_FIND \<and> \<not> is_path name \<and> lk_server ev then
            bindE (sound_insert (lk_bad ev (cache_name ev name)) (cache_name ev name) SOUND_SEARCH INPUT_FILE t)
              (\<lambda>(s, t1). Inr (s, s \<noteq> None, t1))
          else Inr (None, False, t)
      | Some h \<Rightarrow>
          bindE (find_in_chain (tb_fresh t) t
                   (\<lambda>n. if is_path name then nd_path n = name
                        else 46 \<in> set name \<longrightarrow> nd_name n = name) None (Some h)) (\<lambda>(found, last).
            case found of
              Some a \<Rightarrow> Inr (Some a, False, t)
            | None \<Rightarrow>
                if is_path name \<and> lk_exists ev name then
                  bindE (sound_insert (lk_bad ev name) name SOUND_READY INPUT_FILE t) (\<lambda>(s, t1). Inr (s, False, t1))
                else Inr (None, False, t)))"

definition sound_lookup :: "lookup_env \<Rightarrow> cstring \<Rightarrow> lookup_mode \<Rightarrow> table
     \<Rightarrow> (nat option \<times> bool \<times> table) table_result" where
  "sound_lookup ev name mode t =
     bindE (lookup_sound ev name mode t) (\<lambda>(s, search, t1).
       case s of
         None \<Rightarrow> Inr (None, False, t1)
       | Some a \<Rightarrow>
           if mode = SOUND_DONT_COUNT then Inr (Some a, search, t1)
           else
             bindE (put (\<lambda>n. n\<lparr>nd_count := tb_count t1 + 1\<rparr>) a (t1\<lparr>tb_count := tb_count t1 + 1\<rparr>)) (\<lambda>t2.
             bindE (get a t2) (\<lambda>n.
               if nd_status n = SOUND_NOT_READY \<or> nd_status n = SOUND_SEARCH \<or> h_mapped (nd_info n)
               then Inr (Some a, search, t2)
               else (let r = lk_map ev a t2 in Inr (if fst r then Some a else None, search, snd r)))))"

section \<open>Deletion\<close>

text \<open>\<open>sound_unmap\<close> and \<open>sound_free\<close> give back the cache and the flow.\<close>

definition uncache :: "sound_node \<Rightarrow> table \<Rightarrow> table" where
  "uncache n t =
     (if h_type (nd_info n) = INPUT_FILE \<and> nd_cached n
      then t\<lparr>tb_cache_size := tb_cache_size t - h_size (nd_info n)\<rparr> else t)"

definition sound_unmap :: "nat \<Rightarrow> table \<Rightarrow> table table_result" where
  "sound_unmap a t = bindE (get a t) (\<lambda>n.
     put (\<lambda>n. n\<lparr>nd_info := unmap_header (nd_info n),
              nd_cached := (nd_cached n \<and> h_type (nd_info n) \<noteq> INPUT_FILE)\<rparr>) a (uncache n t))"

text \<open>Taking the node out of its lists.\<close>

definition unlink_single :: "sound_node \<Rightarrow> table \<Rightarrow> table table_result" where
  "unlink_single s t =
     bindE (put_or (\<lambda>t. t\<lparr>tb_sounds := nd_list s\<rparr>) (\<lambda>n. n\<lparr>nd_list := nd_list s\<rparr>) (nd_list_prev s)
              (t\<lparr>tb_hash := (tb_hash t)(nd_key s := None)\<rparr>))
       (put_or (\<lambda>t. t) (\<lambda>n. n\<lparr>nd_list_prev := nd_list_prev s\<rparr>) (nd_list s))"

definition unlink_inner :: "nat \<Rightarrow> sound_node \<Rightarrow> table \<Rightarrow> table table_result" where
  "unlink_inner p s t =
     bindE (put (\<lambda>n. n\<lparr>nd_next := nd_next s\<rparr>) p t)
       (put_or (\<lambda>t. t) (\<lambda>n. n\<lparr>nd_prev := nd_prev s\<rparr>) (nd_next s))"

definition unlink_first :: "nat \<Rightarrow> sound_node \<Rightarrow> table \<Rightarrow> table table_result" where
  "unlink_first q s t =
     bindE (put_or (\<lambda>t. t\<lparr>tb_sounds := nd_next s\<rparr>) (\<lambda>n. n\<lparr>nd_list := nd_next s\<rparr>) (nd_list_prev s) t) (\<lambda>t1.
     bindE (put_or (\<lambda>t. t) (\<lambda>n. n\<lparr>nd_list_prev := nd_next s\<rparr>) (nd_list s) t1) (\<lambda>t2.
     bindE (put (\<lambda>n. n\<lparr>nd_list := nd_list s, nd_list_prev := nd_list_prev s\<rparr>) q t2) (\<lambda>t3.
     bindE (get q t3) (\<lambda>n.
       Inr (t3\<lparr>tb_hash := (tb_hash t3)(nd_key n := Some q)\<rparr>)))))"

definition sound_delete :: "nat \<Rightarrow> bool \<Rightarrow> table \<Rightarrow> table table_result" where
  "sound_delete a remove t =
     bindE (get a t) (\<lambda>s.
     bindE (case nd_prev s of
              Some p \<Rightarrow> unlink_inner p s t
            | None \<Rightarrow> (case nd_next s of None \<Rightarrow> unlink_single s t | Some q \<Rightarrow> unlink_first q s t)) (\<lambda>t1.
     bindE (get a t1) (\<lambda>s1.
       let t2 = uncache s1 t1
       in Inr (t2\<lparr>tb_heap := (tb_heap t2)(a := None),
                  tb_unlinked := tb_unlinked t2 @ (if remove then [nd_path s1] else [])\<rparr>))))"

definition empty_table :: table where
  "empty_table = \<lparr>tb_heap = (\<lambda>_. None), tb_hash = (\<lambda>_. None), tb_sounds = None, tb_count = 0,
     tb_cache_size = 0, tb_fresh = 0, tb_unlinked = []\<rparr>"


section \<open>Doubly linked segments\<close>

text \<open>The nodes \<open>xs\<close> are linked in order, from the node before them to the one after.\<close>

definition head_or :: "nat list \<Rightarrow> nat option \<Rightarrow> nat option" where
  "head_or xs en = (case xs of [] \<Rightarrow> en | x # _ \<Rightarrow> Some x)"

definition last_or :: "nat list \<Rightarrow> nat option \<Rightarrow> nat option" where
  "last_or xs pr = (if xs = [] then pr else Some (last xs))"

fun seg :: "(nat \<Rightarrow> nat option) \<Rightarrow> (nat \<Rightarrow> nat option) \<Rightarrow> nat option \<Rightarrow> nat list \<Rightarrow> nat option \<Rightarrow> bool" where
  "seg nx pv pr [] en = True"
| "seg nx pv pr (x # xs) en = (pv x = pr \<and> nx x = head_or xs en \<and> seg nx pv (Some x) xs en)"

lemma head_or_simps [simp]: "head_or [] en = en" "head_or (x # xs) en = Some x"
  "xs \<noteq> [] \<Longrightarrow> head_or xs en = Some (hd xs)"
  by (auto simp: head_or_def split: list.splits)

lemma head_or_append [simp]: "head_or (xs @ ys) en = head_or xs (head_or ys en)"
  by (cases xs) auto

lemma last_or_simps [simp]: "last_or [] pr = pr" "last_or (xs @ [x]) pr = Some x"
  "last_or (x # xs) pr = last_or xs (Some x)"
  by (auto simp: last_or_def)

lemma seg_append: "seg nx pv pr (xs @ ys) en \<longleftrightarrow> seg nx pv pr xs (head_or ys en) \<and> seg nx pv (last_or xs pr) ys en"
  by (induction xs arbitrary: pr) auto

lemma seg_cong:
  "(\<And>x. x \<in> set xs \<Longrightarrow> nx x = nx' x \<and> pv x = pv' x) \<Longrightarrow> seg nx pv pr xs en = seg nx' pv' pr xs en"
  by (induction xs arbitrary: pr) auto

text \<open>The pointers at the ends of a segment can be redirected.\<close>

lemma seg_set_first:
  assumes "seg nx pv pr xs en" "distinct xs" "\<And>x. x \<in> set xs \<Longrightarrow> nx' x = nx x"
    "\<And>x. x \<in> set xs \<Longrightarrow> pv' x = (if x = hd xs then pr' else pv x)"
  shows "seg nx' pv' pr' xs en"
proof (cases xs)
  case (Cons y ys)
  then have "seg nx' pv' (Some y) ys en = seg nx pv (Some y) ys en" using assms(2-4) by (intro seg_cong) auto
  then show ?thesis using Cons assms by auto
qed simp

lemma seg_set_last:
  assumes "seg nx pv pr xs en" "distinct xs" "\<And>x. x \<in> set xs \<Longrightarrow> pv' x = pv x"
    "\<And>x. x \<in> set xs \<Longrightarrow> nx' x = (if x = last xs then en' else nx x)"
  shows "seg nx' pv' pr xs en'"
proof (cases xs rule: rev_cases)
  case (snoc ys y)
  then have "seg nx' pv' pr ys (Some y) = seg nx pv pr ys (Some y)" using assms(2-4) by (intro seg_cong) auto
  then show ?thesis using snoc assms by (auto simp: seg_append)
qed simp

section \<open>Well-formed tables\<close>

abbreviation "fld f t a \<equiv> f (the (tb_heap t a))"

text \<open>\<open>gs\<close>: the sounds grouped by key, in the order of the lists.\<close>

definition table_rep :: "table \<Rightarrow> nat list list \<Rightarrow> bool" where
  "table_rep t gs \<longleftrightarrow>
     distinct (concat gs) \<and> [] \<notin> set gs
     \<and> (\<forall>a. tb_heap t a \<noteq> None \<longleftrightarrow> a \<in> set (concat gs)) \<and> (\<forall>a \<in> set (concat gs). a < tb_fresh t)
     \<and> tb_sounds t = head_or (map hd gs) None
     \<and> seg (fld nd_list t) (fld nd_list_prev t) None (map hd gs) None
     \<and> (\<forall>g \<in> set gs. seg (fld nd_next t) (fld nd_prev t) None g None)
     \<and> (\<forall>g \<in> set gs. \<forall>a \<in> set g. tb_hash t (fld nd_key t a) = Some (hd g))
     \<and> (\<forall>k h. tb_hash t k = Some h \<longrightarrow> h \<in> set (map hd gs) \<and> fld nd_key t h = k)
     \<and> (\<forall>a \<in> set (concat gs). fld nd_key t a = xhash_name (fld nd_path t a))
     \<and> inj_on (fld nd_path t) (set (concat gs))"

definition table_ok :: "table \<Rightarrow> bool" where
  "table_ok t \<longleftrightarrow> (\<exists>gs. table_rep t gs)"

text \<open>The paths of the sounds.\<close>

definition paths :: "table \<Rightarrow> cstring set" where
  "paths t = {nd_path n | a n. tb_heap t a = Some n}"

lemma put_Inr: "tb_heap t a = Some n \<Longrightarrow> put f a t = Inr (t\<lparr>tb_heap := (tb_heap t)(a := Some (f n))\<rparr>)"
  by (simp add: put_def get_def)

lemma group_unique:
  assumes "distinct (concat gs)" "g \<in> set gs" "g' \<in> set gs" "x \<in> set g" "x \<in> set g'"
  shows "g = g'"
  using assms by (induction gs) auto

lemma rep_heap: "table_rep t gs \<Longrightarrow> a \<in> set (concat gs) \<Longrightarrow> \<exists>n. tb_heap t a = Some n"
  unfolding table_rep_def by blast

lemma heads_in: "[] \<notin> set gs \<Longrightarrow> set (map hd gs) \<subseteq> set (concat gs)"
  by (auto simp: neq_Nil_conv) (metis hd_in_set)

lemma heads_distinct: "distinct (concat gs) \<Longrightarrow> [] \<notin> set gs \<Longrightarrow> distinct (map hd gs)"
proof (induction gs)
  case (Cons g gs)
  have "set (map hd gs) \<subseteq> set (concat gs)" using Cons.prems heads_in [of gs] by simp
  moreover have "hd g \<in> set g" using Cons.prems by (intro hd_in_set) auto
  moreover have "set g \<inter> set (concat gs) = {}" using Cons.prems by simp
  ultimately have "hd g \<notin> set (map hd gs)" by blast
  then show ?case using Cons by simp
qed simp

lemma empty_table_ok: "table_ok empty_table"
  unfolding table_ok_def table_rep_def by (rule exI [of _ "[]"]) (simp add: empty_table_def)

text \<open>Walking along a group.\<close>

lemma find_in_chain_group:
  assumes "seg (fld nd_next t) (fld nd_prev t) pr g None" "\<And>a. a \<in> set g \<Longrightarrow> tb_heap t a \<noteq> None" "length g \<le> n"
  shows "find_in_chain n t P prv (head_or g None)
    = Inr (case dropWhile (\<lambda>a. \<not> P (the (tb_heap t a))) g of
             [] \<Rightarrow> (None, last_or g prv)
           | a # _ \<Rightarrow> (Some a, last_or (takeWhile (\<lambda>a. \<not> P (the (tb_heap t a))) g) prv))"
  using assms
proof (induction g arbitrary: n prv pr)
  case (Cons a g)
  obtain nd where "tb_heap t a = Some nd" using Cons.prems(2) [of a] by auto
  moreover obtain m where "n = Suc m" using Cons.prems(3) by (cases n) auto
  ultimately have m: "n = Suc m" "tb_heap t a = Some nd" by simp_all
  have "find_in_chain m t P (Some a) (head_or g None)
    = Inr (case dropWhile (\<lambda>a. \<not> P (the (tb_heap t a))) g of
             [] \<Rightarrow> (None, last_or g (Some a))
           | a' # _ \<Rightarrow> (Some a', last_or (takeWhile (\<lambda>a. \<not> P (the (tb_heap t a))) g) (Some a)))"
    using Cons m by (intro Cons.IH) auto
  moreover have "nd_next nd = head_or g None" using Cons.prems(1) m by simp
  ultimately show ?case using m
    by (cases "dropWhile (\<lambda>a. \<not> P (the (tb_heap t a))) g")
      (simp_all add: get_def del: dropWhile_eq_Nil_conv)
qed simp


text \<open>The parts of \<open>table_rep\<close> as rules.\<close>

lemma table_repD:
  assumes "table_rep t gs"
  shows "distinct (concat gs)" "[] \<notin> set gs" "\<And>a. tb_heap t a \<noteq> None \<longleftrightarrow> a \<in> set (concat gs)"
    "\<And>a. a \<in> set (concat gs) \<Longrightarrow> a < tb_fresh t" "tb_sounds t = head_or (map hd gs) None"
    "seg (fld nd_list t) (fld nd_list_prev t) None (map hd gs) None"
    "\<And>g. g \<in> set gs \<Longrightarrow> seg (fld nd_next t) (fld nd_prev t) None g None"
    "\<And>g a. g \<in> set gs \<Longrightarrow> a \<in> set g \<Longrightarrow> tb_hash t (fld nd_key t a) = Some (hd g)"
    "\<And>k h. tb_hash t k = Some h \<Longrightarrow> h \<in> set (map hd gs) \<and> fld nd_key t h = k"
    "\<And>a. a \<in> set (concat gs) \<Longrightarrow> fld nd_key t a = xhash_name (fld nd_path t a)"
    "inj_on (fld nd_path t) (set (concat gs))"
  using assms unfolding table_rep_def by blast+

lemma paths_rep:
  assumes "table_rep t gs"
  shows "paths t = fld nd_path t ` set (concat gs)"
proof -
  have "(\<exists>n. tb_heap t a = Some n \<and> p = nd_path n) \<longleftrightarrow> a \<in> set (concat gs) \<and> p = fld nd_path t a" for a p
    using table_repD(3) [OF assms, of a] by (cases "tb_heap t a") auto
  then show ?thesis unfolding paths_def image_def by blast
qed

text \<open>A group has at most as many nodes as addresses were given out.\<close>

lemma group_length:
  assumes "table_rep t gs" "g \<in> set gs"
  shows "length g \<le> tb_fresh t"
proof -
  have d: "distinct g" using table_repD(1) [OF assms(1)] assms(2) by (simp add: distinct_concat_iff)
  have "set g \<subseteq> {..<tb_fresh t}" using table_repD(4) [OF assms(1)] assms(2) by auto
  then have "card (set g) \<le> tb_fresh t" using card_mono [of "{..<tb_fresh t}" "set g"] by simp
  then show ?thesis using distinct_card [OF d] by simp
qed

text \<open>The hash entry of a key leads to its group.\<close>

lemma hash_group:
  assumes "table_rep t gs" "tb_hash t k = Some h"
  obtains g where "g \<in> set gs" "h = hd g" "\<And>a. a \<in> set g \<Longrightarrow> fld nd_key t a = k"
proof -
  obtain g where g: "g \<in> set gs" "h = hd g" using table_repD(9) [OF assms] by auto
  have "fld nd_key t a = k" if "a \<in> set g" for a
    using table_repD(8) [OF assms(1) g(1) that] table_repD(9) [OF assms(1)] assms(2) g(2) by metis
  then show thesis using that g by blast
qed


section \<open>Insertion\<close>

lemma insert_new_key:
  assumes "table_rep t gs" "tb_hash t (xhash_name path) = None"
  obtains t' where "sound_insert False path status typ t = Inr (Some (tb_fresh t), t')"
    "table_rep t' ([tb_fresh t] # gs)" "fld nd_path t' (tb_fresh t) = path"
    "\<And>x. x \<in> set (concat gs) \<Longrightarrow> fld nd_path t' x = fld nd_path t x"
proof -
  note r = table_repD [OF assms(1)]
  let ?a = "tb_fresh t"
  let ?s = "(new_node path status typ)\<lparr>nd_list := tb_sounds t\<rparr>"
  let ?H = "\<lambda>x. if x = ?a then Some ?s
      else if tb_sounds t = Some x then map_option (\<lambda>n. n\<lparr>nd_list_prev := Some ?a\<rparr>) (tb_heap t x) else tb_heap t x"
  let ?t = "t\<lparr>tb_fresh := Suc ?a, tb_heap := ?H, tb_hash := (tb_hash t)(xhash_name path := Some ?a), tb_sounds := Some ?a\<rparr>"
  have new: "?a \<notin> set (concat gs)" using r(4) by blast
  have hd_ne: "tb_sounds t \<noteq> Some ?a"
    using r(5) new heads_in [OF r(2)] by (cases gs) auto
  have ins: "sound_insert False path status typ t = Inr (Some ?a, ?t)"
  proof (cases "tb_sounds t")
    case None
    then show ?thesis using assms(2) by (simp add: sound_insert_def Let_def put_or_def fun_eq_iff)
  next
    case (Some h)
    then have "h \<in> set (concat gs)" using r(2,5) by (cases gs) auto
    then obtain n where n: "tb_heap t h = Some n" using r(3) by blast
    have "?H = (tb_heap t)(?a := Some ?s, h := Some (n\<lparr>nd_list_prev := Some ?a\<rparr>))"
      using Some hd_ne n by (auto simp: fun_eq_iff)
    then show ?thesis using assms(2) Some hd_ne n
      by (simp add: sound_insert_def Let_def put_or_def put_def get_def)
  qed
  define u where "u = ?t"
  have old: "f (the (?H x)) = f (the (tb_heap t x))" if "x \<in> set (concat gs)" "\<And>n. f (n\<lparr>nd_list_prev := Some ?a\<rparr>) = f n"
      for f :: "sound_node \<Rightarrow> 'z" and x
      using that new r(3) [of x] by (cases "tb_heap t x") auto
  have keep: "fld nd_list u x = fld nd_list t x" "fld nd_next u x = fld nd_next t x" "fld nd_prev u x = fld nd_prev t x"
      "fld nd_key u x = fld nd_key t x" "fld nd_path u x = fld nd_path t x" if "x \<in> set (concat gs)" for x
      using old [OF that, of nd_list] old [OF that, of nd_next] old [OF that, of nd_prev] old [OF that, of nd_key]
        old [OF that, of nd_path] by (simp_all add: u_def)
  have new_fields: "fld nd_list u ?a = tb_sounds t" "fld nd_list_prev u ?a = None" "fld nd_next u ?a = None"
      "fld nd_prev u ?a = None" "fld nd_key u ?a = xhash_name path" "fld nd_path u ?a = path"
    and table_fields: "tb_fresh u = Suc ?a" "tb_hash u = (tb_hash t)(xhash_name path := Some ?a)" "tb_sounds u = Some ?a"
      "\<And>x. tb_heap u x \<noteq> None \<longleftrightarrow> x = ?a \<or> tb_heap t x \<noteq> None"
      "\<And>x. x \<noteq> ?a \<Longrightarrow> tb_heap u x = (if tb_sounds t = Some x then map_option (\<lambda>n. n\<lparr>nd_list_prev := Some ?a\<rparr>) (tb_heap t x) else tb_heap t x)"
    using hd_ne by (auto simp: u_def new_node_def)
  have ins_u: "sound_insert False path status typ t = Inr (Some ?a, u)" using ins by (simp add: u_def)
  moreover have "table_rep u ([?a] # gs)"
    unfolding table_rep_def
  proof (intro conjI)
    have dh: "distinct (map hd gs)" using heads_distinct r(1,2) by blast
    have hin: "set (map hd gs) \<subseteq> set (concat gs)" using heads_in r(2) by blast
    show "distinct (concat ([?a] # gs))" "[] \<notin> set ([?a] # gs)" using r(1,2) new by auto
    show "\<forall>x. tb_heap u x \<noteq> None \<longleftrightarrow> x \<in> set (concat ([?a] # gs))" using r(3) table_fields(4) by auto
    show "\<forall>x \<in> set (concat ([?a] # gs)). x < tb_fresh u"
      using r(4) less_SucI table_fields(1) by fastforce
    show "tb_sounds u = head_or (map hd ([?a] # gs)) None" by (simp add: table_fields)
    have "seg (fld nd_list u) (fld nd_list_prev u) (Some ?a) (map hd gs) None"
    proof (rule seg_set_first [OF r(6) dh])
      fix x assume x: "x \<in> set (map hd gs)"
      show "fld nd_list u x = fld nd_list t x" using keep(1) x hin by blast
      have xc: "x \<in> set (concat gs)" using x hin by blast
      then have xa: "x \<noteq> ?a" using new by blast
      have "tb_sounds t = Some x \<longleftrightarrow> x = hd (map hd gs)" using r(5) x by (cases gs) auto
      then show "fld nd_list_prev u x = (if x = hd (map hd gs) then Some ?a else fld nd_list_prev t x)"
        using xa xc r(3) [of x] table_fields(5) [OF xa] by (cases "tb_heap t x") auto
    qed
    then show "seg (fld nd_list u) (fld nd_list_prev u) None (map hd ([?a] # gs)) None"
      using r(5) by (simp add: new_fields)
    show "\<forall>g \<in> set ([?a] # gs). seg (fld nd_next u) (fld nd_prev u) None g None"
    proof
      fix g assume "g \<in> set ([?a] # gs)"
      moreover have "seg (fld nd_next u) (fld nd_prev u) None g None" if g: "g \<in> set gs"
      proof -
        have "seg (fld nd_next u) (fld nd_prev u) None g None = seg (fld nd_next t) (fld nd_prev t) None g None"
          by (intro seg_cong conjI keep(2,3)) (use g in auto)
        then show ?thesis using r(7) g by simp
      qed
      ultimately show "seg (fld nd_next u) (fld nd_prev u) None g None" by (auto simp: new_fields table_fields)
    qed
    note key = keep(4)
    have nk: "fld nd_key t x \<noteq> xhash_name path" if "x \<in> set (concat gs)" for x
      using that r(8) assms(2) by fastforce
    have "tb_hash u (fld nd_key u x) = Some (hd g)" if "g \<in> set gs" "x \<in> set g" for g x
    proof -
      have x: "x \<in> set (concat gs)" using that by auto
      then show ?thesis using key [OF x] nk [OF x] r(8) [OF that] by (simp add: table_fields)
    qed
    then show "\<forall>g \<in> set ([?a] # gs). \<forall>x \<in> set g. tb_hash u (fld nd_key u x) = Some (hd g)"
      by (auto simp: new_fields table_fields)
    show "\<forall>k h. tb_hash u k = Some h \<longrightarrow> h \<in> set (map hd ([?a] # gs)) \<and> fld nd_key u h = k"
    proof (intro allI impI)
      fix k h assume "tb_hash u k = Some h"
      then show "h \<in> set (map hd ([?a] # gs)) \<and> fld nd_key u h = k"
        using r(9) [of k h] key [of h] hin by (cases "k = xhash_name path") (auto simp: new_fields table_fields)
    qed
    show "\<forall>x \<in> set (concat ([?a] # gs)). fld nd_key u x = xhash_name (fld nd_path u x)"
      using r(10) keep(4,5) new by (auto simp: new_fields table_fields)
    have "inj_on (fld nd_path u) (set (concat gs))"
      using r(11) keep(5) by (subst inj_on_cong [where g = "fld nd_path t"]) blast+
    moreover have "path \<noteq> fld nd_path u x" if "x \<in> set (concat gs)" for x
      using nk [OF that] r(10) [OF that] keep(5) [OF that] by auto
    ultimately show "inj_on (fld nd_path u) (set (concat ([?a] # gs)))"
      using new by (auto simp: new_fields inj_on_insert)
  qed
  ultimately show thesis using that [of u] keep(5) new_fields(6) by blast
qed


lemma insert_same_key:
  assumes "table_rep t gs" "gs = gs1 @ g # gs2" "tb_hash t (xhash_name path) = Some (hd g)"
    "path \<notin> fld nd_path t ` set g"
  obtains t' where "sound_insert False path status typ t = Inr (Some (tb_fresh t), t')"
    "table_rep t' (gs1 @ (g @ [tb_fresh t]) # gs2)" "fld nd_path t' (tb_fresh t) = path"
    "\<And>x. x \<in> set (concat gs) \<Longrightarrow> fld nd_path t' x = fld nd_path t x"
proof -
  note r = table_repD [OF assms(1)]
  let ?a = "tb_fresh t" and ?l = "last g" and ?gs = "gs1 @ (g @ [tb_fresh t]) # gs2"
  let ?H = "\<lambda>x. if x = ?a then Some ((new_node path status typ)\<lparr>nd_prev := Some ?l\<rparr>)
      else if x = ?l then map_option (\<lambda>n. n\<lparr>nd_next := Some ?a\<rparr>) (tb_heap t x) else tb_heap t x"
  let ?t = "t\<lparr>tb_fresh := Suc ?a, tb_heap := ?H\<rparr>"
  have new: "?a \<notin> set (concat gs)" using r(4) by blast
  have g: "g \<in> set gs" "g \<noteq> []" using assms(2) r(2) by auto
  have dg: "distinct g" using r(1) g(1) by (simp add: distinct_concat_iff)
  have lin: "?l \<in> set g" "?l \<in> set (concat gs)" using g last_in_set by auto
  then have hd_ne: "?l \<noteq> ?a" using new by auto
  obtain n where n: "tb_heap t ?l = Some n" using r(3) lin(2) by blast
  have dw: "dropWhile (\<lambda>b. nd_path (the (tb_heap t b)) \<noteq> path) g = []" using assms(4) by auto
  have "find_in_chain ?a t (\<lambda>n. nd_path n = path) None (head_or g None) = Inr (None, last_or g None)"
    using find_in_chain_group [OF r(7) [OF g(1)] _ group_length [OF assms(1) g(1)], of "\<lambda>n. nd_path n = path" None] r(3) g(1) dw
    by (auto simp del: dropWhile_eq_Nil_conv)
  then have "find_in_chain ?a t (\<lambda>n. nd_path n = path) None (Some (hd g)) = Inr (None, Some ?l)"
    using g(2) by (simp add: last_or_def)
  moreover have "?H = (tb_heap t)(?a := Some ((new_node path status typ)\<lparr>nd_prev := Some ?l\<rparr>), ?l := Some (n\<lparr>nd_next := Some ?a\<rparr>))"
    using hd_ne n by (auto simp: fun_eq_iff)
  ultimately have ins: "sound_insert False path status typ t = Inr (Some ?a, ?t)"
    using assms(3) n hd_ne by (simp add: sound_insert_def Let_def put_or_def put_def get_def)
  define u where "u = ?t"
  have old: "f (the (?H x)) = f (the (tb_heap t x))" if "x \<in> set (concat gs)" "\<And>n. f (n\<lparr>nd_next := Some ?a\<rparr>) = f n"
      for f :: "sound_node \<Rightarrow> 'z" and x
      using that new r(3) [of x] by (cases "tb_heap t x") auto
  have keep: "fld nd_list u x = fld nd_list t x" "fld nd_list_prev u x = fld nd_list_prev t x" "fld nd_prev u x = fld nd_prev t x"
      "fld nd_key u x = fld nd_key t x" "fld nd_path u x = fld nd_path t x" if "x \<in> set (concat gs)" for x
      using old [OF that, of nd_list] old [OF that, of nd_list_prev] old [OF that, of nd_prev] old [OF that, of nd_key]
        old [OF that, of nd_path] by (simp_all add: u_def)
  have new_fields: "fld nd_list u ?a = None" "fld nd_list_prev u ?a = None" "fld nd_next u ?a = None"
      "fld nd_prev u ?a = Some ?l" "fld nd_key u ?a = xhash_name path" "fld nd_path u ?a = path"
    and table_fields: "tb_fresh u = Suc ?a" "tb_hash u = tb_hash t" "tb_sounds u = tb_sounds t"
      "\<And>x. tb_heap u x \<noteq> None \<longleftrightarrow> x = ?a \<or> tb_heap t x \<noteq> None"
      "\<And>x. x \<noteq> ?a \<Longrightarrow> tb_heap u x = (if x = ?l then map_option (\<lambda>n. n\<lparr>nd_next := Some ?a\<rparr>) (tb_heap t x) else tb_heap t x)"
    using hd_ne by (auto simp: u_def new_node_def)
  have ins_u: "sound_insert False path status typ t = Inr (Some ?a, u)" using ins by (simp add: u_def)
  moreover have "table_rep u ?gs"
    unfolding table_rep_def
  proof (intro conjI)
    have elems: "set (concat ?gs) = insert ?a (set (concat gs))" using assms(2) by auto
    have heads: "map hd ?gs = map hd gs" using assms(2) g(2) by simp
    have hin: "set (map hd gs) \<subseteq> set (concat gs)" using heads_in r(2) by blast
    show "distinct (concat ?gs)" using r(1) new assms(2) by auto
    show "[] \<notin> set ?gs" using r(2) assms(2) by auto
    show "\<forall>x. tb_heap u x \<noteq> None \<longleftrightarrow> x \<in> set (concat ?gs)" using r(3) elems lin(2) table_fields(4) by auto
    show "\<forall>x \<in> set (concat ?gs). x < tb_fresh u" unfolding elems using r(4) less_SucI table_fields(1) by fastforce
    show "tb_sounds u = head_or (map hd ?gs) None" unfolding heads using r(5) table_fields(3) by simp
    have "seg (fld nd_list u) (fld nd_list_prev u) None (map hd gs) None
        = seg (fld nd_list t) (fld nd_list_prev t) None (map hd gs) None"
      by (intro seg_cong conjI keep(1,2)) (use hin in blast)+
    then show "seg (fld nd_list u) (fld nd_list_prev u) None (map hd ?gs) None" unfolding heads using r(6) by simp
    have grown: "seg (fld nd_next u) (fld nd_prev u) None (g @ [?a]) None"
    proof -
      have "seg (fld nd_next u) (fld nd_prev u) None g (Some ?a)"
      proof (rule seg_set_last [OF r(7) [OF g(1)] dg])
        fix x assume x: "x \<in> set g"
        then have xc: "x \<in> set (concat gs)" using g(1) by auto
        show "fld nd_prev u x = fld nd_prev t x" using keep(3) xc by blast
        show "fld nd_next u x = (if x = ?l then Some ?a else fld nd_next t x)"
          using xc new n table_fields(5) [of x] by (cases "x = ?a") auto
      qed
      then show ?thesis using g(2) hd_ne by (simp add: seg_append last_or_def new_fields)
    qed
    have rest: "seg (fld nd_next u) (fld nd_prev u) None g' None" if g': "g' \<in> set gs" "g' \<noteq> g" for g'
    proof -
      have "?l \<notin> set g'" using group_unique [OF r(1) g'(1) g(1)] lin(1) g'(2) by blast
      then have "seg (fld nd_next u) (fld nd_prev u) None g' None = seg (fld nd_next t) (fld nd_prev t) None g' None"
        using new g'(1) table_fields(5) by (intro seg_cong) (metis UN_I set_concat)
      then show ?thesis using r(7) g'(1) by simp
    qed
    have others: "g' \<in> set gs \<and> g' \<noteq> g" if "g' \<in> set gs1 \<union> set gs2" for g'
    proof -
      have "distinct gs" using r(1,2) by (simp add: distinct_concat_iff removeAll_id)
      then show ?thesis using that assms(2) by auto
    qed
    show "\<forall>g' \<in> set ?gs. seg (fld nd_next u) (fld nd_prev u) None g' None"
      using grown rest others by auto
    note key = keep(4)
    have "tb_hash t (fld nd_key u x) = Some (hd g')" if "g' \<in> set gs" "x \<in> set g'" for g' x
    proof -
      have "x \<in> set (concat gs)" using that by auto
      then show ?thesis using keep(4) r(8) [OF that] by simp
    qed
    then show "\<forall>g' \<in> set ?gs. \<forall>x \<in> set g'. tb_hash u (fld nd_key u x) = Some (hd g')"
      using others g assms(3) by (auto simp: new_fields table_fields)
    show "\<forall>k h. tb_hash u k = Some h \<longrightarrow> h \<in> set (map hd ?gs) \<and> fld nd_key u h = k"
    proof (intro allI impI)
      fix k h assume "tb_hash u k = Some h"
      then have "h \<in> set (map hd gs)" "fld nd_key t h = k" using r(9) [of k h] table_fields(2) by simp_all
      then show "h \<in> set (map hd ?gs) \<and> fld nd_key u h = k" unfolding heads using key [of h] hin by blast
    qed
    show "\<forall>x \<in> set (concat ?gs). fld nd_key u x = xhash_name (fld nd_path u x)"
      unfolding elems using r(10) keep(4,5) new by (auto simp: new_fields table_fields)
    have inj: "inj_on (fld nd_path u) (set (concat gs))"
      using r(11) keep(5) by (subst inj_on_cong [where g = "fld nd_path t"]) blast+
    have "path \<noteq> fld nd_path u x" if x: "x \<in> set (concat gs)" for x
    proof
      assume p: "path = fld nd_path u x"
      then have p': "path = fld nd_path t x" using keep(5) [OF x] by simp
      obtain g' where g': "g' \<in> set gs" "x \<in> set g'" using x by auto
      have "tb_hash t (xhash_name path) = Some (hd g')"
        using r(8) [OF g'] r(10) [OF x] p' by simp
      then have "hd g' = hd g" using assms(3) by simp
      then have "g' = g" using group_unique [OF r(1) g'(1) g(1), of "hd g"] g'(1) g(2) r(2) hd_in_set by metis
      then show False using assms(4) p' g'(2) by blast
    qed
    then show "inj_on (fld nd_path u) (set (concat ?gs))"
      unfolding elems using inj new by (auto simp: new_fields inj_on_insert)
  qed
  ultimately show thesis using that [of u] keep(5) new_fields(6) by blast
qed


text \<open>Insertion into a well-formed table, with a new path or one that is there.\<close>

lemma sound_insert_refines:
  assumes "table_ok t"
  shows "\<exists>a n t'. sound_insert False path status typ t = Inr (Some a, t') \<and> table_ok t'
    \<and> paths t' = insert path (paths t) \<and> tb_heap t' a = Some n \<and> nd_path n = path"
proof -
  obtain gs where rep: "table_rep t gs" using assms by (auto simp: table_ok_def)
  note r = table_repD [OF rep]
  have grown: ?thesis if i: "sound_insert False path status typ t = Inr (Some (tb_fresh t), t')" "table_rep t' gs'"
    "set (concat gs') = insert (tb_fresh t) (set (concat gs))" "fld nd_path t' (tb_fresh t) = path"
    "\<And>x. x \<in> set (concat gs) \<Longrightarrow> fld nd_path t' x = fld nd_path t x" for t' gs'
  proof -
    have "paths t' = insert path (paths t)"
      unfolding paths_rep [OF i(2)] paths_rep [OF rep] i(3) using i(4,5) by (auto simp: image_iff) 
    moreover obtain n where "tb_heap t' (tb_fresh t) = Some n" using rep_heap [OF i(2)] i(3) by blast
    ultimately show ?thesis using i(1,2,4) unfolding table_ok_def by fastforce
  qed
  show ?thesis
  proof (cases "tb_hash t (xhash_name path)")
    case None
    then obtain t' where t': "sound_insert False path status typ t = Inr (Some (tb_fresh t), t')"
      "table_rep t' ([tb_fresh t] # gs)" "fld nd_path t' (tb_fresh t) = path"
      "\<And>x. x \<in> set (concat gs) \<Longrightarrow> fld nd_path t' x = fld nd_path t x"
      by (rule insert_new_key [OF rep]) blast
    show ?thesis by (rule grown [OF t'(1,2) _ t'(3,4)]) simp
  next
    case (Some h)
    then obtain g where g: "g \<in> set gs" "h = hd g" using hash_group [OF rep] by blast
    show ?thesis
    proof (cases "path \<in> fld nd_path t ` set g")
      case False
      obtain gs1 gs2 where gs: "gs = gs1 @ g # gs2" using g(1) split_list by metis
      then obtain t' where t': "sound_insert False path status typ t = Inr (Some (tb_fresh t), t')"
        "table_rep t' (gs1 @ (g @ [tb_fresh t]) # gs2)" "fld nd_path t' (tb_fresh t) = path"
        "\<And>x. x \<in> set (concat gs) \<Longrightarrow> fld nd_path t' x = fld nd_path t x"
        using insert_same_key [OF rep gs _ False] Some g(2) by blast
      show ?thesis by (rule grown [OF t'(1,2) _ t'(3,4)]) (simp add: gs)
    next
      case True
      let ?P = "\<lambda>n. nd_path n = path"
      obtain b bs where b: "dropWhile (\<lambda>a. \<not> ?P (the (tb_heap t a))) g = b # bs"
        using True by (cases "dropWhile (\<lambda>a. \<not> ?P (the (tb_heap t a))) g") auto
      then have "b \<in> set g" using set_dropWhileD [of b "\<lambda>a. \<not> ?P (the (tb_heap t a))" g] by simp
      moreover have "?P (the (tb_heap t b))" using b by (simp add: dropWhile_eq_Cons_conv)
      moreover have "find_in_chain (tb_fresh t) t ?P None (head_or g None)
          = Inr (Some b, last_or (takeWhile (\<lambda>a. \<not> ?P (the (tb_heap t a))) g) None)"
        using find_in_chain_group [OF r(7) [OF g(1)] _ group_length [OF rep g(1)], of ?P None] r(3) g(1) b by auto
      moreover have "g \<noteq> []" using g(1) r(2) by auto
      ultimately have "sound_insert False path status typ t = Inr (Some b, t)"
        using Some g(2) by (simp add: sound_insert_def Let_def)
      moreover have "b \<in> set (concat gs)" using \<open>b \<in> set g\<close> g(1) by auto
      then obtain n where "tb_heap t b = Some n" using rep_heap [OF rep] by blast
      moreover have "path \<in> paths t" using calculation \<open>?P (the (tb_heap t b))\<close> by (auto simp: paths_def)
      ultimately show ?thesis using assms \<open>?P (the (tb_heap t b))\<close> by auto
    qed
  qed
qed

section \<open>Deletion of a sound\<close>

text \<open>Where a node is: its group, and its neighbours in the lists.\<close>

lemma group_of:
  assumes "table_rep t gs" "tb_heap t a = Some n"
  obtains gs1 g1 g2 gs2 where "gs = gs1 @ (g1 @ a # g2) # gs2" "nd_prev n = last_or g1 None" "nd_next n = head_or g2 None"
proof -
  have "a \<in> set (concat gs)" using table_repD(3) [OF assms(1)] assms(2) by blast
  then obtain g where g: "g \<in> set gs" "a \<in> set g" by auto
  obtain gs1 gs2 where s1: "gs = gs1 @ g # gs2" using g(1) split_list by metis
  obtain g1 g2 where s2: "g = g1 @ a # g2" using g(2) split_list by metis
  have "seg (fld nd_next t) (fld nd_prev t) None g None" using table_repD(7) [OF assms(1)] g(1) .
  then have "nd_prev n = last_or g1 None" "nd_next n = head_or g2 None"
    using assms(2) by (auto simp: s2 seg_append)
  then show thesis using that s1 s2 by blast
qed

lemma list_of:
  assumes "table_rep t (gs1 @ (a # g2) # gs2)" "tb_heap t a = Some n"
  shows "nd_list_prev n = last_or (map hd gs1) None \<and> nd_list n = head_or (map hd gs2) None"
  using table_repD(6) [OF assms(1)] assms(2) by (auto simp: seg_append)

lemma uncache_fields [simp]:
  "tb_heap (uncache n t) = tb_heap t" "tb_hash (uncache n t) = tb_hash t" "tb_sounds (uncache n t) = tb_sounds t"
  "tb_fresh (uncache n t) = tb_fresh t"
  by (simp_all add: uncache_def)

text \<open>Relinking the two neighbours of a removed element.\<close>

lemma seg_remove:
  assumes "seg nx pv pr (xs @ x # ys) en" "distinct (xs @ x # ys)"
    "\<And>y. y \<in> set xs \<Longrightarrow> nx' y = (if y = last xs then head_or ys en else nx y)"
    "\<And>y. y \<in> set ys \<Longrightarrow> nx' y = nx y"
    "\<And>y. y \<in> set ys \<Longrightarrow> pv' y = (if y = hd ys then last_or xs pr else pv y)"
    "\<And>y. y \<in> set xs \<Longrightarrow> pv' y = pv y"
  shows "seg nx' pv' pr (xs @ ys) en"
proof -
  have s: "seg nx pv pr xs (Some x)" "seg nx pv (Some x) ys en" using assms(1) by (auto simp: seg_append)
  have "seg nx' pv' pr xs (head_or ys en)"
    by (rule seg_set_last [OF s(1)]) (use assms in auto)
  moreover have "seg nx' pv' (last_or xs pr) ys en"
    by (rule seg_set_first [OF s(2)]) (use assms in auto)
  ultimately show ?thesis by (simp add: seg_append)
qed

definition relink :: "nat \<Rightarrow> nat option \<Rightarrow> (sound_node \<Rightarrow> sound_node) \<Rightarrow> nat option \<Rightarrow> (sound_node \<Rightarrow> sound_node)
     \<Rightarrow> table \<Rightarrow> nat \<Rightarrow> sound_node option" where
  "relink a p f q g t x =
     (if x = a then None
      else if p = Some x then map_option f (tb_heap t x)
      else if q = Some x then map_option g (tb_heap t x)
      else tb_heap t x)"

lemma delete_single_result:
  assumes "tb_heap t a = Some n" "nd_next n = None" "nd_prev n = None" "nd_list_prev n = p" "nd_list n = q"
    "p \<noteq> Some a" "q \<noteq> Some a" "p = None \<or> p \<noteq> q" "\<And>x. p = Some x \<or> q = Some x \<Longrightarrow> tb_heap t x \<noteq> None"
  shows "\<exists>t'. sound_delete a rm t = Inr t'
    \<and> tb_heap t' = relink a p (\<lambda>m. m\<lparr>nd_list := q\<rparr>) q (\<lambda>m. m\<lparr>nd_list_prev := p\<rparr>) t
    \<and> tb_hash t' = (tb_hash t)(nd_key n := None) \<and> tb_sounds t' = (if p = None then q else tb_sounds t)
    \<and> tb_fresh t' = tb_fresh t"
proof (cases p)
  case None
  then show ?thesis
  proof (cases q)
    case (Some y)
    then obtain m where "tb_heap t y = Some m" using assms(9) by blast
    then show ?thesis using None Some assms
      by (auto simp: sound_delete_def unlink_single_def put_or_def put_def get_def Let_def relink_def fun_eq_iff)
  qed (use assms in \<open>auto simp: sound_delete_def unlink_single_def put_or_def put_def get_def Let_def relink_def fun_eq_iff\<close>)
next
  case (Some x)
  then obtain m where m: "tb_heap t x = Some m" using assms(9) by blast
  then show ?thesis
  proof (cases q)
    case (Some y)
    then obtain k where "tb_heap t y = Some k" using assms(9) by blast
    then show ?thesis using m Some \<open>p = Some x\<close> assms
      by (auto simp: sound_delete_def unlink_single_def put_or_def put_def get_def Let_def relink_def fun_eq_iff)
  qed (use m Some assms in \<open>auto simp: sound_delete_def unlink_single_def put_or_def put_def get_def Let_def relink_def fun_eq_iff\<close>)
qed

lemma delete_inner_result:
  assumes "tb_heap t a = Some n" "nd_prev n = Some x" "nd_next n = q" "x \<noteq> a" "q \<noteq> Some a" "q \<noteq> Some x"
    "tb_heap t x \<noteq> None" "\<And>y. q = Some y \<Longrightarrow> tb_heap t y \<noteq> None"
  shows "\<exists>t'. sound_delete a rm t = Inr t'
    \<and> tb_heap t' = relink a (Some x) (\<lambda>m. m\<lparr>nd_next := q\<rparr>) q (\<lambda>m. m\<lparr>nd_prev := Some x\<rparr>) t
    \<and> tb_hash t' = tb_hash t \<and> tb_sounds t' = tb_sounds t \<and> tb_fresh t' = tb_fresh t"
proof -
  obtain m where m: "tb_heap t x = Some m" using assms(7) by blast
  show ?thesis
  proof (cases q)
    case (Some y)
    then obtain k where "tb_heap t y = Some k" using assms(8) by blast
    then show ?thesis using m Some assms
      by (auto simp: sound_delete_def unlink_inner_def put_or_def put_def get_def Let_def relink_def fun_eq_iff)
  qed (use m assms in \<open>auto simp: sound_delete_def unlink_inner_def put_or_def put_def get_def Let_def relink_def fun_eq_iff\<close>)
qed

lemma relink_keeps:
  assumes "x \<noteq> a" "tb_heap t x = Some n" "\<And>m. h (f m) = h m" "\<And>m. h (g m) = h m"
  shows "h (the (relink a p f q g t x)) = h n"
  using assms by (simp add: relink_def)

lemma relink_dom: "relink a p f q g t x \<noteq> None \<longleftrightarrow> x \<noteq> a \<and> tb_heap t x \<noteq> None"
  by (simp add: relink_def)


lemma delete_single_rep:
  assumes "table_rep t gs" "gs = gs1 @ [a] # gs2" "tb_heap t a = Some n"
  shows "\<exists>t'. sound_delete a rm t = Inr t' \<and> table_rep t' (gs1 @ gs2)
    \<and> (\<forall>x \<in> set (concat (gs1 @ gs2)). fld nd_path t' x = fld nd_path t x)"
proof -
  note r = table_repD [OF assms(1)]
  let ?gs = "gs1 @ gs2"
  define p where "p = last_or (map hd gs1) None"
  define q where "q = head_or (map hd gs2) None"
  have heads: "map hd gs = map hd gs1 @ a # map hd gs2" using assms(2) by simp
  have dh: "distinct (map hd gs1 @ a # map hd gs2)" using heads_distinct [OF r(1,2)] unfolding heads .
  have hin: "set (map hd gs1) \<union> set (map hd gs2) \<subseteq> set (concat gs)"
    using heads_in [OF r(2)] unfolding heads by auto
  have pq: "x \<in> set (map hd gs1)" if "p = Some x" for x using that by (auto simp: p_def last_or_def split: if_splits) (metis last_in_set list.map_disc_iff list.set_map)
  have qq: "x \<in> set (map hd gs2)" if "q = Some x" for x using that by (cases gs2) (auto simp: q_def)
  have n: "nd_prev n = None" "nd_next n = None" "nd_list_prev n = p" "nd_list n = q"
    using r(7) [of "[a]"] assms(2,3) list_of [of t gs1 a "[]" gs2 n] assms(1) by (auto simp: p_def q_def)
  have disj: "a \<notin> set (map hd gs1)" "a \<notin> set (map hd gs2)" "set (map hd gs1) \<inter> set (map hd gs2) = {}"
    using dh by auto
  have "p \<noteq> Some a" using pq [of a] disj(1) by blast
  moreover have "q \<noteq> Some a" using qq [of a] disj(2) by blast
  moreover have "p = None \<or> p \<noteq> q"
  proof (cases p)
    case (Some x)
    then show ?thesis using pq [of x] qq [of x] disj(3) by blast
  qed simp
  ultimately have ne: "p \<noteq> Some a" "q \<noteq> Some a" "p = None \<or> p \<noteq> q" by blast+
  have def: "tb_heap t x \<noteq> None" if "p = Some x \<or> q = Some x" for x
    using that pq qq hin r(3) [of x] by blast
  obtain u where u: "sound_delete a rm t = Inr u"
    "tb_heap u = relink a p (\<lambda>m. m\<lparr>nd_list := q\<rparr>) q (\<lambda>m. m\<lparr>nd_list_prev := p\<rparr>) t"
    "tb_hash u = (tb_hash t)(nd_key n := None)" "tb_sounds u = (if p = None then q else tb_sounds t)" "tb_fresh u = tb_fresh t"
    using delete_single_result [OF assms(3) n(2,1,3,4) ne def] by blast
  have elems: "set (concat gs) = insert a (set (concat ?gs))" "a \<notin> set (concat ?gs)" using assms(2) r(1) by auto
  have keep: "h (the (tb_heap u x)) = h (the (tb_heap t x))"
    if x: "x \<in> set (concat ?gs)" "\<And>m v. h (m\<lparr>nd_list := v\<rparr>) = h m" "\<And>m v. h (m\<lparr>nd_list_prev := v\<rparr>) = h m"
    for h :: "sound_node \<Rightarrow> 'z" and x
  proof -
    have "x \<noteq> a" "x \<in> set (concat gs)" using x(1) elems by auto
    moreover then obtain m where "tb_heap t x = Some m" using r(3) by blast
    ultimately show ?thesis using x(2,3) unfolding u(2) by (subst relink_keeps) auto
  qed
  have rep: "table_rep u ?gs"
    unfolding table_rep_def
  proof (intro conjI)
    have sub: "set ?gs \<subseteq> set gs" using assms(2) by auto
    show "distinct (concat ?gs)" "[] \<notin> set ?gs" using r(1,2) assms(2) by auto
    show "\<forall>x. tb_heap u x \<noteq> None \<longleftrightarrow> x \<in> set (concat ?gs)"
      unfolding u(2) relink_dom using r(3) elems by auto
    show "\<forall>x \<in> set (concat ?gs). x < tb_fresh u" unfolding u(5) using r(4) elems(1) by blast
    show "tb_sounds u = head_or (map hd ?gs) None" using r(5) assms(2) by (cases gs1) (auto simp: u(4) p_def q_def last_or_def)
    have "seg (fld nd_list u) (fld nd_list_prev u) None (map hd gs1 @ map hd gs2) None"
    proof (rule seg_remove [OF r(6) [unfolded heads] dh])
      have at: "tb_heap u x = relink a p (\<lambda>m. m\<lparr>nd_list := q\<rparr>) q (\<lambda>m. m\<lparr>nd_list_prev := p\<rparr>) t x" "x \<noteq> a" "tb_heap t x \<noteq> None"
        if "x \<in> set (map hd gs1) \<union> set (map hd gs2)" for x
        using u(2) that dh hin r(3) [of x] by (auto dest: subsetD)
      fix y
      { assume y: "y \<in> set (map hd gs1)"
        then have yq: "q \<noteq> Some y" using qq dh by auto
        have yp: "p = Some y \<longleftrightarrow> y = last (map hd gs1)" using y by (auto simp: p_def last_or_def)
        obtain m where "tb_heap t y = Some m" using at(3) [of y] y by blast
        then show "fld nd_list u y = (if y = last (map hd gs1) then head_or (map hd gs2) None else fld nd_list t y)"
          "fld nd_list_prev u y = fld nd_list_prev t y"
          using at(1,2) [of y] y yq yp by (auto simp: relink_def q_def) }
      { assume y: "y \<in> set (map hd gs2)"
        then have yp: "p \<noteq> Some y" using pq dh by auto
        have yq: "q = Some y \<longleftrightarrow> y = hd (map hd gs2)" using y by (cases gs2) (auto simp: q_def)
        obtain m where "tb_heap t y = Some m" using at(3) [of y] y by blast
        then show "fld nd_list_prev u y = (if y = hd (map hd gs2) then last_or (map hd gs1) None else fld nd_list_prev t y)"
          "fld nd_list u y = fld nd_list t y"
          using at(1,2) [of y] y yq yp by (auto simp: relink_def p_def) }
    qed
    then show "seg (fld nd_list u) (fld nd_list_prev u) None (map hd ?gs) None" by simp
    show "\<forall>g \<in> set ?gs. seg (fld nd_next u) (fld nd_prev u) None g None"
    proof
      fix g assume g: "g \<in> set ?gs"
      have "seg (fld nd_next u) (fld nd_prev u) None g None = seg (fld nd_next t) (fld nd_prev t) None g None"
        by (intro seg_cong conjI keep) (use g in auto)
      then show "seg (fld nd_next u) (fld nd_prev u) None g None" using r(7) g sub by auto
    qed
    have key: "fld nd_key u x = fld nd_key t x" if "x \<in> set (concat ?gs)" for x using keep [OF that, of nd_key] by simp
    have ka: "fld nd_key t x \<noteq> nd_key n" if x: "x \<in> set (concat ?gs)" for x
    proof
      assume k: "fld nd_key t x = nd_key n"
      obtain g where g: "g \<in> set ?gs" "x \<in> set g" using x by auto
      have "tb_hash t (fld nd_key t x) = Some (hd g)" using r(8) g sub by blast
      moreover have "tb_hash t (nd_key n) = Some a" using r(8) [of "[a]" a] assms(2,3) by simp
      ultimately have "hd g = a" using k by simp
      moreover have "hd g \<in> set g" using g by (metis hd_in_set list.set(1) empty_iff)
      ultimately show False using g(1) elems(2) by auto
    qed
    show "\<forall>g \<in> set ?gs. \<forall>x \<in> set g. tb_hash u (fld nd_key u x) = Some (hd g)"
    proof (intro ballI)
      fix g x assume g: "g \<in> set ?gs" "x \<in> set g"
      then have x: "x \<in> set (concat ?gs)" by auto
      show "tb_hash u (fld nd_key u x) = Some (hd g)"
        using r(8) [of g x] g sub key [OF x] ka [OF x] u(3) by auto
    qed
    show "\<forall>k h. tb_hash u k = Some h \<longrightarrow> h \<in> set (map hd ?gs) \<and> fld nd_key u h = k"
    proof (intro allI impI)
      fix k h assume "tb_hash u k = Some h"
      then have k: "tb_hash t k = Some h" "k \<noteq> nd_key n" unfolding u(3) by (auto split: if_splits)
      then have h: "h \<in> set (map hd gs)" "fld nd_key t h = k" using r(9) by blast+
      then have "h \<noteq> a" using k(2) assms(3) by auto
      then have h': "h \<in> set (map hd ?gs)" using h(1) unfolding heads by auto
      moreover have "h \<in> set (concat ?gs)" using h' heads_in [of ?gs] r(2) assms(2) by auto
      ultimately show "h \<in> set (map hd ?gs) \<and> fld nd_key u h = k" using key h(2) by simp
    qed
    have path: "fld nd_path u x = fld nd_path t x" if "x \<in> set (concat ?gs)" for x using keep [OF that, of nd_path] by simp
    show "\<forall>x \<in> set (concat ?gs). fld nd_key u x = xhash_name (fld nd_path u x)"
    proof
      fix x assume x: "x \<in> set (concat ?gs)"
      then have "x \<in> set (concat gs)" unfolding elems(1) by blast
      then show "fld nd_key u x = xhash_name (fld nd_path u x)" using key [OF x] path [OF x] r(10) by simp
    qed
    have "inj_on (fld nd_path t) (set (concat ?gs))" using r(11) elems(1) by (metis inj_on_subset subset_insertI)
    then show "inj_on (fld nd_path u) (set (concat ?gs))"
      using path by (subst inj_on_cong [where g = "fld nd_path t"]) blast+
  qed
  have "fld nd_path u x = fld nd_path t x" if "x \<in> set (concat ?gs)" for x using keep [OF that, of nd_path] by simp
  then show ?thesis using u(1) rep by blast
qed


lemma delete_inner_rep:
  assumes "table_rep t gs" "gs = gs1 @ (g1 @ a # g2) # gs2" "g1 \<noteq> []" "tb_heap t a = Some n"
  shows "\<exists>t'. sound_delete a rm t = Inr t' \<and> table_rep t' (gs1 @ (g1 @ g2) # gs2)
    \<and> (\<forall>x \<in> set (concat (gs1 @ (g1 @ g2) # gs2)). fld nd_path t' x = fld nd_path t x)"
proof -
  note r = table_repD [OF assms(1)]
  let ?g = "g1 @ a # g2" and ?gs = "gs1 @ (g1 @ g2) # gs2"
  let ?x = "last g1"
  define q where "q = head_or g2 None"
  have g: "?g \<in> set gs" using assms(2) by simp
  have dg: "distinct ?g" using r(1) unfolding assms(2) concat_append concat.simps distinct_append by blast
  have seg: "seg (fld nd_next t) (fld nd_prev t) None ?g None" using r(7) g by blast
  have n: "nd_prev n = Some ?x" "nd_next n = q"
    using seg assms(3,4) by (auto simp: seg_append q_def last_or_def)
  have qq: "y \<in> set g2" if "q = Some y" for y using that by (cases g2) (auto simp: q_def)
  have x: "?x \<in> set g1" using assms(3) by simp
  have heap: "tb_heap t y \<noteq> None" if "y \<in> set ?g" for y
  proof -
    have "y \<in> set (concat gs)" unfolding assms(2) using that by auto
    then show ?thesis using r(3) by blast
  qed
  have ne: "?x \<noteq> a" "q \<noteq> Some a" "q \<noteq> Some ?x" using x qq dg by auto
  have hx: "tb_heap t ?x \<noteq> None" "\<And>y. q = Some y \<Longrightarrow> tb_heap t y \<noteq> None" using heap x qq by auto
  obtain u where u: "sound_delete a rm t = Inr u"
    "tb_heap u = relink a (Some ?x) (\<lambda>m. m\<lparr>nd_next := q\<rparr>) q (\<lambda>m. m\<lparr>nd_prev := Some ?x\<rparr>) t"
    "tb_hash u = tb_hash t" "tb_sounds u = tb_sounds t" "tb_fresh u = tb_fresh t"
    using delete_inner_result [OF assms(4) n ne hx] by blast
  have elems: "set (concat gs) = insert a (set (concat ?gs))" "a \<notin> set (concat ?gs)" using assms(2) r(1) by auto
  have keep: "h (the (tb_heap u y)) = h (the (tb_heap t y))"
    if y: "y \<in> set (concat ?gs)" "\<And>m v. h (m\<lparr>nd_next := v\<rparr>) = h m" "\<And>m v. h (m\<lparr>nd_prev := v\<rparr>) = h m"
    for h :: "sound_node \<Rightarrow> 'z" and y
  proof -
    have "y \<noteq> a" "y \<in> set (concat gs)" using y(1) elems by auto
    moreover then obtain m where "tb_heap t y = Some m" using r(3) by blast
    ultimately show ?thesis using y(2,3) unfolding u(2) by (subst relink_keeps) auto
  qed
  have heads: "map hd ?gs = map hd gs" using assms(2,3) by simp
  have hin: "set (map hd gs) \<subseteq> set (concat ?gs)"
    using heads_in [of ?gs] r(2) assms(2,3) unfolding heads [symmetric] by auto
  have key: "fld nd_key u y = fld nd_key t y" if "y \<in> set (concat ?gs)" for y using keep [OF that, of nd_key] by simp
  have path: "fld nd_path u y = fld nd_path t y" if "y \<in> set (concat ?gs)" for y using keep [OF that, of nd_path] by simp
  have others: "g' \<in> set gs \<and> set g' \<inter> set ?g = {}" if g': "g' \<in> set gs1 \<union> set gs2" for g'
    using g' assms(2) r(1) by auto
  have "table_rep u ?gs"
    unfolding table_rep_def
  proof (intro conjI)
    show "distinct (concat ?gs)" "[] \<notin> set ?gs" using r(1,2) assms(2,3) by auto
    show "\<forall>y. tb_heap u y \<noteq> None \<longleftrightarrow> y \<in> set (concat ?gs)"
      unfolding u(2) relink_dom using r(3) elems by auto
    show "\<forall>y \<in> set (concat ?gs). y < tb_fresh u" unfolding u(5) using r(4) elems(1) by blast
    show "tb_sounds u = head_or (map hd ?gs) None" unfolding heads u(4) by (rule r(5))
    have "seg (fld nd_list u) (fld nd_list_prev u) None (map hd gs) None
        = seg (fld nd_list t) (fld nd_list_prev t) None (map hd gs) None"
      by (intro seg_cong conjI keep) (use hin in auto)
    then show "seg (fld nd_list u) (fld nd_list_prev u) None (map hd ?gs) None" unfolding heads using r(6) by simp
    have shrunk: "seg (fld nd_next u) (fld nd_prev u) None (g1 @ g2) None"
    proof (rule seg_remove [OF seg dg])
      have at: "tb_heap u y = relink a (Some ?x) (\<lambda>m. m\<lparr>nd_next := q\<rparr>) q (\<lambda>m. m\<lparr>nd_prev := Some ?x\<rparr>) t y" "y \<noteq> a"
        if "y \<in> set g1 \<union> set g2" for y using u(2) that dg by auto
      fix y
      { assume y: "y \<in> set g1"
        then have yq: "q \<noteq> Some y" using qq dg by auto
        obtain m where "tb_heap t y = Some m" using heap [of y] y by auto
        then show "fld nd_next u y = (if y = last g1 then head_or g2 None else fld nd_next t y)"
          "fld nd_prev u y = fld nd_prev t y"
          using at [of y] y yq by (auto simp: relink_def q_def) }
      { assume y: "y \<in> set g2"
        then have yx: "y \<noteq> ?x" using x dg by auto
        have yq: "q = Some y \<longleftrightarrow> y = hd g2" using y by (cases g2) (auto simp: q_def)
        obtain m where "tb_heap t y = Some m" using heap [of y] y by auto
        then show "fld nd_prev u y = (if y = hd g2 then last_or g1 None else fld nd_prev t y)"
          "fld nd_next u y = fld nd_next t y"
          using at [of y] y yq yx assms(3) by (auto simp: relink_def last_or_def) }
    qed
    show "\<forall>g' \<in> set ?gs. seg (fld nd_next u) (fld nd_prev u) None g' None"
    proof
      fix g' assume "g' \<in> set ?gs"
      moreover have "seg (fld nd_next u) (fld nd_prev u) None g' None" if g': "g' \<in> set gs1 \<union> set gs2"
      proof -
        have "fld nd_next u y = fld nd_next t y \<and> fld nd_prev u y = fld nd_prev t y" if y: "y \<in> set g'" for y
        proof -
          have "y \<noteq> a" "Some ?x \<noteq> Some y" "q \<noteq> Some y" using others [OF g'] y x qq by auto
          then show ?thesis unfolding u(2) relink_def by simp
        qed
        then have "seg (fld nd_next u) (fld nd_prev u) None g' None = seg (fld nd_next t) (fld nd_prev t) None g' None"
          by (rule seg_cong)
        then show ?thesis using r(7) others [OF g'] by blast
      qed
      ultimately show "seg (fld nd_next u) (fld nd_prev u) None g' None" using shrunk by auto
    qed
    show "\<forall>g' \<in> set ?gs. \<forall>y \<in> set g'. tb_hash u (fld nd_key u y) = Some (hd g')"
    proof (intro ballI)
      fix g' y assume g': "g' \<in> set ?gs" "y \<in> set g'"
      then have "y \<in> set (concat ?gs)" by auto
      then have k: "fld nd_key u y = fld nd_key t y" by (rule key)
      show "tb_hash u (fld nd_key u y) = Some (hd g')"
      proof (cases "g' = g1 @ g2")
        case True
        then show ?thesis using r(8) [OF g, of y] g'(2) assms(3) unfolding k u(3) by auto
      next
        case False
        then show ?thesis using r(8) [of g' y] g' assms(2) unfolding k u(3) by auto
      qed
    qed
    show "\<forall>k h. tb_hash u k = Some h \<longrightarrow> h \<in> set (map hd ?gs) \<and> fld nd_key u h = k"
    proof (intro allI impI)
      fix k h assume "tb_hash u k = Some h"
      then have "h \<in> set (map hd gs)" "fld nd_key t h = k" using r(9) [of k h] u(3) by simp_all
      then show "h \<in> set (map hd ?gs) \<and> fld nd_key u h = k" unfolding heads using key [of h] hin by blast
    qed
    show "\<forall>y \<in> set (concat ?gs). fld nd_key u y = xhash_name (fld nd_path u y)"
    proof
      fix y assume y: "y \<in> set (concat ?gs)"
      then have "y \<in> set (concat gs)" unfolding elems(1) by blast
      then show "fld nd_key u y = xhash_name (fld nd_path u y)" using key [OF y] path [OF y] r(10) by simp
    qed
    have "inj_on (fld nd_path t) (set (concat ?gs))" using r(11) elems(1) by (metis inj_on_subset subset_insertI)
    then show "inj_on (fld nd_path u) (set (concat ?gs))"
      using path by (subst inj_on_cong [where g = "fld nd_path t"]) blast+
  qed
  then show ?thesis using u(1) path by blast
qed

text \<open>Deletion of a sound that is alone with its key, or not the first with it.\<close>

lemma sound_delete_refines:
  assumes "table_ok t" "tb_heap t a = Some n" "nd_prev n \<noteq> None \<or> nd_next n = None"
  shows "\<exists>t'. sound_delete a rm t = Inr t' \<and> table_ok t' \<and> paths t' = paths t - {nd_path n}"
proof -
  obtain gs where rep: "table_rep t gs" using assms(1) by (auto simp: table_ok_def)
  obtain gs1 g1 g2 gs2 where gs: "gs = gs1 @ (g1 @ a # g2) # gs2" "nd_prev n = last_or g1 None" "nd_next n = head_or g2 None"
    using group_of [OF rep assms(2)] by blast
  have "\<exists>t' gs'. sound_delete a rm t = Inr t' \<and> table_rep t' gs' \<and> set (concat gs') = set (concat gs) - {a}
      \<and> (\<forall>x \<in> set (concat gs'). fld nd_path t' x = fld nd_path t x)"
  proof (cases "g1 = []")
    case True
    then have "g2 = []" using assms(3) gs(2,3) by (cases g2) auto
    then show ?thesis
      using delete_single_rep [OF rep _ assms(2), of gs1 gs2 rm] gs(1) True table_repD(1) [OF rep] by fastforce
  next
    case False
    then show ?thesis
      using delete_inner_rep [OF rep gs(1) False assms(2), of rm] gs(1) table_repD(1) [OF rep] by fastforce
  qed
  then obtain t' gs' where t': "sound_delete a rm t = Inr t'" "table_rep t' gs'"
    "set (concat gs') = set (concat gs) - {a}" "\<And>x. x \<in> set (concat gs') \<Longrightarrow> fld nd_path t' x = fld nd_path t x"
    by blast
  have a: "a \<in> set (concat gs)" using gs(1) by simp
  have "paths t' = fld nd_path t ` (set (concat gs) - {a})"
    unfolding paths_rep [OF t'(2)] using t'(3,4) by (auto simp: image_iff)
  also have "\<dots> = paths t - {nd_path n}"
    unfolding paths_rep [OF rep] using inj_on_image_set_diff [OF table_repD(11) [OF rep], of "set (concat gs)" "{a}"] a assms(2)
    by simp
  finally show ?thesis using t' by (auto simp: table_ok_def)
qed

text \<open>C11.  The table refines the set of its paths: from a well-formed table \<open>sound_insert\<close>
  returns a sound with the path, the one that was there or a new one, adds nothing else
  and keeps the table well formed; \<open>sound_delete\<close> of a sound that is alone with its key
  or not the first with it removes exactly its path and keeps the table well formed.\<close>

theorem table_refines_paths:
  assumes "table_ok t"
  shows "(\<exists>a n t'. sound_insert False path status typ t = Inr (Some a, t') \<and> table_ok t'
      \<and> paths t' = insert path (paths t) \<and> tb_heap t' a = Some n \<and> nd_path n = path)
    \<and> (\<forall>a n. tb_heap t a = Some n \<and> (nd_prev n \<noteq> None \<or> nd_next n = None) \<longrightarrow>
         (\<exists>t'. sound_delete a rm t = Inr t' \<and> table_ok t' \<and> paths t' = paths t - {nd_path n}))"
  using sound_insert_refines [OF assms] sound_delete_refines [OF assms] by blast

definition one_sound :: table where
  "one_sound = snd (projr (sound_insert False (bytes_of ''/s/a.au'') SOUND_READY INPUT_FILE empty_table))"

definition two_sounds :: table where
  "two_sounds = snd (projr (sound_insert False (bytes_of ''/c/a.wav'') SOUND_READY INPUT_FILE one_sound))"

lemma two_sounds_ok: "table_ok two_sounds"
proof -
  have "table_ok one_sound"
    unfolding one_sound_def
    using sound_insert_refines [OF empty_table_ok, of "bytes_of ''/s/a.au''" SOUND_READY INPUT_FILE] by force
  then show ?thesis
    unfolding two_sounds_def
    using sound_insert_refines [of one_sound "bytes_of ''/c/a.wav''" SOUND_READY INPUT_FILE] by force
qed

lemma two_sounds_nodes:
  "\<exists>n m. tb_heap two_sounds 0 = Some n \<and> nd_prev n = None \<and> nd_next n = Some 1
     \<and> tb_heap two_sounds 1 = Some m \<and> nd_prev m = Some 0 \<and> nd_path m = bytes_of ''/c/a.wav''"
  by (simp add: two_sounds_def one_sound_def sound_insert_def empty_table_def new_node_def xhash_name_def
      base_name_def strip_extension_def bytes_of_def put_or_def put_def get_def Let_def)

theorem table_refines_paths_witness:
  "\<exists>t'. sound_delete 1 False two_sounds = Inr t' \<and> table_ok t' \<and> paths t' = paths two_sounds - {bytes_of ''/c/a.wav''}"
  using table_refines_paths [OF two_sounds_ok, where rm = False] two_sounds_nodes
  by (metis option.distinct(1))

lemma put_or_heap:
  assumes "\<And>x. p = Some x \<Longrightarrow> tb_heap t x \<noteq> None" "\<And>t. tb_heap (g t) = tb_heap t"
  shows "\<exists>t1. put_or g f p t = Inr t1
    \<and> tb_heap t1 = (\<lambda>x. if p = Some x then map_option f (tb_heap t x) else tb_heap t x)"
proof (cases p)
  case (Some x)
  then obtain n where "tb_heap t x = Some n" using assms(1) by blast
  then show ?thesis using Some by (auto simp: put_or_def put_Inr fun_eq_iff)
qed (simp add: put_or_def assms(2))

lemma delete_first_then_next:
  assumes "tb_heap t a = Some n" "nd_prev n = None" "nd_next n = Some b" "tb_heap t b = Some nb" "nd_prev nb = Some a" "a \<noteq> b"
    "\<And>x. nd_list_prev n = Some x \<or> nd_list n = Some x \<Longrightarrow> tb_heap t x \<noteq> None"
    "nd_list_prev n \<noteq> Some b" "nd_list n \<noteq> Some b"
  shows "\<exists>t'. sound_delete a rm t = Inr t' \<and> sound_delete b rm' t' = Inl Dangling"
proof -
  obtain t1 where t1: "put_or (\<lambda>t. t\<lparr>tb_sounds := nd_next n\<rparr>) (\<lambda>m. m\<lparr>nd_list := nd_next n\<rparr>) (nd_list_prev n) t = Inr t1"
    "tb_heap t1 = (\<lambda>x. if nd_list_prev n = Some x then map_option (\<lambda>m. m\<lparr>nd_list := nd_next n\<rparr>) (tb_heap t x) else tb_heap t x)"
    using put_or_heap [of "nd_list_prev n" t "\<lambda>t. t\<lparr>tb_sounds := nd_next n\<rparr>"] assms(7) by auto
  have "tb_heap t1 x \<noteq> None" if "nd_list n = Some x" for x using assms(7) [of x] that t1(2) by simp
  then obtain t2 where t2: "put_or (\<lambda>t. t) (\<lambda>m. m\<lparr>nd_list_prev := nd_next n\<rparr>) (nd_list n) t1 = Inr t2"
    "tb_heap t2 = (\<lambda>x. if nd_list n = Some x then map_option (\<lambda>m. m\<lparr>nd_list_prev := nd_next n\<rparr>) (tb_heap t1 x) else tb_heap t1 x)"
    using put_or_heap [of "nd_list n" t1 "\<lambda>t. t"] by blast
  have b: "tb_heap t2 b = Some nb" using assms(4,8,9) t1(2) t2(2) by simp
  have "tb_heap t2 a \<noteq> None" using assms(1) t1(2) t2(2) by simp
  then obtain m where a: "tb_heap t2 a = Some m" by blast
  obtain t4 where t4: "unlink_first b n t = Inr t4" "tb_heap t4 b = Some (nb\<lparr>nd_list := nd_list n, nd_list_prev := nd_list_prev n\<rparr>)"
    "tb_heap t4 a = Some m"
    using t1(1) t2(1) b a assms(6) by (simp add: unlink_first_def put_def get_def)
  obtain t5 where t5: "sound_delete a rm t = Inr t5" "tb_heap t5 = (tb_heap t4)(a := None)"
    using assms(1-3) t4(1,3) by (simp add: sound_delete_def get_def Let_def)
  have "sound_delete b rm' t5 = Inl Dangling"
    using t5(2) t4(2) assms(5,6) by (simp add: sound_delete_def get_def unlink_inner_def put_def)
  then show ?thesis using t5(1) by blast
qed

text \<open>C28.  Deleting the first of several sounds with a key leaves the \<open>prev\<close> pointer of the next
  one to the freed sound: deleting that one afterwards uses freed memory.\<close>

theorem delete_first_dangles:
  assumes "table_ok t" "tb_heap t a = Some n" "nd_prev n = None" "nd_next n = Some b"
  shows "\<exists>t'. sound_delete a rm t = Inr t' \<and> sound_delete b rm' t' = Inl Dangling"
proof -
  obtain gs where rep: "table_rep t gs" using assms(1) by (auto simp: table_ok_def)
  note r = table_repD [OF rep]
  obtain gs1 g1 g2 gs2 where gs: "gs = gs1 @ (g1 @ a # g2) # gs2" "nd_prev n = last_or g1 None" "nd_next n = head_or g2 None"
    using group_of [OF rep assms(2)] by blast
  have "g1 = []" using assms(3) gs(2) by (auto simp: last_or_def split: if_splits)
  moreover obtain g3 where "g2 = b # g3" using assms(4) gs(3) by (cases g2) auto
  ultimately have g: "gs = gs1 @ (a # b # g3) # gs2" using gs(1) by simp
  define p where "p = nd_list_prev n"
  define q where "q = nd_list n"
  have pq: "p = last_or (map hd gs1) None" "q = head_or (map hd gs2) None"
    using list_of [of t gs1 a "b # g3" gs2 n] rep assms(2) g by (auto simp: p_def q_def)
  have gne: "[] \<notin> set gs1" "[] \<notin> set gs2" using r(2) g by auto
  have P: "x \<in> set (concat gs1)" if "p = Some x" for x
  proof -
    have "x \<in> set (map hd gs1)" using that last_in_set [of "map hd gs1"] by (auto simp: pq(1) last_or_def split: if_splits)
    then show ?thesis using heads_in [OF gne(1)] by blast
  qed
  have Q: "x \<in> set (concat gs2)" if "q = Some x" for x
  proof -
    have "x \<in> set (map hd gs2)" using that by (cases gs2) (auto simp: pq(2))
    then show ?thesis using heads_in [OF gne(2)] by blast
  qed
  have d: "distinct (concat gs1 @ a # b # g3 @ concat gs2)" using r(1) g by simp
  have pne: "p \<noteq> Some a" "p \<noteq> Some b" "q \<noteq> Some a" "q \<noteq> Some b" "p = None \<or> p \<noteq> q" "a \<noteq> b"
  proof -
    have disj: "set (concat gs1) \<inter> set (concat gs2) = {}" "a \<notin> set (concat gs1)" "b \<notin> set (concat gs1)"
      "a \<notin> set (concat gs2)" "b \<notin> set (concat gs2)" "a \<noteq> b" using d by auto
    show "p \<noteq> Some a" "p \<noteq> Some b" using P [of a] P [of b] disj by blast+
    show "q \<noteq> Some a" "q \<noteq> Some b" using Q [of a] Q [of b] disj by blast+
    show "p = None \<or> p \<noteq> q"
    proof (cases p)
      case (Some x)
      then show ?thesis using P [of x] Q [of x] disj(1) by blast
    qed simp
    show "a \<noteq> b" by (rule disj(6))
  qed
  have heap: "tb_heap t x \<noteq> None" if "p = Some x \<or> q = Some x \<or> x = b" for x
    using that P Q r(3) [of x] g by auto
  obtain nb where nb: "tb_heap t b = Some nb" using heap [of b] by auto
  have "seg (fld nd_next t) (fld nd_prev t) None (a # b # g3) None"
    by (rule r(7)) (simp add: g)
  then have "nd_prev nb = Some a" using nb by simp
  then show ?thesis
    using delete_first_then_next [OF assms(2-4) nb] pne heap unfolding p_def q_def by blast
qed


theorem delete_first_dangles_witness:
  "\<exists>t'. sound_delete 0 False two_sounds = Inr t' \<and> sound_delete 1 False t' = Inl Dangling"
  using delete_first_dangles [OF two_sounds_ok] two_sounds_nodes by blast

end
