(* ===== verification/Events.thy ===== *)
theory Events
  imports Rptp Misc Spool
begin

text \<open>
  Connections of the daemon and their event queues (\<open>src/rplayd/connection.c\<close>): clients
  that send commands, and connections to other servers that find and fetch sounds.
  The queue of a connection is a list (\<open>ep\<close> is its end: an event put in front or before
  another is always a single one).  Calls into other components are recorded in order;
  results of system calls are inputs.  The commands themselves are a parameter here.
\<close>

section \<open>Data\<close>

datatype net_crash = NullCall | Exit | Overrun | SharedBuffer

type_synonym 'a net_result = "net_crash + 'a"

datatype event_type =
    READ_COMMAND | CONNECT | READ_CONNECT_REPLY | WRITE_FIND | READ_FIND_REPLY | WRITE_GET | READ_GET_REPLY
  | READ_SOUND | WRITE | WRITE_SOUND | WRITE_TIMEOUT | NOTIFY | READ_FLOW | WAIT_FLOW | PIPE_FLOW
  | WRITE_MONITOR | WAIT_MONITOR

text \<open>\<open>ev_text\<close> is the memory from \<open>start\<close>, \<open>ev_pos\<close> the position of \<open>ptr\<close> in it,
  \<open>ev_more\<close> the buffers after the current one.  \<open>ev_kept\<close> tells that the buffers are permanent ones
  (\<open>BUFFER_KEEP\<close>), which other events have too; writing into them is not modelled further.\<close>

record event =
  ev_type :: event_type
  ev_text :: string
  ev_pos :: nat
  ev_more :: "string list"
  ev_nbytes :: int
  ev_nleft :: int
  ev_byte_offset :: int
  ev_sound :: "nat option"
  ev_fd :: int
  ev_nconnects :: int
  ev_time :: int
  ev_success :: bool
  ev_id :: int
  ev_wait_mask :: "32 word"
  ev_kept :: bool

datatype connection_type = CONNECTION_CLIENT | CONNECTION_SERVER

record connection =
  cn_addr :: nat
  cn_type :: connection_type
  cn_fd :: int
  cn_events :: "event list"
  cn_server :: nat            \<comment> \<open>position in the list of servers\<close>
  cn_time :: int
  cn_application :: "string option"
  cn_notify_mask :: "32 word"
  cn_notify_id :: int
  cn_level_rate :: rat        \<comment> \<open>\<open>notify_rate[NOTIFY_RATE_LEVEL]\<close>\<close>
  cn_level_next :: rat
  cn_position_rate :: rat
  cn_position_next :: rat
  cn_monitor :: bool

text \<open>Calls out of the component.\<close>

datatype net_call =
    Ping nat | ConnectTo int nat | CloseFd int | SpoolRemove nat | SoundDelete nat | SoundMap nat
  | SpoolReady nat | CacheCreate string int | SetPath nat string | WriteFile int string | Sent nat string
  | Received int string | NotifyFlow int | FlowInsert int string | SpoolDone int

record net =
  nt_conns :: "connection list"
  nt_read :: "int set"         \<comment> \<open>read_mask\<close>
  nt_write :: "int set"        \<comment> \<open>write_mask\<close>
  nt_clients :: int            \<comment> \<open>nconnections\<close>
  nt_monitors :: int
  nt_want_level :: int
  nt_fresh :: nat
  nt_servers :: nat            \<comment> \<open>number of servers; the next of \<open>i\<close> is \<open>i + 1\<close>\<close>
  nt_state :: "int \<times> int \<times> int"   \<comment> \<open>the state last notified\<close>
  nt_name :: "nat \<Rightarrow> string"   \<comment> \<open>names of sounds\<close>
  nt_calls :: "net_call list"

text \<open>Results of connecting to another server.\<close>

record net_env =
  ne_now :: int
  ne_socket :: int             \<comment> \<open>the descriptor socket returns\<close>

abbreviation "RPTP_PING_DELAY \<equiv> (5 :: int)"
abbreviation "RPTP_CONNECT_ATTEMPTS \<equiv> (3 :: int)"
abbreviation "NOTIFY_LEVEL \<equiv> (1024 :: 32 word)"

unbundle bit_operations_syntax

section \<open>Events\<close>

definition blank_event :: "event_type \<Rightarrow> event" where
  "blank_event t = \<lparr>ev_type = t, ev_text = [], ev_pos = 0, ev_more = [], ev_nbytes = 0, ev_nleft = 0,
     ev_byte_offset = 0, ev_sound = None, ev_fd = -1, ev_nconnects = 0, ev_time = 0, ev_success = False,
     ev_id = 0, ev_wait_mask = 0, ev_kept = False\<rparr>"

text \<open>\<open>event_create\<close>, by the kind of arguments: events that read a line, that write text,
  and the others.  The event \<open>WRITE_SOUND\<close> needs the first buffer of an open sound.\<close>

definition line_event :: "event_type \<Rightarrow> nat option \<Rightarrow> event" where
  "line_event t x = (blank_event t)\<lparr>ev_nleft := int RPTP_MAX_LINE, ev_nbytes := int RPTP_MAX_LINE, ev_sound := x\<rparr>"

definition text_event :: "event_type \<Rightarrow> string \<Rightarrow> string list \<Rightarrow> nat option \<Rightarrow> event" where
  "text_event t s bufs x = (blank_event t)\<lparr>ev_text := s, ev_more := bufs, ev_nleft := int (length s),
     ev_nbytes := int (length s), ev_sound := x\<rparr>"

definition read_sound_event :: "int \<Rightarrow> int \<Rightarrow> nat \<Rightarrow> event" where
  "read_sound_event fd n x = (blank_event READ_SOUND)\<lparr>ev_fd := fd, ev_nbytes := n, ev_nleft := n, ev_sound := Some x\<rparr>"

definition write_sound_event :: "nat \<Rightarrow> int \<Rightarrow> string option \<Rightarrow> event option" where
  "write_sound_event x size1 first =
     map_option (\<lambda>s. (text_event WRITE_SOUND s [] (Some x))\<lparr>ev_nbytes := size1\<rparr>) first"

definition read_flow_event :: "int \<Rightarrow> int \<Rightarrow> event" where
  "read_flow_event i n = (let k = (if n = 0 then -1 else n)
     in (blank_event READ_FLOW)\<lparr>ev_id := i, ev_nbytes := k, ev_nleft := k\<rparr>)"

definition pipe_flow_event :: "int \<Rightarrow> nat \<Rightarrow> event" where
  "pipe_flow_event i x = (blank_event PIPE_FLOW)\<lparr>ev_id := i, ev_sound := Some x\<rparr>"

section \<open>Connections and masks\<close>

definition with_conn :: "nat \<Rightarrow> (connection \<Rightarrow> net \<Rightarrow> 'a net_result) \<Rightarrow> net \<Rightarrow> 'a net_result" where
  "with_conn a f n =
     (case find (\<lambda>c. cn_addr c = a) (nt_conns n) of None \<Rightarrow> Inl NullCall | Some c \<Rightarrow> f c n)"

definition upd_conn :: "nat \<Rightarrow> (connection \<Rightarrow> connection) \<Rightarrow> net \<Rightarrow> net" where
  "upd_conn a g n = n\<lparr>nt_conns := map (\<lambda>c. if cn_addr c = a then g c else c) (nt_conns n)\<rparr>"

definition call :: "net_call \<Rightarrow> net \<Rightarrow> net" where
  "call k n = n\<lparr>nt_calls := nt_calls n @ [k]\<rparr>"

definition reading :: "event_type set" where
  "reading = {READ_COMMAND, READ_SOUND, READ_CONNECT_REPLY, READ_FIND_REPLY, READ_GET_REPLY, NOTIFY,
     READ_FLOW, WAIT_MONITOR}"

definition writing :: "event_type set" where
  "writing = {WRITE, WRITE_SOUND, WRITE_FIND, WRITE_GET, CONNECT, WRITE_TIMEOUT, WRITE_MONITOR}"

definition fd_clear :: "int \<Rightarrow> net \<Rightarrow> net" where
  "fd_clear fd n = n\<lparr>nt_read := nt_read n - {fd}, nt_write := nt_write n - {fd}\<rparr>"

definition connection_update_fdset :: "nat \<Rightarrow> net \<Rightarrow> net net_result" where
  "connection_update_fdset a = with_conn a (\<lambda>c n.
     let n1 = fd_clear (cn_fd c) n
     in Inr (case cn_events c of
               [] \<Rightarrow> n1
             | e # _ \<Rightarrow>
                 if ev_type e \<in> reading then n1\<lparr>nt_read := insert (cn_fd c) (nt_read n1)\<rparr>
                 else if ev_type e \<in> writing then n1\<lparr>nt_write := insert (cn_fd c) (nt_write n1)\<rparr>
                 else n1))"

section \<open>The event queue\<close>

definition set_events :: "nat \<Rightarrow> event list \<Rightarrow> net \<Rightarrow> net" where
  "set_events a es = upd_conn a (\<lambda>c. c\<lparr>cn_events := es\<rparr>)"

text \<open>\<open>event_insert\<close> of a chain of events; NULL is the empty chain.\<close>

definition event_insert :: "nat \<Rightarrow> event list \<Rightarrow> net \<Rightarrow> net net_result" where
  "event_insert a es = with_conn a (\<lambda>c n.
     if es = [] then Inl NullCall
     else (let n1 = set_events a (cn_events c @ es) n
           in if cn_events c = [] then connection_update_fdset a n1 else Inr n1))"

definition event_first :: "nat \<Rightarrow> event \<Rightarrow> net \<Rightarrow> net net_result" where
  "event_first a e = with_conn a (\<lambda>c n. connection_update_fdset a (set_events a (e # cn_events c) n))"

definition event_insert_before :: "nat \<Rightarrow> event \<Rightarrow> event_type set \<Rightarrow> net \<Rightarrow> net net_result" where
  "event_insert_before a e stop = with_conn a (\<lambda>c n.
     case cn_events c of
       [] \<Rightarrow> event_first a e n
     | x # xs \<Rightarrow>
         if ev_type x \<in> stop then event_first a e n
         else Inr (set_events a (x # takeWhile (\<lambda>y. ev_type y \<notin> stop) xs @ e
                     # dropWhile (\<lambda>y. ev_type y \<notin> stop) xs) n))"

definition event_replace :: "nat \<Rightarrow> event \<Rightarrow> net \<Rightarrow> net net_result" where
  "event_replace a e = with_conn a (\<lambda>c n. connection_update_fdset a (set_events a (e # tl (cn_events c)) n))"

definition event_delete :: "nat \<Rightarrow> bool \<Rightarrow> net \<Rightarrow> net net_result" where
  "event_delete a replace = with_conn a (\<lambda>c n.
     if cn_events c = [] then connection_update_fdset a n
     else
       bindE (let n1 = set_events a (tl (cn_events c)) n
              in if tl (cn_events c) = [] \<and> replace \<and> cn_type c = CONNECTION_CLIENT
                 then event_insert a [if cn_notify_mask c \<noteq> 0 then blank_event NOTIFY
                                      else line_event READ_COMMAND None] n1
                 else Inr n1)
         (connection_update_fdset a))"


section \<open>Opening and closing\<close>

definition connection_create :: "connection_type \<Rightarrow> int \<Rightarrow> net \<Rightarrow> nat \<times> net" where
  "connection_create t now n =
     (let a = nt_fresh n;
          c = \<lparr>cn_addr = a, cn_type = t, cn_fd = -1, cn_events = [], cn_server = 0, cn_time = now,
               cn_application = None, cn_notify_mask = 0, cn_notify_id = 0, cn_level_rate = 0, cn_level_next = 0,
               cn_position_rate = 0, cn_position_next = 0, cn_monitor = False\<rparr>
      in (a, n\<lparr>nt_fresh := Suc a, nt_conns := c # nt_conns n,
               nt_clients := nt_clients n + (if t = CONNECTION_CLIENT then 1 else 0)\<rparr>))"

definition wants_level :: "connection \<Rightarrow> bool" where
  "wants_level c \<longleftrightarrow> cn_notify_mask c AND NOTIFY_LEVEL \<noteq> 0
     \<or> (case cn_events c of [] \<Rightarrow> False | e # _ \<Rightarrow> ev_wait_mask e AND NOTIFY_LEVEL \<noteq> 0)"

definition connection_destroy :: "nat \<Rightarrow> net \<Rightarrow> net net_result" where
  "connection_destroy a = with_conn a (\<lambda>c n.
     let cs = filter (\<lambda>d. cn_addr d \<noteq> a) (nt_conns n)
     in Inr (n\<lparr>nt_clients := nt_clients n - (if cn_type c = CONNECTION_CLIENT then 1 else 0),
               nt_conns := cs, nt_want_level := int (length (filter wants_level cs))\<rparr>))"

text \<open>The events that stand for a requested sound.\<close>

definition requests :: "event_type set" where
  "requests = {WRITE_FIND, READ_FIND_REPLY, WRITE_GET, READ_GET_REPLY, READ_SOUND}"

definition drop_request :: "event \<Rightarrow> net \<Rightarrow> net net_result" where
  "drop_request e n =
     (if ev_type e \<in> requests
      then (case ev_sound e of
              None \<Rightarrow> Inl NullCall
            | Some x \<Rightarrow> Inr (call (SoundDelete x) (call (SpoolRemove x) n)))
      else Inr n)"

definition connection_close :: "nat \<Rightarrow> net \<Rightarrow> net net_result" where
  "connection_close a = with_conn a (\<lambda>c n.
     let n1 = fd_clear (cn_fd c) n;
         n2 = (if cn_monitor c then n1\<lparr>nt_monitors := nt_monitors n1 - 1\<rparr> else n1)
     in bindE (foldE drop_request (cn_events c) (call (CloseFd (cn_fd c)) n2)) (\<lambda>n3.
          connection_destroy a (set_events a [] n3)))"

text \<open>Text printed into a buffer is cut to leave room for its NUL.\<close>

definition cut :: "string \<Rightarrow> string" where
  "cut s = take 8191 s"

definition find_line :: "nat \<Rightarrow> net \<Rightarrow> string" where
  "find_line x n = cut (''find '' @ nt_name n x @ [CR, LF])"

definition get_line :: "nat \<Rightarrow> net \<Rightarrow> string" where
  "get_line x n = cut (''get '' @ nt_name n x @ [CR, LF])"

definition find_event :: "nat \<Rightarrow> net \<Rightarrow> event" where
  "find_event x n = text_event WRITE_FIND (find_line x n) [] (Some x)"

text \<open>\<open>connection_server_open\<close>; the connection, new or not.\<close>

definition server_conn :: "nat \<Rightarrow> int \<Rightarrow> net \<Rightarrow> nat \<times> net" where
  "server_conn sv now n =
     (case find (\<lambda>c. cn_type c = CONNECTION_SERVER \<and> cn_server c = sv) (nt_conns n) of
        Some c \<Rightarrow> (cn_addr c, n)
      | None \<Rightarrow>
          (let r = connection_create CONNECTION_SERVER now n
           in (fst r, upd_conn (fst r) (\<lambda>c. c\<lparr>cn_server := sv\<rparr>) (snd r))))"

definition start_connect :: "net_env \<Rightarrow> nat \<Rightarrow> net \<Rightarrow> net net_result" where
  "start_connect ev a = with_conn a (\<lambda>c n.
     if cn_fd c = -1 \<and> ne_socket ev < 0 then Inl Exit
     else if cn_fd c = -1
     then event_insert a [(blank_event CONNECT)\<lparr>ev_time := ne_now ev\<rparr>]
            (call (ConnectTo (ne_socket ev) (cn_server c)) (call (Ping (cn_server c))
              (upd_conn a (\<lambda>c. c\<lparr>cn_fd := ne_socket ev\<rparr>) n)))
     else Inr n)"

definition connection_server_open :: "net_env \<Rightarrow> nat \<Rightarrow> nat option \<Rightarrow> net \<Rightarrow> (nat \<times> net) net_result" where
  "connection_server_open ev sv sound n =
     (let r = server_conn sv (ne_now ev) n
      in bindE (start_connect ev (fst r) (snd r)) (\<lambda>n1.
         case sound of
           None \<Rightarrow> Inr (fst r, n1)
         | Some x \<Rightarrow> bindE (event_insert (fst r) [find_event x n1] n1) (\<lambda>n2. Inr (fst r, n2))))"

definition connection_server_reopen :: "net_env \<Rightarrow> nat \<Rightarrow> net \<Rightarrow> net net_result" where
  "connection_server_reopen ev a = with_conn a (\<lambda>c n.
     bindE (connection_server_open ev (cn_server c) None
              (upd_conn a (\<lambda>c. c\<lparr>cn_fd := -1, cn_events := []\<rparr>) (call (CloseFd (cn_fd c)) n))) (\<lambda>(b, n1).
     if b \<noteq> a then Inl Exit else event_insert b (cn_events c) n1))"

definition connection_server_forward_sound :: "net_env \<Rightarrow> nat \<Rightarrow> nat \<Rightarrow> net \<Rightarrow> net net_result" where
  "connection_server_forward_sound ev a x = with_conn a (\<lambda>c n.
     if cn_server c + 1 < nt_servers n
     then bindE (connection_server_open ev (cn_server c + 1) (Some x) n) (\<lambda>(_, n1). Inr n1)
     else Inr (call (SoundDelete x) (call (SpoolRemove x) n)))"

definition connection_server_forward :: "net_env \<Rightarrow> nat \<Rightarrow> net \<Rightarrow> net net_result" where
  "connection_server_forward ev a = with_conn a (\<lambda>c n.
     bindE (if cn_server c + 1 < nt_servers n
            then bindE (connection_server_open ev (cn_server c + 1) None n) (\<lambda>(b, n1).
                   event_insert b (cn_events c) n1)
            else foldE drop_request (cn_events c) n)
       (\<lambda>n2. Inr (set_events a [] n2)))"

definition connection_timeout :: "int \<Rightarrow> nat \<Rightarrow> net \<Rightarrow> net net_result" where
  "connection_timeout rptp_timeout a = with_conn a (\<lambda>c n.
     if cn_events c \<noteq> [] \<and> ev_type (hd (cn_events c)) \<in> {NOTIFY, WAIT_MONITOR} then Inr n
     else if cn_type c = CONNECTION_SERVER then connection_close a n
     else event_replace a (text_event WRITE_TIMEOUT
            (''!message='' @ [CHR 0x22] @ ''Connection timed out after '' @ decimal (nat rptp_timeout)
               @ '' idle seconds.'' @ [CHR 0x22, CR, LF]) [] None) n)"

definition check_one :: "int \<Rightarrow> int \<Rightarrow> nat \<Rightarrow> net \<Rightarrow> net net_result" where
  "check_one now rptp_timeout a = with_conn a (\<lambda>c n.
     if now - cn_time c \<ge> rptp_timeout then connection_timeout rptp_timeout a n else Inr n)"

definition connection_check_timeout :: "int \<Rightarrow> int \<Rightarrow> net \<Rightarrow> net net_result" where
  "connection_check_timeout now rptp_timeout n =
     (if rptp_timeout = 0 then Inr n
      else foldE (check_one now rptp_timeout) (map cn_addr (nt_conns n)) n)"

definition connection_cleanup :: "net \<Rightarrow> net net_result" where
  "connection_cleanup n = foldE connection_close (map cn_addr (nt_conns n)) n"

definition connection_idle :: "net \<Rightarrow> bool" where
  "connection_idle n \<longleftrightarrow> list_all (\<lambda>c. \<not> (cn_events c \<noteq> [] \<and> ev_type (hd (cn_events c)) \<noteq> NOTIFY \<and> \<not> cn_monitor c))
     (nt_conns n)"

text \<open>The CR LF that follows the printed text is cut too, but counted.\<close>

definition connection_reply :: "nat \<Rightarrow> string \<Rightarrow> net \<Rightarrow> net net_result" where
  "connection_reply a s n =
     (let t = cut s
      in if length t = 8191 then Inl Overrun
         else event_first a (text_event WRITE (if length t = 8190 then t @ [CR, NUL] else t @ [CR, LF]) [] None) n)"

end
