(* ===== verification/Notify.thy ===== *)
theory Notify
  imports Events
begin

text \<open>
  Notifications to the clients of the daemon (\<open>connection_notify\<close> and
  \<open>connection_notify_position\<close> of \<open>src/rplayd/connection.c\<close>), the flows and monitors they
  pause, and the operations on connections that the commands of a client consist of.
  Floating-point numbers appear as the text \<open>printf\<close> gives.
\<close>

unbundle bit_operations_syntax

section \<open>What is notified\<close>

record play_notice =
  pn_host :: string
  pn_volume :: int
  pn_priority :: int
  pn_count :: int
  pn_seconds :: string
  pn_size :: int
  pn_rate :: int
  pn_channels :: int
  pn_bits :: string
  pn_input :: string
  pn_left :: int
  pn_right :: int

record modify_notice =
  mn_count :: int
  mn_list_count :: int
  mn_priority :: int
  mn_rate :: int
  mn_volume :: int
  mn_left :: int
  mn_right :: int

record position_notice =
  qn_position :: string
  qn_remain :: string
  qn_seconds :: string
  qn_sample :: int
  qn_samples :: int

text \<open>The event and its parameters; those of a spool entry have its id, the name of the sound
  and the client's data.\<close>

datatype notice =
    Volume int
  | Play int string string play_notice
  | Pause int string string
  | Continue int string string
  | Stop int string string
  | Done int string string
  | Skip int string string
  | State int int int int string
  | Flow int string string int int int
  | Modify int string modify_notice
  | Level int int int
  | Position int string position_notice

fun notice_bit :: "notice \<Rightarrow> 32 word" where
  "notice_bit (Volume _) = 1"
| "notice_bit (Play _ _ _ _) = 2"
| "notice_bit (Pause _ _ _) = 4"
| "notice_bit (Continue _ _ _) = 8"
| "notice_bit (Stop _ _ _) = 16"
| "notice_bit (Done _ _ _) = 32"
| "notice_bit (Skip _ _ _) = 64"
| "notice_bit (State _ _ _ _ _) = 128"
| "notice_bit (Flow _ _ _ _ _ _) = 256"
| "notice_bit (Modify _ _ _) = 512"
| "notice_bit (Level _ _ _) = 1024"
| "notice_bit (Position _ _ _) = 2048"

fun notice_id :: "notice \<Rightarrow> int option" where
  "notice_id (Play i _ _ _) = Some i"
| "notice_id (Pause i _ _) = Some i"
| "notice_id (Continue i _ _) = Some i"
| "notice_id (Stop i _ _) = Some i"
| "notice_id (Done i _ _) = Some i"
| "notice_id (Skip i _ _) = Some i"
| "notice_id (Flow i _ _ _ _ _) = Some i"
| "notice_id (Modify i _ _) = Some i"
| "notice_id (Position i _ _) = Some i"
| "notice_id _ = None"

definition signed_decimal :: "int \<Rightarrow> string" where
  "signed_decimal k = (if k < 0 then CHR ''-'' # decimal (nat (- k)) else decimal (nat k))"

definition quoted :: "string \<Rightarrow> string" where
  "quoted s = CHR 0x22 # s @ [CHR 0x22]"

definition pair_text :: "string \<Rightarrow> string \<Rightarrow> string" where
  "pair_text k v = CHR '' '' # k @ ''='' @ v"

definition sound_text :: "int \<Rightarrow> string \<Rightarrow> string" where
  "sound_text i s = pair_text ''id'' (CHR ''#'' # signed_decimal i) @ pair_text ''sound'' (quoted s)"

definition client_text :: "string \<Rightarrow> string" where
  "client_text d = pair_text ''client-data'' (quoted d)"

fun notice_text :: "notice \<Rightarrow> string" where
  "notice_text (Volume v) = ''volume'' @ pair_text ''volume'' (signed_decimal v)"
| "notice_text (Play i s d p) =
     ''play'' @ sound_text i s @ pair_text ''host'' (pn_host p)
       @ pair_text ''volume'' (signed_decimal (pn_volume p)) @ pair_text ''priority'' (signed_decimal (pn_priority p))
       @ pair_text ''count'' (signed_decimal (pn_count p)) @ pair_text ''seconds'' (pn_seconds p)
       @ pair_text ''size'' (signed_decimal (pn_size p)) @ pair_text ''sample-rate'' (signed_decimal (pn_rate p))
       @ pair_text ''channels'' (signed_decimal (pn_channels p)) @ pair_text ''bits'' (pn_bits p)
       @ pair_text ''input'' (pn_input p) @ client_text d
       @ pair_text ''left-volume'' (signed_decimal (pn_left p)) @ pair_text ''right-volume'' (signed_decimal (pn_right p))"
| "notice_text (Pause i s d) = ''pause'' @ sound_text i s @ client_text d"
| "notice_text (Continue i s d) = ''continue'' @ sound_text i s @ client_text d"
| "notice_text (Stop i s d) = ''stop'' @ sound_text i s @ client_text d"
| "notice_text (Done i s d) = ''done'' @ sound_text i s @ client_text d"
| "notice_text (Skip i s d) = ''skip'' @ sound_text i s @ client_text d"
| "notice_text (State np na v t port) =
     ''state'' @ pair_text ''play'' (signed_decimal np) @ pair_text ''pause'' (signed_decimal na)
       @ pair_text ''volume'' (signed_decimal v) @ pair_text ''priority-threshold'' (signed_decimal t)
       @ pair_text ''audio-port'' port"
| "notice_text (Flow i s d mark low high) =
     ''flow'' @ sound_text i s @ pair_text ''mark'' (signed_decimal mark) @ pair_text ''low'' (signed_decimal low)
       @ pair_text ''high'' (signed_decimal high) @ client_text d"
| "notice_text (Modify i d m) =
     ''modify'' @ pair_text ''id'' (CHR ''#'' # signed_decimal i) @ pair_text ''count'' (signed_decimal (mn_count m))
       @ pair_text ''list-count'' (signed_decimal (mn_list_count m))
       @ pair_text ''priority'' (signed_decimal (mn_priority m)) @ pair_text ''sample-rate'' (signed_decimal (mn_rate m))
       @ pair_text ''volume'' (signed_decimal (mn_volume m)) @ client_text d
       @ pair_text ''left-volume'' (signed_decimal (mn_left m)) @ pair_text ''right-volume'' (signed_decimal (mn_right m))"
| "notice_text (Level v l r) =
     ''level'' @ pair_text ''volume'' (signed_decimal v) @ pair_text ''left'' (signed_decimal l)
       @ pair_text ''right'' (signed_decimal r)"
| "notice_text (Position i d q) =
     ''position'' @ pair_text ''id'' (CHR ''#'' # signed_decimal i) @ pair_text ''position'' (qn_position q)
       @ pair_text ''remain'' (qn_remain q) @ pair_text ''seconds'' (qn_seconds q)
       @ pair_text ''sample'' (signed_decimal (qn_sample q)) @ pair_text ''samples'' (signed_decimal (qn_samples q))
       @ client_text d"

text \<open>Both the event and the line end are cut to the line buffer.\<close>

definition notice_line :: "notice \<Rightarrow> string" where
  "notice_line nc = (let m = RPTP_MAX_LINE - 1 in take m (take m (''?event='' @ notice_text nc) @ [CR, LF]))"

section \<open>Who is notified\<close>

record notify_env =
  nv_now :: int
  nv_timer :: rat              \<comment> \<open>timer_count\<close>
  nv_force :: bool             \<comment> \<open>the parameter of a level event\<close>
  nv_playing :: int
  nv_paused :: int
  nv_volume :: int
  nv_threshold :: int
  nv_port :: string

definition head_event :: "connection \<Rightarrow> event option" where
  "head_event c = (case cn_events c of [] \<Rightarrow> None | e # _ \<Rightarrow> Some e)"

definition waits_for :: "connection \<Rightarrow> notice \<Rightarrow> bool" where
  "waits_for c nc = (case head_event c of None \<Rightarrow> False | Some e \<Rightarrow> ev_wait_mask e AND notice_bit nc \<noteq> 0)"

definition subscribed :: "connection \<Rightarrow> notice \<Rightarrow> bool" where
  "subscribed c nc \<longleftrightarrow> cn_notify_mask c AND notice_bit nc \<noteq> 0"

definition wants_id :: "connection \<Rightarrow> int \<Rightarrow> bool" where
  "wants_id c i \<longleftrightarrow> cn_notify_id c = 0 \<or> cn_notify_id c = i
     \<or> (case head_event c of None \<Rightarrow> False | Some e \<Rightarrow> ev_id e = i)"

fun is_level :: "notice \<Rightarrow> bool" where
  "is_level (Level _ _ _) = True"
| "is_level _ = False"

definition too_soon :: "notify_env \<Rightarrow> connection \<Rightarrow> notice \<Rightarrow> bool" where
  "too_soon nv c nc \<longleftrightarrow> is_level nc \<and> cn_level_rate c \<noteq> 0 \<and> \<not> nv_force nv \<and> cn_level_next c > nv_timer nv"

definition interested :: "notify_env \<Rightarrow> connection \<Rightarrow> notice \<Rightarrow> bool" where
  "interested nv c nc \<longleftrightarrow> (subscribed c nc \<or> waits_for c nc)
     \<and> (case notice_id nc of None \<Rightarrow> True | Some i \<Rightarrow> wants_id c i) \<and> \<not> too_soon nv c nc"

section \<open>Writing a notification\<close>

definition waiting_events :: "event_type set" where
  "waiting_events = {READ_COMMAND, READ_SOUND, READ_CONNECT_REPLY, READ_FIND_REPLY, READ_GET_REPLY,
     READ_FLOW, WAIT_FLOW, PIPE_FLOW}"

definition append_text :: "string \<Rightarrow> event \<Rightarrow> event" where
  "append_text s e = e\<lparr>ev_text := ev_text e @ s, ev_nbytes := ev_nbytes e + int (length s),
     ev_nleft := ev_nleft e + int (length s)\<rparr>"

text \<open>The line goes to the last event when that is a write with room in its buffer (the NUL
  behind it is then out of bounds when the buffer is full), else into an event of its own.  The
  code does not look whether the buffer is a permanent one: the line is then written into the
  text of all the events that have it, and of those to come.\<close>

definition put_line :: "nat \<Rightarrow> string \<Rightarrow> net \<Rightarrow> net net_result" where
  "put_line a s = with_conn a (\<lambda>c n.
     let es = cn_events c
     in if es \<noteq> [] \<and> ev_type (last es) = WRITE \<and> int (length (ev_text (last es)) + length s) \<le> BUFFER_SIZE
        then if int (length (ev_text (last es)) + length s) = BUFFER_SIZE then Inl Overrun
             else if ev_kept (last es) then Inl SharedBuffer
             else Inr (set_events a (butlast es @ [append_text s (last es)]) n)
        else (let e = text_event WRITE s [] None
              in if es \<noteq> [] \<and> ev_type (hd es) = NOTIFY then event_replace a e n
                 else event_insert_before a e waiting_events n))"

text \<open>One line for a client that waits and one for a client that subscribed; the first character
  tells which.\<close>

definition notice_heads :: "connection \<Rightarrow> notice \<Rightarrow> char list" where
  "notice_heads c nc = (if waits_for c nc then [CHR ''+''] else []) @ (if subscribed c nc then [CHR ''@''] else [])"

definition notify_one :: "notify_env \<Rightarrow> notice \<Rightarrow> nat \<Rightarrow> net \<Rightarrow> net net_result" where
  "notify_one nv nc a = with_conn a (\<lambda>c n.
     if \<not> interested nv c nc then Inr n
     else
       (let n1 = (if is_level nc \<and> cn_level_rate c \<noteq> 0
                  then upd_conn a (\<lambda>c. c\<lparr>cn_level_next := nv_timer nv + cn_level_rate c\<rparr>) n else n)
        in bindE (foldE (\<lambda>h. put_line a (h # tl (notice_line nc))) (notice_heads c nc) n1) (\<lambda>n2.
             Inr (upd_conn a (\<lambda>c. c\<lparr>cn_time := nv_now nv\<rparr>) n2))))"

definition notify_all :: "nat option \<Rightarrow> notify_env \<Rightarrow> notice \<Rightarrow> net \<Rightarrow> net net_result" where
  "notify_all to nv nc n =
     foldE (notify_one nv nc) (case to of None \<Rightarrow> map cn_addr (nt_conns n) | Some a \<Rightarrow> [a]) n"

fun is_state :: "notice \<Rightarrow> bool" where
  "is_state (State _ _ _ _ _) = True"
| "is_state _ = False"

definition state_notice :: "notify_env \<Rightarrow> notice" where
  "state_notice nv = State (nv_playing nv) (nv_paused nv) (nv_volume nv) (nv_threshold nv) (nv_port nv)"

text \<open>Any other event is followed by the state when that has changed, or when one connection is
  notified.\<close>

definition connection_notify :: "nat option \<Rightarrow> notify_env \<Rightarrow> notice \<Rightarrow> net \<Rightarrow> net net_result" where
  "connection_notify to nv nc n =
     bindE (notify_all to nv nc n) (\<lambda>n1.
       if \<not> is_state nc \<and> (nt_state n1 \<noteq> (nv_playing nv, nv_paused nv, nv_volume nv) \<or> to \<noteq> None)
       then notify_all to nv (state_notice nv) (n1\<lparr>nt_state := (nv_playing nv, nv_paused nv, nv_volume nv)\<rparr>)
       else Inr n1)"

text \<open>\<open>connection_notify_position\<close>: the spool is the list of its entries' flags and notices.\<close>

fun positions_one :: "notify_env \<Rightarrow> nat \<Rightarrow> (bool \<times> notice) list \<Rightarrow> net \<Rightarrow> ((bool \<times> notice) list \<times> net) net_result" where
  "positions_one nv a [] n = Inr ([], n)"
| "positions_one nv a ((flag, nc) # sps) n =
     bindE (if flag then connection_notify (Some a) nv nc n else Inr n) (\<lambda>n1.
     bindE (positions_one nv a sps n1) (\<lambda>(sps', n2). Inr ((False, nc) # sps', n2)))"

abbreviation "NOTIFY_POSITION_BIT \<equiv> (2048 :: 32 word)"

definition positions_conn ::
  "notify_env \<Rightarrow> nat \<Rightarrow> (bool \<times> notice) list \<times> net \<Rightarrow> ((bool \<times> notice) list \<times> net) net_result" where
  "positions_conn nv a st = with_conn a (\<lambda>c n.
     if cn_notify_mask c AND NOTIFY_POSITION_BIT = 0 then Inr (fst st, n)
     else if cn_position_rate c \<noteq> 0 \<and> cn_position_next c > nv_timer nv then Inr (fst st, n)
     else positions_one nv a (fst st)
            (if cn_position_rate c \<noteq> 0
             then upd_conn a (\<lambda>c. c\<lparr>cn_position_next := nv_timer nv + cn_position_rate c\<rparr>) n else n)) (snd st)"

definition connection_notify_position ::
  "notify_env \<Rightarrow> (bool \<times> notice) list \<Rightarrow> net \<Rightarrow> ((bool \<times> notice) list \<times> net) net_result" where
  "connection_notify_position nv sps n = foldE (positions_conn nv) (map cn_addr (nt_conns n)) (sps, n)"

section \<open>Pausing flows and monitors\<close>

text \<open>The first event of each queue that waits for flow \<open>i\<close> changes its type; the masks
  follow when it is the head.\<close>

fun retype_first :: "(event \<Rightarrow> bool) \<Rightarrow> event_type \<Rightarrow> event list \<Rightarrow> event list" where
  "retype_first P t [] = []"
| "retype_first P t (e # es) = (if P e then e\<lparr>ev_type := t\<rparr> # es else e # retype_first P t es)"

definition retype_conn :: "(event \<Rightarrow> bool) \<Rightarrow> event_type \<Rightarrow> nat \<Rightarrow> net \<Rightarrow> net net_result" where
  "retype_conn P t a = with_conn a (\<lambda>c n.
     let n1 = set_events a (retype_first P t (cn_events c)) n
     in if cn_events c \<noteq> [] \<and> P (hd (cn_events c)) then connection_update_fdset a n1 else Inr n1)"

definition retype :: "(event \<Rightarrow> bool) \<Rightarrow> event_type \<Rightarrow> net \<Rightarrow> net net_result" where
  "retype P t n = foldE (retype_conn P t) (map cn_addr (nt_conns n)) n"

definition connection_flow_pause :: "int \<Rightarrow> net \<Rightarrow> net net_result" where
  "connection_flow_pause i = retype (\<lambda>e. ev_type e = READ_FLOW \<and> ev_id e = i) WAIT_FLOW"

definition connection_flow_continue :: "int \<Rightarrow> net \<Rightarrow> net net_result" where
  "connection_flow_continue i = retype (\<lambda>e. ev_type e = WAIT_FLOW \<and> ev_id e = i) READ_FLOW"

definition connection_monitor_continue :: "net \<Rightarrow> net net_result" where
  "connection_monitor_continue = retype (\<lambda>e. ev_type e = WAIT_MONITOR) WRITE_MONITOR"

section \<open>The operations of a command\<close>

datatype net_op =
    OpReply nat string
  | OpInsert nat event
  | OpNotify "nat option" notify_env notice
  | OpOpen nat nat                  \<comment> \<open>ask a server for a sound\<close>
  | OpContinue int
  | OpPause int
  | OpSubscribe nat "32 word" int
  | OpRates nat "rat option" "rat option"
  | OpApplication nat string
  | OpMonitor nat
  | OpWantLevel
  | OpCall net_call

definition set_rates :: "rat option \<Rightarrow> rat option \<Rightarrow> connection \<Rightarrow> connection" where
  "set_rates lv ps c =
     (let c1 = (case lv of None \<Rightarrow> c | Some r \<Rightarrow> c\<lparr>cn_level_rate := r, cn_level_next := 0\<rparr>)
      in case ps of None \<Rightarrow> c1 | Some r \<Rightarrow> c1\<lparr>cn_position_rate := r, cn_position_next := 0\<rparr>)"

fun run_op :: "net_env \<Rightarrow> net_op \<Rightarrow> net \<Rightarrow> net net_result" where
  "run_op ev (OpReply a s) n = connection_reply a s n"
| "run_op ev (OpInsert a e) n = event_insert a [e] n"
| "run_op ev (OpNotify to nv nc) n = connection_notify to nv nc n"
| "run_op ev (OpOpen sv x) n = bindE (connection_server_open ev sv (Some x) n) (\<lambda>(_, n1). Inr n1)"
| "run_op ev (OpContinue i) n = connection_flow_continue i n"
| "run_op ev (OpPause i) n = connection_flow_pause i n"
| "run_op ev (OpSubscribe a m i) n = Inr (upd_conn a (\<lambda>c. c\<lparr>cn_notify_mask := m, cn_notify_id := i\<rparr>) n)"
| "run_op ev (OpRates a lv ps) n = Inr (upd_conn a (set_rates lv ps) n)"
| "run_op ev (OpApplication a s) n = Inr (upd_conn a (\<lambda>c. c\<lparr>cn_application := Some s\<rparr>) n)"
| "run_op ev (OpMonitor a) n = Inr (upd_conn a (\<lambda>c. c\<lparr>cn_monitor := True\<rparr>) (n\<lparr>nt_monitors := nt_monitors n + 1\<rparr>))"
| "run_op ev OpWantLevel n = Inr (n\<lparr>nt_want_level := int (length (filter wants_level (nt_conns n)))\<rparr>)"
| "run_op ev (OpCall k) n = Inr (call k n)"

end
