(* ===== verification/Update.thy ===== *)
theory Update
  imports Notify
begin

text \<open>
  The loop of the daemon's connections (\<open>connection_update\<close> and \<open>event_update\<close> of
  \<open>src/rplayd/connection.c\<close>): one step reads or writes at each descriptor that is ready, and a
  finished or failed event is followed by the next one.  The commands a client sends are a
  parameter, as the list of operations on connections they perform.
\<close>

unbundle bit_operations_syntax

section \<open>What a step depends on\<close>

text \<open>The flow a connection feeds: the state of its reader when there is one.\<close>

record flow_view =
  fw_reader :: "(int \<times> int \<times> int) option"  \<comment> \<open>water mark, offset, high water mark\<close>
  fw_insert_ok :: bool

record step_env = net_env +
  ne_connected :: bool         \<comment> \<open>connect gives 0 or EISCONN\<close>
  ne_retry :: bool             \<comment> \<open>errno is one that is tried again\<close>
  ne_cache_free :: "int \<Rightarrow> bool"
  ne_cache_create :: "string \<Rightarrow> int \<Rightarrow> int"
  ne_cache_directory :: string
  ne_monitor :: "string \<times> bool"   \<comment> \<open>next monitor buffer; it is the one being filled\<close>
  ne_fill :: "string option"   \<comment> \<open>next bytes of a sound that is sent\<close>
  ne_input :: string           \<comment> \<open>bytes the socket has; empty when a call fails\<close>
  ne_input_stays :: bool       \<comment> \<open>the bytes peeked at can be read\<close>
  ne_room :: nat               \<comment> \<open>bytes the socket takes; 0 when the call fails\<close>
  ne_flow :: "int \<Rightarrow> flow_view option"
  ne_command :: "nat \<Rightarrow> string \<Rightarrow> net \<Rightarrow> net_op list \<times> bool"

definition ne_socket_env :: "step_env \<Rightarrow> net_env" where
  "ne_socket_env ev = \<lparr>ne_now = ne_now ev, ne_socket = ne_socket ev\<rparr>"

section \<open>What follows a finished or failed event\<close>

definition upd_head :: "nat \<Rightarrow> (event \<Rightarrow> event) \<Rightarrow> net \<Rightarrow> net" where
  "upd_head a g = upd_conn a (\<lambda>c. c\<lparr>cn_events :=
     (case cn_events c of [] \<Rightarrow> [] | e # es \<Rightarrow> g e # es)\<rparr>)"

text \<open>The sound of an event, whose name the code reads.\<close>

definition sound_of :: "event \<Rightarrow> (nat \<Rightarrow> 'a net_result) \<Rightarrow> 'a net_result" where
  "sound_of e f = (case ev_sound e of None \<Rightarrow> Inl NullCall | Some x \<Rightarrow> f x)"

definition pass_on :: "step_env \<Rightarrow> nat \<Rightarrow> net \<Rightarrow> net net_result" where
  "pass_on ev a n = bindE (connection_server_forward (ne_socket_env ev) a n) (connection_close a)"

definition find_again :: "step_env \<Rightarrow> nat \<Rightarrow> event \<Rightarrow> net \<Rightarrow> net net_result" where
  "find_again ev a e n = sound_of e (\<lambda>x. event_replace a (find_event x n) n)"

definition done_or_close :: "nat \<Rightarrow> event \<Rightarrow> net \<Rightarrow> net net_result" where
  "done_or_close a e n = (if ev_success e then event_delete a True n else connection_close a n)"

definition give_up :: "nat \<Rightarrow> nat \<Rightarrow> net \<Rightarrow> net net_result" where
  "give_up a x n = event_delete a True (call (SoundDelete x) (call (SpoolRemove x) n))"

section \<open>Replies\<close>

definition first_char :: "string \<Rightarrow> char" where
  "first_char s = (case s of [] \<Rightarrow> NUL | ch # _ \<Rightarrow> ch)"

definition has_pairs :: "string \<Rightarrow> bool" where
  "has_pairs line \<longleftrightarrow> CHR ''='' \<in> set line"

text \<open>\<open>atoi\<close> of a value that may be missing.\<close>

definition number :: "string option \<Rightarrow> int net_result" where
  "number v = (case v of None \<Rightarrow> Inl NullCall | Some s \<Rightarrow> Inr (to_int (atoi (bytes_of s))))"

text \<open>The second word of an old reply: \<open>strtok\<close> with a blank, then with line ends.\<close>

definition old_size :: "string \<Rightarrow> string option" where
  "old_size line =
     (case dropWhile (\<lambda>ch. ch \<noteq> CHR '' '') (dropWhile (\<lambda>ch. ch = CHR '' '') line) of
        [] \<Rightarrow> None
      | _ # r \<Rightarrow> (let w = takeWhile (\<lambda>ch. ch \<notin> {CR, LF}) (dropWhile (\<lambda>ch. ch \<in> {CR, LF}) r)
                 in if w = [] then None else Some w))"

definition reply_value :: "string \<Rightarrow> string \<Rightarrow> string option" where
  "reply_value key line = find_name key (parse_pairs (skip_reply_char line))"

definition reply_size :: "string \<Rightarrow> int net_result" where
  "reply_size line = number (if has_pairs line then reply_value ''size'' line else old_size line)"

definition reply_sound :: "string \<Rightarrow> string option" where
  "reply_sound line =
     (if has_pairs line then reply_value ''sound'' line
      else Some (tl (takeWhile (\<lambda>ch. ch \<noteq> CHR '' '') (dropWhile (\<lambda>ch. ch = CHR '' '') line))))"

definition cache_name :: "string \<Rightarrow> string \<Rightarrow> string" where
  "cache_name dir s = take 4095 (dir @ ''/'' @ s)"

text \<open>The name of a cached sound is the end of its path, when the path is absolute.\<close>

definition after_slash :: "string \<Rightarrow> string" where
  "after_slash p = rev (takeWhile (\<lambda>ch. ch \<noteq> CHR ''/'') (rev p))"

definition path_name :: "string \<Rightarrow> string" where
  "path_name p = (if first_char p = CHR ''/'' then after_slash p else p)"

section \<open>event_update\<close>

definition update_command :: "step_env \<Rightarrow> nat \<Rightarrow> event \<Rightarrow> net \<Rightarrow> net net_result" where
  "update_command ev a e n =
     (if \<not> ev_success e then connection_close a n
      else if first_char (ev_text e) \<noteq> NUL \<and> of_char (first_char (ev_text e)) < (128 :: nat)
      then bindE (event_delete a False n) (\<lambda>n1.
           let (ops, good) = ne_command ev a (c_string (ev_text e)) n1
           in bindE (foldE (run_op (ne_socket_env ev)) ops n1) (\<lambda>n2.
                if good then Inr n2 else connection_close a n2))
      else event_delete a True n)"

definition update_connect :: "step_env \<Rightarrow> nat \<Rightarrow> connection \<Rightarrow> event \<Rightarrow> net \<Rightarrow> net net_result" where
  "update_connect ev a c e n =
     (if ne_now ev - ev_time e < RPTP_PING_DELAY then Inr n
      else
        (let n1 = call (ConnectTo (cn_fd c) (cn_server c)) (upd_head a (\<lambda>e. e\<lparr>ev_time := ne_now ev\<rparr>) n);
             n2 = upd_head a (\<lambda>e. e\<lparr>ev_nconnects := ev_nconnects e + 1\<rparr>) n1
         in if ne_connected ev then event_replace a (line_event READ_CONNECT_REPLY None) n1
            else if ev_nconnects e + 1 < RPTP_CONNECT_ATTEMPTS \<and> ne_retry ev
            then connection_update_fdset a
                   (call (ConnectTo (ne_socket ev) (cn_server c))
                     (upd_conn a (\<lambda>c. c\<lparr>cn_fd := ne_socket ev\<rparr>)
                       (call (CloseFd (cn_fd c)) (fd_clear (cn_fd c)
                         (call (Ping (cn_server c)) n2)))))
            else bindE (event_delete a True n2) (pass_on ev a)))"

definition update_connect_reply :: "step_env \<Rightarrow> nat \<Rightarrow> event \<Rightarrow> net \<Rightarrow> net net_result" where
  "update_connect_reply ev a e n =
     (if ev_success e \<and> first_char (ev_text e) = CHR ''+'' then event_delete a True n
      else bindE (event_delete a True n) (pass_on ev a))"

text \<open>The answers that find and get replies share: the sound is not there, or the server
  timed out and is asked again with \<open>request\<close>.\<close>

definition not_found :: "step_env \<Rightarrow> nat \<Rightarrow> event \<Rightarrow> net \<Rightarrow> net net_result" where
  "not_found ev a e n = sound_of e (\<lambda>x.
     bindE (connection_server_forward_sound (ne_socket_env ev) a x n) (event_delete a True))"

definition ask_again :: "step_env \<Rightarrow> nat \<Rightarrow> event \<Rightarrow> net \<Rightarrow> net net_result" where
  "ask_again ev a request n = bindE (event_replace a request n) (connection_server_reopen (ne_socket_env ev) a)"

definition update_find_reply :: "step_env \<Rightarrow> nat \<Rightarrow> event \<Rightarrow> net \<Rightarrow> net net_result" where
  "update_find_reply ev a e n = sound_of e (\<lambda>x.
     if \<not> ev_success e then bindE (event_replace a (find_event x n) n) (pass_on ev a)
     else if first_char (ev_text e) = CHR ''+''
     then bindE (reply_size (c_string (ev_text e))) (\<lambda>k.
            if \<not> ne_cache_free ev k then give_up a x n
            else event_replace a (text_event WRITE_GET (get_line x n) [] (Some x)) n)
     else if first_char (ev_text e) = CHR ''-'' then not_found ev a e n
     else if first_char (ev_text e) = CHR ''!'' then ask_again ev a (find_event x n) n
     else Inl Exit)"

definition got_sound :: "step_env \<Rightarrow> nat \<Rightarrow> nat \<Rightarrow> string \<Rightarrow> net \<Rightarrow> net net_result" where
  "got_sound ev a x line n =
     (case reply_sound line of
        None \<Rightarrow> Inl NullCall
      | Some s \<Rightarrow>
          bindE (reply_size line) (\<lambda>k.
          let path = cache_name (ne_cache_directory ev) s;
              fd = ne_cache_create ev path k;
              n1 = call (CacheCreate path k) (call (SetPath x path)
                     (n\<lparr>nt_name := (nt_name n)(x := path_name path)\<rparr>))
          in if fd < 0 then give_up a x n1
             else event_replace a (read_sound_event fd k x) n1))"

definition update_get_reply :: "step_env \<Rightarrow> nat \<Rightarrow> event \<Rightarrow> net \<Rightarrow> net net_result" where
  "update_get_reply ev a e n = sound_of e (\<lambda>x.
     if \<not> ev_success e then bindE (event_replace a (find_event x n) n) (pass_on ev a)
     else if first_char (ev_text e) = CHR ''+'' then got_sound ev a x (c_string (ev_text e)) n
     else if first_char (ev_text e) = CHR ''-'' then not_found ev a e n
     else if first_char (ev_text e) = CHR ''!''
     then ask_again ev a (text_event WRITE_GET (get_line x n) [] (Some x)) n
     else Inl Exit)"

definition update_sound :: "step_env \<Rightarrow> nat \<Rightarrow> connection \<Rightarrow> event \<Rightarrow> net \<Rightarrow> net net_result" where
  "update_sound ev a c e n = sound_of e (\<lambda>x.
     if ev_success e
     then event_delete a True (call (SpoolReady x) (call (SoundMap x) (call (CloseFd (ev_fd e)) n)))
     else bindE (if cn_type c = CONNECTION_SERVER
                 then bindE (event_replace a (find_event x n) n) (connection_server_forward (ne_socket_env ev) a)
                 else Inr n) (connection_close a))"

definition update_write :: "nat \<Rightarrow> event \<Rightarrow> net \<Rightarrow> net net_result" where
  "update_write a e n =
     (if \<not> ev_success e then connection_close a n
      else case ev_more e of
             [] \<Rightarrow> event_delete a True n
           | b # bs \<Rightarrow> Inr (upd_head a (\<lambda>e. e\<lparr>ev_text := b, ev_more := bs, ev_pos := 0,
                 ev_nleft := int (length b), ev_nbytes := int (length b), ev_success := False\<rparr>) n))"

definition connection_monitor_pause :: "nat \<Rightarrow> net \<Rightarrow> net net_result" where
  "connection_monitor_pause a = with_conn a (\<lambda>c n.
     case cn_events c of
       [] \<Rightarrow> Inr n
     | e # _ \<Rightarrow>
         if ev_type e = WRITE_MONITOR
         then connection_update_fdset a (upd_head a (\<lambda>e. e\<lparr>ev_type := WAIT_MONITOR\<rparr>) n)
         else Inr n)"

definition update_monitor :: "step_env \<Rightarrow> nat \<Rightarrow> event \<Rightarrow> net \<Rightarrow> net net_result" where
  "update_monitor ev a e n =
     (if \<not> ev_success e then connection_close a n
      else (let b = fst (ne_monitor ev);
                n1 = upd_head a (\<lambda>e. e\<lparr>ev_text := b, ev_pos := 0, ev_nleft := int (length b),
                       ev_nbytes := int (length b), ev_success := False\<rparr>) n
            in if snd (ne_monitor ev) then connection_monitor_pause a n1 else Inr n1))"

definition event_update :: "step_env \<Rightarrow> nat \<Rightarrow> net \<Rightarrow> net net_result" where
  "event_update ev a = with_conn a (\<lambda>c n.
     case cn_events c of
       [] \<Rightarrow> Inr n
     | e # _ \<Rightarrow>
         (case ev_type e of
            READ_COMMAND \<Rightarrow> update_command ev a e n
          | CONNECT \<Rightarrow> update_connect ev a c e n
          | READ_CONNECT_REPLY \<Rightarrow> update_connect_reply ev a e n
          | WRITE_FIND \<Rightarrow>
              if ev_success e then event_replace a (line_event READ_FIND_REPLY (ev_sound e)) n
              else pass_on ev a n
          | READ_FIND_REPLY \<Rightarrow> update_find_reply ev a e n
          | WRITE_GET \<Rightarrow>
              if ev_success e then event_replace a (line_event READ_GET_REPLY (ev_sound e)) n
              else bindE (find_again ev a e n) (pass_on ev a)
          | READ_GET_REPLY \<Rightarrow> update_get_reply ev a e n
          | READ_SOUND \<Rightarrow> update_sound ev a c e n
          | WRITE_SOUND \<Rightarrow> done_or_close a e n
          | WRITE \<Rightarrow> update_write a e n
          | WRITE_TIMEOUT \<Rightarrow> connection_close a n
          | READ_FLOW \<Rightarrow> done_or_close a e n
          | WAIT_FLOW \<Rightarrow> done_or_close a e n
          | PIPE_FLOW \<Rightarrow> done_or_close a e n
          | NOTIFY \<Rightarrow> Inr n
          | WRITE_MONITOR \<Rightarrow> update_monitor ev a e n
          | WAIT_MONITOR \<Rightarrow> connection_close a n))"

section \<open>One readable or writable connection\<close>

text \<open>\<open>MIN (nleft, sizeof buf)\<close>: the comparison is unsigned.\<close>

definition sound_room :: "int \<Rightarrow> int" where
  "sound_room k = (if k < 0 then BUFFER_SIZE else min k BUFFER_SIZE)"

definition finish_head :: "step_env \<Rightarrow> nat \<Rightarrow> net \<Rightarrow> net net_result" where
  "finish_head ev a n = event_update ev a (upd_head a (\<lambda>e. e\<lparr>ev_success := True\<rparr>) n)"

definition read_sound :: "step_env \<Rightarrow> nat \<Rightarrow> event \<Rightarrow> net \<Rightarrow> net net_result" where
  "read_sound ev a e n =
     (let d = take (nat (sound_room (ev_nleft e))) (ne_input ev); k = int (length d);
          n1 = upd_head a (\<lambda>e. e\<lparr>ev_nleft := ev_nleft e - k, ev_byte_offset := ev_byte_offset e + k\<rparr>)
                 (call (WriteFile (ev_fd e) d) n)
      in if d = [] then event_update ev a n
         else if ev_nleft e - k = 0 then finish_head ev a n1 else Inr n1)"

text \<open>The rest of a flow whose spool entry is gone is read and dropped.\<close>

definition eat_flow :: "step_env \<Rightarrow> nat \<Rightarrow> event \<Rightarrow> net \<Rightarrow> net net_result" where
  "eat_flow ev a e n =
     (let d = take (nat (min BUFFER_SIZE (ev_nleft e))) (ne_input ev); k = int (length d);
          n1 = upd_head a (\<lambda>e. e\<lparr>ev_nleft := ev_nleft e - k\<rparr>) n
      in if ev_nbytes e = -1 then event_update ev a n
         else if ev_nleft e < 0 then Inl Overrun
         else if d = [] then event_update ev a n
         else if ev_nleft e - k \<le> 0 then finish_head ev a n1 else Inr n1)"

definition flow_room :: "flow_view \<Rightarrow> int" where
  "flow_room f = (case fw_reader f of
     None \<Rightarrow> BUFFER_SIZE | Some (w, off, high) \<Rightarrow> min BUFFER_SIZE (high - (w - off)))"

definition feed_flow :: "step_env \<Rightarrow> nat \<Rightarrow> event \<Rightarrow> flow_view \<Rightarrow> net \<Rightarrow> net net_result" where
  "feed_flow ev a e f n =
     (let d = take (nat (flow_room f)) (ne_input ev); k = int (length d);
          n1 = call (FlowInsert (ev_id e) d) n;
          n2 = upd_head a (\<lambda>e. e\<lparr>ev_byte_offset := ev_byte_offset e + k,
                 ev_nleft := (if ev_nbytes e \<noteq> -1 then ev_nleft e - k else ev_nleft e)\<rparr>) n1
      in if d = []
         then (if ev_nbytes e = -1 then connection_close a (call (SpoolDone (ev_id e)) n)
               else event_update ev a n)
         else if \<not> fw_insert_ok f then Inr n1
         else if ev_nbytes e \<noteq> -1 \<and> ev_nleft e - k \<le> 0 then finish_head ev a n2
         else Inr n2)"

definition read_flow :: "step_env \<Rightarrow> nat \<Rightarrow> event \<Rightarrow> net \<Rightarrow> net net_result" where
  "read_flow ev a e n =
     (case ne_flow ev (ev_id e) of
        None \<Rightarrow> eat_flow ev a e n
      | Some f \<Rightarrow>
          (case fw_reader f of
             Some (w, off, high) \<Rightarrow>
               if w - off \<ge> high
               then connection_flow_pause (ev_id e) (call (NotifyFlow (ev_id e)) n)
               else feed_flow ev a e f n
           | None \<Rightarrow> feed_flow ev a e f n))"

text \<open>A line is peeked at behind the text read so far, CR and LF become NUL, and the bytes up
  to the first LF are taken from the socket.\<close>

definition overwrite :: "nat \<Rightarrow> string \<Rightarrow> string \<Rightarrow> string" where
  "overwrite k d s = take k s @ d @ drop (k + length d) s"

text \<open>Events without a buffer have no place for the bytes: the call fails.\<close>

definition peeked :: "step_env \<Rightarrow> event \<Rightarrow> string" where
  "peeked ev e = (if ev_type e \<in> {CONNECT, WAIT_FLOW, PIPE_FLOW} then []
     else take (nat (ev_nleft e)) (ne_input ev))"

text \<open>The bytes of the line are taken from the socket into \<open>buf\<close>, of \<open>RPTP_MAX_LINE\<close> bytes.\<close>

definition read_line :: "step_env \<Rightarrow> nat \<Rightarrow> net \<Rightarrow> net net_result" where
  "read_line ev a = with_conn a (\<lambda>c n.
     case cn_events c of
       [] \<Rightarrow> Inl NullCall
     | e # _ \<Rightarrow>
         (let d = peeked ev e;
              full = LF \<in> set d;
              k = (if full then length (takeWhile (\<lambda>ch. ch \<noteq> LF) d) + 1 else length d);
              line = map (\<lambda>ch. if ch = CR \<or> ch = LF then NUL else ch) (take k d) @ drop k d;
              n1 = upd_head a (\<lambda>e. e\<lparr>ev_text := overwrite (ev_pos e) line (ev_text e),
                     ev_success := ev_success e \<or> full\<rparr>) n;
              n2 = upd_head a (\<lambda>e. e\<lparr>ev_pos := ev_pos e + k, ev_nleft := ev_nleft e - int k\<rparr>)
                     (call (Received (cn_fd c) (take k d)) n1)
          in if d = [] then event_update ev a n
             else if \<not> ne_input_stays ev
             then event_update ev a (upd_head a (\<lambda>e. e\<lparr>ev_success := False\<rparr>) n1)
             else if k > RPTP_MAX_LINE then Inl Overrun
             else if ev_success e \<or> full \<or> ev_nleft e - int k = 0 then event_update ev a n2
             else Inr n2))"

definition read_step :: "step_env \<Rightarrow> nat \<Rightarrow> event \<Rightarrow> net \<Rightarrow> net net_result" where
  "read_step ev a e n =
     (case ev_type e of
        READ_SOUND \<Rightarrow> read_sound ev a e n
      | READ_FLOW \<Rightarrow> read_flow ev a e n
      | NOTIFY \<Rightarrow> bindE (event_replace a (line_event READ_COMMAND None) n) (read_line ev a)
      | _ \<Rightarrow> read_line ev a n)"

definition write_step :: "step_env \<Rightarrow> nat \<Rightarrow> event \<Rightarrow> net \<Rightarrow> net net_result" where
  "write_step ev a e n =
     (if ev_type e = CONNECT then event_update ev a n
      else
        (let d = take (min (ne_room ev) (nat (ev_nleft e))) (drop (ev_pos e) (ev_text e)); k = length d;
             n1 = upd_head a (\<lambda>e. e\<lparr>ev_pos := ev_pos e + k, ev_nleft := ev_nleft e - int k,
                    ev_byte_offset := ev_byte_offset e + int k\<rparr>) (call (Sent a d) n)
         in if ev_nleft e < 0 \<or> length (ev_text e) < ev_pos e + nat (ev_nleft e) then Inl Overrun
            else if d = [] then event_update ev a n
            else if ev_nleft e - int k \<noteq> 0 then Inr n1
            else if ev_type e = WRITE_SOUND
            then (case ne_fill ev of
                    Some s \<Rightarrow> Inr (upd_head a (\<lambda>e. e\<lparr>ev_text := s, ev_pos := 0,
                                ev_nleft := int (length s)\<rparr>) n1)
                  | None \<Rightarrow> finish_head ev a n1)
            else finish_head ev a n1))"

definition update_one :: "step_env \<Rightarrow> int set \<Rightarrow> int set \<Rightarrow> nat \<Rightarrow> net \<Rightarrow> net net_result" where
  "update_one ev rfds wfds a = with_conn a (\<lambda>c n.
     case cn_events c of
       [] \<Rightarrow> Inr n
     | e # _ \<Rightarrow>
         (let n1 = upd_conn a (\<lambda>c. c\<lparr>cn_time := ne_now ev\<rparr>) n
          in if cn_fd c \<in> rfds then read_step ev a e n1
             else if cn_fd c \<in> wfds then write_step ev a e n1
             else Inr n))"

section \<open>The loop of connection_update\<close>

text \<open>Connections are visited once per descriptor; \<open>cmask\<close> holds those visited.  A descriptor
  outside an \<open>fd_set\<close> is out of bounds.\<close>

abbreviation "FD_SETSIZE \<equiv> (1024 :: int)"

definition next_conn :: "int set \<Rightarrow> net \<Rightarrow> connection option" where
  "next_conn cmask n = find (\<lambda>c. cn_fd c \<notin> cmask) (nt_conns n)"

definition bad_fd :: "net \<Rightarrow> bool" where
  "bad_fd n \<longleftrightarrow> list_ex (\<lambda>c. cn_fd c < 0 \<or> FD_SETSIZE \<le> cn_fd c) (nt_conns n)"

function update_loop ::
  "(nat \<Rightarrow> step_env) \<Rightarrow> int set \<Rightarrow> int set \<Rightarrow> int set \<Rightarrow> net \<Rightarrow> net net_result" where
  "update_loop env rfds wfds cmask n =
     (if bad_fd n then Inl Overrun
      else case next_conn cmask n of
             None \<Rightarrow> Inr n
           | Some c \<Rightarrow> bindE (update_one (env (cn_addr c)) rfds wfds (cn_addr c) n)
                        (update_loop env rfds wfds (insert (cn_fd c) cmask)))"
  by pat_completeness auto

definition unseen :: "int set \<Rightarrow> nat" where
  "unseen cmask = card ({0..<FD_SETSIZE} - cmask)"

lemma unseen_less:
  assumes "\<not> bad_fd n" "next_conn cmask n = Some c"
  shows "unseen (insert (cn_fd c) cmask) < unseen cmask"
proof -
  have "c \<in> set (nt_conns n)" "cn_fd c \<notin> cmask"
    using assms(2) by (auto simp: next_conn_def find_Some_iff)
  then have "cn_fd c \<in> {0..<FD_SETSIZE} - cmask"
    using assms(1) by (auto simp: bad_fd_def list_ex_iff linorder_not_less)
  then have "{0..<FD_SETSIZE} - insert (cn_fd c) cmask \<subset> {0..<FD_SETSIZE} - cmask" by blast
  moreover have "finite ({0..<FD_SETSIZE} - cmask)" by (rule finite_Diff) (rule finite_atLeastLessThan_int)
  ultimately show ?thesis unfolding unseen_def by (rule psubset_card_mono [rotated])
qed

termination update_loop
  by (relation "measure (\<lambda>(env, rfds, wfds, cmask, n). unseen cmask)") (simp_all add: unseen_less)

text \<open>\<open>connection_client_open\<close>: what \<open>accept\<close> gives, whether the host has access, the status
  the client is greeted with.\<close>

abbreviation "RPTP_MAX_CONNECTIONS \<equiv> (16 :: int)"

definition refused :: string where
  "refused = ''-error='' @ [CHR 0x22] @ ''connection refused'' @ [CHR 0x22, CR, LF]"

definition connection_client_open ::
  "int \<Rightarrow> bool \<Rightarrow> int \<Rightarrow> string \<Rightarrow> net \<Rightarrow> net net_result" where
  "connection_client_open fd access now status n =
     (if fd < 0 then Inr n
      else if \<not> access \<or> nt_clients n + 1 = RPTP_MAX_CONNECTIONS
      then Inr (call (CloseFd fd) (call (WriteFile fd refused) n))
      else (let (a, n1) = connection_create CONNECTION_CLIENT now n
            in event_insert a [text_event WRITE status [] None]
                 (upd_conn a (\<lambda>c. c\<lparr>cn_fd := fd\<rparr>) n1)))"

text \<open>\<open>connection_update\<close> with the descriptors select found: new clients first.\<close>

definition connection_update ::
  "(net \<Rightarrow> net net_result) \<Rightarrow> (nat \<Rightarrow> step_env) \<Rightarrow> int set \<Rightarrow> int set \<Rightarrow> net \<Rightarrow> net net_result" where
  "connection_update accept_new env rfds wfds n =
     bindE (accept_new n) (update_loop env rfds wfds {})"

end
