(* ===== verification/Requests.thy ===== *)
theory Requests
  imports Update
begin

text \<open>
  What becomes of the sounds the daemon asks other servers for.  A request is an event of a
  connection; the theory shows that no update of a connection loses one: it stays in some
  queue, or the spool is told that the sound is ready or has to be removed.
\<close>

named_theorems queue_simps \<open>queues after an operation on a connection\<close>

section \<open>Connections by address\<close>

definition lookup :: "nat \<Rightarrow> net \<Rightarrow> connection option" where
  "lookup a n = find (\<lambda>c. cn_addr c = a) (nt_conns n)"

definition queue :: "net \<Rightarrow> nat \<Rightarrow> event list" where
  "queue n a = (case lookup a n of None \<Rightarrow> [] | Some c \<Rightarrow> cn_events c)"

definition net_ok :: "net \<Rightarrow> bool" where
  "net_ok n \<longleftrightarrow> distinct (map cn_addr (nt_conns n)) \<and> list_all (\<lambda>a. a < nt_fresh n) (map cn_addr (nt_conns n))"

lemma with_conn_found: "lookup a n = Some c \<Longrightarrow> with_conn a f n = f c n"
  by (simp add: with_conn_def lookup_def)

lemma with_conn_Inr: "with_conn a f n = Inr r \<longleftrightarrow> (\<exists>c. lookup a n = Some c \<and> f c n = Inr r)"
  by (simp add: with_conn_def lookup_def split: option.split)

lemma find_filter: "find P (filter Q xs) = find (\<lambda>x. Q x \<and> P x) xs"
  by (induction xs) auto

lemma lookup_Some_addr: "lookup a n = Some c \<Longrightarrow> cn_addr c = a"
  by (auto simp: lookup_def find_Some_iff)

lemma lookup_in: "lookup a n = Some c \<Longrightarrow> c \<in> set (nt_conns n)"
  by (auto simp: lookup_def find_Some_iff)

lemma find_addr:
  "distinct (map cn_addr cs) \<Longrightarrow> c \<in> set cs \<Longrightarrow> find (\<lambda>d. cn_addr d = cn_addr c) cs = Some c"
  by (induction cs) (auto simp: rev_image_eqI)

lemma lookup_member: "net_ok n \<Longrightarrow> c \<in> set (nt_conns n) \<Longrightarrow> lookup (cn_addr c) n = Some c"
  by (simp add: lookup_def net_ok_def find_addr)

lemma queue_found: "lookup a n = Some c \<Longrightarrow> queue n a = cn_events c"
  by (simp add: queue_def)

lemma lookup_cong: "nt_conns n' = nt_conns n \<Longrightarrow> lookup a n' = lookup a n"
  by (simp add: lookup_def)

lemma queue_cong: "nt_conns n' = nt_conns n \<Longrightarrow> queue n' = queue n"
  by (simp add: queue_def lookup_def fun_eq_iff)

lemma find_map_addr:
  assumes "\<And>c. cn_addr (g c) = cn_addr c"
  shows "find (\<lambda>c. cn_addr c = b) (map (\<lambda>c. if cn_addr c = a then g c else c) cs) =
     map_option (\<lambda>c. if b = a then g c else c) (find (\<lambda>c. cn_addr c = b) cs)"
  by (induction cs) (use assms in auto)

lemma lookup_upd:
  assumes "\<And>c. cn_addr (g c) = cn_addr c"
  shows "lookup b (upd_conn a g n) = map_option (\<lambda>c. if b = a then g c else c) (lookup b n)"
  by (simp add: lookup_def upd_conn_def find_map_addr assms)

lemma upd_conn_frame [simp]:
  "nt_calls (upd_conn a g n) = nt_calls n" "nt_fresh (upd_conn a g n) = nt_fresh n"
  "nt_servers (upd_conn a g n) = nt_servers n" "nt_name (upd_conn a g n) = nt_name n"
  by (simp_all add: upd_conn_def)

lemma call_frame [simp]:
  "nt_calls (call k n) = nt_calls n @ [k]" "nt_conns (call k n) = nt_conns n" "nt_fresh (call k n) = nt_fresh n"
  "nt_servers (call k n) = nt_servers n"
  by (simp_all add: call_def)

lemma fd_clear_frame [simp]:
  "nt_calls (fd_clear fd n) = nt_calls n" "nt_conns (fd_clear fd n) = nt_conns n"
  "nt_fresh (fd_clear fd n) = nt_fresh n"
  by (simp_all add: fd_clear_def)

lemma net_ok_cong: "nt_conns n' = nt_conns n \<Longrightarrow> nt_fresh n' = nt_fresh n \<Longrightarrow> net_ok n' = net_ok n"
  by (simp add: net_ok_def)

lemma net_ok_upd:
  assumes "\<And>c. cn_addr (g c) = cn_addr c" "net_ok n"
  shows "net_ok (upd_conn a g n)"
proof -
  have "map cn_addr (map (\<lambda>c. if cn_addr c = a then g c else c) (nt_conns n)) = map cn_addr (nt_conns n)"
    by (simp add: assms(1))
  then have "map cn_addr (nt_conns (upd_conn a g n)) = map cn_addr (nt_conns n)"
    by (simp add: upd_conn_def)
  then show ?thesis
    using assms(2) unfolding net_ok_def by (simp only: upd_conn_frame)
qed

lemma set_events_frame [simp]:
  "nt_calls (set_events a es n) = nt_calls n" "nt_fresh (set_events a es n) = nt_fresh n"
  "nt_servers (set_events a es n) = nt_servers n"
  by (simp_all add: set_events_def)

lemma lookup_set_events:
  "lookup b (set_events a es n) = map_option (\<lambda>c. if b = a then c\<lparr>cn_events := es\<rparr> else c) (lookup b n)"
  unfolding set_events_def by (rule lookup_upd) simp

lemma queue_set_events:
  "lookup a n = Some c \<Longrightarrow> queue (set_events a es n) = (queue n)(a := es)"
  by (auto simp: queue_def lookup_set_events fun_eq_iff split: option.split)

lemma net_ok_set_events: "net_ok n \<Longrightarrow> net_ok (set_events a es n)"
  unfolding set_events_def by (rule net_ok_upd) simp_all

section \<open>Operations that only change one queue\<close>

text \<open>The effect on the queues: connection \<open>a\<close> now has the events \<open>es\<close>, nothing is called.\<close>

definition requeued :: "nat \<Rightarrow> event list \<Rightarrow> net \<Rightarrow> net \<Rightarrow> bool" where
  "requeued a es n n' \<longleftrightarrow> lookup a n \<noteq> None \<and> nt_conns n' = nt_conns (set_events a es n)
     \<and> nt_calls n' = nt_calls n \<and> nt_fresh n' = nt_fresh n \<and> nt_servers n' = nt_servers n"

lemma requeued_set: "lookup a n = Some c \<Longrightarrow> requeued a es n (set_events a es n)"
  by (simp add: requeued_def)

lemma requeued_queue [queue_simps]: "requeued a es n n' \<Longrightarrow> queue n' = (queue n)(a := es)"
  using queue_set_events by (auto simp: requeued_def queue_cong [of n'])

lemma requeued_net_ok: "requeued a es n n' \<Longrightarrow> net_ok n \<Longrightarrow> net_ok n'"
  using net_ok_set_events net_ok_cong by (metis requeued_def set_events_frame(2))

lemma requeued_calls: "requeued a es n n' \<Longrightarrow> nt_calls n' = nt_calls n"
  by (simp add: requeued_def)

lemma requeued_lookup:
  "requeued a es n n' \<Longrightarrow> lookup b n' = map_option (\<lambda>c. if b = a then c\<lparr>cn_events := es\<rparr> else c) (lookup b n)"
  by (simp add: requeued_def lookup_cong [of n'] lookup_set_events)

lemma update_fdset_frame:
  assumes "connection_update_fdset a n = Inr n'"
  shows "nt_conns n' = nt_conns n" "nt_calls n' = nt_calls n" "nt_fresh n' = nt_fresh n"
    "nt_servers n' = nt_servers n"
proof -
  obtain c where "lookup a n = Some c"
    using assms by (auto simp: connection_update_fdset_def with_conn_Inr)
  then show "nt_conns n' = nt_conns n" "nt_calls n' = nt_calls n" "nt_fresh n' = nt_fresh n"
    "nt_servers n' = nt_servers n"
    using assms
    by (cases "cn_events c"; auto simp: connection_update_fdset_def with_conn_found Let_def fd_clear_def)+
qed

lemma requeued_fdset:
  "requeued a es n n1 \<Longrightarrow> connection_update_fdset a n1 = Inr n' \<Longrightarrow> requeued a es n n'"
  by (simp add: requeued_def update_fdset_frame)

lemma requeued_trans:
  assumes "requeued a es n n1" "requeued a fs n1 n2"
  shows "requeued a fs n n2"
proof -
  have "nt_conns (set_events a fs n1) = nt_conns (set_events a fs n)"
    using assms(1) by (auto simp: requeued_def set_events_def upd_conn_def)
  then show ?thesis using assms by (simp add: requeued_def)
qed

lemma event_insert_effect:
  assumes "event_insert a es n = Inr n'"
  shows "es \<noteq> []" "requeued a (queue n a @ es) n n'"
proof -
  obtain c where c: "lookup a n = Some c"
    using assms by (auto simp: event_insert_def with_conn_Inr)
  show "es \<noteq> []" using assms c by (auto simp: event_insert_def with_conn_found [OF c] split: if_splits)
  show "requeued a (queue n a @ es) n n'"
    using assms requeued_set [OF c, of "queue n a @ es"]
    by (auto simp: event_insert_def with_conn_found [OF c] queue_found [OF c] Let_def
        intro: requeued_fdset split: if_splits)
qed

lemma event_first_effect: "event_first a e n = Inr n' \<Longrightarrow> requeued a (e # queue n a) n n'"
  by (auto simp: event_first_def with_conn_Inr queue_found intro: requeued_fdset requeued_set)

lemma event_replace_effect: "event_replace a e n = Inr n' \<Longrightarrow> requeued a (e # tl (queue n a)) n n'"
  by (auto simp: event_replace_def with_conn_Inr queue_found intro: requeued_fdset requeued_set)

text \<open>The event that takes the place of the last one of a client.\<close>

definition idle_event :: "connection \<Rightarrow> event" where
  "idle_event c = (if cn_notify_mask c \<noteq> 0 then blank_event NOTIFY else line_event READ_COMMAND None)"

lemma requeued_self:
  assumes "net_ok n" "lookup a n = Some c"
  shows "requeued a (cn_events c) n n"
proof -
  have "d = c" if "d \<in> set (nt_conns n)" "cn_addr d = a" for d
    using lookup_member [OF assms(1) that(1)] that(2) assms(2) by simp
  then have "map (\<lambda>d. if cn_addr d = a then d\<lparr>cn_events := cn_events c\<rparr> else d) (nt_conns n) = nt_conns n"
    by (intro map_idI) auto
  then show ?thesis using assms(2) by (simp add: requeued_def set_events_def upd_conn_def)
qed

definition deleted :: "connection \<Rightarrow> bool \<Rightarrow> event list" where
  "deleted c r = (let es = tl (cn_events c)
     in if cn_events c \<noteq> [] \<and> es = [] \<and> r \<and> cn_type c = CONNECTION_CLIENT then [idle_event c] else es)"

lemma event_delete_effect:
  assumes "net_ok n" "lookup a n = Some c" "event_delete a r n = Inr n'"
  shows "requeued a (deleted c r) n n'"
proof (cases "cn_events c = []")
  case True
  then show ?thesis
    using assms(3) requeued_self [OF assms(1,2)]
    by (simp add: event_delete_def with_conn_found [OF assms(2)] deleted_def requeued_fdset)
next
  case False
  let ?n1 = "set_events a (tl (cn_events c)) n"
  have r1: "requeued a (tl (cn_events c)) n ?n1" by (rule requeued_set [OF assms(2)])
  show ?thesis
  proof (cases "tl (cn_events c) = [] \<and> r \<and> cn_type c = CONNECTION_CLIENT")
    case True
    then obtain n2 where i: "event_insert a [idle_event c] ?n1 = Inr n2"
      and f: "connection_update_fdset a n2 = Inr n'"
      using assms(3) False by (auto simp: event_delete_def with_conn_found [OF assms(2)] idle_event_def Let_def)
    have "requeued a [idle_event c] ?n1 n2"
      using event_insert_effect(2) [OF i] True requeued_queue [OF r1] by simp
    then show ?thesis
      using requeued_fdset [OF requeued_trans [OF r1] f] True False by (simp add: deleted_def)
  next
    case notidle: False
    then have f: "connection_update_fdset a ?n1 = Inr n'"
      using assms(3) False by (auto simp: event_delete_def with_conn_found [OF assms(2)] Let_def)
    then show ?thesis using requeued_fdset [OF r1 f] notidle False by (auto simp: deleted_def)
  qed
qed

section \<open>Requests that are owed\<close>

definition sounds :: "event list \<Rightarrow> nat set" where
  "sounds es = {x. \<exists>e\<in>set es. ev_type e \<in> requests \<and> ev_sound e = Some x}"

definition settled :: "net \<Rightarrow> nat set" where
  "settled n = {x. SpoolRemove x \<in> set (nt_calls n) \<or> SpoolReady x \<in> set (nt_calls n)}"

definition due :: "net \<Rightarrow> nat set" where
  "due n = settled n \<union> (\<Union>a. sounds (queue n a))"

lemma sounds_Nil [simp]: "sounds [] = {}"
  by (simp add: sounds_def)

lemma sounds_append [simp]: "sounds (xs @ ys) = sounds xs \<union> sounds ys"
  by (auto simp: sounds_def)

lemma sounds_Cons: "sounds (e # es) = sounds [e] \<union> sounds es"
  by (auto simp: sounds_def)

lemma sounds_plain: "ev_type e \<notin> requests \<Longrightarrow> sounds [e] = {}"
  by (simp add: sounds_def)

lemma sounds_request: "ev_type e \<in> requests \<Longrightarrow> sounds [e] = set_option (ev_sound e)"
  by (auto simp: sounds_def)

lemma sounds_single: "ev_sound e = Some x \<Longrightarrow> sounds [e] \<subseteq> {x}"
  by (auto simp: sounds_def)

lemma event_type_simps [simp]:
  "ev_type (blank_event t) = t" "ev_type (line_event t s) = t" "ev_type (text_event t u us s) = t"
  "ev_type (read_sound_event f k x) = READ_SOUND" "ev_type (find_event x n) = WRITE_FIND"
  "ev_sound (line_event t s) = s" "ev_sound (text_event t u us s) = s"
  "ev_sound (read_sound_event f k x) = Some x" "ev_sound (find_event x n) = Some x"
  by (simp_all add: blank_event_def line_event_def text_event_def read_sound_event_def find_event_def)

lemma settled_call: "settled (call k n) = settled n \<union> {x. k = SpoolRemove x \<or> k = SpoolReady x}"
  by (auto simp: settled_def)

lemma settled_call_eq:
  "(\<And>x. k \<noteq> SpoolRemove x) \<Longrightarrow> (\<And>x. k \<noteq> SpoolReady x) \<Longrightarrow> settled (call k n) = settled n"
  by (simp add: settled_call)

lemma settled_cong: "nt_calls n' = nt_calls n \<Longrightarrow> settled n' = settled n"
  by (simp add: settled_def)

lemma settled_due: "settled n \<subseteq> due n"
  by (auto simp: due_def)

lemma queue_due: "sounds (queue n a) \<subseteq> due n"
  by (auto simp: due_def)

lemma due_subset:
  assumes "settled n \<subseteq> due n'" "\<And>a. sounds (queue n a) \<subseteq> due n'"
  shows "due n \<subseteq> due n'"
  using assms by (auto simp: due_def)

definition keeps :: "net \<Rightarrow> net \<Rightarrow> bool" where
  "keeps n n' \<longleftrightarrow> net_ok n' \<and> due n \<subseteq> due n'"

lemma keeps_trans: "keeps n n1 \<Longrightarrow> keeps n1 n2 \<Longrightarrow> keeps n n2"
  by (auto simp: keeps_def)

lemma keeps_refl: "net_ok n \<Longrightarrow> keeps n n"
  by (simp add: keeps_def)

lemma keeps_net_ok: "keeps n n' \<Longrightarrow> net_ok n'"
  by (simp add: keeps_def)

lemma keeps_then:
  assumes "keeps n n1" "net_ok n1 \<Longrightarrow> keeps n1 n2"
  shows "keeps n n2"
  using keeps_trans [OF assms(1) assms(2) [OF keeps_net_ok [OF assms(1)]]] .

lemma requeued_due:
  assumes "net_ok n" "requeued a es n n'" "sounds (queue n a) \<subseteq> due n'"
  shows "keeps n n'"
proof -
  have q: "queue n' = (queue n)(a := es)" by (rule requeued_queue [OF assms(2)])
  have "sounds (queue n b) \<subseteq> due n'" for b
    using assms(3) queue_due [of n' b] q by (cases "b = a") auto
  moreover have "settled n \<subseteq> due n'"
    using settled_due settled_cong [OF requeued_calls [OF assms(2)]] by blast
  ultimately show ?thesis
    using due_subset requeued_net_ok [OF assms(2,1)] by (simp add: keeps_def)
qed

lemma requeued_keeps:
  assumes "net_ok n" "requeued a es n n'" "sounds (queue n a) \<subseteq> sounds es"
  shows "keeps n n'"
  using requeued_due [OF assms(1,2)] assms(3) queue_due [of n' a] requeued_queue [OF assms(2)] by fastforce

lemma replace_keeps:
  assumes "net_ok n" "queue n a = e # es" "event_replace a f n = Inr n'" "sounds [e] \<subseteq> sounds [f]"
  shows "keeps n n'"
  using requeued_keeps [OF assms(1) event_replace_effect [OF assms(3)]] assms(2,4)
    sounds_Cons [of e es] sounds_Cons [of f es] by auto

lemma deleted_sounds: "sounds (tl (cn_events c)) \<subseteq> sounds (deleted c r)"
  by (auto simp: deleted_def Let_def)

lemma delete_due:
  assumes ok: "net_ok n" and q: "queue n a = e # es" and d: "event_delete a r n = Inr n'"
    and e: "sounds [e] \<subseteq> due n'"
  shows "keeps n n'"
proof -
  obtain c where c: "lookup a n = Some c" using d by (auto simp: event_delete_def with_conn_Inr)
  note r = event_delete_effect [OF ok c d]
  have "sounds es \<subseteq> sounds (deleted c r)" using deleted_sounds [of c r] q queue_found [OF c] by simp
  then have "sounds es \<subseteq> due n'" using queue_due [of n' a] requeued_queue [OF r] by auto
  then show ?thesis using requeued_due [OF ok r] q e sounds_Cons [of e es] by auto
qed

lemma delete_keeps:
  assumes "net_ok n" "queue n a = e # es" "event_delete a r n = Inr n'" "sounds [e] = {}"
  shows "keeps n n'"
  using delete_due [OF assms(1-3)] assms(4) by simp

section \<open>Closing\<close>

lemma drop_request_frame:
  assumes "drop_request e n = Inr n'"
  shows "nt_conns n' = nt_conns n" "nt_fresh n' = nt_fresh n" "settled n \<union> sounds [e] \<subseteq> settled n'"
  using assms
  by (auto simp: drop_request_def settled_def sounds_def split: if_splits option.splits)

lemma drop_requests_frame:
  assumes "foldE drop_request es n = Inr n'"
  shows "nt_conns n' = nt_conns n \<and> nt_fresh n' = nt_fresh n \<and> settled n \<union> sounds es \<subseteq> settled n'"
  using assms
proof (induction es arbitrary: n)
  case (Cons e es)
  then obtain n1 where n1: "drop_request e n = Inr n1" and r: "foldE drop_request es n1 = Inr n'" by auto
  show ?case
    using Cons.IH [OF r] drop_request_frame [OF n1] sounds_Cons [of e es] by auto
qed simp

lemma destroy_effect:
  assumes ok: "net_ok n" and d: "connection_destroy a n = Inr n'"
  shows "net_ok n'" "queue n' = (queue n)(a := [])" "nt_calls n' = nt_calls n"
proof -
  have n': "nt_conns n' = filter (\<lambda>d. cn_addr d \<noteq> a) (nt_conns n)" "nt_fresh n' = nt_fresh n"
      "nt_calls n' = nt_calls n"
    using d by (auto simp: connection_destroy_def with_conn_Inr Let_def)
  have m: "map cn_addr (filter (\<lambda>d. cn_addr d \<noteq> a) cs) = filter (\<lambda>b. b \<noteq> a) (map cn_addr cs)" for cs
    by (induction cs) auto
  show "net_ok n'" using ok by (auto simp: net_ok_def n' m distinct_filter list_all_iff)
  have "lookup b n' = (if b = a then None else lookup b n)" for b
  proof -
    have f: "find (\<lambda>d. cn_addr d \<noteq> a \<and> cn_addr d = b) cs
        = (if b = a then None else find (\<lambda>d. cn_addr d = b) cs)" for cs
      by (induction cs) auto
    show ?thesis unfolding lookup_def n' find_filter by (rule f)
  qed
  then show "queue n' = (queue n)(a := [])" by (auto simp: queue_def fun_eq_iff)
  show "nt_calls n' = nt_calls n" by (rule n'(3))
qed

lemma close_effect:
  assumes ok: "net_ok n" and cl: "connection_close a n = Inr n'"
  shows "net_ok n'" "queue n' = (queue n)(a := [])" "settled n \<union> sounds (queue n a) \<subseteq> settled n'"
proof -
  obtain c where c: "lookup a n = Some c" using cl by (auto simp: connection_close_def with_conn_Inr)
  define n2 where "n2 = (let n1 = fd_clear (cn_fd c) n
     in if cn_monitor c then n1\<lparr>nt_monitors := nt_monitors n1 - 1\<rparr> else n1)"
  have n2: "nt_conns n2 = nt_conns n" "nt_fresh n2 = nt_fresh n" "nt_calls n2 = nt_calls n"
    by (auto simp: n2_def Let_def)
  obtain n3 where f: "foldE drop_request (cn_events c) (call (CloseFd (cn_fd c)) n2) = Inr n3"
    and d: "connection_destroy a (set_events a [] n3) = Inr n'"
    using cl by (auto simp: connection_close_def with_conn_found [OF c] n2_def Let_def)
  have n3: "nt_conns n3 = nt_conns n" "nt_fresh n3 = nt_fresh n" "settled n \<union> sounds (cn_events c) \<subseteq> settled n3"
    using drop_requests_frame [OF f] n2 settled_cong [OF n2(3)] by (auto simp: settled_call)
  have ok3: "net_ok (set_events a [] n3)"
    by (rule net_ok_set_events) (simp add: net_ok_cong [OF n3(1,2)] ok)
  note e = destroy_effect [OF ok3 d]
  show "net_ok n'" by (rule e)
  have "lookup a n3 = Some c" using c lookup_cong [OF n3(1)] by simp
  then show "queue n' = (queue n)(a := [])"
    using e(2) queue_set_events [of a n3 c "[]"] queue_cong [OF n3(1)] by simp
  show "settled n \<union> sounds (queue n a) \<subseteq> settled n'"
    using n3(3) settled_cong [of n' n3] e(3) unfolding queue_found [OF c] by auto
qed

lemma close_keeps:
  assumes "net_ok n" "connection_close a n = Inr n'"
  shows "keeps n n'"
proof -
  note e = close_effect [OF assms]
  have "sounds (queue n b) \<subseteq> due n'" for b
    using e(2,3) settled_due [of n'] queue_due [of n' b] by (cases "b = a") auto
  then show ?thesis
    using e(1,3) settled_due [of n'] due_subset [of n n'] by (auto simp: keeps_def)
qed

section \<open>Other servers\<close>

lemma create_effect:
  assumes ok: "net_ok n" and r: "connection_create t now n = (a, n')"
  shows "net_ok n'" "a = nt_fresh n" "queue n' = queue n" "nt_calls n' = nt_calls n"
    "lookup b n' = (if b = a then Some (hd (nt_conns n')) else lookup b n)"
    "nt_servers n' = nt_servers n" "cn_addr (hd (nt_conns n')) = a" "cn_events (hd (nt_conns n')) = []"
proof -
  define c where "c = hd (nt_conns n')"
  have c: "nt_conns n' = c # nt_conns n" "cn_addr c = a" "cn_events c = []" "a = nt_fresh n"
      "nt_fresh n' = Suc a" "nt_calls n' = nt_calls n" "nt_servers n' = nt_servers n"
    using r by (simp_all add: c_def connection_create_def Let_def) auto
  have less: "\<forall>d\<in>set (nt_conns n). cn_addr d < a" using ok c(4) by (auto simp: net_ok_def list_all_iff)
  show "a = nt_fresh n" "nt_calls n' = nt_calls n" "nt_servers n' = nt_servers n" by (rule c)+
  show "cn_addr (hd (nt_conns n')) = a" "cn_events (hd (nt_conns n')) = []" using c by simp_all
  have "nt_fresh n < Suc a" using c(4) by simp
  then have "\<forall>d\<in>set (nt_conns n). cn_addr d < Suc a" using less by auto
  then show "net_ok n'" using ok less unfolding net_ok_def c(1,5) list.map c(2) by (auto simp: list_all_iff)
  have l: "lookup b n' = (if b = a then Some c else lookup b n)" for b
    using c(1,2) by (simp add: lookup_def)
  then show "lookup b n' = (if b = a then Some (hd (nt_conns n')) else lookup b n)" using c(1) by simp
  have "lookup a n = None" using less by (auto simp: lookup_def find_None_iff)
  then show "queue n' = queue n" using l c(3) by (auto simp: queue_def fun_eq_iff)
qed

lemma queue_upd:
  assumes "\<And>c. cn_addr (g c) = cn_addr c" "\<And>c. cn_events (g c) = cn_events c"
  shows "queue (upd_conn a g n) = queue n"
  by (auto simp: queue_def lookup_upd assms fun_eq_iff split: option.split)

lemma server_conn_effect:
  assumes ok: "net_ok n" and r: "server_conn sv now n = (b, n')"
  obtains d where "net_ok n'" "queue n' = queue n" "nt_calls n' = nt_calls n" "lookup b n' = Some d"
    "cn_server d = sv" "\<And>a c. lookup a n = Some c \<Longrightarrow> cn_server c \<noteq> sv \<Longrightarrow> b \<noteq> a"
    "nt_servers n' = nt_servers n"
proof (cases "find (\<lambda>c. cn_type c = CONNECTION_SERVER \<and> cn_server c = sv) (nt_conns n)")
  case (Some d)
  have "b = cn_addr d" "n' = n" using r Some by (simp_all add: server_conn_def)
  moreover have "d \<in> set (nt_conns n)" "cn_server d = sv" using Some by (auto simp: find_Some_iff)
  ultimately have d: "d \<in> set (nt_conns n)" "cn_server d = sv" "b = cn_addr d" "n' = n" by simp_all
  then have l: "lookup b n = Some d" using lookup_member [OF ok] by simp
  then have "b \<noteq> a" if "lookup a n = Some c" "cn_server c \<noteq> sv" for a c
    using that d(2) by auto
  then show thesis using that [of d] ok d l by simp
next
  case None
  obtain n1 where cr: "connection_create CONNECTION_SERVER now n = (b, n1)"
    and n': "n' = upd_conn b (\<lambda>c. c\<lparr>cn_server := sv\<rparr>) n1"
    using r None by (auto simp: server_conn_def Let_def prod_eq_iff)
  note e = create_effect [OF ok cr]
  have "lookup b n' = Some ((hd (nt_conns n1))\<lparr>cn_server := sv\<rparr>)"
    unfolding n' by (subst lookup_upd) (simp_all add: e(5))
  moreover have "net_ok n'" unfolding n' by (rule net_ok_upd) (simp_all add: e(1))
  moreover have "queue n' = queue n" unfolding n' using e(3) by (subst queue_upd) simp_all
  moreover have "b \<noteq> a" if "lookup a n = Some c" for a c
  proof -
    have "cn_addr c < nt_fresh n" using lookup_in [OF that] ok by (auto simp: net_ok_def list_all_iff)
    then show ?thesis using lookup_Some_addr [OF that] e(2) by simp
  qed
  ultimately show thesis using that e(4,6) n' by auto
qed

lemma start_connect_effect:
  assumes ok: "net_ok n" and c: "lookup b n = Some d" and s: "start_connect ev b n = Inr n'"
  obtains k where "net_ok n'" "queue n' = (queue n)(b := queue n b @ k)" "sounds k = {}"
    "settled n' = settled n" "nt_servers n' = nt_servers n"
proof (cases "cn_fd d = -1")
  case False
  then show thesis using that [of "[]"] s ok by (simp add: start_connect_def with_conn_found [OF c])
next
  case True
  let ?u = "upd_conn b (\<lambda>c. c\<lparr>cn_fd := ne_socket ev\<rparr>) n"
  define n1 where "n1 = call (ConnectTo (ne_socket ev) (cn_server d)) (call (Ping (cn_server d)) ?u)"
  let ?e = "(blank_event CONNECT)\<lparr>ev_time := ne_now ev\<rparr>"
  have i: "event_insert b [?e] n1 = Inr n'"
    using s True by (simp add: start_connect_def with_conn_found [OF c] n1_def split: if_splits)
  note r = event_insert_effect(2) [OF i]
  have u: "net_ok ?u" "queue ?u = queue n"
    by (rule net_ok_upd) (simp_all add: ok queue_upd)
  have n1: "net_ok n1" "queue n1 = queue n" "settled n1 = settled n" "nt_servers n1 = nt_servers n"
    using u net_ok_cong [of n1 ?u] queue_cong [of n1 ?u] settled_cong [of ?u n]
    by (simp_all add: n1_def settled_call)
  show thesis
  proof (rule that [of "[?e]"])
    show "net_ok n'" by (rule requeued_net_ok [OF r n1(1)])
    show "queue n' = (queue n)(b := queue n b @ [?e])" using requeued_queue [OF r] n1(2) by simp
    show "sounds [?e] = {}" by (rule sounds_plain) (simp add: requests_def)
    show "settled n' = settled n" using settled_cong [OF requeued_calls [OF r]] n1(3) by simp
    show "nt_servers n' = nt_servers n" using r n1(4) by (simp add: requeued_def)
  qed
qed

text \<open>Opening a server only adds to its queue, a request for the sound at least.\<close>

lemma server_open_effect:
  assumes ok: "net_ok n" and o': "connection_server_open ev sv s n = Inr (b, n')"
  obtains k where "net_ok n'" "queue n' = (queue n)(b := queue n b @ k)" "set_option s \<subseteq> sounds k"
    "settled n' = settled n" "\<And>a c. lookup a n = Some c \<Longrightarrow> cn_server c \<noteq> sv \<Longrightarrow> b \<noteq> a"
proof -
  obtain b1 n1 where sc: "server_conn sv (ne_now ev) n = (b1, n1)" by fastforce
  obtain n2 where st: "start_connect ev b1 n1 = Inr n2"
    and fin: "(case s of None \<Rightarrow> Inr (b1, n2)
         | Some x \<Rightarrow> bindE (event_insert b1 [find_event x n2] n2) (\<lambda>n3. Inr (b1, n3))) = Inr (b, n')"
    using o' unfolding connection_server_open_def Let_def sc fst_conv snd_conv bindE_Inr by blast
  obtain d where d: "net_ok n1" "queue n1 = queue n" "nt_calls n1 = nt_calls n" "lookup b1 n1 = Some d"
    "\<And>a c. lookup a n = Some c \<Longrightarrow> cn_server c \<noteq> sv \<Longrightarrow> b1 \<noteq> a"
    by (rule server_conn_effect [OF ok sc]) blast
  obtain k where k: "net_ok n2" "queue n2 = (queue n1)(b1 := queue n1 b1 @ k)" "settled n2 = settled n1"
    by (rule start_connect_effect [OF d(1,4) st]) blast
  have set2: "settled n2 = settled n" using k(3) settled_cong [OF d(3)] by simp
  show thesis
  proof (cases s)
    case None
    then have "b1 = b" "n2 = n'" using fin by auto
    then show thesis using that [of k] k d set2 None by auto
  next
    case (Some x)
    then obtain "b1 = b" and i: "event_insert b [find_event x n2] n2 = Inr n'"
      using fin by auto
    note r = event_insert_effect(2) [OF i]
    let ?k = "k @ [find_event x n2]"
    have "sounds [find_event x n2] = {x}" by (simp add: sounds_request requests_def)
    then have "set_option s \<subseteq> sounds ?k" using Some by simp
    moreover have "queue n' = (queue n)(b := queue n b @ ?k)"
      using requeued_queue [OF r] k(2) d(2) \<open>b1 = b\<close> by auto
    moreover have "settled n' = settled n" using settled_cong [OF requeued_calls [OF r]] set2 by simp
    ultimately show thesis
      using that [of ?k] requeued_net_ok [OF r k(1)] d(5) \<open>b1 = b\<close> by blast
  qed
qed

lemma grown_keeps:
  assumes "net_ok n'" "queue n' = (queue n)(b := queue n b @ k)" "settled n \<subseteq> settled n'"
  shows "keeps n n'"
proof -
  have "sounds (queue n a) \<subseteq> sounds (queue n' a)" for a using assms(2) by auto
  then have "sounds (queue n a) \<subseteq> due n'" for a using queue_due [of n' a] by blast
  then show ?thesis using assms(1,3) settled_due [of n'] due_subset [of n n'] by (auto simp: keeps_def)
qed

lemma forward_sound_effect:
  assumes ok: "net_ok n" and f: "connection_server_forward_sound ev a x n = Inr n'"
  shows "keeps n n'" "queue n' a = queue n a" "x \<in> settled n' \<or> (\<exists>b. b \<noteq> a \<and> x \<in> sounds (queue n' b))"
proof -
  obtain c where c: "lookup a n = Some c"
    using f by (auto simp: connection_server_forward_sound_def with_conn_Inr)
  have "keeps n n' \<and> queue n' a = queue n a \<and> (x \<in> settled n' \<or> (\<exists>b. b \<noteq> a \<and> x \<in> sounds (queue n' b)))"
  proof (cases "cn_server c + 1 < nt_servers n")
    case True
    then obtain b where o': "connection_server_open ev (cn_server c + 1) (Some x) n = Inr (b, n')"
      using f by (auto simp: connection_server_forward_sound_def with_conn_found [OF c])
    obtain k where k: "net_ok n'" "queue n' = (queue n)(b := queue n b @ k)" "set_option (Some x) \<subseteq> sounds k"
        "settled n' = settled n" and ne: "b \<noteq> a"
      by (rule server_open_effect [OF ok o']) (use c in fastforce)
    have "keeps n n'" using grown_keeps [OF k(1,2)] k(4) by simp
    then show ?thesis using k ne by auto
  next
    case False
    then have n': "n' = call (SoundDelete x) (call (SpoolRemove x) n)"
      using f by (auto simp: connection_server_forward_sound_def with_conn_found [OF c])
    have "queue n' = (queue n)(a := queue n a @ [])" using queue_cong [of n' n] by (simp add: n')
    moreover have "settled n \<subseteq> settled n'" "x \<in> settled n'" by (auto simp: n' settled_call)
    moreover have "net_ok n'" using ok net_ok_cong [of n' n] by (simp add: n')
    ultimately show ?thesis using grown_keeps [of n' n a "[]"] by simp
  qed
  then show "keeps n n'" "queue n' a = queue n a" "x \<in> settled n' \<or> (\<exists>b. b \<noteq> a \<and> x \<in> sounds (queue n' b))"
    by auto
qed

lemma forward_keeps:
  assumes ok: "net_ok n" and f: "connection_server_forward ev a n = Inr n'"
  shows "keeps n n'"
proof -
  obtain c where c: "lookup a n = Some c"
    using f by (auto simp: connection_server_forward_def with_conn_Inr)
  show ?thesis
  proof (cases "cn_server c + 1 < nt_servers n")
    case True
    then obtain b n1 n2 where o': "connection_server_open ev (cn_server c + 1) None n = Inr (b, n1)"
      and i: "event_insert b (cn_events c) n1 = Inr n2" and n': "n' = set_events a [] n2"
      using f by (auto simp: connection_server_forward_def with_conn_found [OF c])
    obtain k where k: "net_ok n1" "queue n1 = (queue n)(b := queue n b @ k)" "settled n1 = settled n"
        and ne: "b \<noteq> a"
      by (rule server_open_effect [OF ok o']) (use c in fastforce)
    note r = event_insert_effect(2) [OF i]
    have q2: "queue n2 = (queue n)(b := queue n b @ k @ cn_events c)"
      using requeued_queue [OF r] k(2) by auto
    have q': "queue n' = (queue n2)(a := [])"
    proof (cases "lookup a n2")
      case None
      then have "queue n2 a = []" by (simp add: queue_def)
      moreover have "queue n' = queue n2"
        using None unfolding n' by (auto simp: queue_def lookup_set_events fun_eq_iff split: option.split)
      ultimately show ?thesis by auto
    qed (simp add: n' queue_set_events)
    have s': "settled n' = settled n"
      using settled_cong [OF requeued_calls [OF r]] k(3) n' settled_cong [of n' n2] by simp
    have "sounds (queue n d) \<subseteq> sounds (queue n' (if d = a then b else d))" for d
      using q' q2 ne by (auto simp: queue_found [OF c])
    then have "sounds (queue n d) \<subseteq> due n'" for d
      using queue_due by (meson subset_trans)
    then show ?thesis
      using due_subset [of n n'] s' settled_due [of n'] requeued_net_ok [OF r k(1)] net_ok_set_events
      by (auto simp: keeps_def n')
  next
    case False
    then obtain n2 where d: "foldE drop_request (cn_events c) n = Inr n2" and n': "n' = set_events a [] n2"
      using f by (auto simp: connection_server_forward_def with_conn_found [OF c])
    note e = drop_requests_frame [OF d]
    have l2: "lookup a n2 = Some c" using c lookup_cong [of n2 n] e by simp
    have ok2: "net_ok n2" using ok net_ok_cong [of n2 n] e by simp
    have "keeps n n2"
      using grown_keeps [OF ok2, of n a "[]"] e queue_cong [of n2 n] by auto
    moreover have "keeps n2 n'"
    proof (rule requeued_due [OF ok2])
      show "requeued a [] n2 n'" unfolding n' by (rule requeued_set [OF l2])
      have "settled n2 = settled n'" by (rule settled_cong) (simp add: n')
      then show "sounds (queue n2 a) \<subseteq> due n'"
        using e settled_due [of n'] by (auto simp: queue_found [OF l2])
    qed
    ultimately show ?thesis by (rule keeps_trans)
  qed
qed

lemma pass_on_keeps:
  assumes "net_ok n" "pass_on ev a n = Inr n'"
  shows "keeps n n'"
proof -
  obtain n1 where f: "connection_server_forward (ne_socket_env ev) a n = Inr n1" and c: "connection_close a n1 = Inr n'"
    using assms(2) by (auto simp: pass_on_def)
  note k = forward_keeps [OF assms(1) f]
  show ?thesis by (rule keeps_trans [OF k close_keeps [OF keeps_net_ok [OF k] c]])
qed

lemma reopen_keeps:
  assumes ok: "net_ok n" and f: "connection_server_reopen ev a n = Inr n'"
  shows "keeps n n'"
proof -
  obtain c where c: "lookup a n = Some c"
    using f by (auto simp: connection_server_reopen_def with_conn_Inr)
  let ?m = "call (CloseFd (cn_fd c)) n"
  define n0 where "n0 = upd_conn a (\<lambda>c. c\<lparr>cn_fd := -1, cn_events := []\<rparr>) ?m"
  obtain n1 where o': "connection_server_open ev (cn_server c) None n0 = Inr (a, n1)"
    and i: "event_insert a (cn_events c) n1 = Inr n'"
    using f by (auto simp: connection_server_reopen_def with_conn_found [OF c] n0_def split: if_splits)
  have ok0: "net_ok n0"
    unfolding n0_def by (rule net_ok_upd) (use ok net_ok_cong [of ?m n] in simp_all)
  have l0: "lookup b n0 = map_option (\<lambda>c. if b = a then c\<lparr>cn_fd := -1, cn_events := []\<rparr> else c) (lookup b n)" for b
    unfolding n0_def by (subst lookup_upd) (simp_all add: lookup_cong [of ?m n])
  have q0: "queue n0 = (queue n)(a := [])"
    using c by (auto simp: queue_def l0 fun_eq_iff split: option.split)
  have s0: "settled n0 = settled n"
    using settled_cong [of n0 ?m] by (simp add: n0_def settled_call)
  obtain k where k: "net_ok n1" "queue n1 = (queue n0)(a := queue n0 a @ k)" "settled n1 = settled n0"
    by (rule server_open_effect [OF ok0 o']) blast
  note r = event_insert_effect(2) [OF i]
  have "queue n' = (queue n)(a := k @ queue n a)"
    using requeued_queue [OF r] k(2) q0 by (auto simp: queue_found [OF c])
  then have "sounds (queue n d) \<subseteq> sounds (queue n' d)" for d by auto
  then have "sounds (queue n d) \<subseteq> due n'" for d using queue_due by (meson subset_trans)
  moreover have "settled n' = settled n"
    using settled_cong [OF requeued_calls [OF r]] k(3) s0 by simp
  ultimately show ?thesis
    using due_subset [of n n'] settled_due [of n'] requeued_net_ok [OF r k(1)] by (auto simp: keeps_def)
qed

section \<open>Every update keeps the requests\<close>

lemma bind_keeps:
  assumes "bindE m f = Inr n'" "\<And>n1. m = Inr n1 \<Longrightarrow> keeps n n1"
    and "\<And>n1. net_ok n1 \<Longrightarrow> f n1 = Inr n' \<Longrightarrow> keeps n1 n'"
  shows "keeps n n'"
proof -
  obtain n1 where n1: "m = Inr n1" "f n1 = Inr n'" using assms(1) by auto
  note k = assms(2) [OF n1(1)]
  show ?thesis by (rule keeps_trans [OF k assms(3) [OF keeps_net_ok [OF k] n1(2)]])
qed

lemma sound_of_Inr: "sound_of e f = Inr r \<longleftrightarrow> (\<exists>x. ev_sound e = Some x \<and> f x = Inr r)"
  by (simp add: sound_of_def split: option.split)

lemma call_keeps: "net_ok n \<Longrightarrow> keeps n (call k n)"
  using grown_keeps [of "call k n" n 0 "[]"] net_ok_cong [of "call k n" n] queue_cong [of "call k n" n]
  by (auto simp: settled_call)

lemma frame_keeps:
  assumes "net_ok n" "nt_conns n' = nt_conns n" "nt_calls n' = nt_calls n" "nt_fresh n' = nt_fresh n"
  shows "keeps n n'"
  using grown_keeps [of n' n 0 "[]"] net_ok_cong [of n' n] queue_cong [of n' n] settled_cong [of n' n] assms
  by auto

lemma upd_head_effect:
  assumes ok: "net_ok n" and q: "queue n a = e # es"
  shows "requeued a (g e # es) n (upd_head a g n)"
proof -
  obtain c where c: "lookup a n = Some c" "cn_events c = e # es"
    using q by (auto simp: queue_def split: option.splits)
  have "d = c" if "d \<in> set (nt_conns n)" "cn_addr d = a" for d
    using lookup_member [OF ok that(1)] that(2) c(1) by simp
  then have "nt_conns (upd_head a g n) = nt_conns (set_events a (g e # es) n)"
    using c(2) by (auto simp: upd_head_def set_events_def upd_conn_def)
  then show ?thesis using c(1) by (simp add: requeued_def upd_head_def)
qed

lemma upd_head_keeps:
  assumes "net_ok n" "queue n a = e # es" "ev_sound (g e) = ev_sound e"
    "ev_type (g e) = ev_type e \<or> ev_type e \<notin> requests"
  shows "keeps n (upd_head a g n)"
  by (rule requeued_keeps [OF assms(1) upd_head_effect [OF assms(1,2)]])
    (use assms(2-4) in \<open>auto simp: sounds_def\<close>)

lemma upd_conn_keeps:
  assumes "net_ok n" "\<And>c. cn_addr (g c) = cn_addr c" "\<And>c. cn_events (g c) = cn_events c"
  shows "keeps n (upd_conn a g n)"
  using grown_keeps [of "upd_conn a g n" n a "[]"] net_ok_upd [of g n a] queue_upd [of g a n] assms
    settled_cong [of "upd_conn a g n" n] by auto

lemma give_up_keeps:
  assumes ok: "net_ok n" and q: "queue n a = e # es" "ev_sound e = Some x" and g: "give_up a x n = Inr n'"
  shows "keeps n n'"
proof -
  let ?m = "call (SoundDelete x) (call (SpoolRemove x) n)"
  have k: "keeps n ?m"
    by (rule keeps_trans [OF call_keeps [OF ok] call_keeps [OF keeps_net_ok [OF call_keeps [OF ok]]]])
  have d: "event_delete a True ?m = Inr n'" using g by (simp add: give_up_def)
  have "settled ?m \<subseteq> settled n'"
  proof -
    obtain c where c: "lookup a ?m = Some c" using d by (auto simp: event_delete_def with_conn_Inr)
    show ?thesis
      using settled_cong [OF requeued_calls [OF event_delete_effect [OF keeps_net_ok [OF k] c d]]] by simp
  qed
  then have "x \<in> due n'" using settled_due [of n'] by (auto simp: settled_call)
  then have "sounds [e] \<subseteq> due n'" using sounds_single [OF q(2)] by auto
  moreover have "queue ?m a = e # es" using q(1) queue_cong [of ?m n] by simp
  ultimately show ?thesis using keeps_trans [OF k] delete_due [OF keeps_net_ok [OF k] _ d] by blast
qed

lemma not_found_keeps:
  assumes ok: "net_ok n" and q: "queue n a = e # es" and g: "not_found ev a e n = Inr n'"
  shows "keeps n n'"
proof -
  obtain x n1 where x: "ev_sound e = Some x" and f: "connection_server_forward_sound (ne_socket_env ev) a x n = Inr n1"
    and d: "event_delete a True n1 = Inr n'"
    using g by (auto simp: not_found_def sound_of_Inr)
  note e = forward_sound_effect [OF ok f]
  note ok1 = keeps_net_ok [OF e(1)]
  obtain c where c: "lookup a n1 = Some c" using d by (auto simp: event_delete_def with_conn_Inr)
  note r = event_delete_effect [OF ok1 c d]
  have "x \<in> due n'"
    using e(3)
  proof (elim disjE exE conjE)
    assume "x \<in> settled n1"
    then show ?thesis using settled_cong [OF requeued_calls [OF r]] settled_due [of n'] by auto
  next
    fix b assume "b \<noteq> a" "x \<in> sounds (queue n1 b)"
    then show ?thesis using requeued_queue [OF r] queue_due [of n' b] by auto
  qed
  then have "sounds [e] \<subseteq> due n'" using sounds_single [OF x] by auto
  then show ?thesis using keeps_trans [OF e(1)] delete_due [OF ok1 _ d] e(2) q by metis
qed

lemma ask_again_keeps:
  assumes "net_ok n" "queue n a = e # es" "ask_again ev a f n = Inr n'" "sounds [e] \<subseteq> sounds [f]"
  shows "keeps n n'"
  using assms(3) unfolding ask_again_def
  by (rule bind_keeps) (use assms replace_keeps reopen_keeps in blast)+

lemma replace_pass_keeps:
  assumes "net_ok n" "queue n a = e # es" "sounds [e] \<subseteq> sounds [f]"
    "bindE (event_replace a f n) (pass_on ev a) = Inr n'"
  shows "keeps n n'"
  using assms(4)
  by (rule bind_keeps) (use assms replace_keeps pass_on_keeps in blast)+

lemma delete_pass_keeps:
  assumes "net_ok n" "queue n a = e # es" "sounds [e] = {}"
    "bindE (event_delete a r n) (pass_on ev a) = Inr n'"
  shows "keeps n n'"
  using assms(4)
  by (rule bind_keeps) (use assms delete_keeps pass_on_keeps in blast)+

lemma request_sounds:
  assumes "ev_sound e = Some x" "ev_type f \<in> requests" "ev_sound f = Some x"
  shows "sounds [e] \<subseteq> sounds [f]"
  using assms by (auto simp: sounds_def)

lemma done_or_close_keeps:
  assumes "net_ok n" "queue n a = e # es" "sounds [e] = {}" "done_or_close a e n = Inr n'"
  shows "keeps n n'"
  using assms delete_keeps close_keeps by (auto simp: done_or_close_def split: if_splits)

lemma fdset_keeps: "net_ok n \<Longrightarrow> connection_update_fdset a n = Inr n' \<Longrightarrow> keeps n n'"
  by (rule frame_keeps) (simp_all add: update_fdset_frame)

section \<open>Notifications and the operations of commands\<close>

lemma retype_first_sounds:
  "(\<And>e. P e \<Longrightarrow> ev_type e \<notin> requests) \<Longrightarrow> sounds es \<subseteq> sounds (retype_first P t es)"
proof (induction es)
  case (Cons e es)
  then show ?case using sounds_Cons [of e es] sounds_Cons [of e "retype_first P t es"]
      sounds_Cons [of "e\<lparr>ev_type := t\<rparr>" es] by (auto simp: sounds_plain)
qed simp

lemma retype_conn_keeps:
  assumes ok: "net_ok n" and P: "\<And>e. P e \<Longrightarrow> ev_type e \<notin> requests" and r: "retype_conn P t a n = Inr n'"
  shows "keeps n n'"
proof -
  obtain c where c: "lookup a n = Some c" using r by (auto simp: retype_conn_def with_conn_Inr)
  let ?n1 = "set_events a (retype_first P t (cn_events c)) n"
  have k: "keeps n ?n1"
    by (rule requeued_keeps [OF ok requeued_set [OF c]])
      (use retype_first_sounds [OF P] in \<open>simp add: queue_found [OF c]\<close>)
  have "connection_update_fdset a ?n1 = Inr n' \<or> n' = ?n1"
    using r by (auto simp: retype_conn_def with_conn_found [OF c] Let_def split: if_splits)
  then show ?thesis using k keeps_then [OF k] fdset_keeps by blast
qed

lemma retype_keeps:
  assumes "net_ok n" "\<And>e. P e \<Longrightarrow> ev_type e \<notin> requests" "retype P t n = Inr n'"
  shows "keeps n n'"
proof -
  have "keeps n m'" if "keeps n m" "retype_conn P t a m = Inr m'" for a m m'
    using keeps_then [OF that(1)] retype_conn_keeps [OF _ assms(2) that(2)] by blast
  then show ?thesis
    using foldE_invariant [of "map cn_addr (nt_conns n)" "keeps n" "retype_conn P t" n n'] keeps_refl [OF assms(1)]
      assms(3) unfolding retype_def by blast
qed

lemma foldE_keeps:
  assumes "net_ok n" "\<And>x m m'. x \<in> set xs \<Longrightarrow> net_ok m \<Longrightarrow> f x m = Inr m' \<Longrightarrow> keeps m m'" "foldE f xs n = Inr n'"
  shows "keeps n n'"
proof (rule foldE_invariant [of xs "keeps n" f n, OF _ keeps_refl [OF assms(1)] assms(3)])
  fix x m m' assume "x \<in> set xs" "keeps n m" "f x m = Inr m'"
  then show "keeps n m'" using keeps_trans assms(2) keeps_net_ok by blast
qed

lemma insert_before_keeps:
  assumes ok: "net_ok n" and i: "event_insert_before a e stop n = Inr n'"
  shows "keeps n n'"
proof -
  obtain c where c: "lookup a n = Some c" using i by (auto simp: event_insert_before_def with_conn_Inr)
  note i' = i [unfolded event_insert_before_def with_conn_found [OF c]]
  have first: "keeps n n'" if "event_first a e n = Inr n'"
    by (rule requeued_keeps [OF ok event_first_effect [OF that]]) (use sounds_Cons [of e "queue n a"] in blast)
  show ?thesis
  proof (cases "cn_events c = [] \<or> ev_type (hd (cn_events c)) \<in> stop")
    case True
    then have "event_first a e n = Inr n'" using i' by (cases "cn_events c") auto
    then show ?thesis by (rule first)
  next
    case False
    then obtain x xs where 2: "cn_events c = x # xs" "n' = set_events a (x # takeWhile (\<lambda>y. ev_type y \<notin> stop) xs @ e
        # dropWhile (\<lambda>y. ev_type y \<notin> stop) xs) n"
      using i' by (cases "cn_events c") auto
    let ?t = "takeWhile (\<lambda>y. ev_type y \<notin> stop) xs" and ?d = "dropWhile (\<lambda>y. ev_type y \<notin> stop) xs"
    have "sounds xs = sounds ?t \<union> sounds ?d" using sounds_append [of ?t ?d] by simp
    then have "sounds (x # xs) \<subseteq> sounds (x # ?t @ e # ?d)"
      using sounds_Cons [of x xs] sounds_Cons [of x "?t @ e # ?d"] sounds_Cons [of e ?d] by auto
    then show ?thesis
      using requeued_keeps [OF ok requeued_set [OF c]] 2 by (simp add: queue_found [OF c])
  qed
qed

lemma put_line_keeps:
  assumes ok: "net_ok n" and p: "put_line a s n = Inr n'"
  shows "keeps n n'"
proof -
  obtain c where c: "lookup a n = Some c" using p by (auto simp: put_line_def with_conn_Inr)
  let ?es = "cn_events c" and ?e = "text_event WRITE s [] None"
  have q: "queue n a = ?es" by (rule queue_found [OF c])
  note p' = p [unfolded put_line_def with_conn_found [OF c] Let_def]
  consider "?es \<noteq> []" "n' = set_events a (butlast ?es @ [append_text s (last ?es)]) n"
    | "?es \<noteq> []" "ev_type (hd ?es) = NOTIFY" "event_replace a ?e n = Inr n'"
    | "event_insert_before a ?e waiting_events n = Inr n'"
  proof (cases "?es \<noteq> [] \<and> ev_type (last ?es) = WRITE \<and> int (length (ev_text (last ?es)) + length s) \<le> BUFFER_SIZE")
    case True
    then show thesis using p' that(1) by (simp split: if_splits)
  next
    case False
    then have "(if ?es \<noteq> [] \<and> ev_type (hd ?es) = NOTIFY then event_replace a ?e n
        else event_insert_before a ?e waiting_events n) = Inr n'" using p' by (simp only: if_False)
    then show thesis using that(2,3) by (simp split: if_splits)
  qed
  then show ?thesis
  proof cases
    case 1
    have "sounds [last ?es] = sounds [append_text s (last ?es)]" by (simp add: sounds_def append_text_def)
    then have "sounds ?es \<subseteq> sounds (butlast ?es @ [append_text s (last ?es)])"
      using sounds_append [of "butlast ?es" "[last ?es]"] 1(1) by simp
    then show ?thesis using requeued_keeps [OF ok requeued_set [OF c]] 1(2) q by simp
  next
    case 2
    then have "queue n a = hd ?es # tl ?es" using q by simp
    moreover have "sounds [hd ?es] = {}" using 2(2) by (simp add: sounds_plain requests_def)
    ultimately show ?thesis using replace_keeps [OF ok _ 2(3)] by blast
  qed (rule insert_before_keeps [OF ok])
qed

lemma notify_one_keeps:
  assumes ok: "net_ok n" and p: "notify_one nv nc a n = Inr n'"
  shows "keeps n n'"
proof -
  obtain c where c: "lookup a n = Some c" using p by (auto simp: notify_one_def with_conn_Inr)
  let ?n1 = "if is_level nc \<and> cn_level_rate c \<noteq> 0
    then upd_conn a (\<lambda>c. c\<lparr>cn_level_next := nv_timer nv + cn_level_rate c\<rparr>) n else n"
  show ?thesis
  proof (cases "interested nv c nc")
    case False
    then show ?thesis using p keeps_refl [OF ok] by (simp add: notify_one_def with_conn_found [OF c])
  next
    case True
    then obtain n2 where f: "foldE (\<lambda>h. put_line a (h # tl (notice_line nc))) (notice_heads c nc) ?n1 = Inr n2"
      and n': "n' = upd_conn a (\<lambda>c. c\<lparr>cn_time := nv_now nv\<rparr>) n2"
      using p by (auto simp: notify_one_def with_conn_found [OF c] Let_def)
    have k1: "keeps n ?n1" using upd_conn_keeps [OF ok] keeps_refl [OF ok] by simp
    have k2: "keeps ?n1 n2" by (rule foldE_keeps [OF keeps_net_ok [OF k1] _ f]) (rule put_line_keeps)
    have "keeps n2 n'" unfolding n' by (rule upd_conn_keeps [OF keeps_net_ok [OF k2]]) simp_all
    then show ?thesis using k1 k2 keeps_trans by blast
  qed
qed

lemma notify_keeps:
  assumes ok: "net_ok n" and p: "connection_notify to nv nc n = Inr n'"
  shows "keeps n n'"
proof -
  have all: "keeps m m'" if "net_ok m" "notify_all to nv d m = Inr m'" for d m m'
    by (rule foldE_keeps [OF that(1) _ that(2) [unfolded notify_all_def]]) (rule notify_one_keeps)
  obtain n1 where n1: "notify_all to nv nc n = Inr n1"
    and r: "notify_all to nv (state_notice nv) (n1\<lparr>nt_state := (nv_playing nv, nv_paused nv, nv_volume nv)\<rparr>) = Inr n'
      \<or> n1 = n'"
    using p by (auto simp: connection_notify_def split: if_splits)
  have k1: "keeps n n1" by (rule all [OF ok n1])
  have k2: "keeps n1 (n1\<lparr>nt_state := s\<rparr>)" for s by (rule frame_keeps [OF keeps_net_ok [OF k1]]) simp_all
  from r show ?thesis
  proof
    assume "n1 = n'" then show ?thesis using k1 by simp
  next
    assume "notify_all to nv (state_notice nv) (n1\<lparr>nt_state := (nv_playing nv, nv_paused nv, nv_volume nv)\<rparr>) = Inr n'"
    from all [OF keeps_net_ok [OF k2] this] show ?thesis using keeps_trans [OF k1 keeps_trans [OF k2]] by blast
  qed
qed

lemma set_rates_simps [simp]:
  "cn_addr (set_rates lv ps c) = cn_addr c" "cn_events (set_rates lv ps c) = cn_events c"
  by (auto simp: set_rates_def Let_def split: option.splits)

lemma run_op_keeps:
  assumes ok: "net_ok n" and r: "run_op ev k n = Inr n'"
  shows "keeps n n'"
proof (cases k)
  case (OpReply a s)
  then obtain e where e: "event_first a e n = Inr n'"
    using r by (auto simp: connection_reply_def Let_def split: if_splits)
  show ?thesis
    by (rule requeued_keeps [OF ok event_first_effect [OF e]]) (use sounds_Cons [of e "queue n a"] in blast)
next
  case (OpInsert a e)
  then have i: "event_insert a [e] n = Inr n'" using r by simp
  show ?thesis by (rule requeued_keeps [OF ok event_insert_effect(2) [OF i]]) simp
next
  case (OpOpen sv x)
  then obtain b where o': "connection_server_open ev sv (Some x) n = Inr (b, n')" using r by auto
  obtain j where "net_ok n'" "queue n' = (queue n)(b := queue n b @ j)" "settled n' = settled n"
    by (rule server_open_effect [OF ok o']) blast
  then show ?thesis using grown_keeps by simp
next
  case (OpContinue i)
  then have "retype (\<lambda>e. ev_type e = WAIT_FLOW \<and> ev_id e = i) READ_FLOW n = Inr n'"
    using r by (simp add: connection_flow_continue_def)
  then show ?thesis by (rule retype_keeps [OF ok, rotated]) (auto simp: requests_def)
next
  case (OpPause i)
  then have "retype (\<lambda>e. ev_type e = READ_FLOW \<and> ev_id e = i) WAIT_FLOW n = Inr n'"
    using r by (simp add: connection_flow_pause_def)
  then show ?thesis by (rule retype_keeps [OF ok, rotated]) (auto simp: requests_def)
next
  case (OpMonitor a)
  let ?m = "n\<lparr>nt_monitors := nt_monitors n + 1\<rparr>"
  have k: "keeps n ?m" by (rule frame_keeps [OF ok]) simp_all
  have "keeps ?m (upd_conn a (\<lambda>c. c\<lparr>cn_monitor := True\<rparr>) ?m)"
    by (rule upd_conn_keeps [OF keeps_net_ok [OF k]]) simp_all
  then show ?thesis using r OpMonitor keeps_trans [OF k] by auto
next
  case OpWantLevel
  then show ?thesis using r frame_keeps [OF ok, of n'] by auto
qed (use r ok notify_keeps call_keeps upd_conn_keeps in auto)

lemma update_command_keeps:
  assumes ok: "net_ok n" and q: "queue n a = e # es" "ev_type e = READ_COMMAND"
    and u: "update_command ev a e n = Inr n'"
  shows "keeps n n'"
proof -
  have s: "sounds [e] = {}" using q(2) by (simp add: sounds_plain requests_def)
  show ?thesis
  proof (cases "ev_success e \<and> first_char (ev_text e) \<noteq> NUL \<and> of_char (first_char (ev_text e)) < (128 :: nat)")
    case True
    then obtain n1 where d: "event_delete a False n = Inr n1"
      and r: "(let (ops, good) = ne_command ev a (c_string (ev_text e)) n1
           in bindE (foldE (run_op (ne_socket_env ev)) ops n1) (\<lambda>n2.
                if good then Inr n2 else connection_close a n2)) = Inr n'"
      using u unfolding update_command_def by (simp only: if_True if_False bindE_Inr not_True_eq_False simp_thms) blast
    obtain ops good where o': "ne_command ev a (c_string (ev_text e)) n1 = (ops, good)" by fastforce
    obtain n2 where f: "foldE (run_op (ne_socket_env ev)) ops n1 = Inr n2"
      and l: "(if good then Inr n2 else connection_close a n2) = Inr n'"
      using r unfolding o' Let_def split_conv bindE_Inr by blast
    have k1: "keeps n n1" by (rule delete_keeps [OF ok q(1) d s])
    have k2: "keeps n1 n2" by (rule foldE_keeps [OF keeps_net_ok [OF k1] _ f]) (rule run_op_keeps)
    have "keeps n2 n'" using l close_keeps keeps_refl keeps_net_ok [OF k2] by (auto split: if_splits)
    then show ?thesis using k1 k2 keeps_trans by blast
  next
    case False
    then have "connection_close a n = Inr n' \<or> event_delete a True n = Inr n'"
      using u by (auto simp: update_command_def split: if_splits)
    then show ?thesis using close_keeps delete_keeps ok q(1) s by blast
  qed
qed

lemma update_connect_keeps:
  assumes ok: "net_ok n" and q: "queue n a = e # es" "ev_type e = CONNECT"
    and u: "update_connect ev a c e n = Inr n'"
  shows "keeps n n'"
proof (cases "ne_now ev - ev_time e < RPTP_PING_DELAY")
  case True
  then show ?thesis using u keeps_refl [OF ok] by (simp add: update_connect_def)
next
  case late: False
  let ?t = "\<lambda>e. e\<lparr>ev_time := ne_now ev\<rparr>" and ?k = "\<lambda>e. e\<lparr>ev_nconnects := ev_nconnects e + 1\<rparr>"
  define n1 where "n1 = call (ConnectTo (cn_fd c) (cn_server c)) (upd_head a ?t n)"
  define n2 where "n2 = upd_head a ?k n1"
  have not_req: "ev_type e \<notin> requests" using q(2) by (simp add: requests_def)
  have h1: "keeps n (upd_head a ?t n)" by (rule upd_head_keeps [OF ok q(1)]) simp_all
  have k1: "keeps n n1" unfolding n1_def by (rule keeps_trans [OF h1 call_keeps [OF keeps_net_ok [OF h1]]])
  have q1: "queue n1 a = ?t e # es"
    using requeued_queue [OF upd_head_effect [OF ok q(1)]] queue_cong [of n1 "upd_head a ?t n"]
    by (simp add: n1_def)
  have k2: "keeps n1 n2" unfolding n2_def by (rule upd_head_keeps [OF keeps_net_ok [OF k1] q1]) simp_all
  have q2: "queue n2 a = ?k (?t e) # es"
    using requeued_queue [OF upd_head_effect [OF keeps_net_ok [OF k1] q1]] by (simp add: n2_def)
  have u': "(if ne_connected ev then event_replace a (line_event READ_CONNECT_REPLY None) n1
      else if ev_nconnects e + 1 < RPTP_CONNECT_ATTEMPTS \<and> ne_retry ev
      then connection_update_fdset a (call (ConnectTo (ne_socket ev) (cn_server c))
             (upd_conn a (\<lambda>c. c\<lparr>cn_fd := ne_socket ev\<rparr>)
               (call (CloseFd (cn_fd c)) (fd_clear (cn_fd c) (call (Ping (cn_server c)) n2)))))
      else bindE (event_delete a True n2) (pass_on ev a)) = Inr n'"
    using u late unfolding update_connect_def n1_def n2_def by (simp add: Let_def)
  show ?thesis
  proof (cases "ne_connected ev")
    case True
    then have r: "event_replace a (line_event READ_CONNECT_REPLY None) n1 = Inr n'" using u' by simp
    have "keeps n1 n'"
      by (rule replace_keeps [OF keeps_net_ok [OF k1] q1 r]) (use not_req in \<open>simp add: sounds_plain\<close>)
    then show ?thesis by (rule keeps_trans [OF k1])
  next
    case failed: False
    have ok2: "net_ok n2" by (rule keeps_net_ok [OF k2])
    have "keeps n2 n'"
    proof (cases "ev_nconnects e + 1 < RPTP_CONNECT_ATTEMPTS \<and> ne_retry ev")
      case True
      define m1 where "m1 = call (Ping (cn_server c)) n2"
      define m2 where "m2 = call (CloseFd (cn_fd c)) (fd_clear (cn_fd c) m1)"
      define m3 where "m3 = upd_conn a (\<lambda>c. c\<lparr>cn_fd := ne_socket ev\<rparr>) m2"
      define m4 where "m4 = call (ConnectTo (ne_socket ev) (cn_server c)) m3"
      have f: "connection_update_fdset a m4 = Inr n'"
        using u' failed True by (simp add: m1_def m2_def m3_def m4_def)
      have a1: "keeps n2 m1" unfolding m1_def by (rule call_keeps [OF ok2])
      have a1': "keeps m1 (fd_clear (cn_fd c) m1)" by (rule frame_keeps [OF keeps_net_ok [OF a1]]) simp_all
      have a2: "keeps m1 m2" unfolding m2_def by (rule keeps_trans [OF a1' call_keeps [OF keeps_net_ok [OF a1']]])
      have a3: "keeps m2 m3" unfolding m3_def by (rule upd_conn_keeps [OF keeps_net_ok [OF a2]]) simp_all
      have a4: "keeps m3 m4" unfolding m4_def by (rule call_keeps [OF keeps_net_ok [OF a3]])
      have "keeps m4 n'" by (rule fdset_keeps [OF keeps_net_ok [OF a4] f])
      then show ?thesis using a1 a2 a3 a4 keeps_trans by blast
    next
      case False
      then have r: "bindE (event_delete a True n2) (pass_on ev a) = Inr n'" using u' failed by auto
      show ?thesis
        by (rule delete_pass_keeps [OF ok2 q2 _ r]) (use not_req in \<open>simp add: sounds_plain\<close>)
    qed
    then show ?thesis using k1 k2 keeps_trans by blast
  qed
qed

lemma update_find_reply_keeps:
  assumes ok: "net_ok n" and q: "queue n a = e # es" and u: "update_find_reply ev a e n = Inr n'"
  shows "keeps n n'"
proof -
  obtain x where x: "ev_sound e = Some x" using u by (auto simp: update_find_reply_def sound_of_Inr)
  have find_: "sounds [e] \<subseteq> sounds [find_event x n]"
    by (rule request_sounds [OF x]) (simp_all add: requests_def)
  have get_: "sounds [e] \<subseteq> sounds [text_event WRITE_GET (get_line x n) [] (Some x)]"
    by (rule request_sounds [OF x]) (simp_all add: requests_def)
  consider "bindE (event_replace a (find_event x n) n) (pass_on ev a) = Inr n'"
    | "give_up a x n = Inr n'"
    | "event_replace a (text_event WRITE_GET (get_line x n) [] (Some x)) n = Inr n'"
    | "not_found ev a e n = Inr n'"
    | "ask_again ev a (find_event x n) n = Inr n'"
    using u x unfolding update_find_reply_def sound_of_def by (auto simp del: bindE_Inr split: if_splits)
      (auto split: if_splits)
  then show ?thesis
    using replace_pass_keeps [OF ok q find_] give_up_keeps [OF ok q x] replace_keeps [OF ok q _ get_]
      not_found_keeps [OF ok q] ask_again_keeps [OF ok q _ find_]
    by cases blast+
qed

lemma update_get_reply_keeps:
  assumes ok: "net_ok n" and q: "queue n a = e # es" and u: "update_get_reply ev a e n = Inr n'"
  shows "keeps n n'"
proof -
  obtain x where x: "ev_sound e = Some x" using u by (auto simp: update_get_reply_def sound_of_Inr)
  have find_: "sounds [e] \<subseteq> sounds [find_event x n]"
    by (rule request_sounds [OF x]) (simp_all add: requests_def)
  have get_: "sounds [e] \<subseteq> sounds [text_event WRITE_GET (get_line x n) [] (Some x)]"
    by (rule request_sounds [OF x]) (simp_all add: requests_def)
  have got: "keeps n n'" if g: "got_sound ev a x line n = Inr n'" for line
  proof -
    obtain s k where s: "reply_sound line = Some s" "reply_size line = Inr k"
      using g by (auto simp: got_sound_def split: option.splits)
    let ?path = "cache_name (ne_cache_directory ev) s"
    define m1 where "m1 = n\<lparr>nt_name := (nt_name n)(x := path_name ?path)\<rparr>"
    define m where "m = call (CacheCreate ?path k) (call (SetPath x ?path) m1)"
    have g': "(if ne_cache_create ev ?path k < 0 then give_up a x m
        else event_replace a (read_sound_event (ne_cache_create ev ?path k) k x) m) = Inr n'"
      using g s unfolding m_def m1_def by (simp add: got_sound_def Let_def split del: if_split)
    have k1: "keeps n m1" by (rule frame_keeps [OF ok]) (simp_all add: m1_def)
    have k2: "keeps m1 (call (SetPath x ?path) m1)" by (rule call_keeps [OF keeps_net_ok [OF k1]])
    have k3: "keeps n m" unfolding m_def
      by (rule keeps_trans [OF k1 keeps_trans [OF k2 call_keeps [OF keeps_net_ok [OF k2]]]])
    have qm: "queue m a = e # es" using q queue_cong [of m n] by (simp add: m_def m1_def)
    have rs: "sounds [e] \<subseteq> sounds [read_sound_event (ne_cache_create ev ?path k) k x]"
      by (rule request_sounds [OF x]) (simp_all add: requests_def)
    have "keeps m n'"
      using g' give_up_keeps [OF keeps_net_ok [OF k3] qm x] replace_keeps [OF keeps_net_ok [OF k3] qm _ rs]
      by (auto split: if_splits)
    then show ?thesis by (rule keeps_trans [OF k3])
  qed
  consider "bindE (event_replace a (find_event x n) n) (pass_on ev a) = Inr n'"
    | "got_sound ev a x (c_string (ev_text e)) n = Inr n'"
    | "not_found ev a e n = Inr n'"
    | "ask_again ev a (text_event WRITE_GET (get_line x n) [] (Some x)) n = Inr n'"
    using u x unfolding update_get_reply_def sound_of_def by (auto simp del: bindE_Inr split: if_splits)
  then show ?thesis
    using replace_pass_keeps [OF ok q find_] got not_found_keeps [OF ok q] ask_again_keeps [OF ok q _ get_]
    by cases blast+
qed

lemma update_sound_keeps:
  assumes ok: "net_ok n" and q: "queue n a = e # es" and u: "update_sound ev a c e n = Inr n'"
  shows "keeps n n'"
proof -
  obtain x where x: "ev_sound e = Some x" using u by (auto simp: update_sound_def sound_of_Inr)
  have find_: "sounds [e] \<subseteq> sounds [find_event x n]"
    by (rule request_sounds [OF x]) (simp_all add: requests_def)
  show ?thesis
  proof (cases "ev_success e")
    case True
    define m1 where "m1 = call (SoundMap x) (call (CloseFd (ev_fd e)) n)"
    define m where "m = call (SpoolReady x) m1"
    have d: "event_delete a True m = Inr n'"
      using u True x by (simp add: update_sound_def sound_of_def m_def m1_def)
    have k1: "keeps n m1" unfolding m1_def
      by (rule keeps_trans [OF call_keeps [OF ok] call_keeps [OF keeps_net_ok [OF call_keeps [OF ok]]]])
    have k: "keeps n m" unfolding m_def by (rule keeps_trans [OF k1 call_keeps [OF keeps_net_ok [OF k1]]])
    obtain c1 where c1: "lookup a m = Some c1" using d by (auto simp: event_delete_def with_conn_Inr)
    have "x \<in> settled n'"
      using settled_cong [OF requeued_calls [OF event_delete_effect [OF keeps_net_ok [OF k] c1 d]]]
      by (simp add: m_def settled_call)
    then have "sounds [e] \<subseteq> due n'" using sounds_single [OF x] settled_due [of n'] by blast
    moreover have "queue m a = e # es" using q queue_cong [of m n] by (simp add: m_def m1_def)
    ultimately show ?thesis using keeps_trans [OF k] delete_due [OF keeps_net_ok [OF k] _ d] by blast
  next
    case False
    then have u': "bindE (if cn_type c = CONNECTION_SERVER
        then bindE (event_replace a (find_event x n) n) (connection_server_forward (ne_socket_env ev) a)
        else Inr n) (connection_close a) = Inr n'"
      using u x by (simp add: update_sound_def sound_of_def split del: if_split)
    show ?thesis
    proof (rule bind_keeps [OF u'])
      fix n1 assume i: "(if cn_type c = CONNECTION_SERVER
        then bindE (event_replace a (find_event x n) n) (connection_server_forward (ne_socket_env ev) a) else Inr n) = Inr n1"
      show "keeps n n1"
      proof (cases "cn_type c = CONNECTION_SERVER")
        case True
        then have b: "bindE (event_replace a (find_event x n) n) (connection_server_forward (ne_socket_env ev) a) = Inr n1"
          using i by simp
        show ?thesis by (rule bind_keeps [OF b]) (use replace_keeps [OF ok q _ find_] forward_keeps in blast)+
      qed (use i keeps_refl [OF ok] in simp)
    qed (rule close_keeps)
  qed
qed

lemma update_write_keeps:
  assumes ok: "net_ok n" and q: "queue n a = e # es" "ev_type e = WRITE" and u: "update_write a e n = Inr n'"
  shows "keeps n n'"
proof -
  have s: "sounds [e] = {}" using q(2) by (simp add: sounds_plain requests_def)
  show ?thesis
    using u close_keeps [OF ok] delete_keeps [OF ok q(1) _ s]
    by (auto simp: update_write_def split: if_splits list.splits intro!: upd_head_keeps [OF ok q(1)])
qed

lemma update_monitor_keeps:
  assumes ok: "net_ok n" and q: "queue n a = e # es" "ev_type e = WRITE_MONITOR"
    and u: "update_monitor ev a e n = Inr n'"
  shows "keeps n n'"
proof (cases "ev_success e")
  case False
  then show ?thesis using u close_keeps [OF ok] by (simp add: update_monitor_def)
next
  case True
  define g :: "event \<Rightarrow> event" where "g = (\<lambda>e. let b = fst (ne_monitor ev) in e\<lparr>ev_text := b, ev_pos := 0,
     ev_nleft := int (length b), ev_nbytes := int (length b), ev_success := False\<rparr>)"
  have n1: "(if snd (ne_monitor ev) then connection_monitor_pause a (upd_head a g n) else Inr (upd_head a g n)) = Inr n'"
    using u True unfolding g_def update_monitor_def Let_def by (simp split del: if_split)
  have g: "ev_type (g e) = WRITE_MONITOR" "ev_sound (g e) = ev_sound e" using q(2) by (simp_all add: g_def Let_def)
  have k: "keeps n (upd_head a g n)" by (rule upd_head_keeps [OF ok q(1)]) (simp_all add: g q(2))
  note r = upd_head_effect [OF ok q(1), of g]
  have q1: "queue (upd_head a g n) a = g e # es" using requeued_queue [OF r] by simp
  have "keeps (upd_head a g n) n'" if p: "connection_monitor_pause a (upd_head a g n) = Inr n'"
  proof -
    let ?w = "\<lambda>e. e\<lparr>ev_type := WAIT_MONITOR\<rparr>"
    have f: "connection_update_fdset a (upd_head a ?w (upd_head a g n)) = Inr n'"
      using p q1 g(1) by (auto simp: connection_monitor_pause_def with_conn_Inr queue_def)
    have k1: "keeps (upd_head a g n) (upd_head a ?w (upd_head a g n))"
      by (rule upd_head_keeps [OF keeps_net_ok [OF k] q1]) (simp_all add: g requests_def)
    show ?thesis by (rule keeps_trans [OF k1 fdset_keeps [OF keeps_net_ok [OF k1] f]])
  qed
  moreover have "connection_monitor_pause a (upd_head a g n) = Inr n' \<or> upd_head a g n = n'"
    using n1 by (auto split: if_splits)
  ultimately show ?thesis using k keeps_trans [OF k] by blast
qed

lemma event_update_keeps:
  assumes ok: "net_ok n" and u: "event_update ev a n = Inr n'"
  shows "keeps n n'"
proof -
  obtain c where c: "lookup a n = Some c" using u by (auto simp: event_update_def with_conn_Inr)
  show ?thesis
  proof (cases "cn_events c")
    case Nil
    then show ?thesis using u keeps_refl [OF ok] by (simp add: event_update_def with_conn_found [OF c])
  next
    case (Cons e es)
    then have q: "queue n a = e # es" by (simp add: queue_found [OF c])
    note u' = u [unfolded event_update_def with_conn_found [OF c] Cons list.case]
    have plain: "sounds [e] = {}" if "ev_type e \<notin> requests" using that by (rule sounds_plain)
    have find_: "\<And>x. ev_sound e = Some x \<Longrightarrow> sounds [e] \<subseteq> sounds [find_event x n]"
      by (rule request_sounds) (auto simp: requests_def)
    have reply: "sounds [e] \<subseteq> sounds [line_event t (ev_sound e)]" if "t \<in> requests" for t
      using that by (auto simp: sounds_def)
    show ?thesis
    proof (cases "ev_type e")
      case READ_COMMAND
      then show ?thesis using u' update_command_keeps [OF ok q] by simp
    next
      case CONNECT
      then show ?thesis using u' update_connect_keeps [OF ok q] by simp
    next
      case READ_CONNECT_REPLY
      then have "update_connect_reply ev a e n = Inr n'" "sounds [e] = {}"
        using u' by (simp_all add: plain requests_def)
      then show ?thesis
        using delete_keeps [OF ok q] delete_pass_keeps [OF ok q]
        by (auto simp: update_connect_reply_def simp del: bindE_Inr split: if_splits)
    next
      case WRITE_FIND
      then show ?thesis
        using u' replace_keeps [OF ok q _ reply] pass_on_keeps [OF ok]
        by (auto simp: requests_def split: if_splits)
    next
      case READ_FIND_REPLY
      then show ?thesis using u' update_find_reply_keeps [OF ok q] by simp
    next
      case WRITE_GET
      show ?thesis
      proof (cases "ev_success e")
        case True
        then show ?thesis using WRITE_GET u' replace_keeps [OF ok q _ reply] by (auto simp: requests_def)
      next
        case False
        then obtain x where "ev_sound e = Some x"
          and "bindE (event_replace a (find_event x n) n) (pass_on ev a) = Inr n'"
          using WRITE_GET u' by (auto simp: find_again_def sound_of_def split: option.splits)
        then show ?thesis using replace_pass_keeps [OF ok q find_] by blast
      qed
    next
      case READ_GET_REPLY
      then show ?thesis using u' update_get_reply_keeps [OF ok q] by simp
    next
      case READ_SOUND
      then show ?thesis using u' update_sound_keeps [OF ok q] by simp
    next
      case WRITE
      then show ?thesis using u' update_write_keeps [OF ok q] by simp
    next
      case WRITE_MONITOR
      then show ?thesis using u' update_monitor_keeps [OF ok q] by simp
    next
      case NOTIFY
      then show ?thesis using u' keeps_refl [OF ok] by simp
    next
      case WRITE_TIMEOUT
      then show ?thesis using u' close_keeps [OF ok] by simp
    next
      case WAIT_MONITOR
      then show ?thesis using u' close_keeps [OF ok] by simp
    qed (use u' done_or_close_keeps [OF ok q] plain in \<open>simp_all add: requests_def\<close>)
  qed
qed

section \<open>The whole update\<close>

text \<open>Changing the head's counters, with a call before it or none.\<close>

lemma progress_effect:
  assumes ok: "net_ok n" and q: "queue n a = e # es"
    and g: "\<And>e. ev_sound (g e) = ev_sound e" "\<And>e. ev_type (g e) = ev_type e"
    and m: "m = n \<or> m = call k n"
  shows "keeps n (upd_head a g m)" "queue (upd_head a g m) a = g e # es"
proof -
  have k: "keeps n m" using m call_keeps [OF ok] keeps_refl [OF ok] by auto
  have qm: "queue m a = e # es" using m q queue_cong [of "call k n" n] by auto
  have "keeps m (upd_head a g m)"
    by (rule upd_head_keeps [OF keeps_net_ok [OF k] qm]) (simp_all add: g)
  then show "keeps n (upd_head a g m)" by (rule keeps_trans [OF k])
  show "queue (upd_head a g m) a = g e # es"
    using requeued_queue [OF upd_head_effect [OF keeps_net_ok [OF k] qm]] by simp
qed

lemma finish_keeps:
  assumes "net_ok n" "queue n a = e # es" "finish_head ev a n = Inr n'"
  shows "keeps n n'"
proof (rule keeps_then)
  show "keeps n (upd_head a (\<lambda>e. e\<lparr>ev_success := True\<rparr>) n)"
    by (rule upd_head_keeps [OF assms(1,2)]) simp_all
  show "keeps (upd_head a (\<lambda>e. e\<lparr>ev_success := True\<rparr>) n) n'"
    if "net_ok (upd_head a (\<lambda>e. e\<lparr>ev_success := True\<rparr>) n)"
    using event_update_keeps [OF that] assms(3) by (simp add: finish_head_def)
qed

lemma read_sound_keeps:
  assumes ok: "net_ok n" and q: "queue n a = e # es"
    and r: "read_sound ev a e n = Inr n'"
  shows "keeps n n'"
proof -
  let ?d = "take (nat (sound_room (ev_nleft e))) (ne_input ev)"
  define g :: "event \<Rightarrow> event" where "g = (\<lambda>e. e\<lparr>ev_nleft := ev_nleft e - int (length ?d),
    ev_byte_offset := ev_byte_offset e + int (length ?d)\<rparr>)"
  define m where "m = call (WriteFile (ev_fd e) ?d) n"
  have g: "ev_sound (g x) = ev_sound x" "ev_type (g x) = ev_type x" for x by (simp_all add: g_def)
  note p = progress_effect [OF ok q g, of m "WriteFile (ev_fd e) ?d"]
  consider "event_update ev a n = Inr n'" | "finish_head ev a (upd_head a g m) = Inr n'" | "upd_head a g m = n'"
    using r unfolding read_sound_def Let_def g_def m_def by (auto split: if_splits)
  then show ?thesis
  proof cases
    case 1
    then show ?thesis by (rule event_update_keeps [OF ok])
  next
    case 2
    then show ?thesis using keeps_then [OF p(1)] finish_keeps [OF _ p(2)] by (simp add: m_def)
  qed (use p in \<open>simp add: m_def\<close>)
qed

lemma eat_flow_keeps:
  assumes ok: "net_ok n" and q: "queue n a = e # es"
    and r: "eat_flow ev a e n = Inr n'"
  shows "keeps n n'"
proof -
  let ?d = "take (nat (min BUFFER_SIZE (ev_nleft e))) (ne_input ev)"
  define g :: "event \<Rightarrow> event" where "g = (\<lambda>e. e\<lparr>ev_nleft := ev_nleft e - int (length ?d)\<rparr>)"
  have g: "ev_sound (g x) = ev_sound x" "ev_type (g x) = ev_type x" for x by (simp_all add: g_def)
  note p = progress_effect [OF ok q g disjI1 [OF refl]]
  consider "event_update ev a n = Inr n'" | "finish_head ev a (upd_head a g n) = Inr n'" | "upd_head a g n = n'"
    using r unfolding eat_flow_def Let_def g_def by (auto split: if_splits)
  then show ?thesis
  proof cases
    case 1
    then show ?thesis by (rule event_update_keeps [OF ok])
  next
    case 2
    then show ?thesis using keeps_then [OF p(1)] finish_keeps [OF _ p(2)] by simp
  qed (use p in simp)
qed

lemma feed_flow_keeps:
  assumes ok: "net_ok n" and q: "queue n a = e # es"
    and r: "feed_flow ev a e f n = Inr n'"
  shows "keeps n n'"
proof -
  let ?d = "take (nat (flow_room f)) (ne_input ev)"
  define g :: "event \<Rightarrow> event" where "g = (\<lambda>e. e\<lparr>ev_byte_offset := ev_byte_offset e + int (length ?d),
    ev_nleft := (if ev_nbytes e \<noteq> -1 then ev_nleft e - int (length ?d) else ev_nleft e)\<rparr>)"
  define m where "m = call (FlowInsert (ev_id e) ?d) n"
  have g: "ev_sound (g x) = ev_sound x" "ev_type (g x) = ev_type x" for x by (simp_all add: g_def)
  note p = progress_effect [OF ok q g, of m "FlowInsert (ev_id e) ?d"]
  consider "event_update ev a n = Inr n'" | "connection_close a (call (SpoolDone (ev_id e)) n) = Inr n'"
    | "m = n'" | "finish_head ev a (upd_head a g m) = Inr n'" | "upd_head a g m = n'"
    using r unfolding feed_flow_def Let_def g_def m_def by (auto split: if_splits)
  then show ?thesis
  proof cases
    case 1
    then show ?thesis by (rule event_update_keeps [OF ok])
  next
    case 2
    then show ?thesis using keeps_then [OF call_keeps [OF ok]] close_keeps by blast
  next
    case 3
    show ?thesis unfolding 3 [symmetric] m_def by (rule call_keeps [OF ok])
  next
    case 4
    then show ?thesis using keeps_then [OF p(1)] finish_keeps [OF _ p(2)] by (simp add: m_def)
  qed (use p call_keeps [OF ok] in \<open>simp_all add: m_def\<close>)
qed

lemma read_flow_keeps:
  assumes ok: "net_ok n" and q: "queue n a = e # es"
    and r: "read_flow ev a e n = Inr n'"
  shows "keeps n n'"
proof -
  consider "eat_flow ev a e n = Inr n'" | f where "feed_flow ev a e f n = Inr n'"
    | "connection_flow_pause (ev_id e) (call (NotifyFlow (ev_id e)) n) = Inr n'"
    using r by (auto simp: read_flow_def split: option.splits if_splits)
  then show ?thesis
  proof cases
    case 3
    have "keeps (call (NotifyFlow (ev_id e)) n) n'" if "net_ok (call (NotifyFlow (ev_id e)) n)"
      by (rule retype_keeps [OF that _ 3 [unfolded connection_flow_pause_def]]) (auto simp: requests_def)
    then show ?thesis by (rule keeps_then [OF call_keeps [OF ok]])
  qed (use eat_flow_keeps feed_flow_keeps ok q in blast)+
qed

lemma read_line_keeps:
  assumes ok: "net_ok n" and r: "read_line ev a n = Inr n'"
  shows "keeps n n'"
proof -
  obtain c where c: "lookup a n = Some c" using r by (auto simp: read_line_def with_conn_Inr)
  then obtain e es where ce: "cn_events c = e # es"
    using r by (auto simp: read_line_def with_conn_found [OF c] split: list.splits)
  then have q: "queue n a = e # es" by (simp add: queue_found [OF c])
  define d where "d = peeked ev e"
  define k where "k = (if LF \<in> set d then length (takeWhile (\<lambda>ch. ch \<noteq> LF) d) + 1 else length d)"
  define g1 :: "event \<Rightarrow> event" where "g1 = (\<lambda>e. e\<lparr>ev_text := overwrite (ev_pos e)
      (map (\<lambda>ch. if ch = CR \<or> ch = LF then NUL else ch) (take k d) @ drop k d) (ev_text e),
      ev_success := ev_success e \<or> LF \<in> set d\<rparr>)"
  define g2 :: "event \<Rightarrow> event" where "g2 = (\<lambda>e. e\<lparr>ev_pos := ev_pos e + k, ev_nleft := ev_nleft e - int k\<rparr>)"
  let ?n1 = "upd_head a g1 n"
  let ?m = "call (Received (cn_fd c) (take k d)) ?n1"
  have g: "ev_sound (g1 x) = ev_sound x" "ev_type (g1 x) = ev_type x" for x by (simp_all add: g1_def)
  have g': "ev_sound (g2 x) = ev_sound x" "ev_type (g2 x) = ev_type x" for x by (simp_all add: g2_def)
  note p1 = progress_effect [OF ok q g disjI1 [OF refl]]
  note ok1 = keeps_net_ok [OF p1(1)]
  note p2 = progress_effect [OF ok1 p1(2) g', of ?m "Received (cn_fd c) (take k d)"]
  have k2: "keeps n (upd_head a g2 ?m)" by (rule keeps_trans [OF p1(1) p2(1)]) simp
  consider "event_update ev a n = Inr n'"
    | "event_update ev a (upd_head a (\<lambda>e. e\<lparr>ev_success := False\<rparr>) ?n1) = Inr n'"
    | "event_update ev a (upd_head a g2 ?m) = Inr n'" | "upd_head a g2 ?m = n'"
    using r unfolding read_line_def with_conn_found [OF c] ce Let_def list.case g1_def g2_def k_def d_def
    by (auto split: if_splits)
  then show ?thesis
  proof cases
    case 1
    then show ?thesis by (rule event_update_keeps [OF ok])
  next
    case 2
    have "keeps ?n1 (upd_head a (\<lambda>e. e\<lparr>ev_success := False\<rparr>) ?n1)"
      by (rule upd_head_keeps [OF ok1 p1(2)]) simp_all
    then have "keeps ?n1 n'" using keeps_then event_update_keeps [OF _ 2] by blast
    then show ?thesis by (rule keeps_trans [OF p1(1)])
  next
    case 3
    show ?thesis by (rule keeps_then [OF k2 event_update_keeps [OF _ 3]])
  next
    case 4
    then show ?thesis using k2 by simp
  qed
qed

lemma read_step_keeps:
  assumes ok: "net_ok n" and q: "queue n a = e # es"
    and r: "read_step ev a e n = Inr n'"
  shows "keeps n n'"
proof (cases "ev_type e")
  case READ_SOUND
  then show ?thesis using r read_sound_keeps [OF ok q] by (simp add: read_step_def)
next
  case READ_FLOW
  then show ?thesis using r read_flow_keeps [OF ok q] by (simp add: read_step_def)
next
  case NOTIFY
  have b: "bindE (event_replace a (line_event READ_COMMAND None) n) (read_line ev a) = Inr n'"
    using r NOTIFY by (simp add: read_step_def)
  have "sounds [e] = {}" using NOTIFY by (simp add: sounds_plain requests_def)
  then have "keeps n n1" if "event_replace a (line_event READ_COMMAND None) n = Inr n1" for n1
    using replace_keeps [OF ok q that] by simp
  then show ?thesis using bind_keeps [OF b] read_line_keeps by blast
qed (use r read_line_keeps [OF ok] in \<open>simp_all add: read_step_def\<close>)

lemma write_step_keeps:
  assumes ok: "net_ok n" and q: "queue n a = e # es"
    and r: "write_step ev a e n = Inr n'"
  shows "keeps n n'"
proof -
  let ?d = "take (min (ne_room ev) (nat (ev_nleft e))) (drop (ev_pos e) (ev_text e))"
  define g :: "event \<Rightarrow> event" where "g = (\<lambda>e. e\<lparr>ev_pos := ev_pos e + length ?d,
    ev_nleft := ev_nleft e - int (length ?d), ev_byte_offset := ev_byte_offset e + int (length ?d)\<rparr>)"
  let ?m = "call (Sent a ?d) n"
  let ?n1 = "upd_head a g ?m"
  have g: "ev_sound (g x) = ev_sound x" "ev_type (g x) = ev_type x" for x by (simp_all add: g_def)
  note p = progress_effect [OF ok q g disjI2 [OF refl]]
  consider "event_update ev a n = Inr n'" | "?n1 = n'" | "finish_head ev a ?n1 = Inr n'"
    | s where "upd_head a (\<lambda>e. e\<lparr>ev_text := s, ev_pos := 0, ev_nleft := int (length s)\<rparr>) ?n1 = n'"
    using r unfolding write_step_def Let_def g_def by (auto split: if_splits option.splits)
  then show ?thesis
  proof cases
    case 1
    then show ?thesis by (rule event_update_keeps [OF ok])
  next
    case 2
    then show ?thesis using p(1) by metis
  next
    case 3
    show ?thesis by (rule keeps_then [OF p(1) finish_keeps [OF _ p(2) 3]])
  next
    case 4
    have "keeps ?n1 (upd_head a (\<lambda>e. e\<lparr>ev_text := s, ev_pos := 0, ev_nleft := int (length s)\<rparr>) ?n1)"
      by (rule upd_head_keeps [OF keeps_net_ok [OF p(1)] p(2)]) simp_all
    then show ?thesis using keeps_trans [OF p(1)] 4 by metis
  qed
qed

lemma update_one_keeps:
  assumes ok: "net_ok n" and r: "update_one ev rfds wfds a n = Inr n'"
  shows "keeps n n'"
proof -
  obtain c where c: "lookup a n = Some c" using r by (auto simp: update_one_def with_conn_Inr)
  let ?n1 = "upd_conn a (\<lambda>c. c\<lparr>cn_time := ne_now ev\<rparr>) n"
  have k: "keeps n ?n1" by (rule upd_conn_keeps [OF ok]) simp_all
  show ?thesis
  proof (cases "cn_events c")
    case Nil
    then show ?thesis using r keeps_refl [OF ok] by (simp add: update_one_def with_conn_found [OF c])
  next
    case (Cons e es)
    have "queue ?n1 = queue n" by (rule queue_upd) simp_all
    then have q: "queue ?n1 a = e # es" using Cons by (simp add: queue_found [OF c])
    have "read_step ev a e ?n1 = Inr n' \<or> write_step ev a e ?n1 = Inr n' \<or> n = n'"
      using r Cons by (auto simp: update_one_def with_conn_found [OF c] Let_def split: if_splits)
    then show ?thesis
      using keeps_then [OF k] read_step_keeps [OF _ q] write_step_keeps [OF _ q] keeps_refl [OF ok]
      by blast
  qed
qed

lemma update_loop_keeps:
  assumes "net_ok n" "update_loop env rfds wfds cmask n = Inr n'"
  shows "keeps n n'"
  using assms
proof (induction env rfds wfds cmask n rule: update_loop.induct)
  case (1 env rfds wfds cmask n)
  note r = "1.prems"(2)
  have good: "\<not> bad_fd n" using r by (subst (asm) update_loop.simps) (auto split: if_splits)
  show ?case
  proof (cases "next_conn cmask n")
    case None
    then show ?thesis using r good keeps_refl [OF "1.prems"(1)] by (subst (asm) update_loop.simps) simp
  next
    case (Some c)
    then obtain n1 where n1: "update_one (env (cn_addr c)) rfds wfds (cn_addr c) n = Inr n1"
      and l: "update_loop env rfds wfds (insert (cn_fd c) cmask) n1 = Inr n'"
      using r good by (subst (asm) update_loop.simps) auto
    have k: "keeps n n1" by (rule update_one_keeps [OF "1.prems"(1) n1])
    show ?thesis
      by (rule keeps_then [OF k]) (rule "1.IH" [OF good Some n1 _ l])
  qed
qed

lemma client_open_keeps:
  assumes ok: "net_ok n" and r: "connection_client_open fd access now status n = Inr n'"
  shows "keeps n n'"
proof -
  consider "n = n'" | "call (CloseFd fd) (call (WriteFile fd refused) n) = n'"
    | a n1 where "connection_create CONNECTION_CLIENT now n = (a, n1)"
      "event_insert a [text_event WRITE status [] None] (upd_conn a (\<lambda>c. c\<lparr>cn_fd := fd\<rparr>) n1) = Inr n'"
    using r by (auto simp: connection_client_open_def Let_def split: if_splits prod.splits)
  then show ?thesis
  proof cases
    case 1
    then show ?thesis using keeps_refl [OF ok] by simp
  next
    case 2
    then show ?thesis using keeps_then [OF call_keeps [OF ok] call_keeps] by metis
  next
    case 3
    note e = create_effect [OF ok 3(1)]
    have "keeps n n1"
      using grown_keeps [OF e(1), of n a "[]"] e(3) settled_cong [OF e(4)] by simp
    moreover have u: "keeps n1 (upd_conn a (\<lambda>c. c\<lparr>cn_fd := fd\<rparr>) n1)"
      by (rule upd_conn_keeps [OF e(1)]) simp_all
    moreover have "keeps (upd_conn a (\<lambda>c. c\<lparr>cn_fd := fd\<rparr>) n1) n'"
      by (rule requeued_keeps [OF keeps_net_ok [OF u] event_insert_effect(2) [OF 3(2)]]) simp
    ultimately show ?thesis using keeps_trans by blast
  qed
qed

lemma connection_update_keeps:
  assumes ok: "net_ok n"
    and r: "connection_update (connection_client_open fd access now status) env rfds wfds n = Inr n'"
  shows "keeps n n'"
proof -
  obtain n1 where n1: "connection_client_open fd access now status n = Inr n1"
    and l: "update_loop env rfds wfds {} n1 = Inr n'"
    using r by (auto simp: connection_update_def)
  note k = client_open_keeps [OF ok n1]
  show ?thesis by (rule keeps_then [OF k update_loop_keeps [OF _ l]])
qed

text \<open>The same over the connections themselves, without addresses.\<close>

definition requested :: "nat \<Rightarrow> net \<Rightarrow> bool" where
  "requested x n \<longleftrightarrow> list_ex (\<lambda>c. list_ex (\<lambda>e. ev_type e \<in> requests \<and> ev_sound e = Some x) (cn_events c)) (nt_conns n)"

lemma requested_queue: "net_ok n \<Longrightarrow> requested x n \<longleftrightarrow> (\<exists>a. x \<in> sounds (queue n a))"
proof
  assume ok: "net_ok n" and "requested x n"
  then obtain c where "c \<in> set (nt_conns n)" "x \<in> sounds (cn_events c)"
    by (auto simp: requested_def list_ex_iff sounds_def)
  then show "\<exists>a. x \<in> sounds (queue n a)" using queue_found [OF lookup_member [OF ok]] by metis
next
  assume "\<exists>a. x \<in> sounds (queue n a)"
  then obtain a c where "lookup a n = Some c" "x \<in> sounds (cn_events c)"
    by (auto simp: queue_def split: option.splits)
  then show "requested x n" using lookup_in by (fastforce simp: requested_def list_ex_iff sounds_def)
qed

section \<open>No request is forgotten\<close>

text \<open>C7.  Whatever the clients and servers send, in whatever pieces, and whichever system calls
  fail: a sound that was requested when \<open>connection_update\<close> began is still requested when it
  returns, or the spool has been told that the sound is ready or has to be removed.\<close>

theorem request_not_forgotten:
  assumes "net_ok n" "nt_calls n = []" "requested x n"
    and "connection_update (connection_client_open fd access now status) env rfds wfds n = Inr n'"
  shows "requested x n' \<or> SpoolReady x \<in> set (nt_calls n') \<or> SpoolRemove x \<in> set (nt_calls n')"
proof -
  note k = connection_update_keeps [OF assms(1,4)]
  have "x \<in> due n" using requested_queue [OF assms(1)] assms(3) by (auto simp: due_def)
  then have "x \<in> due n'" using k by (auto simp: keeps_def)
  then show ?thesis
    using requested_queue [OF keeps_net_ok [OF k]] by (auto simp: due_def settled_def)
qed

text \<open>A server that answers \<open>find\<close> with an error; there is another server, and the socket for it
  is descriptor 9.\<close>

definition demo_env :: "string \<Rightarrow> step_env" where
  "demo_env s = \<lparr>ne_now = 100, ne_socket = 9, ne_connected = True, ne_retry = False,
     ne_cache_free = (\<lambda>_. True), ne_cache_create = (\<lambda>_ _. 12), ne_cache_directory = ''/tmp'',
     ne_monitor = ([], False), ne_fill = None, ne_input = s, ne_input_stays = True, ne_room = 64,
     ne_flow = (\<lambda>_. None), ne_command = (\<lambda>_ _ _. ([], True))\<rparr>"

definition demo_conn :: "nat \<Rightarrow> connection_type \<Rightarrow> int \<Rightarrow> event list \<Rightarrow> connection" where
  "demo_conn a t fd es = \<lparr>cn_addr = a, cn_type = t, cn_fd = fd, cn_events = es, cn_server = 0, cn_time = 0,
     cn_application = None, cn_notify_mask = 0, cn_notify_id = 0, cn_level_rate = 0, cn_level_next = 0,
     cn_position_rate = 0, cn_position_next = 0, cn_monitor = False\<rparr>"

definition demo_net :: "connection list \<Rightarrow> net" where
  "demo_net cs = \<lparr>nt_conns = cs, nt_read = {}, nt_write = {}, nt_clients = 0, nt_monitors = 0, nt_want_level = 0,
     nt_fresh = 10, nt_servers = 2, nt_state = (0, 0, 0), nt_name = (\<lambda>_. ''bark.au''), nt_calls = []\<rparr>"

definition demo_find :: net where
  "demo_find = demo_net [demo_conn 3 CONNECTION_SERVER 7 [line_event READ_FIND_REPLY (Some 5)]]"

definition demo_found :: "net net_result" where
  "demo_found = connection_update (connection_client_open (-1) True 100 [])
     (\<lambda>_. demo_env (''-error'' @ [CR, LF])) {7} {} demo_find"

lemma demo_found_ok: "isl demo_found = False"
  by code_simp

theorem request_not_forgotten_witness:
  "(case demo_found of Inl _ \<Rightarrow> False
     | Inr n' \<Rightarrow> requested 5 n' \<or> SpoolReady 5 \<in> set (nt_calls n') \<or> SpoolRemove 5 \<in> set (nt_calls n'))"
proof -
  obtain n' where n': "demo_found = Inr n'" using demo_found_ok by (metis isl_def sum.exhaust_sel)
  have "net_ok demo_find" "nt_calls demo_find = []" "requested 5 demo_find" by code_simp+
  then show ?thesis
    using request_not_forgotten [of demo_find 5 "-1" True 100 "[]" "\<lambda>_. demo_env (''-error'' @ [CR, LF])" "{7}" "{}" n'] n'
    by (simp add: demo_found_def)
qed

end
