(* ===== verification/Traffic.thy ===== *)
theory Traffic
  imports Requests
begin

text \<open>
  What clients see of the connections: where a notification lands in the output of a client,
  and three ways in which input or output is lost.
\<close>

section \<open>Pending output\<close>

definition event_output :: "event \<Rightarrow> string" where
  "event_output e = (if ev_type e = WRITE then drop (ev_pos e) (ev_text e) @ concat (ev_more e) else [])"

definition pending :: "event list \<Rightarrow> string" where
  "pending es = concat (map event_output es)"

lemma pending_simps [simp]:
  "pending [] = []" "pending (e # es) = event_output e @ pending es" "pending (xs @ ys) = pending xs @ pending ys"
  by (simp_all add: pending_def)

definition in_text :: "event \<Rightarrow> bool" where
  "in_text e \<longleftrightarrow> ev_pos e \<le> length (ev_text e)"

text \<open>What \<open>put_line\<close> does to a queue.\<close>

definition put_queue :: "string \<Rightarrow> event list \<Rightarrow> event list" where
  "put_queue s es =
     (if es \<noteq> [] \<and> ev_type (last es) = WRITE \<and> int (length (ev_text (last es)) + length s) \<le> BUFFER_SIZE
      then butlast es @ [append_text s (last es)]
      else (let e = text_event WRITE s [] None
            in if es \<noteq> [] \<and> ev_type (hd es) = NOTIFY then e # tl es
               else takeWhile (\<lambda>y. ev_type y \<notin> waiting_events) es @ e
                      # dropWhile (\<lambda>y. ev_type y \<notin> waiting_events) es))"

definition room_in_last :: "string \<Rightarrow> event list \<Rightarrow> bool" where
  "room_in_last s es \<longleftrightarrow> es \<noteq> [] \<and> ev_type (last es) = WRITE
     \<and> int (length (ev_text (last es)) + length s) \<le> BUFFER_SIZE"

lemma put_queue_append: "room_in_last s es \<Longrightarrow> put_queue s es = butlast es @ [append_text s (last es)]"
  by (simp add: put_queue_def room_in_last_def)

lemma put_queue_replace:
  "\<not> room_in_last s es \<Longrightarrow> es \<noteq> [] \<and> ev_type (hd es) = NOTIFY \<Longrightarrow>
     put_queue s es = text_event WRITE s [] None # tl es"
  unfolding put_queue_def room_in_last_def Let_def by (simp only: if_False if_True simp_thms)

lemma put_queue_insert:
  "\<not> room_in_last s es \<Longrightarrow> \<not> (es \<noteq> [] \<and> ev_type (hd es) = NOTIFY) \<Longrightarrow>
     put_queue s es = takeWhile (\<lambda>y. ev_type y \<notin> waiting_events) es @ text_event WRITE s [] None
       # dropWhile (\<lambda>y. ev_type y \<notin> waiting_events) es"
  unfolding put_queue_def room_in_last_def Let_def by (simp only: if_False if_True)

lemma insert_before_effect:
  assumes i: "event_insert_before a e stop n = Inr n'"
  shows "requeued a (takeWhile (\<lambda>y. ev_type y \<notin> stop) (queue n a) @ e
    # dropWhile (\<lambda>y. ev_type y \<notin> stop) (queue n a)) n n'"
proof -
  obtain c where c: "lookup a n = Some c" using i by (auto simp: event_insert_before_def with_conn_Inr)
  note i' = i [unfolded event_insert_before_def with_conn_found [OF c]]
  have q: "queue n a = cn_events c" by (rule queue_found [OF c])
  show ?thesis
  proof (cases "cn_events c = [] \<or> ev_type (hd (cn_events c)) \<in> stop")
    case True
    then have "event_first a e n = Inr n'" using i' by (cases "cn_events c") auto
    from event_first_effect [OF this] show ?thesis using True q by (cases "cn_events c") auto
  next
    case False
    then show ?thesis using i' q requeued_set [OF c] by (cases "cn_events c") auto
  qed
qed

lemma put_line_effect:
  assumes p: "put_line a s n = Inr n'"
  shows "requeued a (put_queue s (queue n a)) n n'"
proof -
  obtain c where c: "lookup a n = Some c" using p by (auto simp: put_line_def with_conn_Inr)
  have q: "queue n a = cn_events c" by (rule queue_found [OF c])
  note p' = p [unfolded put_line_def with_conn_found [OF c] Let_def, folded q, folded room_in_last_def]
  let ?es = "queue n a" and ?e = "text_event WRITE s [] None"
  show ?thesis
  proof (cases "room_in_last s ?es")
    case True
    then have "n' = set_events a (put_queue s ?es) n" using p' by (simp add: put_queue_append split: if_splits)
    then show ?thesis using requeued_set [OF c] by simp
  next
    case False
    then have r: "(if ?es \<noteq> [] \<and> ev_type (hd ?es) = NOTIFY then event_replace a ?e n
        else event_insert_before a ?e waiting_events n) = Inr n'" using p' by (simp only: if_False)
    show ?thesis
    proof (cases "?es \<noteq> [] \<and> ev_type (hd ?es) = NOTIFY")
      case True
      then have "event_replace a ?e n = Inr n'" using r True by simp
      then show ?thesis using put_queue_replace [OF False True] event_replace_effect by simp
    next
      case nn: False
      then have "event_insert_before a ?e waiting_events n = Inr n'" using r by (simp only: if_False)
      then show ?thesis using put_queue_insert [OF False nn] insert_before_effect by simp
    qed
  qed
qed

lemma append_output:
  "in_text e \<Longrightarrow> ev_type e = WRITE \<Longrightarrow>
     event_output (append_text s e) = drop (ev_pos e) (ev_text e) @ s @ concat (ev_more e)"
  by (simp add: event_output_def append_text_def in_text_def)

lemma text_output [simp]: "event_output (text_event WRITE s [] x) = s"
  by (simp add: event_output_def text_event_def blank_event_def)

lemma put_queue_output:
  assumes "list_all in_text es"
  shows "\<exists>p q. pending es = p @ q \<and> pending (put_queue s es) = p @ s @ q"
proof -
  let ?e = "text_event WRITE s [] None"
  consider (app) "es \<noteq> []" "ev_type (last es) = WRITE" "put_queue s es = butlast es @ [append_text s (last es)]"
    | (rep) "es \<noteq> []" "ev_type (hd es) = NOTIFY" "put_queue s es = ?e # tl es"
    | (ins) "put_queue s es = takeWhile (\<lambda>y. ev_type y \<notin> waiting_events) es @ ?e
        # dropWhile (\<lambda>y. ev_type y \<notin> waiting_events) es"
    using put_queue_append put_queue_replace put_queue_insert unfolding room_in_last_def by blast
  then show ?thesis
  proof cases
    case app
    let ?l = "last es"
    have w: "in_text ?l" using assms app(1) by (simp add: list_all_iff)
    have "pending es = pending (butlast es @ [?l])" using app(1) by simp
    then have "pending es = (pending (butlast es) @ drop (ev_pos ?l) (ev_text ?l)) @ concat (ev_more ?l)"
      using app(2) by (simp add: event_output_def)
    moreover have "pending (put_queue s es)
        = (pending (butlast es) @ drop (ev_pos ?l) (ev_text ?l)) @ s @ concat (ev_more ?l)"
      using app(3) append_output [OF w app(2)] by simp
    ultimately show ?thesis by blast
  next
    case rep
    then have "pending es = [] @ pending (tl es)" by (cases es) (auto simp: event_output_def)
    moreover have "pending (put_queue s es) = [] @ s @ pending (tl es)" using rep(3) by simp
    ultimately show ?thesis by blast
  next
    case ins
    let ?t = "takeWhile (\<lambda>y. ev_type y \<notin> waiting_events) es" and ?d = "dropWhile (\<lambda>y. ev_type y \<notin> waiting_events) es"
    have "pending es = pending ?t @ pending ?d" by (simp flip: pending_simps(3))
    then show ?thesis using ins by auto
  qed
qed

section \<open>Notifications\<close>

lemma upd_conn_queue_lookup:
  assumes "\<And>c. cn_addr (g c) = cn_addr c" "\<And>c. cn_events (g c) = cn_events c" "lookup a n = Some c"
  shows "lookup a (upd_conn a g n) = Some (g c)" "queue (upd_conn a g n) = queue n"
  using assms by (simp_all add: lookup_upd queue_upd)

text \<open>Only the queue of the connection that is notified changes.\<close>

lemma put_lines_frame:
  "foldE (\<lambda>h. put_line a (f h)) hs n = Inr n' \<Longrightarrow> b \<noteq> a \<Longrightarrow> queue n' b = queue n b"
proof (induction hs arbitrary: n)
  case (Cons h hs)
  then obtain n1 where p: "put_line a (f h) n = Inr n1" and r: "foldE (\<lambda>h. put_line a (f h)) hs n1 = Inr n'" by auto
  show ?case using Cons.IH [OF r Cons.prems(2)] requeued_queue [OF put_line_effect [OF p]] Cons.prems(2) by simp
qed simp

lemma notify_one_split:
  assumes c: "lookup a n = Some c" and p: "notify_one nv nc a n = Inr n'"
  obtains "\<not> interested nv c nc" "n' = n"
  | n1 n2 where "interested nv c nc" "queue n1 = queue n"
      "foldE (\<lambda>h. put_line a (h # tl (notice_line nc))) (notice_heads c nc) n1 = Inr n2" "queue n' = queue n2"
proof (cases "interested nv c nc")
  case False
  then show thesis using that(1) p by (simp add: notify_one_def with_conn_found [OF c])
next
  case True
  let ?n1 = "if is_level nc \<and> cn_level_rate c \<noteq> 0
    then upd_conn a (\<lambda>c. c\<lparr>cn_level_next := nv_timer nv + cn_level_rate c\<rparr>) n else n"
  obtain n2 where f: "foldE (\<lambda>h. put_line a (h # tl (notice_line nc))) (notice_heads c nc) ?n1 = Inr n2"
    and n': "n' = upd_conn a (\<lambda>c. c\<lparr>cn_time := nv_now nv\<rparr>) n2"
    using p True by (auto simp: notify_one_def with_conn_found [OF c] Let_def)
  have "queue ?n1 = queue n" by (simp add: queue_upd)
  moreover have "queue n' = queue n2" unfolding n' by (rule queue_upd) simp_all
  ultimately show thesis using that(2) True f by blast
qed

lemma notify_one_frame:
  assumes "notify_one nv nc a n = Inr n'" "b \<noteq> a"
  shows "queue n' b = queue n b"
proof -
  obtain c where c: "lookup a n = Some c" using assms(1) by (auto simp: notify_one_def with_conn_Inr)
  show ?thesis
    by (rule notify_one_split [OF c assms(1)]) (use put_lines_frame assms(2) in force)+
qed


definition demo_notify_env :: notify_env where
  "demo_notify_env = \<lparr>nv_now = 100, nv_timer = 0, nv_force = False, nv_playing = 1, nv_paused = 0, nv_volume = 127,
     nv_threshold = 0, nv_port = ''speaker''\<rparr>"

text \<open>A subscribed client whose reply is half written, before a flow.\<close>

definition demo_reader :: connection where
  "demo_reader = (demo_conn 3 CONNECTION_CLIENT 7 [(text_event WRITE ''+ok'' [] None)\<lparr>ev_pos := 1\<rparr>, read_flow_event 1 0])
     \<lparr>cn_notify_mask := 1\<rparr>"

definition demo_notified :: "net net_result" where
  "demo_notified = notify_one demo_notify_env (Volume 9) 3 (demo_net [demo_reader])"

lemma not_isl: "isl r = False \<Longrightarrow> \<exists>n'. r = Inr n'"
  by (cases r) auto


section \<open>Commands read while output waits\<close>

lemma takeWhile_first: "x \<notin> set u \<Longrightarrow> takeWhile (\<lambda>y. y \<noteq> x) (u @ x # v) = u"
  by (induction u) auto

lemma read_line_found:
  assumes "lookup a n = Some c" "cn_events c = e # es" "LF \<in> set (peeked ev e)" "ne_input_stays ev"
  shows "read_line ev a n =
    (let d = peeked ev e; k = length (takeWhile (\<lambda>ch. ch \<noteq> LF) d) + 1
     in if k > RPTP_MAX_LINE then Inl Overrun
        else event_update ev a (upd_head a (\<lambda>e. e\<lparr>ev_pos := ev_pos e + k, ev_nleft := ev_nleft e - int k\<rparr>)
          (call (Received (cn_fd c) (take k d))
            (upd_head a (\<lambda>e. e\<lparr>ev_text := overwrite (ev_pos e)
                (map (\<lambda>ch. if ch = CR \<or> ch = LF then NUL else ch) (take k d) @ drop k d) (ev_text e),
              ev_success := True\<rparr>) n))))"
proof -
  have "peeked ev e \<noteq> []" using assms(3) by auto
  then show ?thesis using assms by (simp add: read_line_def with_conn_found [OF assms(1)] Let_def)
qed

text \<open>C29.  A client that is notified and sends a command between \<open>select\<close> and its turn: the
  command is read into the buffer of the pending output.  Nothing is sent, no command is run, and
  the write event is gone.\<close>

theorem command_and_output_lost:
  assumes ok: "net_ok n" and c: "lookup a n = Some c" "cn_events c = e # es"
    and e: "ev_type e = WRITE" "ev_more e = []"
    and rd: "cn_fd c \<in> rfds" "LF \<in> set (take (nat (ev_nleft e)) (ne_input ev))" "ne_input_stays ev"
    and u: "update_one ev rfds wfds a n = Inr n'"
  shows "nt_calls n' = nt_calls n @ [Received (cn_fd c) (takeWhile (\<lambda>ch. ch \<noteq> LF) (ne_input ev) @ [LF])]
    \<and> queue n' a = deleted c True"
proof -
  let ?n0 = "upd_conn a (\<lambda>c. c\<lparr>cn_time := ne_now ev\<rparr>) n"
  have ok0: "net_ok ?n0" by (rule net_ok_upd) (simp_all add: ok)
  have c0: "lookup a ?n0 = Some (c\<lparr>cn_time := ne_now ev\<rparr>)"
    using c(1) by (subst lookup_upd) simp_all
  have q0: "queue ?n0 a = e # es" using c by (simp add: queue_upd queue_found)
  define d where "d = take (nat (ev_nleft e)) (ne_input ev)"
  have pk: "peeked ev e = d" using e(1) by (simp add: peeked_def d_def)
  have lf: "LF \<in> set d" using rd(2) by (simp add: d_def)
  define k where "k = length (takeWhile (\<lambda>ch. ch \<noteq> LF) d) + 1"
  define g1 :: "event \<Rightarrow> event" where "g1 = (\<lambda>e. e\<lparr>ev_text := overwrite (ev_pos e)
      (map (\<lambda>ch. if ch = CR \<or> ch = LF then NUL else ch) (take k d) @ drop k d) (ev_text e), ev_success := True\<rparr>)"
  define g2 :: "event \<Rightarrow> event" where "g2 = (\<lambda>e. e\<lparr>ev_pos := ev_pos e + k, ev_nleft := ev_nleft e - int k\<rparr>)"
  let ?n1 = "upd_head a g1 ?n0"
  let ?m = "call (Received (cn_fd c) (take k d)) ?n1"
  let ?n2 = "upd_head a g2 ?m"
  note r1 = upd_head_effect [OF ok0 q0, of g1]
  have ok1: "net_ok ?m" using requeued_net_ok [OF r1 ok0] net_ok_cong [of ?m ?n1] by simp
  have q1: "queue ?m a = g1 e # es" using requeued_queue [OF r1] queue_cong [of ?m ?n1] by simp
  note r2 = upd_head_effect [OF ok1 q1, of g2]
  have "read_line ev a ?n0 = Inr n'"
    using u rd(1) e(1) unfolding update_one_def with_conn_found [OF c(1)] Let_def c(2) list.case
    by (simp add: read_step_def)
  then have u': "event_update ev a ?n2 = Inr n'"
    using read_line_found [OF c0, of e es ev] c(2) rd(3) lf
    by (simp add: pk k_def g1_def g2_def Let_def split: if_splits)
  obtain c2 where c2: "lookup a ?n2 = Some c2" "cn_events c2 = g2 (g1 e) # es" "cn_type c2 = cn_type c"
    "cn_notify_mask c2 = cn_notify_mask c"
    using requeued_lookup [OF r2, of a] requeued_lookup [OF r1, of a] c0 by (auto simp: lookup_cong [of ?m ?n1])
  have "event_delete a True ?n2 = Inr n'"
    using u' e unfolding event_update_def with_conn_found [OF c2(1)] c2(2)
    by (simp add: update_write_def g1_def g2_def)
  note r3 = event_delete_effect [OF requeued_net_ok [OF r2 ok1] c2(1) this]
  have "deleted c2 True = deleted c True"
    using c2 c(2) by (simp add: deleted_def idle_event_def)
  then have "queue n' a = deleted c True" using requeued_queue [OF r3] by simp
  moreover have "take k d = takeWhile (\<lambda>ch. ch \<noteq> LF) (ne_input ev) @ [LF]"
  proof -
    obtain u v where uv: "d = u @ LF # v" "LF \<notin> set u" using split_list_first [OF lf] by blast
    have "ne_input ev = d @ drop (nat (ev_nleft e)) (ne_input ev)" by (simp add: d_def)
    then obtain v' where "ne_input ev = u @ LF # v'" unfolding uv(1) by (metis append.assoc append_Cons)
    then have "takeWhile (\<lambda>ch. ch \<noteq> LF) (ne_input ev) = u" by (simp add: takeWhile_first [OF uv(2)])
    moreover have "takeWhile (\<lambda>ch. ch \<noteq> LF) d = u" unfolding uv(1) by (rule takeWhile_first [OF uv(2)])
    ultimately show ?thesis using uv by (simp add: k_def)
  qed
  moreover have "nt_calls n' = nt_calls n @ [Received (cn_fd c) (take k d)]"
    using requeued_calls [OF r3] requeued_calls [OF r2] requeued_calls [OF r1] by simp
  ultimately show ?thesis by simp
qed

text \<open>A longer input overruns the buffer the line is taken into.\<close>

lemma long_input_overruns:
  assumes c: "lookup a n = Some c" "cn_events c = e # es" and e: "ev_type e = WRITE"
    and rd: "cn_fd c \<in> rfds" "ne_input_stays ev" "LF \<notin> set (peeked ev e)" "RPTP_MAX_LINE < length (peeked ev e)"
  shows "update_one ev rfds wfds a n = Inl Overrun"
proof -
  let ?n0 = "upd_conn a (\<lambda>c. c\<lparr>cn_time := ne_now ev\<rparr>) n"
  have c0: "lookup a ?n0 = Some (c\<lparr>cn_time := ne_now ev\<rparr>)" using c(1) by (subst lookup_upd) simp_all
  have ce: "cn_events (c\<lparr>cn_time := ne_now ev\<rparr>) = e # es" using c(2) by simp
  have "peeked ev e \<noteq> []" using rd(4) by auto
  then have "read_line ev a ?n0 = Inl Overrun"
    unfolding read_line_def with_conn_found [OF c0] ce list.case Let_def using rd(2-4) by simp
  then show ?thesis
    using rd(1) e unfolding update_one_def with_conn_found [OF c(1)] Let_def c(2) list.case
    by (simp add: read_step_def)
qed

definition demo_hit :: connection where
  "demo_hit = demo_conn 3 CONNECTION_CLIENT 7 [text_event WRITE (''@event=volume volume=9'' @ [CR, LF]) [] None]"

definition demo_hit_result :: "net net_result" where
  "demo_hit_result = update_one (demo_env (''stop #1'' @ [CR, LF])) {7} {} 3 (demo_net [demo_hit])"

theorem command_and_output_lost_witness:
  "case demo_hit_result of Inl _ \<Rightarrow> False
     | Inr n' \<Rightarrow> nt_calls n' = [Received 7 (''stop #1'' @ [CR, LF])]
         \<and> queue n' 3 = [line_event READ_COMMAND None]"
proof -
  have "isl demo_hit_result = False" by code_simp
  from not_isl [OF this] obtain n' where n': "demo_hit_result = Inr n'" ..
  have c: "lookup 3 (demo_net [demo_hit]) = Some demo_hit"
    by (simp add: lookup_def demo_net_def demo_hit_def demo_conn_def)
  let ?e = "text_event WRITE (''@event=volume volume=9'' @ [CR, LF]) [] None"
  have e: "cn_events demo_hit = ?e # []" by (simp add: demo_hit_def demo_conn_def)
  have ok: "net_ok (demo_net [demo_hit])" by code_simp
  have w: "ev_type ?e = WRITE" "ev_more ?e = []" "cn_fd demo_hit \<in> {7}"
    "LF \<in> set (take (nat (ev_nleft ?e)) (ne_input (demo_env (''stop #1'' @ [CR, LF]))))"
    "ne_input_stays (demo_env (''stop #1'' @ [CR, LF]))"
    by code_simp+
  have d: "deleted demo_hit True = [line_event READ_COMMAND None]"
    "nt_calls (demo_net [demo_hit]) = []" "cn_fd demo_hit = 7"
    "takeWhile (\<lambda>ch. ch \<noteq> LF) (ne_input (demo_env (''stop #1'' @ [CR, LF]))) = ''stop #1'' @ [CR]"
    by (simp_all add: deleted_def demo_hit_def demo_conn_def idle_event_def demo_net_def demo_env_def)
  show ?thesis
    using command_and_output_lost [OF ok c e w n' [unfolded demo_hit_result_def]]
    unfolding n' sum.case d by simp
qed

section \<open>Flows\<close>

text \<open>C31.  The bytes of a flow are read without regard to the length its client announced: what
  the client sends behind the flow, the next command among it, is played as sound and the event is
  finished.\<close>

theorem flow_takes_what_follows:
  assumes ok: "net_ok n" and c: "lookup a n = Some c" "cn_events c = e # es"
    and e: "ev_type e = READ_FLOW" "ev_nbytes e \<noteq> -1" "ev_nleft e = int (length d)" "d \<noteq> []"
    and f: "ne_flow ev (ev_id e) = Some f" "fw_reader f = Some (w, off, high)" "fw_insert_ok f"
      "w - off + BUFFER_SIZE \<le> high"
    and i: "ne_input ev = d @ behind" "int (length d + length behind) \<le> BUFFER_SIZE"
    and u: "cn_fd c \<in> rfds" "update_one ev rfds wfds a n = Inr n'"
  shows "nt_calls n' = nt_calls n @ [FlowInsert (ev_id e) (d @ behind)] \<and> queue n' a = deleted c True"
proof -
  let ?n0 = "upd_conn a (\<lambda>c. c\<lparr>cn_time := ne_now ev\<rparr>) n"
  have ok0: "net_ok ?n0" by (rule net_ok_upd) (simp_all add: ok)
  have c0: "lookup a ?n0 = Some (c\<lparr>cn_time := ne_now ev\<rparr>)"
    using c(1) by (subst lookup_upd) simp_all
  have q0: "queue ?n0 a = e # es" using c by (simp add: queue_upd queue_found)
  let ?k = "int (length (d @ behind))"
  let ?m = "call (FlowInsert (ev_id e) (d @ behind)) ?n0"
  define g :: "event \<Rightarrow> event" where "g = (\<lambda>e. e\<lparr>ev_byte_offset := ev_byte_offset e + ?k,
    ev_nleft := (if ev_nbytes e \<noteq> -1 then ev_nleft e - ?k else ev_nleft e)\<rparr>)"
  define s :: "event \<Rightarrow> event" where "s = (\<lambda>e. e\<lparr>ev_success := True\<rparr>)"
  have room: "take (nat (flow_room f)) (ne_input ev) = d @ behind"
    using f(2,4) i by (simp add: flow_room_def)
  have "read_flow ev a e ?n0 = Inr n'"
    using u e(1) unfolding update_one_def with_conn_found [OF c(1)] Let_def c(2) list.case
    by (simp add: read_step_def)
  then have "feed_flow ev a e f ?n0 = Inr n'" using f(1,2,4) by (simp add: read_flow_def)
  then have fin: "event_update ev a (upd_head a s (upd_head a g ?m)) = Inr n'"
    using e(2-4) f(3) unfolding feed_flow_def room Let_def g_def s_def
    by (simp add: finish_head_def)
  have okm: "net_ok ?m" using ok0 net_ok_cong [of ?m ?n0] by simp
  have qm: "queue ?m a = e # es" using q0 queue_cong [of ?m ?n0] by simp
  note r1 = upd_head_effect [OF okm qm, of g]
  have ok1: "net_ok (upd_head a g ?m)" by (rule requeued_net_ok [OF r1 okm])
  have q1: "queue (upd_head a g ?m) a = g e # es" using requeued_queue [OF r1] by simp
  note r2 = upd_head_effect [OF ok1 q1, of s]
  obtain c2 where c2: "lookup a (upd_head a s (upd_head a g ?m)) = Some c2" "cn_events c2 = s (g e) # es"
    "cn_type c2 = cn_type c" "cn_notify_mask c2 = cn_notify_mask c"
    using requeued_lookup [OF r2, of a] requeued_lookup [OF r1, of a] c0 lookup_cong [of ?m ?n0 a] by auto
  have "event_delete a True (upd_head a s (upd_head a g ?m)) = Inr n'"
    using fin e(1) unfolding event_update_def with_conn_found [OF c2(1)] c2(2)
    by (simp add: done_or_close_def g_def s_def)
  note r3 = event_delete_effect [OF requeued_net_ok [OF r2 ok1] c2(1) this]
  have "deleted c2 True = deleted c True"
    using c2 c(2) by (simp add: deleted_def idle_event_def)
  then have "queue n' a = deleted c True" using requeued_queue [OF r3] by simp
  moreover have "nt_calls n' = nt_calls n @ [FlowInsert (ev_id e) (d @ behind)]"
    using requeued_calls [OF r3] requeued_calls [OF r2] requeued_calls [OF r1] by simp
  ultimately show ?thesis by simp
qed

definition demo_feeder :: connection where
  "demo_feeder = demo_conn 3 CONNECTION_CLIENT 7 [read_flow_event 1 4]"

definition demo_flow_env :: step_env where
  "demo_flow_env = (demo_env (''data'' @ ''stop #1'' @ [CR, LF]))
     \<lparr>ne_flow := (\<lambda>_. Some \<lparr>fw_reader = Some (0, 0, 65536), fw_insert_ok = True\<rparr>)\<rparr>"

definition demo_fed :: "net net_result" where
  "demo_fed = update_one demo_flow_env {7} {} 3 (demo_net [demo_feeder])"

theorem flow_takes_what_follows_witness:
  "case demo_fed of Inl _ \<Rightarrow> False
     | Inr n' \<Rightarrow> nt_calls n' = [FlowInsert 1 (''data'' @ ''stop #1'' @ [CR, LF])]
         \<and> queue n' 3 = [line_event READ_COMMAND None]"
proof -
  have "isl demo_fed = False" by code_simp
  from not_isl [OF this] obtain n' where n': "demo_fed = Inr n'" ..
  have c: "lookup 3 (demo_net [demo_feeder]) = Some demo_feeder"
    by (simp add: lookup_def demo_net_def demo_feeder_def demo_conn_def)
  have e: "cn_events demo_feeder = read_flow_event 1 4 # []" by (simp add: demo_feeder_def demo_conn_def)
  have ok: "net_ok (demo_net [demo_feeder])" by code_simp
  have w: "ev_type (read_flow_event 1 4) = READ_FLOW" "ev_nbytes (read_flow_event 1 4) \<noteq> -1"
    "ev_nleft (read_flow_event 1 4) = int (length ''data'')" "''data'' \<noteq> []"
    "ne_flow demo_flow_env (ev_id (read_flow_event 1 4)) = Some \<lparr>fw_reader = Some (0, 0, 65536), fw_insert_ok = True\<rparr>"
    by (simp_all add: read_flow_event_def blank_event_def demo_flow_env_def demo_env_def)
  have v: "fw_reader \<lparr>fw_reader = Some (0, 0, 65536), fw_insert_ok = True\<rparr> = Some (0, 0, 65536)"
    "fw_insert_ok \<lparr>fw_reader = Some (0, 0, 65536), fw_insert_ok = True\<rparr>" "0 - 0 + BUFFER_SIZE \<le> (65536 :: int)"
    "ne_input demo_flow_env = ''data'' @ ''stop #1'' @ [CR, LF]"
    "int (length ''data'' + length (''stop #1'' @ [CR, LF])) \<le> BUFFER_SIZE" "cn_fd demo_feeder \<in> {7}"
    by (simp_all add: demo_flow_env_def demo_env_def demo_feeder_def demo_conn_def)
  have d: "deleted demo_feeder True = [line_event READ_COMMAND None]"
    "nt_calls (demo_net [demo_feeder]) = []" "ev_id (read_flow_event 1 4) = 1"
    by (simp_all add: deleted_def demo_feeder_def demo_conn_def idle_event_def demo_net_def read_flow_event_def
        blank_event_def)
  show ?thesis
    using flow_takes_what_follows [OF ok c e w v n' [unfolded demo_fed_def]] unfolding n' sum.case d by simp
qed

section \<open>Position reports\<close>

lemma notify_to_frame:
  assumes "connection_notify (Some a) nv nc n = Inr n'" "b \<noteq> a"
  shows "queue n' b = queue n b"
proof -
  have one: "queue m' b = queue m b" if "notify_all (Some a) nv d m = Inr m'" for d m m'
    using that notify_one_frame [OF _ assms(2)] by (auto simp: notify_all_def)
  obtain n1 where n1: "notify_all (Some a) nv nc n = Inr n1"
    and r: "notify_all (Some a) nv (state_notice nv) (n1\<lparr>nt_state := (nv_playing nv, nv_paused nv, nv_volume nv)\<rparr>) = Inr n'
      \<or> n1 = n'"
    using assms(1) by (auto simp: connection_notify_def split: if_splits)
  have s: "queue (n1\<lparr>nt_state := st\<rparr>) = queue n1" for st by (rule queue_cong) simp
  show ?thesis using r one [OF n1] one s by metis
qed

lemma positions_one_effect:
  "positions_one nv a sps n = Inr (sps', n') \<Longrightarrow>
     list_all (\<lambda>p. \<not> fst p) sps' \<and> (\<forall>b. b \<noteq> a \<longrightarrow> queue n' b = queue n b)
     \<and> (list_all (\<lambda>p. \<not> fst p) sps \<longrightarrow> n' = n)"
proof (induction sps arbitrary: n sps')
  case (Cons p sps)
  obtain flag nc where p: "p = (flag, nc)" by fastforce
  obtain n1 where f: "(if flag then connection_notify (Some a) nv nc n else Inr n) = Inr n1"
    and r: "bindE (positions_one nv a sps n1) (\<lambda>(t, n2). Inr ((False, nc) # t, n2)) = Inr (sps', n')"
    using Cons.prems unfolding p positions_one.simps bindE_Inr by blast
  obtain t where r: "positions_one nv a sps n1 = Inr (t, n')" and s: "sps' = (False, nc) # t"
    using r by auto
  have "queue n1 b = queue n b" if "b \<noteq> a" for b
    using f notify_to_frame that by (auto split: if_splits)
  moreover have "n1 = n" if "\<not> flag" using f that by simp
  ultimately show ?case using Cons.IH [OF r] s by (auto simp: p)
qed simp

lemma positions_conn_idle:
  assumes "positions_conn nv a (sps, n) = Inr (sps', n')" "list_all (\<lambda>p. \<not> fst p) sps"
  shows "list_all (\<lambda>p. \<not> fst p) sps' \<and> queue n' = queue n"
proof -
  obtain c where c: "lookup a n = Some c" using assms(1) by (auto simp: positions_conn_def with_conn_Inr)
  have u: "queue (upd_conn a (\<lambda>c. c\<lparr>cn_position_next := nv_timer nv + cn_position_rate c\<rparr>) n) = queue n"
    by (rule queue_upd) simp_all
  show ?thesis
    using assms u positions_one_effect [of nv a sps _ sps' n']
    by (auto simp: positions_conn_def with_conn_found [OF c] split: if_splits)
qed

lemma positions_rest_idle:
  "foldE (positions_conn nv) as (sps, n) = Inr (sps', n') \<Longrightarrow> list_all (\<lambda>p. \<not> fst p) sps \<Longrightarrow>
     list_all (\<lambda>p. \<not> fst p) sps' \<and> queue n' = queue n"
proof (induction "as" arbitrary: sps n)
  case (Cons a as)
  then obtain t m where p: "positions_conn nv a (sps, n) = Inr (t, m)"
    and r: "foldE (positions_conn nv) as (t, m) = Inr (sps', n')" by auto
  show ?case using Cons.IH [OF r] positions_conn_idle [OF p Cons.prems(2)] by simp
qed simp

text \<open>Position reports go to one client: the first connection that subscribed to them without
  a rate takes all that are due, and every other client, subscribed or not, gets none.\<close>

theorem one_client_gets_positions:
  assumes "nt_conns n = c # cs" "cn_notify_mask c AND NOTIFY_POSITION_BIT \<noteq> 0" "cn_position_rate c = 0"
    and "connection_notify_position nv sps n = Inr (sps', n')"
  shows "list_all (\<lambda>p. \<not> fst p) sps' \<and> (\<forall>b. b \<noteq> cn_addr c \<longrightarrow> queue n' b = queue n b)"
proof -
  obtain st where "positions_conn nv (cn_addr c) (sps, n) = Inr st"
    and "foldE (positions_conn nv) (map cn_addr cs) st = Inr (sps', n')"
    using assms(4) unfolding connection_notify_position_def assms(1) list.map foldE.simps bindE_Inr by blast
  then obtain t m where p: "positions_conn nv (cn_addr c) (sps, n) = Inr (t, m)"
    and r: "foldE (positions_conn nv) (map cn_addr cs) (t, m) = Inr (sps', n')"
    by (cases st) auto
  have c: "lookup (cn_addr c) n = Some c" by (simp add: lookup_def assms(1))
  have o': "positions_one nv (cn_addr c) sps n = Inr (t, m)"
    using p assms(2,3) by (simp add: positions_conn_def with_conn_found [OF c])
  note e = positions_one_effect [OF o']
  show ?thesis using positions_rest_idle [OF r] e by auto
qed

definition demo_watcher :: "nat \<Rightarrow> connection" where
  "demo_watcher a = (demo_conn a CONNECTION_CLIENT 7 [blank_event NOTIFY])\<lparr>cn_notify_mask := NOTIFY_POSITION_BIT\<rparr>"

definition demo_positions :: "((bool \<times> notice) list \<times> net) net_result" where
  "demo_positions = connection_notify_position demo_notify_env
     [(True, Position 1 [] \<lparr>qn_position = ''1'', qn_remain = ''2'', qn_seconds = ''3'', qn_sample = 1,
        qn_samples = 3\<rparr>)] (demo_net [demo_watcher 3, demo_watcher 4])"

theorem one_client_gets_positions_witness:
  "case demo_positions of Inl _ \<Rightarrow> False
     | Inr (_, n') \<Rightarrow> queue n' 4 = [blank_event NOTIFY] \<and> length (queue n' 3) = 1
         \<and> map ev_type (queue n' 3) = [WRITE]"
proof -
  have ok: "(case demo_positions of Inl _ \<Rightarrow> False | Inr (_, n') \<Rightarrow>
      length (queue n' 3) = 1 \<and> map ev_type (queue n' 3) = [WRITE])" by code_simp
  then obtain sps' n' where r: "demo_positions = Inr (sps', n')" by (auto split: sum.splits)
  have h: "nt_conns (demo_net [demo_watcher 3, demo_watcher 4]) = demo_watcher 3 # [demo_watcher 4]"
    "cn_notify_mask (demo_watcher 3) AND NOTIFY_POSITION_BIT \<noteq> 0" "cn_position_rate (demo_watcher 3) = 0"
    by (simp_all add: demo_net_def demo_watcher_def demo_conn_def)
  have q: "queue (demo_net [demo_watcher 3, demo_watcher 4]) 4 = [blank_event NOTIFY]" "cn_addr (demo_watcher 3) \<noteq> 4"
    by (simp_all add: queue_def lookup_def demo_net_def demo_watcher_def demo_conn_def)
  show ?thesis
    using one_client_gets_positions [OF h r [unfolded demo_positions_def]] ok q unfolding r by auto
qed

end
