(* ===== verification/Replies.thy ===== *)
theory Replies
  imports Notify
begin

text \<open>
  Replies that list something: a heading, one line for each item and a line with a dot, in a
  chain of buffers (\<open>sound_list_create\<close> of \<open>src/rplayd/sound.c\<close>, \<open>spool_list_create\<close> of
  \<open>src/rplayd/spool.c\<close>, \<open>connection_list_create\<close> of \<open>src/rplayd/connection.c\<close>).  All use the
  same pattern to fill the buffers; a write outside a buffer is the error \<open>()\<close>.
\<close>

section \<open>Filling a chain of buffers\<close>

text \<open>The buffers that are full and the current one.\<close>

type_synonym chain = "string list \<times> string"

definition buffers_of :: "chain \<Rightarrow> string list" where
  "buffers_of ch = fst ch @ [snd ch]"

text \<open>\<open>strncat\<close> puts a NUL behind the text, outside the buffer when the text just fits.\<close>

definition add_line :: "string \<Rightarrow> chain \<Rightarrow> unit + chain" where
  "add_line s ch =
     (if int (length (snd ch) + length s) > BUFFER_SIZE then Inr (fst ch @ [snd ch], s)
      else if int (length (snd ch) + length s) = BUFFER_SIZE then Inl ()
      else Inr (fst ch, snd ch @ s))"

text \<open>\<open>snprintf\<close> gives the last character up for the NUL.\<close>

definition add_line_cut :: "string \<Rightarrow> chain \<Rightarrow> chain" where
  "add_line_cut s ch =
     (if int (length (snd ch) + length s) > BUFFER_SIZE then (fst ch @ [snd ch], s)
      else if int (length (snd ch) + length s) = BUFFER_SIZE then (fst ch, snd ch @ butlast s @ [NUL])
      else (fst ch, snd ch @ s))"

definition last_line :: string where
  "last_line = [CHR ''.'', CR, LF]"

definition heading :: "string \<Rightarrow> string" where
  "heading what = ''+message='' @ quoted what @ [CR, LF]"

definition list_reply :: "string \<Rightarrow> string list \<Rightarrow> unit + string list" where
  "list_reply what ls =
     bindE (foldE add_line ls ([], heading what)) (\<lambda>ch.
     bindE (add_line last_line ch) (\<lambda>ch. Inr (buffers_of ch)))"

section \<open>The lines\<close>

text \<open>A line is put together in an array of 1024 bytes from parts that were cut to fit one.\<close>

fun join_parts :: "string list \<Rightarrow> string \<Rightarrow> unit + string" where
  "join_parts [] line = Inr line"
| "join_parts (p # ps) line =
     (let q = take (RPTP_MAX_LINE - 1) p
      in if length line + length q \<ge> RPTP_MAX_LINE then Inl () else join_parts ps (line @ q))"

fun mapE :: "('a \<Rightarrow> 'e + 'b) \<Rightarrow> 'a list \<Rightarrow> 'e + 'b list" where
  "mapE f [] = Inr []"
| "mapE f (x # xs) = bindE (f x) (\<lambda>y. bindE (mapE f xs) (\<lambda>ys. Inr (y # ys)))"

section \<open>Sounds\<close>

record listed_sound =
  ls_name :: string
  ls_ready :: bool
  ls_mapped :: bool
  ls_size :: int
  ls_bits :: string
  ls_rate :: int
  ls_channels :: int
  ls_samples :: int

definition sound_line :: "listed_sound \<Rightarrow> string" where
  "sound_line s = take (RPTP_MAX_LINE - 1) (
     if ls_mapped s
     then ''sound='' @ quoted (ls_name s) @ pair_text ''size'' (signed_decimal (ls_size s))
            @ pair_text ''bits'' (ls_bits s) @ pair_text ''sample_rate'' (signed_decimal (ls_rate s))
            @ pair_text ''channels'' (signed_decimal (ls_channels s))
            @ pair_text ''samples'' (signed_decimal (ls_samples s)) @ [CR, LF]
     else ''sound='' @ quoted (ls_name s) @ [CR, LF])"

text \<open>The last line is printed here, not appended.\<close>

definition sound_list_create :: "listed_sound list \<Rightarrow> unit + string list" where
  "sound_list_create ss =
     bindE (foldE add_line (map sound_line (filter ls_ready ss)) ([], heading ''sounds'')) (\<lambda>ch.
       Inr (buffers_of (add_line_cut last_line ch)))"

section \<open>The spool\<close>

record listed_entry =
  le_id :: int
  le_state :: spool_state
  le_sound :: string
  le_host :: string
  le_left :: int
  le_right :: int
  le_priority :: int
  le_count :: int
  le_position :: string
  le_remain :: string
  le_seconds :: string
  le_size :: int
  le_rate :: int
  le_channels :: int
  le_bits :: string
  le_input :: string
  le_data :: string
  le_list_name :: string

definition state_name :: "spool_state \<Rightarrow> string option" where
  "state_name st = (case st of
     SPOOL_PLAY \<Rightarrow> Some ''play'' | SPOOL_PAUSE \<Rightarrow> Some ''pause'' | SPOOL_WAIT \<Rightarrow> Some ''wait''
   | SPOOL_NEXT \<Rightarrow> Some ''next'' | SPOOL_SKIP \<Rightarrow> Some ''skip'' | _ \<Rightarrow> None)"

definition entry_text :: "listed_entry \<Rightarrow> string" where
  "entry_text e =
     pair_text ''sound'' (quoted (le_sound e)) @ pair_text ''host'' (le_host e)
       @ pair_text ''volume'' (signed_decimal (max (le_left e) (le_right e)))
       @ pair_text ''left-volume'' (signed_decimal (le_left e)) @ pair_text ''right-volume'' (signed_decimal (le_right e))
       @ pair_text ''priority'' (signed_decimal (le_priority e)) @ pair_text ''count'' (signed_decimal (le_count e))
       @ pair_text ''position'' (le_position e) @ pair_text ''remain'' (le_remain e)
       @ pair_text ''seconds'' (le_seconds e) @ pair_text ''size'' (signed_decimal (le_size e))
       @ pair_text ''sample-rate'' (signed_decimal (le_rate e)) @ pair_text ''channels'' (signed_decimal (le_channels e))
       @ pair_text ''bits'' (le_bits e) @ pair_text ''input'' (le_input e) @ client_text (le_data e)
       @ pair_text ''list-name'' (quoted (le_list_name e)) @ [CR, LF]"

definition entry_parts :: "listed_entry \<Rightarrow> string list option" where
  "entry_parts e = map_option (\<lambda>st.
     [''id=#'' @ signed_decimal (le_id e) @ '' state='', st, entry_text e]) (state_name (le_state e))"

definition spool_list_create :: "listed_entry list \<Rightarrow> unit + string list" where
  "spool_list_create es =
     bindE (mapE (\<lambda>ps. join_parts ps []) (List.map_filter entry_parts es)) (list_reply ''spool'')"

section \<open>Connections\<close>

definition hex_digit :: "nat \<Rightarrow> char" where
  "hex_digit k = ''0123456789abcdef'' ! k"

definition hex8 :: "32 word \<Rightarrow> string" where
  "hex8 w = map (\<lambda>i. hex_digit (unat (and (drop_bit (4 * i) w) 15))) [7, 6, 5, 4, 3, 2, 1, 0]"

definition progress :: "event \<Rightarrow> string" where
  "progress e = ''('' @ signed_decimal (ev_byte_offset e) @ ''/'' @ signed_decimal (ev_nbytes e) @ '')''"

text \<open>What a connection does, as its first event tells; reading the name of a sound that is
  missing is an error.\<close>

definition name_of :: "net \<Rightarrow> event \<Rightarrow> unit + string" where
  "name_of n e = (case ev_sound e of None \<Rightarrow> Inl () | Some x \<Rightarrow> Inr (nt_name n x))"

definition event_text :: "net \<Rightarrow> connection \<Rightarrow> event \<Rightarrow> unit + string" where
  "event_text n c e =
     (case ev_type e of
        READ_COMMAND \<Rightarrow> Inr ''idle''
      | CONNECT \<Rightarrow> Inr ''connect''
      | READ_CONNECT_REPLY \<Rightarrow> Inr ''connect''
      | WRITE_FIND \<Rightarrow> bindE (name_of n e) (\<lambda>s. Inr (quoted (''find '' @ s)))
      | READ_FIND_REPLY \<Rightarrow> bindE (name_of n e) (\<lambda>s. Inr (quoted (''find '' @ s)))
      | WRITE_GET \<Rightarrow> bindE (name_of n e) (\<lambda>s. Inr (quoted (''get '' @ s)))
      | READ_GET_REPLY \<Rightarrow> bindE (name_of n e) (\<lambda>s. Inr (quoted (''get '' @ s)))
      | READ_SOUND \<Rightarrow> bindE (name_of n e) (\<lambda>s. Inr (quoted
          ((if cn_type c = CONNECTION_SERVER then ''get '' else ''put '') @ s @ '' '' @ progress e)))
      | WRITE \<Rightarrow> Inr ''write''
      | WRITE_SOUND \<Rightarrow> bindE (name_of n e) (\<lambda>s. Inr (quoted (''get '' @ s @ '' '' @ progress e)))
      | NOTIFY \<Rightarrow> Inr (quoted (if cn_notify_mask c \<noteq> 0 then ''notify '' @ hex8 (cn_notify_mask c)
                             else ''wait '' @ hex8 (ev_wait_mask e)))
      | READ_FLOW \<Rightarrow> Inr (quoted (''put #'' @ signed_decimal (ev_id e) @ '' '' @ progress e))
      | WAIT_FLOW \<Rightarrow> Inr (quoted (''put #'' @ signed_decimal (ev_id e) @ '' '' @ progress e))
      | PIPE_FLOW \<Rightarrow> Inr (quoted (''pipe #'' @ signed_decimal (ev_id e)))
      | _ \<Rightarrow> Inr [])"

definition connection_parts :: "net \<Rightarrow> (nat \<Rightarrow> string) \<Rightarrow> int \<Rightarrow> connection \<Rightarrow> unit + string list" where
  "connection_parts n addr now c =
     bindE (case cn_events c of
              [] \<Rightarrow> Inr []
            | e # _ \<Rightarrow> bindE (event_text n c e) (\<lambda>s. Inr ['' what='', s])) (\<lambda>what.
     Inr ([''host='' @ addr (cn_addr c), '' type='',
           (case cn_type c of CONNECTION_SERVER \<Rightarrow> ''server'' | CONNECTION_CLIENT \<Rightarrow> ''client'')]
          @ what
          @ (if now \<noteq> cn_time c then ['' idle='' @ time2string (nat (now - cn_time c))] else [])
          @ (case cn_application c of None \<Rightarrow> [] | Some s \<Rightarrow> [pair_text ''application'' (quoted s)])
          @ [[CR, LF]]))"

definition connection_list_create :: "net \<Rightarrow> (nat \<Rightarrow> string) \<Rightarrow> int \<Rightarrow> unit + string list" where
  "connection_list_create n addr now =
     bindE (mapE (\<lambda>c. bindE (connection_parts n addr now c) (\<lambda>ps. join_parts ps [])) (nt_conns n))
       (list_reply ''connections'')"

section \<open>The buffers hold the lines\<close>

lemma add_line_concat:
  "add_line s ch = Inr ch' \<Longrightarrow> concat (buffers_of ch') = concat (buffers_of ch) @ s"
  by (auto simp: add_line_def buffers_of_def split: if_splits)

lemma add_lines_concat:
  "foldE add_line ls ch = Inr ch' \<Longrightarrow> concat (buffers_of ch') = concat (buffers_of ch) @ concat ls"
  by (induction ls arbitrary: ch) (auto dest: add_line_concat)

definition fits :: "string \<Rightarrow> bool" where
  "fits s \<longleftrightarrow> int (length s) < BUFFER_SIZE"

lemma add_line_fits:
  "add_line s ch = Inr ch' \<Longrightarrow> fits s \<Longrightarrow> list_all fits (buffers_of ch) \<Longrightarrow> list_all fits (buffers_of ch')"
  by (auto simp: add_line_def buffers_of_def fits_def split: if_splits)

lemma add_lines_fit:
  "foldE add_line ls ch = Inr ch' \<Longrightarrow> list_all fits ls \<Longrightarrow> list_all fits (buffers_of ch)
    \<Longrightarrow> list_all fits (buffers_of ch')"
  by (induction ls arbitrary: ch) (auto dest: add_line_fits)

lemma list_reply_correct:
  assumes "list_reply what ls = Inr bs" "list_all fits ls" "fits (heading what)"
  shows "concat bs = heading what @ concat ls @ last_line \<and> list_all fits bs"
proof -
  obtain ch ch' where f: "foldE add_line ls ([], heading what) = Inr ch" and l: "add_line last_line ch = Inr ch'"
    and bs: "bs = buffers_of ch'"
    using assms(1) by (auto simp: list_reply_def)
  have "list_all fits (buffers_of ([], heading what))" using assms(3) by (simp add: buffers_of_def)
  then have "list_all fits (buffers_of ch)" by (rule add_lines_fit [OF f assms(2)])
  moreover have "fits last_line" by (simp add: fits_def last_line_def)
  ultimately have "list_all fits bs" using add_line_fits [OF l] bs by simp
  then show ?thesis
    using add_lines_concat [OF f] add_line_concat [OF l] bs by (simp add: buffers_of_def)
qed

lemma fits_line: "length s < RPTP_MAX_LINE \<Longrightarrow> fits s"
  by (simp add: fits_def)

text \<open>Whether some line ends at the very end of a buffer, which the code takes for room, with \<open>u\<close>
  bytes in the current one.\<close>

fun exact_end :: "nat \<Rightarrow> nat list \<Rightarrow> bool" where
  "exact_end u [] = False"
| "exact_end u (k # ks) =
     (let v = (if int (u + k) > BUFFER_SIZE then k else u + k) in int v = BUFFER_SIZE \<or> exact_end v ks)"

text \<open>Just then the NUL behind the line is written outside the buffer.\<close>

lemma add_lines_overflow:
  "list_all fits ls \<Longrightarrow> isl (foldE add_line ls ch) = exact_end (length (snd ch)) (map length ls)"
proof (induction ls arbitrary: ch)
  case (Cons s ls)
  then show ?case
    by (cases "int (length (snd ch) + length s) > BUFFER_SIZE"; cases "int (length (snd ch) + length s) = BUFFER_SIZE")
      (auto simp: add_line_def fits_def Let_def)
qed simp

lemma list_reply_lines: "list_reply what ls = bindE (foldE add_line (ls @ [last_line]) ([], heading what)) (\<lambda>ch. Inr (buffers_of ch))"
proof (cases "foldE add_line ls ([], heading what)")
  case (Inr ch)
  then show ?thesis by (cases "add_line last_line ch") (simp_all add: list_reply_def foldE_append)
qed (simp add: list_reply_def foldE_append)

lemma mapE_list: "list_all2 (\<lambda>x y. f x = Inr y) xs ys \<Longrightarrow> mapE f xs = Inr ys"
  by (induction xs ys rule: list_all2_induct) simp_all

lemma join_parts_line:
  "length line + length (concat (map (take (RPTP_MAX_LINE - 1)) ps)) < RPTP_MAX_LINE \<Longrightarrow>
     join_parts ps line = Inr (line @ concat (map (take (RPTP_MAX_LINE - 1)) ps))"
  by (induction ps arbitrary: line) (simp_all add: Let_def)


definition listed_net :: net where
  "listed_net = \<lparr>nt_conns =
      [\<lparr>cn_addr = 1, cn_type = CONNECTION_CLIENT, cn_fd = 5, cn_events = [line_event READ_COMMAND None], cn_server = 0,
        cn_time = 15, cn_application = Some ''xrptp'', cn_notify_mask = 0, cn_notify_id = 0, cn_level_rate = 0,
        cn_level_next = 0, cn_position_rate = 0, cn_position_next = 0, cn_monitor = False\<rparr>],
     nt_read = {5}, nt_write = {}, nt_clients = 1, nt_monitors = 0, nt_want_level = 0, nt_fresh = 2, nt_servers = 0,
     nt_state = (0, 0, 0), nt_name = (\<lambda>_. []), nt_calls = []\<rparr>"

definition listed_line :: string where
  "listed_line = ''host=10.0.0.1 type=client what=idle application='' @ quoted ''xrptp'' @ [CR, LF]"


end
