(* ===== verification/Hosts.thy ===== *)
theory Hosts
  imports Replies Spool
begin

text \<open>
  Who may use the daemon (\<open>src/rplayd/host.c\<close>): the file of hosts is turned into one regular
  expression for each kind of access, and a client's address is matched against it.  The
  second part reads the list of other servers (\<open>src/rplayd/server.c\<close>).  Addresses are
  dotted strings; looking names up is a parameter.
\<close>

section \<open>The access expressions\<close>

datatype host_crash = Overflow | HostExit | ForeignExpr

text \<open>\<open>expr_read\<close>, \<open>expr_write\<close>, \<open>expr_execute\<close>, \<open>expr_monitor\<close> and the list for clients.\<close>

record hosts =
  hs_read :: string
  hs_write :: string
  hs_execute :: string
  hs_monitor :: string
  hs_list :: chain

text \<open>\<open>inet_addr\<close> with \<open>inet_ntoa\<close> (\<open>None\<close> when the name is not an address) and
  \<open>gethostbyname\<close>: the first address of a host and its others.\<close>

record resolver =
  rv_dotted :: "string \<Rightarrow> string option"
  rv_host :: "string \<Rightarrow> (string \<times> string list) option"
  rv_self :: string            \<comment> \<open>hostaddr\<close>

abbreviation "HOST_EXPR_SIZE \<equiv> (1024 :: nat)"
abbreviation "BACKSLASH \<equiv> CHR 0x5C"

text \<open>\<open>host_ip_to_regex\<close> writes to an array of 64 bytes.\<close>

fun ip_regex :: "string \<Rightarrow> string" where
  "ip_regex [] = []"
| "ip_regex (c # cs) =
     (if c = CHR ''.'' then [BACKSLASH, CHR ''.'']
      else if c = CHR ''*'' then [CHR ''.'', CHR ''*''] else [c]) @ ip_regex cs"

definition host_ip_to_regex :: "string \<Rightarrow> host_crash + string" where
  "host_ip_to_regex p = (if length (ip_regex p) < 64 then Inr (ip_regex p) else Inl Overflow)"

definition or_sign :: string where
  "or_sign = [BACKSLASH, CHR ''|'']"

definition add_expr :: "string \<Rightarrow> string \<Rightarrow> host_crash + string" where
  "add_expr re expr =
     (if length expr + length re + 2 < HOST_EXPR_SIZE then Inr (expr @ re @ or_sign) else Inl Overflow)"

definition add_perm :: "string \<Rightarrow> char \<Rightarrow> hosts \<Rightarrow> host_crash + hosts" where
  "add_perm re p h =
     (if p = CHR ''r'' then bindE (add_expr re (hs_read h)) (\<lambda>x. Inr (h\<lparr>hs_read := x\<rparr>))
      else if p = CHR ''w'' then bindE (add_expr re (hs_write h)) (\<lambda>x. Inr (h\<lparr>hs_write := x\<rparr>))
      else if p = CHR ''x'' then bindE (add_expr re (hs_execute h)) (\<lambda>x. Inr (h\<lparr>hs_execute := x\<rparr>))
      else if p = CHR ''m'' then bindE (add_expr re (hs_monitor h)) (\<lambda>x. Inr (h\<lparr>hs_monitor := x\<rparr>))
      else Inl HostExit)"

definition host_line :: "string \<Rightarrow> string \<Rightarrow> string" where
  "host_line name perms = take (RPTP_MAX_LINE - 1) (''host='' @ name @ '' access='' @ perms @ [CR, LF])"

definition list_host :: "string \<Rightarrow> string \<Rightarrow> hosts \<Rightarrow> host_crash + hosts" where
  "list_host name perms h =
     (case add_line (host_line name perms) (hs_list h) of
        Inl _ \<Rightarrow> Inl Overflow | Inr ch \<Rightarrow> Inr (h\<lparr>hs_list := ch\<rparr>))"

definition allow :: "string \<Rightarrow> string \<Rightarrow> hosts \<Rightarrow> host_crash + hosts" where
  "allow pat perms h = bindE (host_ip_to_regex pat) (\<lambda>re. foldE (add_perm re) perms h)"

text \<open>The recursive calls of \<open>host_insert\<close> are for addresses: one that is not listed yet, and
  \<open>127.0.0.1\<close> beside the host's own address.\<close>

definition loopback :: string where
  "loopback = ''127.0.0.1''"

definition insert_loopback :: "resolver \<Rightarrow> string \<Rightarrow> string \<Rightarrow> hosts \<Rightarrow> host_crash + hosts" where
  "insert_loopback rv addr perms h =
     (if rv_self rv \<noteq> loopback \<and> addr = rv_self rv
      then bindE (list_host loopback perms h) (allow loopback perms)
      else Inr h)"

definition insert_address :: "resolver \<Rightarrow> string \<Rightarrow> string \<Rightarrow> hosts \<Rightarrow> host_crash + hosts" where
  "insert_address rv perms addr h =
     bindE (list_host addr perms h) (\<lambda>h1. bindE (insert_loopback rv addr perms h1) (allow addr perms))"

definition host_insert :: "resolver \<Rightarrow> string \<Rightarrow> string \<Rightarrow> hosts \<Rightarrow> host_crash + hosts" where
  "host_insert rv name perms h =
     bindE (list_host name perms h) (\<lambda>h1.
       if CHR ''*'' \<in> set name then allow name perms h1
       else case rv_dotted rv name of
              Some addr \<Rightarrow> bindE (insert_loopback rv addr perms h1) (allow addr perms)
            | None \<Rightarrow>
                (case rv_host rv name of
                   None \<Rightarrow> Inr h1
                 | Some (addr, others) \<Rightarrow>
                     bindE (foldE (insert_address rv perms) others h1) (\<lambda>h2.
                     bindE (insert_loopback rv addr perms h2) (allow addr perms))))"

section \<open>Reading the file\<close>

text \<open>Lines as \<open>fgets\<close> returns them; without a file the host itself may do everything but
  monitor.\<close>

definition skipped_line :: "string \<Rightarrow> bool" where
  "skipped_line l = (case l of [] \<Rightarrow> False | c # _ \<Rightarrow> c \<in> {CHR ''#'', CHR '' '', CHR 0x09, LF})"

definition split_colon :: "string \<Rightarrow> string \<times> string option" where
  "split_colon l = (case dropWhile (\<lambda>c. c \<noteq> CHR '':'') l of
     [] \<Rightarrow> (l, None) | _ # p \<Rightarrow> (takeWhile (\<lambda>c. c \<noteq> CHR '':'') l, Some p))"

definition host_entry :: "string \<Rightarrow> (string \<times> string) option" where
  "host_entry l =
     (if skipped_line l then None
      else (let (name, perms) = split_colon (takeWhile (\<lambda>c. c \<noteq> LF) l)
            in Some (name, case perms of None \<Rightarrow> ''rx'' | Some p \<Rightarrow> p)))"

definition file_entries :: "resolver \<Rightarrow> string list option \<Rightarrow> (string \<times> string) list" where
  "file_entries rv file = (case file of
     None \<Rightarrow> [(rv_self rv, ''rwx'')] | Some ls \<Rightarrow> List.map_filter host_entry ls)"

definition open_expr :: string where
  "open_expr = [CHR ''^'', BACKSLASH, CHR ''('']"

text \<open>The last alternative sign becomes the closing parenthesis.\<close>

definition close_expr :: "string \<Rightarrow> string" where
  "close_expr expr =
     (if length expr = 3 then expr @ [BACKSLASH, CHR '')''] else butlast expr @ [CHR '')'']) @ [CHR ''$'']"

definition no_hosts :: hosts where
  "no_hosts = \<lparr>hs_read = open_expr, hs_write = open_expr, hs_execute = open_expr, hs_monitor = open_expr,
     hs_list = ([], heading ''hosts'')\<rparr>"

definition close_hosts :: "hosts \<Rightarrow> hosts" where
  "close_hosts h = \<lparr>hs_read = close_expr (hs_read h), hs_write = close_expr (hs_write h),
     hs_execute = close_expr (hs_execute h), hs_monitor = close_expr (hs_monitor h),
     hs_list = add_line_cut last_line (hs_list h)\<rparr>"

definition room_to_close :: "hosts \<Rightarrow> bool" where
  "room_to_close h \<longleftrightarrow>
     list_all (\<lambda>x. length x + 1 < HOST_EXPR_SIZE) [hs_read h, hs_write h, hs_execute h, hs_monitor h]"

section \<open>Expressions\<close>

text \<open>Basic regular expressions as far as the program writes them itself: ordinary characters, an
  escaped dot, any character, any string, and alternatives in parentheses between the anchors.  A
  file can smuggle other operators in, as nothing but dots and stars is translated: brackets,
  anchors and escapes.  Their meaning is not modelled; such an expression is \<open>ForeignExpr\<close>.\<close>

datatype re_item = Lit char | AnyChar | AnyString

fun re_items :: "string \<Rightarrow> re_item list option" where
  "re_items [] = Some []"
| "re_items (c # cs) =
     (if c = BACKSLASH then
        (case cs of [] \<Rightarrow> None
         | d # ds \<Rightarrow> if d = CHR ''.'' then map_option (Cons (Lit d)) (re_items ds) else None)
      else if c = CHR ''.'' then
        (case cs of [] \<Rightarrow> Some [AnyChar]
         | d # ds \<Rightarrow> if d = CHR ''*'' then map_option (Cons AnyString) (re_items ds)
                     else map_option (Cons AnyChar) (re_items (d # ds)))
      else if c \<in> {CHR ''['', CHR ''^'', CHR ''$'', CHR ''*''} then None
      else map_option (Cons (Lit c)) (re_items cs))"

text \<open>\<open>REG_ICASE\<close>\<close>

definition fold_case :: "char \<Rightarrow> char" where
  "fold_case c = (if 65 \<le> (of_char c :: nat) \<and> (of_char c :: nat) \<le> 90 then char_of ((of_char c :: nat) + 32) else c)"

fun re_match :: "re_item list \<Rightarrow> string \<Rightarrow> bool" where
  "re_match [] s = (s = [])"
| "re_match (Lit c # r) s = (case s of [] \<Rightarrow> False | d # t \<Rightarrow> fold_case c = fold_case d \<and> re_match r t)"
| "re_match (AnyChar # r) s = (case s of [] \<Rightarrow> False | d # t \<Rightarrow> re_match r t)"
| "re_match (AnyString # r) s = list_ex (\<lambda>k. re_match r (drop k s)) [0..<Suc (length s)]"

text \<open>The alternatives up to the closing parenthesis, and what follows that.\<close>

fun re_alternatives :: "string \<Rightarrow> string \<Rightarrow> (string list \<times> string) option" where
  "re_alternatives [] acc = None"
| "re_alternatives (c # cs) acc =
     (if c = BACKSLASH
      then (case cs of
              [] \<Rightarrow> None
            | d # ds \<Rightarrow>
                if d = CHR '')'' then Some ([acc], ds)
                else if d = CHR ''|'' then map_option (\<lambda>(xs, r). (acc # xs, r)) (re_alternatives ds [])
                else re_alternatives ds (acc @ [c, d]))
      else re_alternatives cs (acc @ [c]))"

definition regcomp :: "string \<Rightarrow> host_crash + re_item list list" where
  "regcomp expr =
     (case (if take 3 expr = open_expr then re_alternatives (drop 3 expr) [] else None) of
        None \<Rightarrow> Inl ForeignExpr
      | Some (alts, r) \<Rightarrow>
          (case those (map re_items alts) of
             None \<Rightarrow> Inl ForeignExpr
           | Some re \<Rightarrow> if r = [CHR ''$''] then Inr re else Inl ForeignExpr))"

definition regexec :: "re_item list list \<Rightarrow> string \<Rightarrow> bool" where
  "regexec re s = list_ex (\<lambda>a. re_match a s) re"

definition compiles :: "hosts \<Rightarrow> bool" where
  "compiles h \<longleftrightarrow> list_all (\<lambda>x. isl (regcomp x) = False) [hs_read h, hs_write h, hs_execute h, hs_monitor h]"

definition host_read :: "resolver \<Rightarrow> string list option \<Rightarrow> host_crash + hosts" where
  "host_read rv file =
     bindE (foldE (\<lambda>(name, perms). host_insert rv name perms) (file_entries rv file) no_hosts) (\<lambda>h.
       if \<not> room_to_close h then Inl Overflow
       else if compiles (close_hosts h) then Inr (close_hosts h) else Inl ForeignExpr)"

section \<open>Access\<close>

definition access_expr :: "char \<Rightarrow> hosts \<Rightarrow> host_crash + string" where
  "access_expr m h =
     (if m = CHR ''r'' then Inr (hs_read h) else if m = CHR ''w'' then Inr (hs_write h)
      else if m = CHR ''x'' then Inr (hs_execute h) else if m = CHR ''m'' then Inr (hs_monitor h)
      else Inl HostExit)"

definition host_access :: "bool \<Rightarrow> hosts \<Rightarrow> string \<Rightarrow> char \<Rightarrow> host_crash + bool" where
  "host_access auth_enabled h addr m =
     (if \<not> auth_enabled then Inr True
      else bindE (access_expr m h) (\<lambda>expr. bindE (regcomp expr) (\<lambda>re. Inr (regexec re addr))))"

section \<open>What the file grants\<close>

text \<open>The rules of the file, without expressions: a pattern and the accesses it gives.\<close>

definition address_rules :: "resolver \<Rightarrow> string \<Rightarrow> string \<Rightarrow> (string \<times> string) list" where
  "address_rules rv perms addr =
     (if rv_self rv \<noteq> loopback \<and> addr = rv_self rv then [(loopback, perms)] else []) @ [(addr, perms)]"

definition entry_rules :: "resolver \<Rightarrow> string \<times> string \<Rightarrow> (string \<times> string) list" where
  "entry_rules rv e =
     (let (name, perms) = e
      in if CHR ''*'' \<in> set name then [(name, perms)]
         else case rv_dotted rv name of
                Some addr \<Rightarrow> address_rules rv perms addr
              | None \<Rightarrow> (case rv_host rv name of
                   None \<Rightarrow> []
                 | Some (addr, others) \<Rightarrow>
                     concat (map (address_rules rv perms) others) @ address_rules rv perms addr))"

definition file_rules :: "resolver \<Rightarrow> string list option \<Rightarrow> (string \<times> string) list" where
  "file_rules rv file = concat (map (entry_rules rv) (file_entries rv file))"

text \<open>A star stands for any string; the case of letters is ignored.\<close>

fun glob :: "string \<Rightarrow> string \<Rightarrow> bool" where
  "glob [] s = (s = [])"
| "glob (c # p) s =
     (if c = CHR ''*'' then list_ex (\<lambda>k. glob p (drop k s)) [0..<Suc (length s)]
      else case s of [] \<Rightarrow> False | d # t \<Rightarrow> fold_case c = fold_case d \<and> glob p t)"

definition granted :: "(string \<times> string) list \<Rightarrow> char \<Rightarrow> string \<Rightarrow> bool" where
  "granted rules m addr = list_ex (\<lambda>(pat, perms). m \<in> set perms \<and> glob pat addr) rules"

text \<open>Patterns without the other operators of expressions.\<close>

definition plain :: "string \<Rightarrow> bool" where
  "plain p \<longleftrightarrow> list_all (\<lambda>c. c \<notin> {BACKSLASH, CHR ''['', CHR ''^'', CHR ''$''}) p"

subsection \<open>Expressions of patterns\<close>

lemma plain_Cons [simp]: "plain (c # p) \<longleftrightarrow> c \<notin> {BACKSLASH, CHR ''['', CHR ''^'', CHR ''$''} \<and> plain p"
  by (auto simp: plain_def)

definition glob_item :: "char \<Rightarrow> re_item" where
  "glob_item c = (if c = CHR ''*'' then AnyString else Lit c)"

lemma re_items_ip_regex: "plain p \<Longrightarrow> re_items (ip_regex p) = Some (map glob_item p)"
  by (induction p) (auto simp: glob_item_def)

lemma list_ex_cong': "(\<And>x. x \<in> set xs \<Longrightarrow> f x = g x) \<Longrightarrow> list_ex f xs = list_ex g xs"
  by (induction xs) auto

lemma re_match_glob: "re_match (map glob_item p) s = glob p s"
proof (induction p arbitrary: s)
  case (Cons c p)
  show ?case
  proof (cases "c = CHR ''*''")
    case True
    then have "map glob_item (c # p) = AnyString # map glob_item p" by (simp add: glob_item_def)
    then show ?thesis using True Cons.IH by simp
  next
    case False
    then have "map glob_item (c # p) = Lit c # map glob_item p" by (simp add: glob_item_def)
    then show ?thesis using False Cons.IH by (cases s) simp_all
  qed
qed simp

lemma alternatives_ip_regex:
  "plain p \<Longrightarrow> re_alternatives (ip_regex p @ t) acc = re_alternatives t (acc @ ip_regex p)"
  by (induction p arbitrary: acc) auto

definition exprs :: "string list \<Rightarrow> string" where
  "exprs ps = concat (map (\<lambda>p. ip_regex p @ or_sign) ps)"

lemma alternatives_exprs:
  assumes "list_all plain ps" "plain p"
  shows "re_alternatives (exprs ps @ ip_regex p @ BACKSLASH # CHR '')'' # t) [] = Some (map ip_regex (ps @ [p]), t)"
  using assms
proof (induction ps)
  case Nil
  then show ?case by (simp add: exprs_def alternatives_ip_regex)
next
  case (Cons q ps)
  then show ?case by (simp add: exprs_def alternatives_ip_regex or_sign_def)
qed

lemma close_exprs:
  "close_expr (open_expr @ exprs (ps @ [p])) = open_expr @ exprs ps @ ip_regex p @ [BACKSLASH, CHR '')'', CHR ''$'']"
  by (simp add: close_expr_def exprs_def or_sign_def open_expr_def butlast_append)

lemma those_patterns: "list_all plain ps \<Longrightarrow> those (map re_items (map ip_regex ps)) = Some (map (map glob_item) ps)"
  by (induction ps) (simp_all add: re_items_ip_regex)

text \<open>Without patterns the expression has the empty alternative, which no address matches.\<close>

lemma regcomp_exprs:
  assumes "list_all plain ps"
  shows "regcomp (close_expr (open_expr @ exprs ps)) = Inr (if ps = [] then [[]] else map (map glob_item) ps)"
proof (cases ps rule: rev_cases)
  case Nil
  then show ?thesis by (simp add: exprs_def close_expr_def open_expr_def regcomp_def)
next
  case (snoc qs q)
  have "re_alternatives (exprs qs @ ip_regex q @ [BACKSLASH, CHR '')'', CHR ''$'']) [] = Some (map ip_regex ps, [CHR ''$''])"
    using assms snoc alternatives_exprs [of qs q "[CHR ''$'']"] by simp
  then have "regcomp (close_expr (open_expr @ exprs ps))
      = (case those (map re_items (map ip_regex ps)) of None \<Rightarrow> Inl ForeignExpr | Some re \<Rightarrow> Inr re)"
    unfolding snoc close_exprs regcomp_def by (simp add: open_expr_def split: option.split)
  then show ?thesis using those_patterns [OF assms] snoc by simp
qed

lemma regexec_exprs:
  assumes "s \<noteq> []"
  shows "regexec (if ps = [] then [[]] else map (map glob_item) ps) s = list_ex (\<lambda>p. glob p s) ps"
  using assms by (simp add: regexec_def list_ex_iff re_match_glob)

subsection \<open>The expressions of the file\<close>

definition modes :: "char set" where
  "modes = {CHR ''r'', CHR ''w'', CHR ''x'', CHR ''m''}"

definition field :: "char \<Rightarrow> hosts \<Rightarrow> string" where
  "field m h = (if m = CHR ''r'' then hs_read h else if m = CHR ''w'' then hs_write h
     else if m = CHR ''x'' then hs_execute h else hs_monitor h)"

text \<open>The patterns of the rules for access \<open>m\<close>, once for each time it is given.\<close>

definition pats :: "char \<Rightarrow> (string \<times> string) list \<Rightarrow> string list" where
  "pats m rules = concat (map (\<lambda>(pat, perms). map (\<lambda>_. pat) (filter (\<lambda>p. p = m) perms)) rules)"

lemma pats_simps [simp]:
  "pats m [] = []" "pats m (xs @ ys) = pats m xs @ pats m ys"
  "pats m ((pat, perms) # rs) = map (\<lambda>_. pat) (filter (\<lambda>p. p = m) perms) @ pats m rs"
  by (simp_all add: pats_def)

lemma exprs_append [simp]: "exprs (xs @ ys) = exprs xs @ exprs ys"
  by (simp add: exprs_def)

definition adds :: "char \<Rightarrow> (string \<times> string) list \<Rightarrow> hosts \<Rightarrow> hosts \<Rightarrow> bool" where
  "adds m rules h h' \<longleftrightarrow> field m h' = field m h @ exprs (pats m rules)"

lemma adds_trans: "adds m xs h h1 \<Longrightarrow> adds m ys h1 h2 \<Longrightarrow> adds m (xs @ ys) h h2"
  by (simp add: adds_def)

lemma adds_nil: "field m h' = field m h \<Longrightarrow> adds m [] h h'"
  by (simp add: adds_def exprs_def)

lemma add_perm_field:
  assumes "add_perm re p h = Inr h'" "m \<in> modes"
  shows "field m h' = field m h @ (if p = m then re @ or_sign else [])"
  using assms
  by (auto simp: add_perm_def add_expr_def field_def modes_def split: if_splits)

lemma add_perms_field:
  "foldE (add_perm re) perms h = Inr h' \<Longrightarrow> m \<in> modes \<Longrightarrow>
     field m h' = field m h @ concat (map (\<lambda>_. re @ or_sign) (filter (\<lambda>p. p = m) perms))"
proof (induction perms arbitrary: h)
  case (Cons p perms)
  then obtain h1 where a: "add_perm re p h = Inr h1" and r: "foldE (add_perm re) perms h1 = Inr h'" by auto
  show ?case using Cons.IH [OF r Cons.prems(2)] add_perm_field [OF a Cons.prems(2)] by simp
qed simp

lemma allow_adds: "allow pat perms h = Inr h' \<Longrightarrow> m \<in> modes \<Longrightarrow> adds m [(pat, perms)] h h'"
  by (auto simp: allow_def host_ip_to_regex_def adds_def exprs_def comp_def dest!: add_perms_field split: if_splits)

lemma list_host_field: "list_host name perms h = Inr h' \<Longrightarrow> field m h' = field m h"
  by (auto simp: list_host_def field_def split: sum.splits)

lemma loopback_adds:
  assumes "insert_loopback rv addr perms h = Inr h'" "m \<in> modes"
  shows "adds m (if rv_self rv \<noteq> loopback \<and> addr = rv_self rv then [(loopback, perms)] else []) h h'"
proof (cases "rv_self rv \<noteq> loopback \<and> addr = rv_self rv")
  case True
  then obtain h1 where "list_host loopback perms h = Inr h1" "allow loopback perms h1 = Inr h'"
    using assms(1) by (auto simp: insert_loopback_def)
  then show ?thesis using True adds_trans [OF adds_nil allow_adds [OF _ assms(2)]] list_host_field by force
next
  case False
  then show ?thesis using assms(1) by (auto simp: insert_loopback_def intro: adds_nil split: if_splits)
qed

lemma known_adds:
  assumes "bindE (insert_loopback rv addr perms h) (allow addr perms) = Inr h'" "m \<in> modes"
  shows "adds m (address_rules rv perms addr) h h'"
  using assms adds_trans [OF loopback_adds allow_adds] by (fastforce simp: address_rules_def)

lemma address_adds:
  assumes "insert_address rv perms addr h = Inr h'" "m \<in> modes"
  shows "adds m (address_rules rv perms addr) h h'"
proof -
  obtain h1 where l: "list_host addr perms h = Inr h1"
    and k: "bindE (insert_loopback rv addr perms h1) (allow addr perms) = Inr h'"
    using assms(1) unfolding insert_address_def bindE_Inr by blast
  show ?thesis using adds_trans [OF adds_nil [OF list_host_field [OF l]] known_adds [OF k assms(2)]] by simp
qed

lemma addresses_add:
  "foldE (insert_address rv perms) as h = Inr h' \<Longrightarrow> m \<in> modes \<Longrightarrow>
     adds m (concat (map (address_rules rv perms) as)) h h'"
proof (induction "as" arbitrary: h)
  case Nil
  then show ?case by (simp add: adds_nil)
next
  case (Cons a "as")
  then show ?case using adds_trans [OF address_adds] by fastforce
qed

lemma insert_adds:
  assumes i: "host_insert rv name perms h = Inr h'" and m: "m \<in> modes"
  shows "adds m (entry_rules rv (name, perms)) h h'"
proof -
  obtain h1 where l: "list_host name perms h = Inr h1"
    and r: "(if CHR ''*'' \<in> set name then allow name perms h1
       else case rv_dotted rv name of
              Some addr \<Rightarrow> bindE (insert_loopback rv addr perms h1) (allow addr perms)
            | None \<Rightarrow>
                (case rv_host rv name of
                   None \<Rightarrow> Inr h1
                 | Some (addr, others) \<Rightarrow>
                     bindE (foldE (insert_address rv perms) others h1) (\<lambda>h2.
                     bindE (insert_loopback rv addr perms h2) (allow addr perms)))) = Inr h'"
    using i unfolding host_insert_def bindE_Inr by blast
  have "adds m (entry_rules rv (name, perms)) h1 h'"
  proof (cases "CHR ''*'' \<in> set name")
    case True
    then show ?thesis using r allow_adds [OF _ m] by (simp add: entry_rules_def)
  next
    case star: False
    show ?thesis
    proof (cases "rv_dotted rv name")
      case (Some addr)
      then have "bindE (insert_loopback rv addr perms h1) (allow addr perms) = Inr h'" using r star by simp
      from known_adds [OF this m] show ?thesis using star Some by (simp add: entry_rules_def)
    next
      case dotted: None
      show ?thesis
      proof (cases "rv_host rv name")
        case None
        then have "h' = h1" using r star dotted by simp
        then show ?thesis using star dotted None by (simp add: entry_rules_def adds_nil)
      next
        case (Some ao)
        obtain addr others where ao: "ao = (addr, others)" by fastforce
        obtain h2 where f: "foldE (insert_address rv perms) others h1 = Inr h2"
          and k: "bindE (insert_loopback rv addr perms h2) (allow addr perms) = Inr h'"
          using r star dotted Some unfolding ao by auto
        show ?thesis
          using adds_trans [OF addresses_add [OF f m] known_adds [OF k m]] star dotted Some
          by (simp add: entry_rules_def ao)
      qed
    qed
  qed
  from adds_trans [OF adds_nil [OF list_host_field [OF l]] this] show ?thesis by simp
qed

lemma entries_add:
  "foldE (\<lambda>(name, perms). host_insert rv name perms) es h = Inr h' \<Longrightarrow> m \<in> modes \<Longrightarrow>
     adds m (concat (map (entry_rules rv) es)) h h'"
proof (induction es arbitrary: h)
  case Nil
  then show ?case by (simp add: adds_nil)
next
  case (Cons e es)
  obtain name perms where e: "e = (name, perms)" by fastforce
  obtain h1 where i: "host_insert rv name perms h = Inr h1"
    and r: "foldE (\<lambda>(name, perms). host_insert rv name perms) es h1 = Inr h'"
    using Cons.prems(1) by (auto simp: e)
  show ?case using adds_trans [OF insert_adds [OF i Cons.prems(2)] Cons.IH [OF r Cons.prems(2)]] by (simp add: e)
qed

lemma pats_granted:
  "list_ex (\<lambda>p. glob p s) (pats m rules) = granted rules m s"
  by (induction rules) (auto simp: granted_def list_ex_iff)

lemma access_granted:
  assumes "host_read rv file = Inr h" "list_all (\<lambda>(pat, perms). plain pat) (file_rules rv file)"
    and "addr \<noteq> []" "m \<in> modes"
  shows "host_access True h addr m = Inr (granted (file_rules rv file) m addr)"
proof -
  obtain h1 where f: "foldE (\<lambda>(name, perms). host_insert rv name perms) (file_entries rv file) no_hosts = Inr h1"
    and h: "h = close_hosts h1"
    using assms(1) by (auto simp: host_read_def simp del: foldE.simps split: if_splits)
  have "field m no_hosts = open_expr" by (simp add: field_def no_hosts_def)
  then have "field m h1 = open_expr @ exprs (pats m (file_rules rv file))"
    using entries_add [OF f assms(4)] by (simp add: adds_def file_rules_def)
  moreover have "field m h = close_expr (field m h1)"
    by (simp add: h close_hosts_def field_def)
  moreover have "list_all plain (pats m (file_rules rv file))"
    using assms(2) by (auto simp: pats_def list_all_iff)
  ultimately have "regcomp (field m h) = Inr (if pats m (file_rules rv file) = [] then [[]]
      else map (map glob_item) (pats m (file_rules rv file)))"
    using regcomp_exprs by simp
  moreover have "regexec (if pats m (file_rules rv file) = [] then [[]]
      else map (map glob_item) (pats m (file_rules rv file))) addr = granted (file_rules rv file) m addr"
    using regexec_exprs [OF assms(3)] pats_granted by simp
  moreover have "access_expr m h = Inr (field m h)"
    using assms(4) by (auto simp: access_expr_def field_def modes_def)
  ultimately show ?thesis by (simp add: host_access_def)
qed

text \<open>C9.  The daemon lets a client do exactly what the file of hosts grants, if the patterns of the
  file are made of ordinary characters and stars (no brackets, anchors or backslashes) and the
  expressions fit their arrays: what \<open>host_read\<close> builds matches an address just when some line of
  the file, star patterns, host names with all their addresses and the loopback address included,
  gives that access to it.\<close>

theorem access_as_granted:
  assumes "host_read rv file = Inr h" "list_all (\<lambda>(pat, perms). plain pat) (file_rules rv file)"
    and "addr \<noteq> []" "m \<in> modes"
  shows "host_access True h addr m = Inr (granted (file_rules rv file) m addr)"
  by (rule access_granted [OF assms])

definition demo_resolver :: resolver where
  "demo_resolver = \<lparr>rv_dotted = (\<lambda>s. if s = ''10.0.0.1'' then Some s else None),
     rv_host = (\<lambda>s. if s = ''lab'' then Some (''10.0.0.7'', [''10.1.0.7'']) else None), rv_self = ''10.0.0.1''\<rparr>"

definition demo_file :: "string list" where
  "demo_file = [''# hosts'' @ [LF], ''10.0.0.1:rwxm'' @ [LF], ''lab'' @ [LF], ''192.168.*:w'' @ [LF]]"

definition demo_hosts :: "host_crash + hosts" where
  "demo_hosts = host_read demo_resolver (Some demo_file)"

theorem access_as_granted_witness:
  "case demo_hosts of Inl _ \<Rightarrow> False
     | Inr h \<Rightarrow> host_access True h ''127.0.0.1'' CHR ''m'' = Inr True
         \<and> host_access True h ''10.1.0.7'' CHR ''x'' = Inr True
         \<and> host_access True h ''192.168.3.4'' CHR ''r'' = Inr False"
proof -
  have "isl demo_hosts = False" by code_simp
  then obtain h where h: "demo_hosts = Inr h" by (metis isl_def sum.exhaust_sel)
  let ?rules = "file_rules demo_resolver (Some demo_file)"
  have p: "list_all (\<lambda>(pat, perms). plain pat) ?rules" by code_simp
  have m: "CHR ''m'' \<in> modes" "CHR ''x'' \<in> modes" "CHR ''r'' \<in> modes" by (simp_all add: modes_def)
  have g: "granted ?rules CHR ''m'' ''127.0.0.1''" "granted ?rules CHR ''x'' ''10.1.0.7''"
    "\<not> granted ?rules CHR ''r'' ''192.168.3.4''" by code_simp+
  note a = access_as_granted [OF h [unfolded demo_hosts_def] p]
  show ?thesis
    using a [of "''127.0.0.1''", OF _ m(1)] a [of "''10.1.0.7''", OF _ m(2)] a [of "''192.168.3.4''", OF _ m(3)] g
    unfolding h by simp
qed

section \<open>Other servers\<close>

text \<open>A server is its address and port.  The line for clients is printed as a format, so a
  percent sign in the file is undefined.\<close>

definition server_line :: "string \<Rightarrow> int \<Rightarrow> string" where
  "server_line name port =
     take (RPTP_MAX_LINE - 1) (''host='' @ name @ pair_text ''port'' (signed_decimal port) @ [CR, LF])"

definition server_port :: "string option \<Rightarrow> int" where
  "server_port p = (case p of None \<Rightarrow> 5556 | Some s \<Rightarrow> to_int (atoi (bytes_of s)))"

definition server_address :: "resolver \<Rightarrow> string \<Rightarrow> string option" where
  "server_address rv name =
     (case rv_dotted rv name of Some a \<Rightarrow> Some a | None \<Rightarrow> map_option fst (rv_host rv name))"

fun read_servers ::
  "resolver \<Rightarrow> string \<Rightarrow> string list \<Rightarrow> (string \<times> 16 word) list \<Rightarrow> chain \<Rightarrow> host_crash + ((string \<times> 16 word) list \<times> chain)" where
  "read_servers rv local [] ss ch = Inr (ss, ch)"
| "read_servers rv local (l # ls) ss ch =
     (if skipped_line l then read_servers rv local ls ss ch
      else
        (let (name, port) = split_colon (takeWhile (\<lambda>c. c \<noteq> LF) l); line = server_line name (server_port port)
         in case server_address rv name of
              None \<Rightarrow> read_servers rv local ls ss ch
            | Some addr \<Rightarrow>
                if addr = local then read_servers rv local ls ss ch
                else if CHR ''%'' \<in> set line then Inl Overflow
                else read_servers rv local ls (ss @ [(addr, word_of_int (server_port port))]) (add_line_cut line ch)))"

definition server_read ::
  "resolver \<Rightarrow> string \<Rightarrow> string list option \<Rightarrow> host_crash + ((string \<times> 16 word) list \<times> chain option)" where
  "server_read rv hostname file =
     (case file of
        None \<Rightarrow> Inr ([], None)
      | Some ls \<Rightarrow>
          (case rv_host rv hostname of
             None \<Rightarrow> Inl HostExit
           | Some (local, _) \<Rightarrow>
               bindE (read_servers rv local ls [] ([], heading ''servers'')) (\<lambda>(ss, ch).
                 Inr (ss, Some (add_line_cut last_line ch)))))"

lemma read_servers_local:
  "read_servers rv local ls ss ch = Inr (ss', ch') \<Longrightarrow> list_all (\<lambda>s. fst s \<noteq> local) ss \<Longrightarrow>
     list_all (\<lambda>s. fst s \<noteq> local) ss'"
proof (induction rv local ls ss ch rule: read_servers.induct)
  case (2 rv local l ls ss ch)
  obtain name port where sp: "split_colon (takeWhile (\<lambda>c. c \<noteq> LF) l) = (name, port)" by fastforce
  show ?case
    using 2 by (auto simp: sp Let_def split: if_splits option.splits)
qed simp

text \<open>The daemon never asks itself for a sound.\<close>

lemma server_read_local:
  assumes "server_read rv hostname file = Inr (ss, l)" "rv_host rv hostname = Some (self, others)"
  shows "list_all (\<lambda>s. fst s \<noteq> self) ss"
  using assms read_servers_local [of rv self]
  by (fastforce simp: server_read_def split: option.splits)

end
