(* ===== verification/Cache.thy ===== *)
theory Cache
  imports Main
begin

text \<open>
  The cache of sounds fetched from other servers (\<open>src/rplayd/cache.c\<close>).  The directory is the
  list of its files; a sound has a count, the number of the look-up that last found it, and
  \<open>cache_free\<close> makes room by deleting the sounds that were not looked up for longest.
\<close>

section \<open>State\<close>

text \<open>A file with the size \<open>stat\<close> gives, if any, and whether it can be unlinked.\<close>

record cache_file =
  cf_name :: string
  cf_size :: "int option"
  cf_unlinks :: bool

record cached_sound =
  cs_ready :: bool
  cs_count :: nat

record cache =
  ca_dir :: "cache_file list"
  ca_sounds :: "string \<Rightarrow> cached_sound option"   \<comment> \<open>by the path of the file\<close>
  ca_removed :: "(string \<times> nat) list"   \<comment> \<open>sounds taken from the spool and deleted\<close>

section \<open>Reading the directory\<close>

text \<open>\<open>cache_first\<close> and \<open>cache_next\<close> walk over the entries but the two for directories.\<close>

definition cache_entries :: "string \<Rightarrow> cache_file list \<Rightarrow> cache_file list" where
  "cache_entries dir fs = map (\<lambda>f. f\<lparr>cf_name := take 4095 (dir @ ''/'' @ cf_name f)\<rparr>)
     (filter (\<lambda>f. cf_name f \<noteq> ''.'' \<and> cf_name f \<noteq> ''..'') fs)"

fun sum_sizes :: "cache_file list \<Rightarrow> int \<Rightarrow> int" where
  "sum_sizes [] acc = acc"
| "sum_sizes (f # fs) acc = (case cf_size f of None \<Rightarrow> -1 | Some k \<Rightarrow> sum_sizes fs (acc + k))"

definition cache_size :: "cache \<Rightarrow> int" where
  "cache_size ca = sum_sizes (ca_dir ca) 0"

section \<open>Making room\<close>

text \<open>One pass over the files as they were when it began.\<close>

definition free_one :: "nat \<Rightarrow> cache_file \<Rightarrow> cache \<times> int \<Rightarrow> cache \<times> int" where
  "free_one limit f st =
     (case ca_sounds (fst st) (cf_name f) of
        None \<Rightarrow> st
      | Some s \<Rightarrow>
          if \<not> cs_ready s \<or> cs_count s \<ge> limit then st
          else (case cf_size f of
                  None \<Rightarrow> st
                | Some k \<Rightarrow>
                    ((fst st)\<lparr>ca_sounds := (ca_sounds (fst st))(cf_name f := None),
                        ca_dir := (if cf_unlinks f then filter (\<lambda>g. cf_name g \<noteq> cf_name f) (ca_dir (fst st))
                                   else ca_dir (fst st)),
                        ca_removed := ca_removed (fst st) @ [(cf_name f, cs_count s)]\<rparr>, snd st - k)))"

definition free_pass :: "nat \<Rightarrow> cache \<times> int \<Rightarrow> cache \<times> int" where
  "free_pass limit st = fold (free_one limit) (ca_dir (fst st)) st"

definition next_limit :: "nat \<Rightarrow> nat \<Rightarrow> nat" where
  "next_limit sound_count limit =
     min (limit + (if limit div 4 \<noteq> 0 then limit div 4 else 1)) sound_count"

function free_loop :: "int \<Rightarrow> int \<Rightarrow> nat \<Rightarrow> nat \<Rightarrow> cache \<times> int \<Rightarrow> int \<times> cache" where
  "free_loop max_size n sound_count limit st =
     (let st1 = free_pass limit st
      in if n + snd st1 \<le> max_size then (0, fst st1)
         else if limit = sound_count then (-1, fst st1)
         else free_loop max_size n sound_count (next_limit sound_count limit) st1)"
  by pat_completeness auto

text \<open>The limit grows until it is the number of the last look-up.\<close>

termination free_loop
  by (relation "measure (\<lambda>(max_size, n, sound_count, limit, st). (sound_count - limit) + (limit - sound_count))")
    (auto simp: next_limit_def min_def)

definition cache_free :: "int \<Rightarrow> nat \<Rightarrow> int \<Rightarrow> cache \<Rightarrow> int \<times> cache" where
  "cache_free max_size sound_count n ca =
     (if max_size = 0 then (0, ca)
      else if n > max_size then (-1, ca)
      else if n + cache_size ca \<le> max_size then (0, ca)
      else free_loop max_size n sound_count (sound_count div 2) (ca, cache_size ca))"

section \<open>Creating a file\<close>

text \<open>The descriptor \<open>open\<close> gives, whether each further call succeeds (an interrupted write is
  tried again), the result and the descriptors left open.\<close>

definition cache_create :: "int \<Rightarrow> bool \<Rightarrow> bool \<Rightarrow> bool \<Rightarrow> int \<times> int list" where
  "cache_create fd seek_end write_one seek_start =
     (if fd < 0 then (-1, [])
      else if \<not> seek_end then (-1, [fd])
      else if \<not> write_one then (-1, [fd])
      else if \<not> seek_start then (-1, [fd])
      else (fd, [fd]))"

definition cache_cleanup :: "string \<Rightarrow> bool \<Rightarrow> cache \<Rightarrow> cache" where
  "cache_cleanup dir cache_remove ca =
     (if dir = [] then ca
      else if cache_size ca = 0 \<or> cache_remove then ca\<lparr>ca_dir := filter (\<lambda>f. \<not> cf_unlinks f) (ca_dir ca)\<rparr>
      else ca)"

section \<open>What a pass removes\<close>

definition cache_ok :: "cache \<Rightarrow> bool" where
  "cache_ok ca \<longleftrightarrow> distinct (map cf_name (ca_dir ca))
     \<and> list_all (\<lambda>f. cf_size f \<noteq> None \<and> cf_unlinks f) (ca_dir ca)"

text \<open>A file of the directory goes when its sound is ready and older than the limit.\<close>

definition too_old :: "nat \<Rightarrow> cache \<Rightarrow> cache_file \<Rightarrow> bool" where
  "too_old limit ca f = (case ca_sounds ca (cf_name f) of None \<Rightarrow> False | Some s \<Rightarrow> cs_ready s \<and> cs_count s < limit)"

definition total :: "cache_file list \<Rightarrow> int" where
  "total fs = sum_list (map (\<lambda>f. case cf_size f of None \<Rightarrow> 0 | Some k \<Rightarrow> k) fs)"

lemma sum_sizes_total: "list_all (\<lambda>f. cf_size f \<noteq> None) fs \<Longrightarrow> sum_sizes fs acc = acc + total fs"
  by (induction fs arbitrary: acc) (auto simp: total_def)

lemma cache_size_total: "cache_ok ca \<Longrightarrow> cache_size ca = total (ca_dir ca)"
  by (auto simp: cache_ok_def cache_size_def list_all_iff intro!: sum_sizes_total [THEN trans])

definition removed_of :: "cache \<Rightarrow> cache_file \<Rightarrow> string \<times> nat" where
  "removed_of ca f = (cf_name f, case ca_sounds ca (cf_name f) of None \<Rightarrow> 0 | Some s \<Rightarrow> cs_count s)"

lemma free_one_skip: "\<not> too_old limit (fst st) f \<Longrightarrow> free_one limit f st = st"
  by (auto simp: free_one_def too_old_def split: option.splits)

lemma free_one_old:
  assumes "too_old limit (fst st) f" "cf_size f = Some k" "cf_unlinks f"
  shows "free_one limit f st = ((fst st)\<lparr>ca_sounds := (ca_sounds (fst st))(cf_name f := None),
     ca_dir := filter (\<lambda>g. cf_name g \<noteq> cf_name f) (ca_dir (fst st)),
     ca_removed := ca_removed (fst st) @ [removed_of (fst st) f]\<rparr>, snd st - k)"
  using assms by (auto simp: free_one_def too_old_def removed_of_def split: option.splits)

text \<open>The whole pass, in terms of the state before it.\<close>

lemma fold_free_one:
  assumes "distinct (map cf_name fs)" "list_all (\<lambda>f. cf_size f \<noteq> None \<and> cf_unlinks f) fs"
  shows "fold (free_one limit) fs st =
    (let old = filter (too_old limit (fst st)) fs
     in ((fst st)\<lparr>ca_sounds := (\<lambda>p. if p \<in> cf_name ` set old then None else ca_sounds (fst st) p),
           ca_dir := filter (\<lambda>g. cf_name g \<notin> cf_name ` set old) (ca_dir (fst st)),
           ca_removed := ca_removed (fst st) @ map (removed_of (fst st)) old\<rparr>, snd st - total old))"
  using assms
proof (induction fs arbitrary: st)
  case Nil
  then show ?case by (cases st) (simp add: total_def)
next
  case (Cons f fs)
  obtain k where k: "cf_size f = Some k" "cf_unlinks f" using Cons.prems(2) by auto
  let ?st = "free_one limit f st"
  have other: "ca_sounds (fst ?st) (cf_name g) = ca_sounds (fst st) (cf_name g)" if "g \<in> set fs" for g
  proof -
    have "cf_name g \<noteq> cf_name f" using Cons.prems(1) that by (auto simp: rev_image_eqI)
    then show ?thesis
      using free_one_skip [of limit st f] free_one_old [of limit st f k] k by (cases "too_old limit (fst st) f") auto
  qed
  have f: "filter (too_old limit (fst ?st)) fs = filter (too_old limit (fst st)) fs"
    using other by (intro filter_cong) (auto simp: too_old_def)
  have r: "map (removed_of (fst ?st)) (filter (too_old limit (fst st)) fs)
      = map (removed_of (fst st)) (filter (too_old limit (fst st)) fs)"
    using other by (auto simp: removed_of_def)
  have ih: "fold (free_one limit) fs ?st =
    (let old = filter (too_old limit (fst st)) fs
     in ((fst ?st)\<lparr>ca_sounds := (\<lambda>p. if p \<in> cf_name ` set old then None else ca_sounds (fst ?st) p),
           ca_dir := filter (\<lambda>g. cf_name g \<notin> cf_name ` set old) (ca_dir (fst ?st)),
           ca_removed := ca_removed (fst ?st) @ map (removed_of (fst st)) old\<rparr>, snd ?st - total old))"
    using Cons.IH [of ?st] Cons.prems by (simp add: f r Let_def)
  show ?case
  proof (cases "too_old limit (fst st) f")
    case False
    show ?thesis using ih False unfolding fold_simps free_one_skip [OF False] by simp
  next
    case True
    show ?thesis
      using ih True unfolding fold_simps free_one_old [OF True k]
      by (simp add: Let_def total_def k fun_eq_iff conj_commute)
  qed
qed

section \<open>Least recently used\<close>

text \<open>Everything removed is older than the limit, and nothing that is left could go.\<close>

definition lru :: "nat \<Rightarrow> cache \<Rightarrow> bool" where
  "lru limit ca \<longleftrightarrow> list_all (\<lambda>r. snd r < limit) (ca_removed ca) \<and> list_all (\<lambda>f. \<not> too_old limit ca f) (ca_dir ca)"

lemma total_filter: "total (filter P fs) + total (filter (\<lambda>f. \<not> P f) fs) = total fs"
  by (induction fs) (auto simp: total_def)

lemma pass_effect:
  assumes ok: "cache_ok ca" and p: "free_pass limit (ca, total (ca_dir ca)) = (ca', cur)"
    and r: "list_all (\<lambda>r. snd r < limit) (ca_removed ca)"
  shows "cache_ok ca'" "cur = total (ca_dir ca')" "lru limit ca'"
proof -
  let ?dir = "ca_dir ca" and ?old = "filter (too_old limit ca) (ca_dir ca)"
  have d: "distinct (map cf_name ?dir)" "list_all (\<lambda>f. cf_size f \<noteq> None \<and> cf_unlinks f) ?dir"
    using ok by (auto simp: cache_ok_def)
  have name: "cf_name f \<in> cf_name ` set ?old \<longleftrightarrow> too_old limit ca f" if "f \<in> set ?dir" for f
    using that d(1) by (auto simp: distinct_map inj_on_def)
  have keep: "filter (\<lambda>g. cf_name g \<notin> cf_name ` set ?old) ?dir = filter (\<lambda>f. \<not> too_old limit ca f) ?dir"
    using name by (intro filter_cong) auto
  have ca': "ca' = ca\<lparr>ca_sounds := (\<lambda>p. if p \<in> cf_name ` set ?old then None else ca_sounds ca p),
      ca_dir := filter (\<lambda>f. \<not> too_old limit ca f) ?dir, ca_removed := ca_removed ca @ map (removed_of ca) ?old\<rparr>"
    and c: "cur = total ?dir - total ?old"
    using p unfolding free_pass_def fold_free_one [OF d, of limit "(ca, total (ca_dir ca))", simplified] Let_def fst_conv snd_conv
    using keep by simp_all
  show "cache_ok ca'" using d by (auto simp: ca' cache_ok_def distinct_map_filter list_all_iff)
  show "cur = total (ca_dir ca')"
    using c total_filter [of "too_old limit ca" ?dir] by (simp add: ca')
  have "snd (removed_of ca f) < limit" if "f \<in> set ?old" for f
    using that by (auto simp: removed_of_def too_old_def split: option.splits)
  moreover have "\<not> too_old limit ca' f" if "f \<in> set ?dir" "\<not> too_old limit ca f" for f
    using that name by (auto simp: ca' too_old_def split: option.splits)
  ultimately show "lru limit ca'" using r by (auto simp: lru_def ca' list_all_iff)
qed

lemma next_limit_grows: "limit \<le> sc \<Longrightarrow> limit \<le> next_limit sc limit \<and> next_limit sc limit \<le> sc"
  by (auto simp: next_limit_def)

lemma lru_mono: "list_all (\<lambda>r. snd r < limit) xs \<Longrightarrow> limit \<le> l \<Longrightarrow> list_all (\<lambda>r. snd r < (l :: nat)) xs"
  by (auto simp: list_all_iff)

lemma free_loop_effect:
  assumes "free_loop mx n sc limit (ca, cur) = (res, ca')" "cache_ok ca" "cur = total (ca_dir ca)" "limit \<le> sc"
    "list_all (\<lambda>r. snd r < limit) (ca_removed ca)"
  shows "(\<exists>l\<le>sc. lru l ca' \<and> (res = -1 \<longrightarrow> l = sc)) \<and> (res = 0 \<or> res = -1)
    \<and> (res = 0 \<longleftrightarrow> n + total (ca_dir ca') \<le> mx)"
  using assms
proof (induction mx n sc limit "(ca, cur)" arbitrary: ca cur rule: free_loop.induct)
  case (1 mx n sc limit)
  obtain ca1 cur1 where p: "free_pass limit (ca, cur) = (ca1, cur1)" by fastforce
  note e = pass_effect [OF "1.prems"(2) p [unfolded "1.prems"(3)] "1.prems"(5)]
  have l: "free_loop mx n sc limit (ca, cur) =
      (if n + cur1 \<le> mx then (0, ca1) else if limit = sc then (-1, ca1)
       else free_loop mx n sc (next_limit sc limit) (ca1, cur1))"
    by (subst free_loop.simps) (simp add: p Let_def)
  show ?case
  proof (cases "n + cur1 \<le> mx \<or> limit = sc")
    case True
    then show ?thesis using "1.prems"(1,4) l e by (auto split: if_splits)
  next
    case False
    then have r: "free_loop mx n sc (next_limit sc limit) (ca1, cur1) = (res, ca')" using "1.prems"(1) l by auto
    have "list_all (\<lambda>r. snd r < next_limit sc limit) (ca_removed ca1)"
      using e(3) next_limit_grows [OF "1.prems"(4)] lru_mono by (auto simp: lru_def)
    moreover have "\<not> n + snd (ca1, cur1) \<le> mx" "limit \<noteq> sc" using False by auto
    ultimately show ?thesis
      using "1.hyps" [OF p [symmetric] _ _ r e(1,2)] next_limit_grows [OF "1.prems"(4)] by auto
  qed
qed


definition demo_cache :: cache where
  "demo_cache = \<lparr>ca_dir = map (\<lambda>c. \<lparr>cf_name = [c], cf_size = Some 40, cf_unlinks = True\<rparr>) ''abc'',
     ca_sounds = (\<lambda>p. if p = ''a'' then Some \<lparr>cs_ready = True, cs_count = 7\<rparr>
       else if p = ''b'' then Some \<lparr>cs_ready = True, cs_count = 2\<rparr>
       else if p = ''c'' then Some \<lparr>cs_ready = True, cs_count = 4\<rparr> else None), ca_removed = []\<rparr>"


text \<open>A file \<open>stat\<close> fails for hides the others: the size of the cache is then -1.\<close>

lemma cache_size_unreadable:
  assumes "f \<in> set (ca_dir ca)" "cf_size f = None"
  shows "cache_size ca = -1"
proof -
  have "f \<in> set fs \<Longrightarrow> sum_sizes fs acc = -1" for fs acc
    by (induction fs arbitrary: acc) (use assms(2) in \<open>auto split: option.splits\<close>)
  then show ?thesis using assms(1) by (simp add: cache_size_def)
qed

lemma full_cache_accepts:
  assumes "f \<in> set (ca_dir ca)" "cf_size f = None" "0 < mx" "n \<le> mx"
  shows "cache_free mx sc n ca = (0, ca)"
  using assms cache_size_unreadable [OF assms(1,2)] by (simp add: cache_free_def)

end
