(* ===== verification/CommandBase.thy ===== *)
theory CommandBase
  imports Rplayd RplaySet SoundTable Update Hosts
begin

text \<open>
  What the commands of a client are made of (\<open>src/rplayd/command.c\<close>): the words and the
  name=value pairs of a line, the state a command works on and what it asks of other parts,
  and the texts of replies.  A command gives the new state of the spool, the operations on
  connections it performs, in order, and whether the connection stays.
\<close>

unbundle bit_operations_syntax

section \<open>Words and pairs\<close>

text \<open>\<open>strtok\<close>: the words between the separators.\<close>

function words :: "char set \<Rightarrow> string \<Rightarrow> string list" where
  "words seps s =
     (case dropWhile (\<lambda>c. c \<in> seps) s of
        [] \<Rightarrow> []
      | c # r \<Rightarrow> (c # takeWhile (\<lambda>c. c \<notin> seps) r) # words seps (dropWhile (\<lambda>c. c \<notin> seps) r))"
  by pat_completeness auto

lemma words_shorter:
  assumes "dropWhile P s = c # r"
  shows "length (dropWhile Q r) < length (s :: string)"
  using length_dropWhile [of P s] length_dropWhile [of Q r] assms by simp

termination words
  by (relation "measure (\<lambda>(seps, s). length s)") (auto intro: words_shorter)

declare words.simps [simp del]

abbreviation "RPTP_MAX_ARGS \<equiv> (32 :: nat)"

definition arguments :: "string \<Rightarrow> string list" where
  "arguments line = take (RPTP_MAX_ARGS - 1) (words {CHR '' '', CHR 0x09} line)"

text \<open>The pairs of the copy of the line, and the value \<open>rptp_parse\<close> finds for a name.\<close>

definition pairs_of :: "string \<Rightarrow> (string \<times> string) list" where
  "pairs_of buf = parse_pairs (skip_reply_char buf)"

definition attr :: "string \<Rightarrow> string \<Rightarrow> string option" where
  "attr name buf = find_name name (pairs_of buf)"

definition new_style :: "string \<Rightarrow> bool" where
  "new_style buf \<longleftrightarrow> CHR ''='' \<in> set buf"

definition client_data :: "string \<Rightarrow> string" where
  "client_data buf = (case attr ''client-data'' buf of None \<Rightarrow> [] | Some d \<Rightarrow> d)"

text \<open>
  \<open>rptp_parse\<close> of another text, or of the line again, frees the copy that the value it gave before
  is a piece of.  The value of a word without \<open>=\<close> is a constant, and stays.
\<close>

function with_equals :: "string \<Rightarrow> bool list" where
  "with_equals [] = []"
| "with_equals (c # cs) =
     (if is_space c then with_equals cs
      else
        (case dropWhile (\<lambda>c. \<not> name_end c) (c # cs) of
           [] \<Rightarrow> [False]
         | d # p \<Rightarrow> if d = CHR ''='' then True # with_equals (snd (parse_value p)) else False # with_equals p))"
  by pat_completeness auto

termination with_equals
  by (relation "measure length")
    (auto simp del: dropWhile.simps intro: dropWhile_Cons_length parse_value_shorter)

definition data_freed :: "string \<Rightarrow> bool" where
  "data_freed buf = (case find (\<lambda>((n, v), _). skip_dashes n = ''client-data'')
       (zip (pairs_of buf) (with_equals (skip_reply_char buf))) of
     None \<Rightarrow> False | Some (_, b) \<Rightarrow> b)"

text \<open>The client's data after the line or another text has been parsed again; \<open>None\<close> is a pointer to
  freed text.\<close>

definition kept_data :: "string \<Rightarrow> string option" where
  "kept_data buf = (if data_freed buf then None else Some (client_data buf))"

text \<open>Some commands look for the client's data only in a line with a pair.\<close>

definition data_of :: "string \<Rightarrow> string" where
  "data_of buf = (if new_style buf then client_data buf else [])"

definition atoi_of :: "string \<Rightarrow> int" where
  "atoi_of s = to_int (atoi (bytes_of s))"

text \<open>\<open>atoi(p + 1)\<close>: past the end of an empty value is the next byte of the line, which is not
  modelled.\<close>

definition text_of :: "cstring \<Rightarrow> string" where
  "text_of bs = map (\<lambda>b. char_of (unat b)) bs"

definition is_true :: "string \<Rightarrow> bool" where
  "is_true s \<longleftrightarrow> s \<in> {''true'', ''t'', ''1'', ''yes'', ''y'', ''on''}"

section \<open>State and surroundings\<close>

datatype cmd_crash =
    SpoolCrash crash            \<comment> \<open>of an operation of the spool\<close>
  | ObjectFault fault           \<comment> \<open>of an edit of the rplay object\<close>
  | NullString                  \<comment> \<open>a missing value or argument is used\<close>
  | PastEnd                     \<comment> \<open>a value is read or a buffer written past its end\<close>
  | BadPointer                 \<comment> \<open>-1 is used as a pointer\<close>
  | EndlessNames               \<comment> \<open>no name is free\<close>
  | FreedText                   \<comment> \<open>a value of a line that has been parsed again is used\<close>
  | PercentText                 \<comment> \<open>text of the client is printed as a format\<close>
  | DivideByValue               \<comment> \<open>\<open>volume=/0\<close>\<close>
  | Unlisted                    \<comment> \<open>a list does not fit its buffers\<close>

definition use_data :: "string option \<Rightarrow> cmd_crash + string" where
  "use_data d = (case d of None \<Rightarrow> Inl FreedText | Some s \<Rightarrow> Inr s)"

definition of_spool :: "'a result \<Rightarrow> cmd_crash + 'a" where
  "of_spool r = (case r of Inl c \<Rightarrow> Inl (SpoolCrash c) | Inr x \<Rightarrow> Inr x)"

text \<open>The fields of \<open>SOUND\<close> that commands print; numbers with a fraction as \<open>printf\<close> gives them.\<close>

record cmd_sound =
  ks_addr :: nat
  ks_name :: string
  ks_status :: sound_status
  ks_type :: sound_type
  ks_size :: int
  ks_bits :: string
  ks_rate :: int
  ks_channels :: int
  ks_format :: audio_format
  ks_order :: byte_order
  ks_seconds :: string

text \<open>The parameters of a flow.\<close>

record flow_info =
  fi_offset :: int
  fi_format :: audio_format
  fi_order :: byte_order
  fi_rate :: int
  fi_precision :: string
  fi_channels :: int
  fi_storage :: storage

record cmd_state =
  cm_server :: server
  cm_volume :: int               \<comment> \<open>rplay_audio_volume\<close>
  cm_threshold :: int            \<comment> \<open>rplay_priority_threshold\<close>
  cm_port :: "32 word"           \<comment> \<open>rplay_audio_port\<close>
  cm_optional_port :: "32 word"
  cm_optional :: "audio_format \<times> int \<times> int \<times> int"   \<comment> \<open>optional format, rate, precision, channels\<close>
  cm_rate :: int                 \<comment> \<open>rplay_audio_rate\<close>
  cm_timeout :: int              \<comment> \<open>rplay_audio_timeout\<close>
  cm_reset :: bool               \<comment> \<open>need_reset was called\<close>
  cm_inserted :: "(string \<times> sound_status \<times> sound_type) list"
  cm_flows :: "(nat \<times> flow_info) list"
  cm_deleted :: "nat list"

text \<open>The values \<open>rplayd_status\<close> prints.\<close>

record audio_info =
  ai_hostname :: string
  ai_uptime :: int
  ai_precision :: int
  ai_bufsize :: int
  ai_order :: byte_order
  ai_channels :: int
  ai_device :: string
  ai_format :: audio_format
  ai_sample_rate :: int
  ai_curr_bufsize :: int
  ai_curr_rate :: int
  ai_open :: bool

text \<open>What a command of the client \<open>ce_client\<close> depends on.\<close>

record cmd_env =
  ce_client :: nat
  ce_sin :: nat
  ce_addr :: string
  ce_auth :: bool
  ce_hosts :: hosts
  ce_lookup :: "string \<Rightarrow> lookup_mode \<Rightarrow> cmd_sound option"   \<comment> \<open>sound_lookup\<close>
  ce_nsounds :: nat
  ce_first :: "nat \<Rightarrow> string option"      \<comment> \<open>first buffer of a sound that can be read\<close>
  ce_insert :: "string \<Rightarrow> nat option"     \<comment> \<open>sound_insert\<close>
  ce_cache_directory :: string
  ce_cache_free :: "int \<Rightarrow> bool"
  ce_cache_create :: "string \<Rightarrow> int \<Rightarrow> int"
  ce_helper :: "nat \<Rightarrow> bool"              \<comment> \<open>helper_lookup of the path\<close>
  ce_sounds :: "listed_sound list"
  ce_entries :: "listed_entry list"
  ce_host_text :: "nat \<Rightarrow> string"
  ce_now :: int
  ce_servers :: "string list option"
  ce_host_list :: "string list option"
  ce_audio :: audio_info
  ce_version :: string
  ce_audio_enabled :: bool
  ce_get_volume :: "int \<Rightarrow> int"           \<comment> \<open>rplay_audio_get_volume\<close>
  ce_set_volume :: "int \<Rightarrow> int"
  ce_audio_init :: "cmd_state \<Rightarrow> int \<times> 32 word \<times> int"   \<comment> \<open>result, port and rate\<close>
  ce_monitor :: string                   \<comment> \<open>the monitor's buffer\<close>
  ce_spool :: spool_env
  ce_find :: lookup
  ce_set :: set_env
  ce_notify :: notify_env
  ce_play_notice :: "spool_entry \<Rightarrow> play_notice"
  ce_rate :: "string \<Rightarrow> rat"              \<comment> \<open>atof\<close>
  ce_rate_text :: "rat \<Rightarrow> string"         \<comment> \<open>printf with two digits\<close>

type_synonym answer = "cmd_crash + (cmd_state \<times> net_op list \<times> bool)"

definition may :: "cmd_env \<Rightarrow> char \<Rightarrow> bool" where
  "may ce m = (case host_access (ce_auth ce) (ce_hosts ce) (ce_addr ce) m of Inl _ \<Rightarrow> False | Inr b \<Rightarrow> b)"

text \<open>The values of the state that notifications print.\<close>

definition notify_of :: "cmd_env \<Rightarrow> cmd_state \<Rightarrow> notify_env" where
  "notify_of ce st = (ce_notify ce)\<lparr>nv_playing := spool_nplaying (cm_server st),
     nv_paused := spool_npaused (cm_server st), nv_volume := cm_volume st, nv_threshold := cm_threshold st,
     nv_port := (case audio_port_to_string (cm_port st) of None \<Rightarrow> [] | Some s \<Rightarrow> s)\<rparr>"

section \<open>Replies\<close>

definition answered :: "net_op list \<Rightarrow> cmd_state \<Rightarrow> answer" where
  "answered ops st = Inr (st, ops, True)"

definition reply_op :: "cmd_env \<Rightarrow> string \<Rightarrow> net_op" where
  "reply_op ce s = OpReply (ce_client ce) s"

definition error_text :: "string \<Rightarrow> string \<Rightarrow> string \<Rightarrow> string" where
  "error_text cmd msg d = ''-error='' @ quoted msg @ pair_text ''command'' cmd @ client_text d"

definition short_error :: "string \<Rightarrow> string \<Rightarrow> string" where
  "short_error cmd msg = ''-error='' @ quoted msg @ pair_text ''command'' cmd"

definition message_text :: "string \<Rightarrow> string \<Rightarrow> string \<Rightarrow> string" where
  "message_text cmd msg d = ''+message='' @ quoted msg @ pair_text ''command'' cmd @ client_text d"

definition sound_reply :: "bool \<Rightarrow> string \<Rightarrow> string \<Rightarrow> int \<Rightarrow> string \<Rightarrow> string" where
  "sound_reply pairs cmd s n d =
     (if pairs then ''+sound='' @ quoted s @ pair_text ''size'' (signed_decimal n) @ pair_text ''command'' cmd @ client_text d
      else ''+'' @ s @ '' '' @ signed_decimal n)"

definition write_op :: "cmd_env \<Rightarrow> string list \<Rightarrow> net_op" where
  "write_op ce bs = OpInsert (ce_client ce) (text_event WRITE (hd bs) (tl bs) None)"

text \<open>A write of permanent buffers.\<close>

definition kept_op :: "cmd_env \<Rightarrow> string list \<Rightarrow> net_op" where
  "kept_op ce bs = OpInsert (ce_client ce) ((text_event WRITE (hd bs) (tl bs) None)\<lparr>ev_kept := True\<rparr>)"

text \<open>The argument \<open>i\<close>, which the number of arguments has been checked for.\<close>

definition arg :: "string list \<Rightarrow> nat \<Rightarrow> cmd_crash + string" where
  "arg argv i = (if i < length argv then Inr (argv ! i) else Inl NullString)"

text \<open>The sound a command names: its pair, when there is one, or its first argument.\<close>

definition named_sound :: "string list \<Rightarrow> string \<Rightarrow> cmd_crash + (bool \<times> string)" where
  "named_sound argv buf =
     (case (if new_style buf then attr ''sound'' buf else None) of
        Some s \<Rightarrow> Inr (True, s)
      | None \<Rightarrow> bindE (arg argv 1) (\<lambda>s. Inr (False, s)))"

definition ready_sound :: "cmd_env \<Rightarrow> string \<Rightarrow> lookup_mode \<Rightarrow> cmd_sound option" where
  "ready_sound ce name mode = (case ce_lookup ce name mode of
     None \<Rightarrow> None | Some s \<Rightarrow> if ks_status s = SOUND_READY then Some s else None)"
section \<open>get and put\<close>

definition command_get :: "cmd_env \<Rightarrow> string list \<Rightarrow> string \<Rightarrow> cmd_state \<Rightarrow> answer" where
  "command_get ce argv buf st =
     bindE (named_sound argv buf) (\<lambda>(pairs, name).
       let d = data_of buf
       in if \<not> may ce CHR ''r'' then answered [reply_op ce (error_text ''get'' ''access denied'' d)] st
          else case ready_sound ce name SOUND_DONT_FIND of
            None \<Rightarrow> answered [reply_op ce (error_text ''get'' (name @ '' not found'') d)] st
          | Some s \<Rightarrow>
              if ks_type s \<noteq> SOUND_FILE
              then answered [reply_op ce (error_text ''get'' (ks_name s @ '' not a file'') d)] st
              else (case write_sound_event (ks_addr s) (ks_size s) (ce_first ce (ks_addr s)) of
                      None \<Rightarrow> answered [reply_op ce (error_text ''get'' (''cannot open '' @ ks_name s) d)] st
                    | Some e \<Rightarrow> answered [reply_op ce (sound_reply pairs ''get'' (ks_name s) (ks_size s) d),
                                        OpInsert (ce_client ce) e] st))"

text \<open>Feeding the flow of a spool entry.\<close>

definition put_flow :: "cmd_env \<Rightarrow> int \<Rightarrow> int \<Rightarrow> string \<Rightarrow> cmd_state \<Rightarrow> answer" where
  "put_flow ce i n d st =
     (case spool_find i (cm_server st) of
        None \<Rightarrow> answered [reply_op ce (error_text ''put'' (''`'' @ signed_decimal i @ [CHR 0x27] @ '' no such spool id'') d)] st
      | Some a \<Rightarrow>
          bindE (of_spool (with_sp a (\<lambda>e s. sound_at e (sp_curr_sound e)) (cm_server st))) (\<lambda>x.
            if s_type (sv_sounds (cm_server st) x) \<noteq> SOUND_FLOW
            then answered [reply_op ce (error_text ''put'' (''`'' @ signed_decimal i @ [CHR 0x27] @ '' spool id is not a flow'') d)] st
            else
              (let r = reply_op ce (''+id=#'' @ signed_decimal i @ pair_text ''size'' (signed_decimal n)
                         @ pair_text ''command'' ''put'' @ client_text d)
               in if ce_helper ce x
                  then bindE (of_spool (spool_ready (ce_spool ce) x
                              (upd_sound x (\<lambda>sd. sd\<lparr>s_status := SOUND_READY\<rparr>) (cm_server st)))) (\<lambda>sv.
                         answered [r, OpInsert (ce_client ce) (pipe_flow_event i x), OpCall (Events.SoundMap x)]
                           (st\<lparr>cm_server := sv\<rparr>))
                  else answered [r, OpInsert (ce_client ce) (read_flow_event i n)] st)))"

definition put_file :: "cmd_env \<Rightarrow> bool \<Rightarrow> string option \<Rightarrow> int \<Rightarrow> string \<Rightarrow> cmd_state \<Rightarrow> answer" where
  "put_file ce pairs sound n d st =
     (case sound of
        None \<Rightarrow> Inl NullString
      | Some path \<Rightarrow>
          (let base = after_slash path; name = Update.cache_name (ce_cache_directory ce) base
           in case ce_lookup ce name SOUND_DONT_FIND of
                Some _ \<Rightarrow> answered [reply_op ce (error_text ''put'' (base @ '' already is in the cache'') d)] st
              | None \<Rightarrow>
                  if \<not> ce_cache_free ce n
                  then answered [reply_op ce (error_text ''put'' ''the cache is full'' d)] st
                  else if ce_cache_create ce name n < 0
                  then answered [OpCall (CacheCreate name n), reply_op ce (error_text ''put'' ''cache error'' d)] st
                  else (case ce_insert ce name of
                          None \<Rightarrow> Inl NullString
                        | Some x \<Rightarrow>
                            answered [OpCall (CacheCreate name n), reply_op ce (sound_reply pairs ''put'' base n d),
                                OpInsert (ce_client ce) (read_sound_event (ce_cache_create ce name n) n x)]
                              (st\<lparr>cm_inserted := cm_inserted st @ [(name, SOUND_NOT_READY, Spool.SOUND_FILE)]\<rparr>))))"

definition command_put :: "cmd_env \<Rightarrow> string list \<Rightarrow> string \<Rightarrow> cmd_state \<Rightarrow> answer" where
  "command_put ce argv buf st =
     (let d = data_of buf
      in if \<not> may ce CHR ''w'' then answered [reply_op ce (error_text ''put'' ''access denied'' d)] st
         else if new_style buf then
           (case attr ''size'' buf of
              None \<Rightarrow> answered [reply_op ce (error_text ''put'' (''missing `size=<value>'' @ [CHR 0x27]) d)] st
            | Some v \<Rightarrow>
                (let i = (case attr ''id'' buf of
                            Some (c # cs) \<Rightarrow> if c = CHR ''#'' then atoi_of cs else 0
                          | _ \<Rightarrow> 0)
                 in if i \<noteq> 0 then put_flow ce i (atoi_of v) d st
                    else put_file ce True (attr ''sound'' buf) (atoi_of v) d st))
         else bindE (arg argv 1) (\<lambda>s. bindE (arg argv 2) (\<lambda>v. put_file ce False (Some s) (atoi_of v) d st)))"

section \<open>list, find, access, info, version, status, help\<close>

definition listed :: "unit + string list \<Rightarrow> cmd_crash + string list" where
  "listed r = (case r of Inl _ \<Rightarrow> Inl Unlisted | Inr bs \<Rightarrow> Inr bs)"

text \<open>The lists of the servers and the hosts are kept; the others are made.\<close>

definition command_list :: "cmd_env \<Rightarrow> net \<Rightarrow> string list \<Rightarrow> string \<Rightarrow> cmd_state \<Rightarrow> answer" where
  "command_list ce n argv buf st =
     (let d = data_of buf; what = (if length argv > 1 then argv ! 1 else ''sounds'');
          kept = (\<lambda>l. case l of
             Some bs \<Rightarrow> answered [kept_op ce bs] st
           | None \<Rightarrow> answered [reply_op ce (error_text ''list'' (''no '' @ what @ '' available'') d)] st);
          made = (\<lambda>r. bindE (listed r) (\<lambda>bs. answered [write_op ce bs] st))
      in if what = ''sounds'' then made (sound_list_create (ce_sounds ce))
         else if what = ''connections'' then made (connection_list_create n (ce_host_text ce) (ce_now ce))
         else if what = ''servers'' then kept (ce_servers ce)
         else if what = ''spool'' then made (spool_list_create (ce_entries ce))
         else if what = ''hosts'' then kept (ce_host_list ce)
         else answered [reply_op ce (error_text ''list'' (''cannot list `'' @ what @ [CHR 0x27]) d)] st)"

definition command_find :: "cmd_env \<Rightarrow> string list \<Rightarrow> string \<Rightarrow> cmd_state \<Rightarrow> answer" where
  "command_find ce argv buf st =
     bindE (named_sound argv buf) (\<lambda>(pairs, name).
       case ready_sound ce name SOUND_DONT_FIND of
         None \<Rightarrow> answered [reply_op ce (error_text ''find'' (name @ '' not found'') (data_of buf))] st
       | Some s \<Rightarrow> answered [reply_op ce (sound_reply pairs ''find'' (ks_name s) (ks_size s) (data_of buf))] st)"

definition command_access :: "cmd_env \<Rightarrow> string \<Rightarrow> cmd_state \<Rightarrow> answer" where
  "command_access ce buf st =
     answered [reply_op ce (''+access='' @ filter (may ce) ''rwx'' @ pair_text ''command'' ''access'' @ client_text (data_of buf))] st"

definition info_text :: "cmd_sound \<Rightarrow> string \<Rightarrow> string" where
  "info_text s d =
     ''+sound='' @ quoted (ks_name s) @ pair_text ''size'' (signed_decimal (ks_size s)) @ pair_text ''bits'' (ks_bits s)
       @ pair_text ''sample-rate'' (signed_decimal (ks_rate s)) @ pair_text ''channels'' (signed_decimal (ks_channels s))
       @ pair_text ''format'' (audio_format_to_string (ks_format s))
       @ pair_text ''byte-order'' (byte_order_to_string (ks_order s))
       @ pair_text ''input'' (input_to_string (case ks_type s of
            Spool.SOUND_FILE \<Rightarrow> INPUT_FILE | SOUND_FLOW \<Rightarrow> INPUT_FLOW | SOUND_CDROM \<Rightarrow> INPUT_CDROM
          | SOUND_VIRTUAL \<Rightarrow> INPUT_VIRTUAL))
       @ pair_text ''seconds'' (ks_seconds s) @ pair_text ''command'' ''info'' @ client_text d"

definition command_info :: "cmd_env \<Rightarrow> string list \<Rightarrow> string \<Rightarrow> cmd_state \<Rightarrow> answer" where
  "command_info ce argv buf st =
     (if \<not> may ce CHR ''r'' then answered [reply_op ce (error_text ''info'' ''access denied'' [])] st
      else bindE (named_sound argv buf) (\<lambda>(_, name).
        case ready_sound ce name SOUND_LOAD of
          None \<Rightarrow> answered [reply_op ce (error_text ''info'' (name @ '' not found'') (data_of buf))] st
        | Some s \<Rightarrow> answered [reply_op ce (info_text s (data_of buf))] st))"

definition command_version :: "cmd_env \<Rightarrow> string \<Rightarrow> cmd_state \<Rightarrow> answer" where
  "command_version ce buf st =
     answered [reply_op ce (''+version='' @ ce_version ce @ pair_text ''command'' ''version'' @ client_text (client_data buf))] st"

definition status_text :: "cmd_env \<Rightarrow> cmd_state \<Rightarrow> string" where
  "status_text ce st =
     (let ai = ce_audio ce
      in ''+host='' @ ai_hostname ai @ pair_text ''version'' (ce_version ce)
           @ pair_text ''uptime'' (time2string (nat (ai_uptime ai)))
           @ (if \<not> ce_audio_enabled ce then []
              else pair_text ''audio-bits'' (signed_decimal (ai_precision ai))
                @ pair_text ''audio-bufsize'' (signed_decimal (ai_bufsize ai))
                @ pair_text ''audio-byte-order'' (byte_order_to_string (ai_order ai))
                @ pair_text ''audio-channels'' (signed_decimal (ai_channels ai))
                @ pair_text ''audio-device'' (ai_device ai)
                @ pair_text ''audio-format'' (audio_format_to_string (ai_format ai))
                @ pair_text ''audio-port'' (nv_port (notify_of ce st))
                @ pair_text ''audio-rate'' (signed_decimal (cm_rate st))
                @ pair_text ''audio-sample-rate'' (signed_decimal (ai_sample_rate ai))
                @ pair_text ''volume'' (signed_decimal (cm_volume st))
                @ pair_text ''curr-bufsize'' (signed_decimal (ai_curr_bufsize ai))
                @ pair_text ''curr-rate'' (signed_decimal (ai_curr_rate ai))
                @ pair_text ''priority-threshold'' (signed_decimal (cm_threshold st))
                @ pair_text ''audio-close'' (signed_decimal (cm_timeout st))
                @ pair_text ''audio-device-status'' (if ai_open ai then ''open'' else ''closed''))
           @ [CR, LF])"

definition command_status :: "cmd_env \<Rightarrow> cmd_state \<Rightarrow> answer" where
  "command_status ce st = answered [write_op ce [status_text ce st]] st"
section \<open>volume, application, reset, skip\<close>

text \<open>The obsolete volume command.  After a failed reading of the volume it answers and goes on.\<close>

definition volume_failed :: "cmd_env \<Rightarrow> net_op" where
  "volume_failed ce = reply_op ce (short_error ''volume'' ''volume failed'')"

definition set_volume :: "cmd_env \<Rightarrow> int \<Rightarrow> net_op list \<Rightarrow> cmd_state \<Rightarrow> answer" where
  "set_volume ce v before st =
     (let k = ce_set_volume ce v
      in if k \<ge> 0
         then (let st1 = st\<lparr>cm_volume := k\<rparr>
               in answered (before @ [reply_op ce (CHR ''+'' # signed_decimal k),
                      OpNotify None (notify_of ce st1) (Volume k)]) st1)
         else answered (before @ [volume_failed ce]) st)"

definition command_volume :: "cmd_env \<Rightarrow> string list \<Rightarrow> cmd_state \<Rightarrow> answer" where
  "command_volume ce argv st =
     (let v = ce_get_volume ce (cm_volume st);
          before = (if v < 0 then [volume_failed ce] else [])
      in if \<not> may ce CHR ''x'' then answered [reply_op ce (short_error ''volume'' ''access denied'')] st
         else if length argv \<le> 1 then
           answered [if v \<ge> 0 then reply_op ce (CHR ''+'' # signed_decimal v) else volume_failed ce] st
         else case argv ! 1 of
            c # cs \<Rightarrow>
              if c = CHR ''+'' then set_volume ce (to_int (v + atoi_of cs)) before st
              else if c = CHR ''-'' then set_volume ce (to_int (v - atoi_of cs)) before st
              else set_volume ce (atoi_of (argv ! 1)) [] st
          | [] \<Rightarrow> set_volume ce (atoi_of []) [] st)"

text \<open>The words after the first; \<open>snprintf\<close> takes each as a format.\<close>

definition joined :: "string list \<Rightarrow> cmd_crash + string" where
  "joined ws = (if list_ex (\<lambda>w. CHR ''%'' \<in> set w) ws then Inl PercentText
     else Inr (concat (case ws of [] \<Rightarrow> [] | w # r \<Rightarrow> w # map ((#) CHR '' '') r)))"

definition command_application :: "cmd_env \<Rightarrow> string list \<Rightarrow> cmd_state \<Rightarrow> answer" where
  "command_application ce argv st =
     bindE (joined (tl argv)) (\<lambda>s.
       answered [OpApplication (ce_client ce) s, reply_op ce (CHR ''+'' # s)] st)"

definition command_reset :: "cmd_env \<Rightarrow> string \<Rightarrow> cmd_state \<Rightarrow> answer" where
  "command_reset ce buf st =
     (if \<not> may ce CHR ''x'' then answered [reply_op ce (error_text ''reset'' ''access denied'' (client_data buf))] st
      else answered [reply_op ce (message_text ''reset'' ''reset successful'' (client_data buf))] (st\<lparr>cm_reset := True\<rparr>))"

text \<open>The number after the character \<open>#\<close>, which is not looked at; of an empty value the byte
  behind its end is read.\<close>

definition id_number :: "string \<Rightarrow> cmd_crash + int" where
  "id_number v = (case v of [] \<Rightarrow> Inl PastEnd | _ # cs \<Rightarrow> Inr (atoi_of cs))"

text \<open>An operation on the entries with an id, on all when the id is 0.\<close>

definition selected :: "int \<Rightarrow> server \<Rightarrow> nat list" where
  "selected i s = map sp_addr (filter (\<lambda>e. i = 0 \<or> sp_id e = i) (sv_spool s))"

definition skip_entries :: "int \<Rightarrow> int \<Rightarrow> server \<Rightarrow> server result" where
  "skip_entries i count s = foldE (spool_skip count) (selected i s) s"

definition command_skip :: "cmd_env \<Rightarrow> string \<Rightarrow> cmd_state \<Rightarrow> answer" where
  "command_skip ce buf st =
     (let d = client_data buf
      in if \<not> may ce CHR ''x'' then answered [reply_op ce (error_text ''skip'' ''access denied'' d)] st
         else bindE (case attr ''id'' buf of None \<Rightarrow> Inr 0 | Some v \<Rightarrow> id_number v) (\<lambda>i.
           let count = (case attr ''count'' buf of None \<Rightarrow> 1 | Some v \<Rightarrow> atoi_of v)
           in bindE (of_spool (skip_entries i count (cm_server st))) (\<lambda>sv.
              let st1 = st\<lparr>cm_server := sv\<rparr>
              in answered [reply_op ce (if selected i (cm_server st) \<noteq> [] then message_text ''skip'' ''skipped'' d
                                     else error_text ''skip'' ''skip failed'' d)] st1)))"

section \<open>Waiting for events\<close>

text \<open>\<open>do_events\<close>: the words add bits to the mask or take them away.\<close>

abbreviation "NOTIFY_DONE_BIT \<equiv> (32 :: 32 word)"
abbreviation "NOTIFY_SPOOL \<equiv> (894 :: 32 word)"

definition event_bits :: "(string \<times> 32 word) list" where
  "event_bits = [(''all'', 0xFFFFFFFF), (''any'', 0xFFFFFFFF), (''play'', 2), (''stop'', 16), (''pause'', 4),
     (''continue'', 8), (''volume'', 1), (''done'', 32), (''skip'', 64), (''state'', 128), (''flow'', 256),
     (''modify'', 512), (''level'', 1024), (''position'', 2048)]"

definition event_bit :: "string \<Rightarrow> 32 word" where
  "event_bit p = (case map_of event_bits p of None \<Rightarrow> 0 | Some b \<Rightarrow> b)"

definition signed_word :: "string \<Rightarrow> bool \<times> string" where
  "signed_word w = (case w of c # cs \<Rightarrow>
       if c = CHR ''+'' then (False, cs) else if c = CHR ''-'' then (True, cs) else (False, w)
     | [] \<Rightarrow> (False, w))"

definition event_word :: "string \<Rightarrow> 32 word \<times> int \<Rightarrow> 32 word \<times> int" where
  "event_word w = (\<lambda>(mk, i).
     let (minus, p) = signed_word w;
         mask1 = (if p = ''none'' then 0 else mk);
         i1 = (case p of c # cs \<Rightarrow> if c = CHR ''#'' then atoi_of cs else i | [] \<Rightarrow> i)
     in (if minus then mask1 AND NOT (event_bit p) else mask1 OR event_bit p, i1))"

definition do_events :: "string \<Rightarrow> 32 word \<Rightarrow> 32 word \<times> int" where
  "do_events s mk =
     (let (m, i) = fold event_word (words {CHR '','', CHR ''|'', CHR '' ''} s) (mk, 0)
      in (if i \<noteq> 0 \<and> m = 0 then NOTIFY_SPOOL else m, i))"

definition notify_event :: "32 word \<Rightarrow> int \<Rightarrow> event" where
  "notify_event m i = (blank_event NOTIFY)\<lparr>ev_wait_mask := m, ev_id := i\<rparr>"

definition wait_op :: "cmd_env \<Rightarrow> 32 word \<times> int \<Rightarrow> net_op" where
  "wait_op ce mi = OpInsert (ce_client ce) (notify_event (fst mi) (snd mi))"

text \<open>\<open>wait id=#n\<close> and \<open>wait event=...\<close>\<close>

definition wait_pair :: "cmd_env \<Rightarrow> string \<Rightarrow> string option \<Rightarrow> cmd_state \<Rightarrow> answer" where
  "wait_pair ce w d st =
     (case attr ''id'' w of
        Some (_ # cs) \<Rightarrow> answered [wait_op ce (NOTIFY_DONE_BIT, atoi_of cs)] st
      | _ \<Rightarrow>
          (case attr ''event'' w of
             Some (c # cs) \<Rightarrow> answered [wait_op ce (do_events (c # cs) 0)] st
           | _ \<Rightarrow> bindE (use_data d) (\<lambda>d.
                    answered [reply_op ce (error_text ''wait'' (''unknown wait attribute `'' @ w @ [CHR 0x27]) d)] st)))"

section \<open>The table of commands\<close>

definition commands :: "(string \<times> int \<times> int \<times> string) list" where
  "commands = [(''access'', -1, -1, []), (''application'', 1, -1, ''name''), (''continue'', 1, -1, ''id|sound ...''),
     (''done'', 1, -1, ''id|sound ...''), (''find'', 1, 1, ''sound''), (''get'', 1, 1, ''sound''), (''help'', -1, -1, []),
     (''info'', 1, 1, ''sound''), (''list'', 0, 1, ''[connections|hosts|servers|spool|sounds]''),
     (''modify'', 2, -1, ''id [count|list-count|priority|sample-rate|volume] ...''), (''monitor'', -1, -1, []),
     (''pause'', 1, -1, ''id|sound ...''), (''play'', 1, -1, ''sound ...''), (''put'', 2, -1, ''id|sound size''),
     (''quit'', 0, 0, []), (''reset'', 0, 0, []), (''set'', 1, -1, ''name[=value] ...''), (''skip'', 1, -1, ''id count''),
     (''status'', 0, 0, []), (''stop'', 1, -1, ''id|sound ...''), (''version'', 0, 0, []),
     (''volume'', 0, 1, ''[[+|-]volume]''), (''wait'', -1, -1, ''id|event|RPTP command'')]"

definition usage_of :: "string \<Rightarrow> string" where
  "usage_of name = (case map_of commands name of None \<Rightarrow> [] | Some (_, _, u) \<Rightarrow> u)"

definition help_line :: "string \<times> int \<times> int \<times> string \<Rightarrow> string" where
  "help_line c = (case c of (name, _, _, usage) \<Rightarrow>
     name @ replicate (8 - length name) CHR '' '' @ '' '' @ usage @ [CR, LF])"

definition help_text :: string where
  "help_text = ''+message='' @ quoted ''command summary'' @ '' command=help'' @ [CR, LF]
     @ concat (map help_line commands) @ last_line"

definition command_help :: "cmd_env \<Rightarrow> cmd_state \<Rightarrow> answer" where
  "command_help ce st = answered [kept_op ce [help_text]] st"

definition command_unknown :: "cmd_env \<Rightarrow> string list \<Rightarrow> string \<Rightarrow> cmd_state \<Rightarrow> answer" where
  "command_unknown ce argv buf st =
     answered [reply_op ce (''-error='' @ quoted (''unknown command `'' @ hd argv @ [CHR 0x27])
       @ pair_text ''command'' (quoted (hd argv)) @ client_text (client_data buf))] st"

end
