(* ===== verification/Execute.thy ===== *)
theory Execute
  imports CommandBase
begin

text \<open>
  The commands that play, stop, pause, continue and end sounds (\<open>do_execute\<close> and
  \<open>command_execute\<close> of \<open>src/rplayd/command.c\<close>): the pairs or options of the line become an
  rplay object, built with the library's \<open>rplay_set\<close>, which the daemon then carries out.
\<close>

section \<open>Options\<close>

record play_opts =
  po_left :: int
  po_right :: int
  po_count :: int
  po_list_count :: int
  po_priority :: int
  po_rate :: int
  po_search :: bool
  po_random :: bool
  po_list_name :: "string option"
  po_data :: "string option"     \<comment> \<open>\<open>None\<close>: a pointer to freed text\<close>
  po_input :: input
  po_flow :: flow_info

definition no_flow :: flow_info where
  "no_flow = \<lparr>fi_offset = 0, fi_format = FORMAT_NONE, fi_order = ORDER_NONE, fi_rate = 0, fi_precision = ''0'',
     fi_channels = 0, fi_storage = STORAGE_NONE\<rparr>"

definition default_opts :: "string option \<Rightarrow> play_opts" where
  "default_opts d = \<lparr>po_left = RPLAY_DEFAULT_VOLUME, po_right = RPLAY_DEFAULT_VOLUME,
     po_count = RPLAY_DEFAULT_COUNT, po_list_count = RPLAY_DEFAULT_LIST_COUNT,
     po_priority = RPLAY_DEFAULT_PRIORITY, po_rate = int RPLAY_DEFAULT_SAMPLE_RATE, po_search = True,
     po_random = False, po_list_name = None, po_data = d, po_input = INPUT_FILE, po_flow = no_flow\<rparr>"

definition upd_flow :: "(flow_info \<Rightarrow> flow_info) \<Rightarrow> play_opts \<Rightarrow> play_opts" where
  "upd_flow f po = po\<lparr>po_flow := f (po_flow po)\<rparr>"

text \<open>\<open>input-info=format,rate,bits,channels,order,offset\<close>, as far as it goes.\<close>

definition info_part :: "string list \<Rightarrow> nat \<Rightarrow> (string \<Rightarrow> flow_info \<Rightarrow> flow_info) \<Rightarrow> flow_info \<Rightarrow> flow_info" where
  "info_part ws i f fi = (if i < length ws then f (ws ! i) fi else fi)"

definition input_info :: "string \<Rightarrow> flow_info \<Rightarrow> flow_info" where
  "input_info v fi =
     (let ws = words {CHR '',''} v
      in (info_part ws 5 (\<lambda>p fi. fi\<lparr>fi_offset := atoi_of p\<rparr>)
         (info_part ws 4 (\<lambda>p fi. fi\<lparr>fi_order := string_to_byte_order p\<rparr>)
         (info_part ws 3 (\<lambda>p fi. fi\<lparr>fi_channels := atoi_of p\<rparr>)
         (info_part ws 2 (\<lambda>p fi. fi\<lparr>fi_precision := signed_decimal (atoi_of p)\<rparr>)
         (info_part ws 1 (\<lambda>p fi. fi\<lparr>fi_rate := atoi_of p\<rparr>)
         (info_part ws 0 (\<lambda>p fi. fi\<lparr>fi_format := string_to_audio_format p\<rparr>) fi)))))))"

definition pair_option :: "string \<Rightarrow> string \<Rightarrow> play_opts \<Rightarrow> play_opts" where
  "pair_option n v po =
     (if n = ''client-data'' then po\<lparr>po_data := Some v\<rparr>
      else if n = ''volume'' then po\<lparr>po_left := atoi_of v, po_right := atoi_of v\<rparr>
      else if n = ''left-volume'' then po\<lparr>po_left := atoi_of v\<rparr>
      else if n = ''right-volume'' then po\<lparr>po_right := atoi_of v\<rparr>
      else if n = ''count'' then po\<lparr>po_count := atoi_of v\<rparr>
      else if n = ''list-count'' then po\<lparr>po_list_count := atoi_of v\<rparr>
      else if n = ''priority'' then po\<lparr>po_priority := atoi_of v\<rparr>
      else if n = ''sample-rate'' then po\<lparr>po_rate := atoi_of v\<rparr>
      else if n = ''search'' \<or> n = ''rptp-search'' then po\<lparr>po_search := is_true v\<rparr>
      else if n = ''random'' then po\<lparr>po_random := is_true v\<rparr>
      else if n = ''list-name'' then po\<lparr>po_list_name := Some v\<rparr>
      else if n = ''input'' then po\<lparr>po_input := string_to_input v\<rparr>
      else if n = ''input-offset'' then upd_flow (\<lambda>fi. fi\<lparr>fi_offset := atoi_of v\<rparr>) po
      else if n = ''input-format'' then upd_flow (\<lambda>fi. fi\<lparr>fi_format := string_to_audio_format v\<rparr>) po
      else if n = ''input-byte-order'' then upd_flow (\<lambda>fi. fi\<lparr>fi_order := string_to_byte_order v\<rparr>) po
      else if n = ''input-sample-rate'' then upd_flow (\<lambda>fi. fi\<lparr>fi_rate := atoi_of v\<rparr>) po
      else if n = ''input-bits'' then upd_flow (\<lambda>fi. fi\<lparr>fi_precision := v\<rparr>) po
      else if n = ''input-channels'' then upd_flow (\<lambda>fi. fi\<lparr>fi_channels := atoi_of v\<rparr>) po
      else if n = ''input-storage'' then upd_flow (\<lambda>fi. fi\<lparr>fi_storage := string_to_storage v\<rparr>) po
      else if n = ''input-info'' then upd_flow (input_info v) po
      else po)"

section \<open>The request\<close>

text \<open>An edit that fails is answered; one that is undefined is an error.\<close>

definition edit :: "set_env \<Rightarrow> vararg list \<Rightarrow> rplay_obj \<Rightarrow> cmd_crash + rplay_obj option" where
  "edit env args obj = (case rplay_set env args obj of
     (obj', None) \<Rightarrow> Inr (Some obj')
   | (_, Some (Errno _)) \<Rightarrow> Inr None
   | (_, Some (Undef f)) \<Rightarrow> Inl (ObjectFault f))"

text \<open>The arguments of \<open>rplay_set(rp, RPLAY_APPEND, RPLAY_SOUND, ...)\<close>; old requests have no
  client's data.\<close>

definition sound_args :: "play_opts \<Rightarrow> string option \<Rightarrow> string \<Rightarrow> vararg list" where
  "sound_args po data name =
     [VLong 9, VLong 5, VStr (bytes_of name), VLong 32, VLong (po_left po), VLong 33, VLong (po_right po),
      VLong 13, VLong (po_count po), VLong 22, VLong (po_rate po), VLong 20, VLong (if po_search po then 1 else 0)]
     @ (case data of None \<Rightarrow> [] | Some d \<Rightarrow> [VLong 25, VStr (bytes_of d)]) @ [VLong 0]"

text \<open>The result of reading the line: the text of an answer, or the options and the object.\<close>

type_synonym request = "cmd_crash + (string + (play_opts \<times> rplay_obj))"

definition failed :: "string \<Rightarrow> string \<Rightarrow> string" where
  "failed cmd d = error_text cmd (cmd @ '' failed'') d"

fun read_pairs :: "set_env \<Rightarrow> string \<Rightarrow> (string \<times> string) list \<Rightarrow> play_opts \<Rightarrow> rplay_obj \<Rightarrow> request" where
  "read_pairs env cmd [] po obj = Inr (Inr (po, obj))"
| "read_pairs env cmd ((n, v) # ps) po obj =
     (if v = [] then read_pairs env cmd ps po obj
      else if n = ''sound'' \<or> (cmd \<noteq> ''play'' \<and> n = ''id'')
      then bindE (use_data (po_data po)) (\<lambda>d.
           bindE (edit env (sound_args po (Some d) v) obj) (\<lambda>r.
             case r of None \<Rightarrow> Inr (Inl (failed cmd d))
             | Some obj' \<Rightarrow> read_pairs env cmd ps po obj'))
      else read_pairs env cmd ps (pair_option n v po) obj)"

text \<open>The options of an old request, as \<open>getopt\<close> with the string \<open>+P:R:N:n:v:\<close> gives them: the number
  of arguments from \<open>optind\<close> on (after \<open>argc = optind\<close> it is 0), the arguments there, and what
  is left of the current one.\<close>

definition old_option :: "char \<Rightarrow> string \<Rightarrow> play_opts \<Rightarrow> play_opts" where
  "old_option c v po =
     (if c = CHR ''v'' then po\<lparr>po_left := atoi_of v, po_right := atoi_of v\<rparr>
      else if c = CHR ''n'' then po\<lparr>po_count := atoi_of v\<rparr>
      else if c = CHR ''N'' then po\<lparr>po_list_count := atoi_of v\<rparr>
      else if c = CHR ''P'' then po\<lparr>po_priority := atoi_of v\<rparr>
      else po\<lparr>po_rate := atoi_of v\<rparr>)"

datatype option_state = OptEnd | OptAt char string | OptNull

text \<open>The next option character and what follows it in its argument.\<close>

definition next_option :: "int \<Rightarrow> string list \<Rightarrow> string \<Rightarrow> option_state" where
  "next_option left ws rest =
     (case rest of
        c # cs \<Rightarrow> OptAt c cs
      | [] \<Rightarrow> if left = 0 then OptEnd
             else (case ws of
                     [] \<Rightarrow> OptNull
                   | w # _ \<Rightarrow> (case w of
                        c1 # c # cs \<Rightarrow> if c1 = CHR ''-'' \<and> w \<noteq> ''--'' then OptAt c cs else OptEnd
                      | _ \<Rightarrow> OptEnd)))"

function old_options :: "int \<Rightarrow> string list \<Rightarrow> string \<Rightarrow> play_opts \<Rightarrow> cmd_crash + (int \<times> string list \<times> play_opts)" where
  "old_options left ws rest po =
     (case next_option left ws rest of
        OptNull \<Rightarrow> Inl NullString
      | OptEnd \<Rightarrow> if left \<noteq> 0 \<and> hd ws = ''--'' then Inr (left - 1, tl ws, po) else Inr (left, ws, po)
      | OptAt c cs \<Rightarrow>
          if c \<notin> set ''PRNnv'' then old_options 0 (if cs = [] then tl ws else ws) cs po
          else if cs \<noteq> [] then old_options (left - 1) (tl ws) [] (old_option c cs po)
          else if left = 1 then old_options 0 (tl ws) [] po
          else (case tl ws of
                  [] \<Rightarrow> Inl NullString
                | v # ws' \<Rightarrow> old_options (left - 2) ws' [] (old_option c v po)))"
  by pat_completeness auto

definition option_chars :: "string list \<Rightarrow> string \<Rightarrow> nat" where
  "option_chars ws rest = (if rest \<noteq> [] then length rest else case ws of [] \<Rightarrow> 0 | w # _ \<Rightarrow> length w)"

lemma next_option_shorter:
  "next_option left ws rest = OptAt c cs \<Longrightarrow> length cs < option_chars ws rest"
  by (auto simp: next_option_def option_chars_def split: list.splits if_splits)

lemma next_option_word:
  "next_option left ws rest = OptAt c cs \<Longrightarrow> ws = [] \<Longrightarrow> rest = c # cs"
  by (auto simp: next_option_def split: list.splits if_splits)

termination old_options
proof (relation "measures [\<lambda>(left, ws, rest, po). length ws, \<lambda>(left, ws, rest, po). option_chars ws rest]", goal_cases)
  case (2 left ws rest po c cs)
  from next_option_shorter [OF 2(1)] next_option_word [OF 2(1)]
  show ?case by (cases ws) (auto simp: option_chars_def split: if_splits)
next
  case (3 left ws rest po c cs)
  from next_option_shorter [OF 3(1)] next_option_word [OF 3(1)]
  show ?case by (cases ws) (auto simp: option_chars_def split: if_splits)
next
  case (4 left ws rest po c cs)
  from next_option_shorter [OF 4(1)] next_option_word [OF 4(1)]
  show ?case by (cases ws) (auto simp: option_chars_def split: if_splits)
next
  case (5 left ws rest po c cs v ws')
  then show ?case by (cases ws) auto
qed simp

declare old_options.simps [simp del]

fun append_sounds :: "set_env \<Rightarrow> string \<Rightarrow> string list \<Rightarrow> play_opts \<Rightarrow> rplay_obj \<Rightarrow> request" where
  "append_sounds env cmd [] po obj = Inr (Inr (po, obj))"
| "append_sounds env cmd (w # ws) po obj =
     bindE (edit env (sound_args po None w) obj) (\<lambda>r.
       case r of None \<Rightarrow> Inr (Inl (short_error cmd (cmd @ '' failed'')))
       | Some obj' \<Rightarrow> append_sounds env cmd ws po obj')"

definition read_old :: "set_env \<Rightarrow> string list \<Rightarrow> rplay_obj \<Rightarrow> request" where
  "read_old env argv obj =
     bindE (old_options (int (length argv) - 1) (tl argv) [] (default_opts (Some []))) (\<lambda>(left, ws, po).
       if left = 0 then Inr (Inl (short_error (hd argv) (''usage: '' @ hd argv @ '' '' @ usage_of (hd argv))))
       else append_sounds env (hd argv) ws po obj)"
section \<open>Carrying out a request\<close>

text \<open>The rest of the object is set after the sounds.\<close>

definition edits_of :: "play_opts \<Rightarrow> vararg list list" where
  "edits_of po = [[VLong 14, VLong (po_list_count po), VLong 0], [VLong 15, VLong (po_priority po), VLong 0]]
     @ (if po_random po then [[VLong 16, VLong 0]] else [])
     @ (case po_list_name po of None \<Rightarrow> [] | Some s \<Rightarrow> [[VLong 26, VStr (bytes_of s), VLong 0]])"

fun edit_all :: "set_env \<Rightarrow> vararg list list \<Rightarrow> rplay_obj \<Rightarrow> cmd_crash + rplay_obj option" where
  "edit_all env [] obj = Inr (Some obj)"
| "edit_all env (a # as) obj = bindE (edit env a obj) (\<lambda>r.
     case r of None \<Rightarrow> Inr None | Some obj' \<Rightarrow> edit_all env as obj')"

text \<open>The object as the daemon reads it; a cyclic list is never read to its end.\<close>

definition rplay_of :: "rplay_obj \<Rightarrow> cmd_crash + rplay" where
  "rplay_of obj = (case obj_list obj of
     None \<Rightarrow> Inl (ObjectFault EndlessList)
   | Some as \<Rightarrow> Inr (rplay_hdr.extend (rplay_hdr.truncate obj) (rplay.fields as)))"

type_synonym outcome = "cmd_crash + (int \<times> net_op list \<times> cmd_state)"

definition refuse :: "cmd_env \<Rightarrow> string \<Rightarrow> cmd_state \<Rightarrow> outcome" where
  "refuse ce s st = Inr (-1, [reply_op ce s], st)"

text \<open>A refusal with the client's data.\<close>

definition refuse_with :: "cmd_env \<Rightarrow> play_opts \<Rightarrow> (string \<Rightarrow> string) \<Rightarrow> cmd_state \<Rightarrow> outcome" where
  "refuse_with ce po f st = bindE (use_data (po_data po)) (\<lambda>d. refuse ce (f d) st)"

definition daemon_request :: "cmd_env \<Rightarrow> string \<Rightarrow> int \<Rightarrow> rplay \<Rightarrow> server \<Rightarrow> (int \<times> server) result" where
  "daemon_request ce cmd threshold rp s =
     (if cmd = ''stop'' then rplayd_stop (ce_audio_enabled ce) rp (ce_sin ce) s
      else if cmd = ''pause'' then rplayd_pause (ce_audio_enabled ce) rp (ce_sin ce) s
      else if cmd = ''continue'' then rplayd_continue (ce_spool ce) (ce_audio_enabled ce) rp (ce_sin ce) s
      else if cmd = ''done'' then rplayd_done (ce_audio_enabled ce) rp (ce_sin ce) s
      else rplayd_play (ce_spool ce) (ce_find ce) (ce_audio_enabled ce) threshold rp (ce_sin ce) s)"

definition run_request :: "cmd_env \<Rightarrow> string \<Rightarrow> play_opts \<Rightarrow> rplay_obj \<Rightarrow> cmd_state \<Rightarrow> outcome" where
  "run_request ce cmd po obj st =
     bindE (rplay_of obj) (\<lambda>rp.
     bindE (of_spool (daemon_request ce cmd (cm_threshold st) rp (cm_server st))) (\<lambda>(val, sv).
       let st' = st\<lparr>cm_server := sv\<rparr>
       in if val > 0 then Inr (val, [], st')
          else bindE (use_data (po_data po)) (\<lambda>d.
            Inr (val, [reply_op ce (if val = 0 then message_text cmd (cmd @ '' successful'') d else failed cmd d)], st'))))"

subsection \<open>Flows\<close>

text \<open>A name that is not taken yet; there are at most \<open>ce_nsounds\<close> others.\<close>

definition flow_name :: "nat \<Rightarrow> string \<Rightarrow> string" where
  "flow_name i base = take (RPTP_MAX_LINE - 1) (if i = 0 then base else ''rplay'' @ decimal i @ ''-'' @ base)"

fun unique_name :: "cmd_env \<Rightarrow> nat \<Rightarrow> nat \<Rightarrow> string \<Rightarrow> string option" where
  "unique_name ce 0 i base = None"
| "unique_name ce (Suc k) i base =
     (case ce_lookup ce (flow_name i base) SOUND_DONT_FIND of
        None \<Rightarrow> Some (flow_name i base) | Some _ \<Rightarrow> unique_name ce k (Suc i) base)"

definition flow_sound :: "string \<Rightarrow> int \<Rightarrow> sound" where
  "flow_sound name rate = \<lparr>s_type = SOUND_FLOW, s_name = bytes_of name, s_status = SOUND_NOT_READY, s_sample_rate = rate,
     s_output_sample_size = 0, s_samples = 0, s_flow = [], s_needs_helper = False, s_starting_track = 0, s_ending_track = 0\<rparr>"

definition start_flow :: "cmd_env \<Rightarrow> string \<Rightarrow> string \<Rightarrow> play_opts \<Rightarrow> rplay_obj \<Rightarrow> cmd_state \<Rightarrow> outcome" where
  "start_flow ce cmd buf po obj st =
     (let name = Update.cache_name (ce_cache_directory ce) buf
      in case rplay_set (ce_set ce) [VLong 12, VLong 0, VLong 5, VStr (bytes_of name), VLong 20, VLong 0, VLong 0] obj of
           (_, Some (Undef f)) \<Rightarrow> Inl (ObjectFault f)
         | (obj', _) \<Rightarrow>
             (case ce_insert ce name of
                None \<Rightarrow> refuse_with ce po (failed cmd) st
              | Some x \<Rightarrow>
                  (let fi = po_flow po;
                       st1 = st\<lparr>cm_inserted := cm_inserted st @ [(name, SOUND_NOT_READY, SOUND_FLOW)],
                                cm_flows := cm_flows st @ [(x, fi)],
                                cm_server := upd_sound x (\<lambda>_. flow_sound name (fi_rate fi)) (cm_server st)\<rparr>
                   in bindE (rplay_of obj') (\<lambda>rp.
                      bindE (of_spool (rplayd_play (ce_spool ce) (ce_find ce) (ce_audio_enabled ce) (cm_threshold st1)
                               rp (ce_sin ce) (cm_server st1))) (\<lambda>(i, sv).
                        if i < 0
                        then refuse_with ce po (error_text cmd ''spool full'')
                               (st1\<lparr>cm_server := sv, cm_deleted := cm_deleted st @ [x]\<rparr>)
                        else bindE (use_data (po_data po)) (\<lambda>d.
                             Inr (0, [reply_op ce (''+id=#'' @ signed_decimal i @ pair_text ''sound'' (quoted buf)
                                        @ pair_text ''command'' cmd @ client_text d)],
                                  st1\<lparr>cm_server := sv\<rparr>)))))))"

text \<open>\<open>rplay_get\<close> gives -1, not NULL, when there is no sound; the code goes on with that pointer.\<close>

definition run_flow :: "cmd_env \<Rightarrow> string \<Rightarrow> play_opts \<Rightarrow> rplay_obj \<Rightarrow> cmd_state \<Rightarrow> outcome" where
  "run_flow ce cmd po obj st =
     (if \<not> may ce CHR ''w'' then refuse_with ce po (error_text cmd ''access denied'') st
      else case rplay_get (e_abi (ce_set ce)) [VLong 5, VLong 0] obj of
        Inr (StringValue s) \<Rightarrow>
          (let base = after_slash (text_of s)
           in if CHR ''%'' \<in> set base then Inl PercentText
              else (case unique_name ce (Suc (ce_nsounds ce)) 0 base of
                      None \<Rightarrow> Inl EndlessNames
                    | Some buf \<Rightarrow> start_flow ce cmd buf po obj st))
      | _ \<Rightarrow> Inl BadPointer)"

section \<open>do_execute\<close>

definition command_code :: "string \<Rightarrow> int" where
  "command_code cmd = (if cmd = ''stop'' then RPLAY_STOP else if cmd = ''pause'' then RPLAY_PAUSE
     else if cmd = ''continue'' then RPLAY_CONTINUE else if cmd = ''done'' then RPLAY_DONE else RPLAY_PLAY)"

definition read_request :: "cmd_env \<Rightarrow> string list \<Rightarrow> string \<Rightarrow> rplay_obj \<Rightarrow> request" where
  "read_request ce argv buf obj =
     (if new_style buf
      then read_pairs (ce_set ce) (hd argv) (tl (pairs_of buf)) (default_opts (kept_data buf)) obj
      else read_old (ce_set ce) argv obj)"

definition do_execute :: "cmd_env \<Rightarrow> string list \<Rightarrow> string \<Rightarrow> cmd_state \<Rightarrow> outcome" where
  "do_execute ce argv buf st =
     (let cmd = hd argv
      in if \<not> may ce CHR ''x'' then refuse ce (error_text cmd ''access denied'' (data_of buf)) st
         else case rplay_create (e_abi (ce_set ce)) (command_code cmd) of
           Inl _ \<Rightarrow> refuse ce (short_error cmd (cmd @ '' failed'') @ pair_text ''client_data'' (quoted (data_of buf))) st
         | Inr hdr \<Rightarrow>
             bindE (read_request ce argv buf (new_obj hdr)) (\<lambda>r.
               case r of
                 Inl s \<Rightarrow> refuse ce s st
               | Inr (po, obj) \<Rightarrow>
                   bindE (edit_all (ce_set ce) (edits_of po) obj) (\<lambda>r.
                     case r of
                       None \<Rightarrow> refuse_with ce po (failed cmd) st
                     | Some obj' \<Rightarrow>
                         if po_input po = INPUT_FLOW \<and> cmd = ''play'' then run_flow ce cmd po obj' st
                         else run_request ce cmd po obj' st)))"

text \<open>A list that plays is answered with its id.\<close>

definition playing_text :: "int \<Rightarrow> string \<Rightarrow> server \<Rightarrow> cmd_crash + string" where
  "playing_text i cmd s =
     (case spool_find i s of
        None \<Rightarrow> Inl (SpoolCrash NullPointer)
      | Some a \<Rightarrow> of_spool (with_sp a (\<lambda>e s. bindE (curr_attrs e) (\<lambda>att. bindE (the_rp e) (\<lambda>rp.
          Inr (''+id=#'' @ signed_decimal i @ pair_text ''sound'' (quoted (text_of (a_sound att)))
            @ pair_text ''command'' cmd @ client_text (text_of (a_client_data att))
            @ pair_text ''list-name'' (quoted (text_of (r_list_name rp))))))) s))"

definition command_execute :: "cmd_env \<Rightarrow> string list \<Rightarrow> string \<Rightarrow> cmd_state \<Rightarrow> answer" where
  "command_execute ce argv buf st =
     bindE (do_execute ce argv buf st) (\<lambda>(i, ops, st1).
       if i > 0 then bindE (playing_text i (hd argv) (cm_server st1)) (\<lambda>s. answered (ops @ [reply_op ce s]) st1)
       else answered ops st1)"

text \<open>\<open>wait play ...\<close>: the answer is the notification that the list is done.\<close>

definition wait_play :: "cmd_env \<Rightarrow> string list \<Rightarrow> string \<Rightarrow> cmd_state \<Rightarrow> answer" where
  "wait_play ce argv buf st =
     bindE (do_execute ce argv buf st) (\<lambda>(i, ops, st1).
       answered (ops @ (if i > 0 then [wait_op ce (NOTIFY_DONE_BIT, i)] else [])) st1)"

end
