(* ===== verification/Settings.thy ===== *)
theory Settings
  imports CommandBase
begin

text \<open>
  The commands that change settings: \<open>set\<close>, \<open>modify\<close> and \<open>monitor\<close> of
  \<open>src/rplayd/command.c\<close>.  Floating-point rates are exact, their texts inputs; what the audio
  device makes of a new setting is an input.
\<close>

unbundle bit_operations_syntax

section \<open>set\<close>

record set_run =
  sr_text :: string              \<comment> \<open>the answer so far\<close>
  sr_ops :: "net_op list"
  sr_state :: cmd_state
  sr_application :: "string option"
  sr_mask :: "32 word"
  sr_level_rate :: rat
  sr_position_rate :: rat
  sr_volume_changed :: bool
  sr_threshold_changed :: bool
  sr_port_changed :: bool
  sr_notify :: bool

text \<open>\<open>strncat\<close> into the 8192 bytes of the buffer; with the NUL behind it the text must not
  fill them.\<close>

definition add_text :: "string \<Rightarrow> set_run \<Rightarrow> cmd_crash + set_run" where
  "add_text s r =
     (let t = take (RPTP_MAX_LINE - 1) s
      in if int (length (sr_text r) + length t) \<ge> BUFFER_SIZE then Inl PastEnd
         else Inr (r\<lparr>sr_text := sr_text r @ t\<rparr>))"

definition upd_state :: "(cmd_state \<Rightarrow> cmd_state) \<Rightarrow> set_run \<Rightarrow> set_run" where
  "upd_state f r = r\<lparr>sr_state := f (sr_state r)\<rparr>"

definition add_op :: "net_op \<Rightarrow> set_run \<Rightarrow> set_run" where
  "add_op k r = r\<lparr>sr_ops := sr_ops r @ [k]\<rparr>"

definition set_application :: "cmd_env \<Rightarrow> string \<Rightarrow> set_run \<Rightarrow> cmd_crash + set_run" where
  "set_application ce v r =
     (let r1 = (if v = [] then r else add_op (OpApplication (ce_client ce) v) (r\<lparr>sr_application := Some v\<rparr>))
      in add_text (''application='' @ quoted (case sr_application r1 of None \<Rightarrow> ''-1'' | Some s \<Rightarrow> s)) r1)"

definition set_notify :: "cmd_env \<Rightarrow> string \<Rightarrow> set_run \<Rightarrow> cmd_crash + set_run" where
  "set_notify ce v r =
     (let (m, i) = do_events v (sr_mask r); r1 = add_op (OpSubscribe (ce_client ce) m i) (r\<lparr>sr_mask := m\<rparr>)
      in if m = 0 then add_text ''notify=none'' r1
         else add_text (''notify='' @ quoted v) (r1\<lparr>sr_notify := True\<rparr>))"

text \<open>C division.\<close>

definition new_volume :: "int \<Rightarrow> string \<Rightarrow> cmd_crash + int" where
  "new_volume vol v = (case v of [] \<Rightarrow> Inr vol | c # cs \<Rightarrow>
     if c = CHR ''+'' then Inr (to_int (vol + atoi_of cs))
     else if c = CHR ''-'' then Inr (to_int (vol - atoi_of cs))
     else if c = CHR ''*'' then Inr (to_int (vol * atoi_of cs))
     else if c = CHR ''/'' then
       (if atoi_of cs = 0 then Inl DivideByValue
        else Inr (to_int (sgn vol * sgn (atoi_of cs) * (abs vol div abs (atoi_of cs)))))
     else Inr (atoi_of v))"

definition set_volume_pair :: "cmd_env \<Rightarrow> string \<Rightarrow> set_run \<Rightarrow> cmd_crash + set_run" where
  "set_volume_pair ce v r =
     bindE (new_volume (ce_get_volume ce (cm_volume (sr_state r))) v) (\<lambda>vol.
       let k = (if v = [] then vol else ce_set_volume ce vol);
           r1 = (if v \<noteq> [] \<and> k \<ge> 0 then upd_state (\<lambda>st. st\<lparr>cm_volume := k\<rparr>) r else r)
       in if k \<ge> 0 then add_text (''volume='' @ signed_decimal k) (r1\<lparr>sr_volume_changed := True\<rparr>)
          else add_text ''volume=-1'' r1)"

definition clamp_priority :: "int \<Rightarrow> int" where
  "clamp_priority k = (if k < 0 then 0 else if k > RPLAY_MAX_PRIORITY then RPLAY_MAX_PRIORITY else k)"

definition set_threshold :: "string \<Rightarrow> set_run \<Rightarrow> cmd_crash + set_run" where
  "set_threshold v r =
     (let r1 = (if v = [] then r
                else (upd_state (\<lambda>st. st\<lparr>cm_threshold := clamp_priority (atoi_of v)\<rparr>) r)\<lparr>sr_threshold_changed := True\<rparr>)
      in add_text (''priority-threshold='' @ signed_decimal (cm_threshold (sr_state r1))) r1)"

definition set_rate :: "cmd_env \<Rightarrow> bool \<Rightarrow> bool \<Rightarrow> string \<Rightarrow> set_run \<Rightarrow> cmd_crash + set_run" where
  "set_rate ce level position v r =
     (let q = ce_rate ce v;
          r1 = (if v = [] then r
                else add_op (OpRates (ce_client ce) (if level then Some q else None) (if position then Some q else None))
                  (r\<lparr>sr_level_rate := (if level then q else sr_level_rate r),
                     sr_position_rate := (if position then q else sr_position_rate r)\<rparr>));
          lt = ''level-notify-rate='' @ ce_rate_text ce (sr_level_rate r1);
          pt = ''position-notify-rate='' @ ce_rate_text ce (sr_position_rate r1)
      in add_text (if level \<and> position then lt @ '' '' @ pt else if level then lt else pt) r1)"

fun has_text :: "string \<Rightarrow> string \<Rightarrow> bool" where
  "has_text p [] = (p = [])"
| "has_text p (c # s) = (take (length p) (c # s) = p \<or> has_text p s)"

definition port_of :: "string \<Rightarrow> 32 word \<Rightarrow> 32 word" where
  "port_of v port =
     (if has_text ''none'' v then 0 else port)
       OR (if has_text ''speaker'' v then 2 else 0)
       OR (if has_text ''headphone'' v then 4 else 0)
       OR (if has_text ''lineout'' v then 8 else 0)"

definition init_audio :: "cmd_env \<Rightarrow> cmd_state \<Rightarrow> int \<times> cmd_state" where
  "init_audio ce st = (let (k, port, rate) = ce_audio_init ce st in (k, st\<lparr>cm_port := port, cm_rate := rate\<rparr>))"

definition set_port :: "cmd_env \<Rightarrow> string \<Rightarrow> set_run \<Rightarrow> cmd_crash + set_run" where
  "set_port ce v r =
     (let st = sr_state r; p = port_of v (cm_port st); st1 = st\<lparr>cm_optional_port := p\<rparr>
      in if p = cm_port st then add_text (''audio-port='' @ v) (r\<lparr>sr_state := st1\<rparr>)
         else (let (k, st2) = init_audio ce st1
               in if k < 0 then add_text ''audio-port=-1'' (r\<lparr>sr_state := st2\<rparr>)
                  else add_text (''audio-port='' @ v) (r\<lparr>sr_state := st2, sr_port_changed := True\<rparr>)))"

text \<open>\<open>strtok\<close> with blanks for the first word, then without.\<close>

definition info_words :: "string \<Rightarrow> string list" where
  "info_words v =
     (case dropWhile (\<lambda>c. c \<in> {CHR '','', CHR '' ''}) v of
        [] \<Rightarrow> []
      | c # s \<Rightarrow> (c # takeWhile (\<lambda>c. c \<notin> {CHR '','', CHR '' ''}) s)
               # words {CHR '',''} (tl (dropWhile (\<lambda>c. c \<notin> {CHR '','', CHR '' ''}) s)))"

definition info_number :: "string list \<Rightarrow> nat \<Rightarrow> int \<Rightarrow> int" where
  "info_number ws i k = (if i < length ws then atoi_of (ws ! i) else k)"

text \<open>All sounds are stopped first; the rate comes back when the device cannot be set.\<close>

definition set_info :: "cmd_env \<Rightarrow> string \<Rightarrow> set_run \<Rightarrow> cmd_crash + set_run" where
  "set_info ce v r =
     (let st = sr_state r; ws = info_words v
      in bindE (of_spool (foldE spool_stop (map sp_addr (sv_spool (cm_server st))) (cm_server st))) (\<lambda>sv.
         case cm_optional st of (f, rate, prec, ch) \<Rightarrow>
           let st1 = st\<lparr>cm_server := sv,
                 cm_optional := (if ws = [] then f else string_to_audio_format (hd ws),
                   info_number ws 1 rate, info_number ws 2 prec, info_number ws 3 ch), cm_rate := 0\<rparr>;
               (k, st2) = init_audio ce st1
           in if k < 0 then add_text ''audio-info=-1'' (r\<lparr>sr_state := st2\<lparr>cm_rate := cm_rate st\<rparr>\<rparr>)
              else add_text (''audio-info='' @ v) (r\<lparr>sr_state := st2\<rparr>)))"

definition set_timeout :: "string \<Rightarrow> set_run \<Rightarrow> cmd_crash + set_run" where
  "set_timeout v r = (if v = [] then Inr r
     else add_text (''audio-close='' @ signed_decimal (atoi_of v)) (upd_state (\<lambda>st. st\<lparr>cm_timeout := atoi_of v\<rparr>) r))"

definition set_pair :: "cmd_env \<Rightarrow> string \<times> string \<Rightarrow> set_run \<Rightarrow> cmd_crash + set_run" where
  "set_pair ce nv r = (case nv of (n, v) \<Rightarrow>
     bindE (if n = ''application'' then set_application ce v r
            else if n = ''notify'' then set_notify ce v r
            else if n = ''volume'' then set_volume_pair ce v r
            else if n = ''priority-threshold'' then set_threshold v r
            else if n = ''notify-rate'' then set_rate ce True True v r
            else if n = ''level-notify-rate'' then set_rate ce True False v r
            else if n = ''position-notify-rate'' then set_rate ce False True v r
            else if n = ''audio-port'' then set_port ce v r
            else if n = ''audio-info'' then set_info ce v r
            else if n = ''audio-close'' then set_timeout v r
            else add_text (n @ ''=-1'') r) (add_text '' ''))"

text \<open>A client that now subscribes is told what plays and the volume.\<close>

definition entry_notice :: "cmd_env \<Rightarrow> spool_entry \<Rightarrow> notice list result" where
  "entry_notice ce e =
     (if sp_state e = SPOOL_PLAY \<or> sp_state e = SPOOL_PAUSE
      then bindE (curr_attrs e) (\<lambda>att.
             let s = text_of (a_sound att); d = text_of (a_client_data att)
             in Inr [if sp_state e = SPOOL_PLAY then Play (sp_id e) s d (ce_play_notice ce e) else Pause (sp_id e) s d])
      else Inr [])"

definition current_notices :: "cmd_env \<Rightarrow> server \<Rightarrow> notice list result" where
  "current_notices ce s = bindE (mapE (entry_notice ce) (sv_spool s)) (\<lambda>ls. Inr (concat ls))"

definition subscribe_ops :: "cmd_env \<Rightarrow> cmd_state \<Rightarrow> cmd_crash + net_op list" where
  "subscribe_ops ce st = bindE (of_spool (current_notices ce (cm_server st))) (\<lambda>ns.
     Inr (map (OpNotify (Some (ce_client ce)) (notify_of ce st)) (ns @ [Volume (cm_volume st)])
          @ [OpInsert (ce_client ce) (blank_event NOTIFY)]))"

definition set_result :: "cmd_env \<Rightarrow> set_run \<Rightarrow> answer" where
  "set_result ce r =
     (let st = sr_state r; nv = notify_of ce st
      in bindE (if sr_notify r then subscribe_ops ce st else Inr []) (\<lambda>sub.
         answered (sr_ops r @ [write_op ce [sr_text r]] @ sub
           @ (if sr_volume_changed r then [OpNotify None nv (Volume (cm_volume st))] else [])
           @ (if sr_threshold_changed r \<or> sr_port_changed r then [OpNotify None nv (state_notice nv)] else [])
           @ [OpWantLevel]) st))"

definition start_set :: "connection \<Rightarrow> cmd_state \<Rightarrow> set_run" where
  "start_set c st = \<lparr>sr_text = ''+'', sr_ops = [], sr_state = st, sr_application = cn_application c,
     sr_mask = cn_notify_mask c, sr_level_rate = cn_level_rate c, sr_position_rate = cn_position_rate c,
     sr_volume_changed = False, sr_threshold_changed = False, sr_port_changed = False, sr_notify = False\<rparr>"

definition command_set :: "cmd_env \<Rightarrow> connection \<Rightarrow> string \<Rightarrow> cmd_state \<Rightarrow> answer" where
  "command_set ce c buf st =
     (let d = client_data buf
      in if \<not> may ce CHR ''x'' then answered [reply_op ce (error_text ''set'' ''access denied'' d)] st
         else bindE (foldE (set_pair ce) (tl (pairs_of buf)) (start_set c st)) (\<lambda>r.
              bindE (use_data (kept_data buf)) (\<lambda>d'.
              bindE (add_text (''command=set'' @ client_text d' @ [CR, LF]) r) (set_result ce))))"

section \<open>modify\<close>

record changes =
  ch_count :: int
  ch_list_count :: int
  ch_priority :: int
  ch_rate :: int
  ch_left :: int
  ch_right :: int
  ch_data :: "string option"

text \<open>-1 stands for a value that is not given.\<close>

definition value_of :: "string \<Rightarrow> string \<Rightarrow> int \<Rightarrow> int" where
  "value_of name buf k = (case attr name buf of None \<Rightarrow> k | Some v \<Rightarrow> atoi_of v)"

definition changes_of :: "string \<Rightarrow> changes" where
  "changes_of buf = (let v = value_of ''volume'' buf (-1)
     in \<lparr>ch_count = value_of ''count'' buf (-1), ch_list_count = value_of ''list-count'' buf (-1),
         ch_priority = value_of ''priority'' buf (-1), ch_rate = value_of ''sample-rate'' buf (-1),
         ch_left = value_of ''left-volume'' buf v, ch_right = value_of ''right-volume'' buf v,
         ch_data = attr ''client-data'' buf\<rparr>)"

type_synonym entry_change = "nat \<Rightarrow> server \<Rightarrow> server result"

definition when_given :: "int \<Rightarrow> (int \<Rightarrow> entry_change) \<Rightarrow> entry_change list" where
  "when_given k f = (if k = -1 then [] else [f k])"

definition change_steps :: "spool_env \<Rightarrow> changes \<Rightarrow> entry_change list" where
  "change_steps ev ch =
     when_given (ch_count ch) spool_set_count @ when_given (ch_list_count ch) spool_set_list_count
     @ when_given (ch_priority ch) spool_set_priority @ when_given (ch_rate ch) (spool_set_sample_rate ev)
     @ when_given (ch_left ch) (spool_set_channel_volume 0) @ when_given (ch_right ch) (spool_set_channel_volume 1)
     @ (case ch_data ch of None \<Rightarrow> [] | Some d \<Rightarrow> [spool_set_client_data (bytes_of d)])"

definition modify_notice_of :: "spool_entry \<Rightarrow> notice result" where
  "modify_notice_of e = bindE (curr_attrs e) (\<lambda>att. bindE (the_rp e) (\<lambda>rp.
     Inr (Modify (sp_id e) (text_of (a_client_data att))
       \<lparr>mn_count = sp_curr_count e, mn_list_count = sp_list_count e, mn_priority = r_priority rp,
        mn_rate = sp_sample_rate e, mn_volume = max (a_volume_l att) (a_volume_r att),
        mn_left = a_volume_l att, mn_right = a_volume_r att\<rparr>)))"

definition modify_one :: "cmd_env \<Rightarrow> entry_change list \<Rightarrow> nat \<Rightarrow> cmd_state \<times> net_op list \<Rightarrow> cmd_crash + (cmd_state \<times> net_op list)" where
  "modify_one ce steps a acc =
     (if steps = [] then Inr acc
      else bindE (of_spool (foldE (\<lambda>f. f a) steps (cm_server (fst acc)))) (\<lambda>sv.
           bindE (of_spool (with_sp a (\<lambda>e s. modify_notice_of e) sv)) (\<lambda>nc.
             let st = (fst acc)\<lparr>cm_server := sv\<rparr>
             in Inr (st, snd acc @ [OpNotify None (notify_of ce st) nc]))))"

definition command_modify :: "cmd_env \<Rightarrow> string \<Rightarrow> cmd_state \<Rightarrow> answer" where
  "command_modify ce buf st =
     (if \<not> may ce CHR ''x'' then answered [reply_op ce (short_error ''modify'' ''access denied'')] st
      else case attr ''id'' buf of
        Some (_ # cs) \<Rightarrow>
          (let i = atoi_of cs; steps = change_steps (ce_spool ce) (changes_of buf)
           in bindE (foldE (modify_one ce steps) (selected i (cm_server st)) (st, [])) (\<lambda>(st1, ops).
              answered (ops @ [reply_op ce (if steps \<noteq> [] \<and> selected i (cm_server st) \<noteq> []
                                          then ''+message='' @ quoted ''modified'' @ pair_text ''command'' ''modify''
                                          else short_error ''modify'' ''nothing modified'')]) st1))
      | _ \<Rightarrow> answered [reply_op ce (short_error ''modify'' (''missing `id'' @ [CHR 0x27]))] st)"

section \<open>monitor\<close>

definition monitor_text :: "audio_info \<Rightarrow> string" where
  "monitor_text ai =
     ''+audio-info='' @ quoted (audio_format_to_string (ai_format ai) @ '','' @ signed_decimal (ai_sample_rate ai) @ '',''
       @ signed_decimal (ai_precision ai) @ '','' @ signed_decimal (ai_channels ai) @ '',''
       @ byte_order_to_string (ai_order ai))"

definition command_monitor :: "cmd_env \<Rightarrow> cmd_state \<Rightarrow> answer" where
  "command_monitor ce st =
     (if \<not> may ce CHR ''m'' then answered [reply_op ce (short_error ''monitor'' ''access denied'')] st
      else answered [reply_op ce (monitor_text (ce_audio ce)),
             OpInsert (ce_client ce) (text_event WAIT_MONITOR (ce_monitor ce) [] None), OpMonitor (ce_client ce)] st)"

end
