(* ===== verification/Clients.thy ===== *)
theory Clients
  imports Execute Settings Daemon
begin

text \<open>Concrete clients of the daemon, for the examples of the theories on commands.\<close>

definition demo_audio :: audio_info where
  "demo_audio = \<lparr>ai_hostname = ''lab'', ai_uptime = 0, ai_precision = 16, ai_bufsize = 4096, ai_order = LITTLE_ENDIAN,
     ai_channels = 2, ai_device = ''audio'', ai_format = ULAW, ai_sample_rate = 8000, ai_curr_bufsize = 4096,
     ai_curr_rate = 10, ai_open = True\<rparr>"

definition demo_notify :: notify_env where
  "demo_notify = \<lparr>nv_now = 0, nv_timer = 0, nv_force = False, nv_playing = 0, nv_paused = 0, nv_volume = 50,
     nv_threshold = 0, nv_port = ''none''\<rparr>"

definition demo_file_sound :: cmd_sound where
  "demo_file_sound = \<lparr>ks_addr = 3, ks_name = ''a'', ks_status = SOUND_READY, ks_type = SOUND_FILE, ks_size = 5,
     ks_bits = ''8'', ks_rate = 8000, ks_channels = 1, ks_format = ULAW, ks_order = BIG_ENDIAN, ks_seconds = ''0.00''\<rparr>"

text \<open>A client at an address, whose device reads the volume \<open>vol\<close>.\<close>

definition demo_ce :: "hosts \<Rightarrow> string \<Rightarrow> int \<Rightarrow> cmd_env" where
  "demo_ce h addr vol = \<lparr>ce_client = 1, ce_sin = 7, ce_addr = addr, ce_auth = True, ce_hosts = h,
     ce_lookup = (\<lambda>s m. if s = ''a'' then Some demo_file_sound else None), ce_nsounds = 1, ce_first = (\<lambda>_. Some ''hello''),
     ce_insert = (\<lambda>_. Some 9), ce_cache_directory = ''c'', ce_cache_free = (\<lambda>_. True), ce_cache_create = (\<lambda>_ _. 5),
     ce_helper = (\<lambda>_. False), ce_sounds = [], ce_entries = [], ce_host_text = (\<lambda>_. ''10.0.0.1''), ce_now = 0,
     ce_servers = None, ce_host_list = None, ce_audio = demo_audio, ce_version = ''3.3'', ce_audio_enabled = True,
     ce_get_volume = (\<lambda>_. vol), ce_set_volume = (\<lambda>v. v), ce_audio_init = (\<lambda>_. (0, 2, 10)), ce_monitor = [],
     ce_spool = Daemon.demo_env, ce_find = demo_lookup, ce_set = RplaySet.demo_env, ce_notify = demo_notify,
     ce_play_notice = (\<lambda>_. \<lparr>pn_host = [], pn_volume = 0, pn_priority = 0, pn_count = 0, pn_seconds = [], pn_size = 0,
        pn_rate = 0, pn_channels = 0, pn_bits = [], pn_input = [], pn_left = 0, pn_right = 0\<rparr>),
     ce_rate = (\<lambda>_. 1), ce_rate_text = (\<lambda>_. ''1.00'')\<rparr>"

definition demo_state :: "server \<Rightarrow> cmd_state" where
  "demo_state s = \<lparr>cm_server = s, cm_volume = 50, cm_threshold = 0, cm_port = 2, cm_optional_port = 0,
     cm_optional = (FORMAT_NONE, 0, 0, 0), cm_rate = 10, cm_timeout = 0, cm_reset = False, cm_inserted = [],
     cm_flows = [], cm_deleted = []\<rparr>"

text \<open>Everyone may do everything.\<close>

definition open_hosts :: hosts where
  "open_hosts = (let x = close_expr (open_expr @ exprs [''*'']) in
     \<lparr>hs_read = x, hs_write = x, hs_execute = x, hs_monitor = x, hs_list = ([], [])\<rparr>)"

definition demo_client :: cmd_env where
  "demo_client = demo_ce open_hosts ''10.0.0.9'' 50"

definition demo_start :: cmd_state where
  "demo_start = demo_state (init_server demo_sounds)"

end
