(* ===== verification/Command.thy ===== *)
theory Command
  imports Clients
begin

text \<open>
  The commands of a client (\<open>command\<close>, \<open>do_command\<close>, \<open>command_wait\<close> of
  \<open>src/rplayd/command.c\<close>): the line is cut into words, the number of arguments is checked
  against the table, and the command is run.  The theorems say who may change what, that a
  command is answered once, and which lines the program cannot handle.
\<close>

unbundle bit_operations_syntax

section \<open>Dispatch\<close>

definition arity_ok :: "int \<Rightarrow> int \<Rightarrow> string list \<Rightarrow> bool" where
  "arity_ok lo hi args \<longleftrightarrow> \<not> (lo \<ge> 0 \<and> int (length args) < lo) \<and> \<not> (hi \<ge> 0 \<and> int (length args) > hi)"

definition client_conn :: "cmd_env \<Rightarrow> net \<Rightarrow> cmd_crash + connection" where
  "client_conn ce n = (case find (\<lambda>c. cn_addr c = ce_client ce) (nt_conns n) of
     None \<Rightarrow> Inl BadPointer | Some c \<Rightarrow> Inr c)"

text \<open>All commands but \<open>wait\<close>.\<close>

definition run_command :: "cmd_env \<Rightarrow> net \<Rightarrow> string list \<Rightarrow> string \<Rightarrow> cmd_state \<Rightarrow> answer" where
  "run_command ce n argv buf st =
     (let name = hd argv
      in if name = ''access'' then command_access ce buf st
         else if name = ''application'' then command_application ce argv st
         else if name \<in> {''continue'', ''done'', ''pause'', ''play'', ''stop''} then command_execute ce argv buf st
         else if name = ''find'' then command_find ce argv buf st
         else if name = ''get'' then command_get ce argv buf st
         else if name = ''help'' then command_help ce st
         else if name = ''info'' then command_info ce argv buf st
         else if name = ''list'' then command_list ce n argv buf st
         else if name = ''modify'' then command_modify ce buf st
         else if name = ''monitor'' then command_monitor ce st
         else if name = ''put'' then command_put ce argv buf st
         else if name = ''quit'' then Inr (st, [], False)
         else if name = ''reset'' then command_reset ce buf st
         else if name = ''set'' then bindE (client_conn ce n) (\<lambda>c. command_set ce c buf st)
         else if name = ''skip'' then command_skip ce buf st
         else if name = ''status'' then command_status ce st
         else if name = ''version'' then command_version ce buf st
         else command_volume ce argv st)"

definition usage_reply :: "cmd_env \<Rightarrow> string \<Rightarrow> cmd_state \<Rightarrow> answer" where
  "usage_reply ce name st = answered [reply_op ce (''-error='' @ quoted (''usage: '' @ name @ '' '' @ usage_of name))] st"

text \<open>\<open>wait\<close> with anything but an event or \<open>play\<close> runs the rest of its line as a command.\<close>

fun do_command :: "cmd_env \<Rightarrow> net \<Rightarrow> string list \<Rightarrow> string \<Rightarrow> cmd_state \<Rightarrow> answer" where
  "do_command ce n [] buf st = Inr (st, [], True)"
| "do_command ce n (name # args) buf st =
     (case map_of commands name of
        None \<Rightarrow> command_unknown ce (name # args) buf st
      | Some (lo, hi, _) \<Rightarrow>
          if \<not> arity_ok lo hi args then usage_reply ce name st
          else if name \<noteq> ''wait'' then run_command ce n (name # args) buf st
          else if args = [] then answered [wait_op ce (0xFFFFFFFF, 0)] st
          else if length args = 1 \<and> new_style (hd args) then wait_pair ce (hd args) (kept_data buf) st
          else if hd args = ''play'' then wait_play ce args buf st
          else bindE (joined args) (\<lambda>buf'. do_command ce n args buf' st))"

definition command :: "cmd_env \<Rightarrow> net \<Rightarrow> string \<Rightarrow> cmd_state \<Rightarrow> answer" where
  "command ce n line st = do_command ce n (arguments line) (take RPTP_MAX_LINE line) st"

section \<open>What a client without access can do\<close>

text \<open>Operations on the client's own connection.\<close>

fun own_op :: "nat \<Rightarrow> net_op \<Rightarrow> bool" where
  "own_op a (OpReply b _) = (a = b)"
| "own_op a (OpInsert b _) = (a = b)"
| "own_op a (OpApplication b _) = (a = b)"
| "own_op a (OpMonitor b) = (a = b)"
| "own_op a _ = False"

definition harmless :: "cmd_env \<Rightarrow> cmd_state \<Rightarrow> answer \<Rightarrow> bool" where
  "harmless ce st r \<longleftrightarrow> (case r of Inl _ \<Rightarrow> True | Inr (st', ops, _) \<Rightarrow> st' = st \<and> list_all (own_op (ce_client ce)) ops)"

named_theorems harmless_simps

lemma harmless_answered [harmless_simps]:
  "harmless ce st (answered ops st') \<longleftrightarrow> st' = st \<and> list_all (own_op (ce_client ce)) ops"
  by (simp add: harmless_def answered_def)

lemma harmless_Inl [harmless_simps]: "harmless ce st (Inl e)"
  by (simp add: harmless_def)

lemma harmless_Inr [harmless_simps]: "harmless ce st (Inr (st', ops, k)) \<longleftrightarrow> st' = st \<and> list_all (own_op (ce_client ce)) ops"
  by (simp add: harmless_def)

lemma harmless_bind [harmless_simps]:
  "harmless ce st (bindE r f) \<longleftrightarrow> (\<forall>x. r = Inr x \<longrightarrow> harmless ce st (f x))"
  by (cases r) (auto simp: harmless_def)

lemma own_reply [harmless_simps]:
  "own_op (ce_client ce) (reply_op ce s)" "own_op (ce_client ce) (write_op ce bs)" "own_op (ce_client ce) (wait_op ce mi)"
  "own_op (ce_client ce) (volume_failed ce)" "own_op (ce_client ce) (kept_op ce bs)"
  by (simp_all add: kept_op_def reply_op_def write_op_def wait_op_def volume_failed_def)

lemma own_simps [harmless_simps]:
  "own_op a (OpInsert a e)" "own_op a (OpApplication a s)" "own_op a (OpMonitor a)"
  by simp_all

lemma queries_harmless:
  "harmless ce st (command_access ce buf st)" "harmless ce st (command_application ce argv st)"
  "harmless ce st (command_find ce argv buf st)" "harmless ce st (command_get ce argv buf st)"
  "harmless ce st (command_help ce st)" "harmless ce st (command_info ce argv buf st)"
  "harmless ce st (command_list ce n argv buf st)" "harmless ce st (command_monitor ce st)"
  "harmless ce st (command_status ce st)" "harmless ce st (command_version ce buf st)"
  "harmless ce st (command_unknown ce argv buf st)" "harmless ce st (usage_reply ce name st)"
  "harmless ce st (wait_pair ce w d st)"
  by (auto simp: harmless_simps command_access_def command_application_def command_find_def command_get_def
      command_help_def command_info_def command_list_def command_monitor_def command_status_def command_version_def
      command_unknown_def usage_reply_def wait_pair_def Let_def split: option.splits list.splits prod.splits)

lemma denied_execute:
  assumes "\<not> may ce CHR ''x''"
  shows "do_execute ce argv buf st = Inr (-1, [reply_op ce (error_text (hd argv) ''access denied'' (data_of buf))], st)"
  using assms by (simp add: do_execute_def refuse_def)

lemma denied_harmless:
  assumes "\<not> may ce CHR ''x''"
  shows "harmless ce st (command_execute ce argv buf st)" "harmless ce st (command_modify ce buf st)"
    "harmless ce st (command_reset ce buf st)" "harmless ce st (command_set ce c buf st)"
    "harmless ce st (command_skip ce buf st)" "harmless ce st (command_volume ce argv st)"
    "harmless ce st (wait_play ce argv buf st)"
  using assms by (simp_all add: harmless_simps command_execute_def denied_execute [OF assms] command_modify_def command_reset_def
      command_set_def command_skip_def command_volume_def wait_play_def Let_def)

lemma denied_put: "\<not> may ce CHR ''w'' \<Longrightarrow> harmless ce st (command_put ce argv buf st)"
  by (simp add: harmless_simps command_put_def Let_def)

lemma denied_run:
  assumes "\<not> may ce CHR ''x''" "\<not> may ce CHR ''w''"
  shows "harmless ce st (run_command ce n argv buf st)"
  by (simp add: run_command_def Let_def harmless_simps queries_harmless denied_harmless [OF assms(1)] denied_put [OF assms(2)])

lemma denied_command:
  assumes "\<not> may ce CHR ''x''" "\<not> may ce CHR ''w''"
  shows "harmless ce st (do_command ce n argv buf st)"
  using assms
proof (induction ce n argv buf st rule: do_command.induct)
  case (1 ce n buf st)
  then show ?case by (simp add: harmless_simps)
next
  case (2 ce n name args buf st)
  note d = denied_harmless [OF "2.prems"(1)] denied_run [OF "2.prems"] queries_harmless
  show ?case
    unfolding do_command.simps(2)
    using "2.IH" "2.prems" by (auto simp: harmless_simps d split: option.split simp del: do_command.simps)
qed
section \<open>What can go wrong\<close>

definition fails_in :: "cmd_crash set \<Rightarrow> cmd_crash + 'a \<Rightarrow> bool" where
  "fails_in E r \<longleftrightarrow> (case r of Inl e \<Rightarrow> e \<in> E | Inr _ \<Rightarrow> True)"

named_theorems fails_simps

lemma fails_basic [fails_simps]:
  "fails_in E (Inl e) \<longleftrightarrow> e \<in> E" "fails_in E (Inr x)" "fails_in E (answered ops st)"
  by (simp_all add: fails_in_def answered_def)

lemma fails_if: "(P \<Longrightarrow> fails_in E a) \<Longrightarrow> (\<not> P \<Longrightarrow> fails_in E b) \<Longrightarrow> fails_in E (if P then a else b)"
  by simp

lemma fails_bind [fails_simps]:
  "fails_in E (bindE r f) \<longleftrightarrow> fails_in E r \<and> (\<forall>x. r = Inr x \<longrightarrow> fails_in E (f x))"
  by (cases r) (simp_all add: fails_in_def)

lemma fails_of_spool: "range SpoolCrash \<subseteq> E \<Longrightarrow> fails_in E (of_spool r)"
  by (cases r) (auto simp: of_spool_def fails_in_def)

lemma fails_mono: "E \<subseteq> E' \<Longrightarrow> fails_in E r \<Longrightarrow> fails_in E' r"
  by (cases r) (auto simp: fails_in_def)

lemma fails_arg: "i < length argv \<Longrightarrow> fails_in E (arg argv i)"
  by (simp add: arg_def fails_in_def)

lemma fails_named: "1 < length argv \<Longrightarrow> fails_in E (named_sound argv buf)"
  by (auto simp: named_sound_def fails_simps fails_arg split: option.split)

text \<open>The commands that are always carried out, when their arguments have been counted.\<close>

lemma sure_commands:
  "fails_in E (command_access ce buf st)" "fails_in E (command_help ce st)"
  "fails_in E (command_monitor ce st)" "fails_in E (command_status ce st)" "fails_in E (command_version ce buf st)"
  "fails_in E (command_unknown ce argv buf st)" "fails_in E (usage_reply ce name st)"
  "fails_in E (command_reset ce buf st)" "fails_in E (command_volume ce argv st)"
  by (auto simp: fails_simps command_access_def command_help_def command_monitor_def command_status_def
      command_version_def command_unknown_def usage_reply_def command_reset_def command_volume_def set_volume_def
      Let_def split: list.split)

lemma named_commands:
  assumes "1 < length argv"
  shows "fails_in E (command_find ce argv buf st)" "fails_in E (command_get ce argv buf st)"
    "fails_in E (command_info ce argv buf st)"
  using assms by (auto simp: fails_simps fails_named command_find_def command_get_def command_info_def Let_def
      split: option.split prod.split)

lemma list_fails: "fails_in {Unlisted} (command_list ce n argv buf st)"
  by (auto simp: fails_simps command_list_def listed_def Let_def split: option.split sum.split)

lemma words_chars: "w \<in> set (words seps s) \<Longrightarrow> set w \<subseteq> set s"
proof (induction seps s arbitrary: w rule: words.induct)
  case (1 seps s)
  show ?case
  proof (cases "dropWhile (\<lambda>c. c \<in> seps) s")
    case Nil
    then have "words seps s = []" by (subst words.simps) (simp only: Nil list.case)
    then show ?thesis using 1(2) by simp
  next
    case (Cons c r)
    then have s: "set (c # r) \<subseteq> set s" by (metis set_dropWhileD subsetI)
    have "w = c # takeWhile (\<lambda>c. c \<notin> seps) r \<or> w \<in> set (words seps (dropWhile (\<lambda>c. c \<notin> seps) r))"
      using 1(2) Cons by (subst (asm) words.simps) simp
    then show ?thesis
    proof
      assume "w \<in> set (words seps (dropWhile (\<lambda>c. c \<notin> seps) r))"
      from 1(1) [OF Cons this] have "set w \<subseteq> set r" using set_dropWhileD by fast
      then show ?thesis using s by auto
    qed (use s in \<open>auto dest: set_takeWhileD\<close>)
  qed
qed

lemma argument_chars: "w \<in> set (arguments line) \<Longrightarrow> set w \<subseteq> set line"
  unfolding arguments_def by (meson in_set_takeD words_chars)

text \<open>A client without access only comes to grief over a format, its freed data or a list.\<close>

definition may_fail :: "cmd_crash set \<Rightarrow> string list \<Rightarrow> bool" where
  "may_fail E argv \<longleftrightarrow> FreedText \<in> E \<and> Unlisted \<in> E
     \<and> (PercentText \<in> E \<or> \<not> list_ex (\<lambda>w. CHR ''%'' \<in> set w) argv)"

lemma denied_fails:
  assumes "\<not> may ce CHR ''x''"
  shows "fails_in E (command_execute ce argv buf st)" "fails_in E (command_modify ce buf st)"
    "fails_in E (command_set ce c buf st)"
    "fails_in E (command_skip ce buf st)"
    "fails_in E (wait_play ce argv buf st)"
  using assms by (simp_all add: fails_simps command_execute_def denied_execute [OF assms] command_modify_def
      command_set_def command_skip_def wait_play_def Let_def)

lemma denied_put_fails: "\<not> may ce CHR ''w'' \<Longrightarrow> fails_in E (command_put ce argv buf st)"
  by (simp add: command_put_def fails_simps Let_def)

lemma may_fail_parts:
  assumes "may_fail E args"
  shows "fails_in E (joined args)" "fails_in E (command_list ce n argv buf st)" "fails_in E (wait_pair ce w d st)"
proof -
  show "fails_in E (joined args)" using assms by (auto simp: may_fail_def joined_def fails_simps)
  show "fails_in E (command_list ce n argv buf st)"
    by (rule fails_mono [OF _ list_fails]) (use assms in \<open>simp add: may_fail_def\<close>)
  show "fails_in E (wait_pair ce w d st)"
    using assms by (auto simp: may_fail_def wait_pair_def use_data_def fails_simps split: option.split list.split)
qed

lemma denied_run_fails:
  assumes "\<not> may ce CHR ''x''" "\<not> may ce CHR ''w''" "client_conn ce n = Inr c" "may_fail E args"
    and "map_of commands name = Some (lo, hi, u)" "arity_ok lo hi args"
  shows "fails_in E (run_command ce n (name # args) buf st)"
proof -
  have n: "1 < length (name # args)" if "name \<in> {''find'', ''get'', ''info''}"
    using assms(5,6) that by (auto simp: commands_def arity_ok_def)
  show ?thesis
    using n by (simp add: run_command_def Let_def command_application_def fails_simps sure_commands named_commands
        denied_fails [OF assms(1)] denied_put_fails [OF assms(2)] may_fail_parts [OF assms(4)] assms(3))
qed

lemma denied_command_fails:
  assumes "\<not> may ce CHR ''x''" "\<not> may ce CHR ''w''" "client_conn ce n = Inr c" "may_fail E argv"
  shows "fails_in E (do_command ce n argv buf st)"
  using assms
proof (induction ce n argv buf st rule: do_command.induct)
  case (2 ce n name args buf st)
  have m: "may_fail E args" using "2.prems"(4) by (auto simp: may_fail_def)
  show ?case
    unfolding do_command.simps(2)
    using "2.IH" "2.prems"(1-3) m denied_run_fails [OF "2.prems"(1-3) m]
    by (auto simp: fails_simps sure_commands denied_fails may_fail_parts [OF m] split: option.split simp del: do_command.simps)
qed (simp add: fails_simps)

section \<open>Every command is answered once\<close>

fun answers :: "net_op \<Rightarrow> nat" where
  "answers (OpReply _ _) = 1"
| "answers (OpInsert _ e) = (if ev_type e = WRITE then 1 else 0)"
| "answers _ = 0"

definition total_answers :: "net_op list \<Rightarrow> nat" where
  "total_answers ops = sum_list (map answers ops)"

definition once :: "answer \<Rightarrow> bool" where
  "once r \<longleftrightarrow> (case r of Inl _ \<Rightarrow> True | Inr (_, ops, _) \<Rightarrow> total_answers ops = 1)"

named_theorems once_simps

lemma total_answers_simps [once_simps]:
  "total_answers [] = 0" "total_answers (k # ops) = answers k + total_answers ops"
  "total_answers (ops @ ops') = total_answers ops + total_answers ops'"
  by (simp_all add: total_answers_def)

lemma answers_simps [once_simps]:
  "answers (reply_op ce s) = 1" "answers (write_op ce bs) = 1" "answers (volume_failed ce) = 1" "answers (wait_op ce mi) = 0"
  "answers (kept_op ce bs) = 1"
  by (simp_all add: kept_op_def reply_op_def write_op_def volume_failed_def wait_op_def notify_event_def text_event_def blank_event_def)

lemma event_types [once_simps]:
  "ev_type (blank_event t) = t" "ev_type (text_event t s bs x) = t" "ev_type (pipe_flow_event i y) = PIPE_FLOW"
  "ev_type (read_flow_event i k) = READ_FLOW" "ev_type (read_sound_event fd k y) = READ_SOUND"
  "write_sound_event y k f = Some e \<Longrightarrow> ev_type e = WRITE_SOUND"
  by (auto simp: text_event_def blank_event_def pipe_flow_event_def read_flow_event_def read_sound_event_def
      write_sound_event_def Let_def)

lemma once_answered [once_simps]: "once (answered ops st) \<longleftrightarrow> total_answers ops = 1"
  by (simp add: once_def answered_def)

lemma once_Inl [once_simps]: "once (Inl e)"
  by (simp add: once_def)

lemma once_bind [once_simps]: "once (bindE r f) \<longleftrightarrow> (\<forall>x. r = Inr x \<longrightarrow> once (f x))"
  by (cases r) (auto simp: once_def)

lemma queries_once:
  "once (command_access ce buf st)" "once (command_application ce argv st)" "once (command_find ce argv buf st)"
  "once (command_get ce argv buf st)" "once (command_help ce st)" "once (command_info ce argv buf st)"
  "once (command_list ce n argv buf st)" "once (command_monitor ce st)" "once (command_status ce st)"
  "once (command_version ce buf st)" "once (command_unknown ce argv buf st)" "once (usage_reply ce name st)"
  "once (command_reset ce buf st)" "once (command_skip ce buf st)"
  by (auto simp: once_simps command_access_def command_application_def command_find_def command_get_def
      command_help_def command_info_def command_list_def command_monitor_def command_status_def command_version_def
      command_unknown_def usage_reply_def command_reset_def command_skip_def Let_def
      split: option.splits list.splits prod.splits)

lemma put_once: "once (command_put ce argv buf st)"
proof -
  have f: "once (put_flow ce i k d st)" for i k d
    by (simp add: put_flow_def Let_def once_simps split: option.split)
  have "once (put_file ce pairs s k d st)" for pairs s k d
    by (simp add: put_file_def Let_def once_simps split: option.split)
  then show ?thesis
    using f by (simp add: once_simps command_put_def Let_def split: option.split)
qed

lemma volume_once:
  assumes "0 \<le> ce_get_volume ce (cm_volume st)"
  shows "once (command_volume ce argv st)"
  using assms by (auto simp: once_simps command_volume_def set_volume_def Let_def split: list.split)

text \<open>The outcome of \<open>do_execute\<close>: a list that plays is not answered yet.\<close>

definition outcome_once :: "outcome \<Rightarrow> bool" where
  "outcome_once r \<longleftrightarrow> (case r of Inl _ \<Rightarrow> True | Inr (i, ops, _) \<Rightarrow> total_answers ops = (if i > 0 then 0 else 1))"

lemma outcome_simps [once_simps]:
  "outcome_once (Inl e)" "outcome_once (refuse ce s st)"
  "outcome_once (Inr (i, ops, st)) \<longleftrightarrow> total_answers ops = (if i > 0 then 0 else 1)"
  "outcome_once (bindE r f) \<longleftrightarrow> (\<forall>x. r = Inr x \<longrightarrow> outcome_once (f x))"
  by (cases r; auto simp: outcome_once_def refuse_def once_simps)+

lemma do_execute_once: "outcome_once (do_execute ce argv buf st)"
proof -
  have r: "outcome_once (run_request ce cmd po obj st)" for cmd po obj
    by (auto simp: run_request_def once_simps Let_def)
  have f: "outcome_once (run_flow ce cmd po obj st)" for cmd po obj
    by (auto simp: run_flow_def start_flow_def refuse_with_def once_simps Let_def split: sum.split rplay_value.split
        option.split perror.split prod.split)
  show ?thesis
    by (auto simp: do_execute_def refuse_with_def once_simps r f Let_def split: sum.split option.split)
qed

lemma execute_once: "once (command_execute ce argv buf st)"
  using do_execute_once [of ce argv buf st] by (auto simp: command_execute_def once_simps)

lemma modify_ops:
  assumes "foldE (modify_one ce steps) as (st, ops) = Inr (st', ops')"
  shows "total_answers ops' = total_answers ops"
  using assms
proof (induction "as" arbitrary: st ops)
  case (Cons a "as")
  then obtain st1 ops1 where m: "modify_one ce steps a (st, ops) = Inr (st1, ops1)"
    and f: "foldE (modify_one ce steps) as (st1, ops1) = Inr (st', ops')" by auto
  have "total_answers ops1 = total_answers ops"
    using m by (auto simp: modify_one_def once_simps Let_def split: if_splits)
  then show ?case using Cons.IH [OF f] by simp
qed simp

lemma modify_once: "once (command_modify ce buf st)"
  by (auto simp: once_simps command_modify_def Let_def dest!: modify_ops split: option.split list.split)

lemma set_pair_ops:
  assumes "set_pair ce nv r = Inr r'"
  shows "total_answers (sr_ops r') = total_answers (sr_ops r)"
proof -
  have a: "sr_ops r2 = sr_ops r1" if "add_text s r1 = Inr r2" for s r1 r2
    using that by (auto simp: add_text_def Let_def split: if_splits)
  obtain n v where nv: "nv = (n, v)" by fastforce
  let ?same = "\<lambda>r1. total_answers (sr_ops r1) = total_answers (sr_ops r)"
  have "set_application ce v r = Inr r1 \<Longrightarrow> ?same r1" "set_notify ce v r = Inr r1 \<Longrightarrow> ?same r1"
    "set_volume_pair ce v r = Inr r1 \<Longrightarrow> ?same r1" "set_threshold v r = Inr r1 \<Longrightarrow> ?same r1"
    "set_rate ce l p v r = Inr r1 \<Longrightarrow> ?same r1" "set_port ce v r = Inr r1 \<Longrightarrow> ?same r1"
    "set_info ce v r = Inr r1 \<Longrightarrow> ?same r1" "set_timeout v r = Inr r1 \<Longrightarrow> ?same r1" for r1 l p
    by (auto simp: set_application_def set_notify_def set_volume_pair_def set_threshold_def set_rate_def
        set_port_def set_info_def set_timeout_def add_op_def upd_state_def once_simps Let_def
        case_prod_beta dest!: a split: if_splits)
  note same = this
  have "\<exists>r1. ?same r1 \<and> add_text '' '' r1 = Inr r'"
    using assms unfolding nv set_pair_def prod.case bindE_Inr
    by (auto dest: same a split: if_splits) (metis a)
  then show ?thesis using a by auto
qed

lemma set_once: "once (command_set ce c buf st)"
proof -
  have f: "total_answers (sr_ops r') = total_answers (sr_ops r)" if "foldE (set_pair ce) nvs r = Inr r'" for nvs r r'
    using that
  proof (induction nvs arbitrary: r)
    case (Cons nv nvs)
    then obtain r1 where "set_pair ce nv r = Inr r1" "foldE (set_pair ce) nvs r1 = Inr r'" by auto
    then show ?case using Cons.IH set_pair_ops by simp
  qed simp
  have t: "sr_ops r2 = sr_ops r1" if "add_text s r1 = Inr r2" for s r1 r2
    using that by (auto simp: add_text_def Let_def split: if_splits)
  have s: "total_answers ops = 0" if "subscribe_ops ce st' = Inr ops" for st' ops
    using that by (auto simp: subscribe_ops_def once_simps total_answers_def)
  have "once (set_result ce r)" if "total_answers (sr_ops r) = 0" for r
    using that by (auto simp: set_result_def once_simps Let_def dest!: s)
  then show ?thesis
    by (auto simp: command_set_def once_simps Let_def start_set_def dest!: f t)
qed

text \<open>How a command can fail to be carried out.  Of a command that plays sounds or changes those that
  play, only what is shown elsewhere of the spool excludes more.\<close>

definition command_errors :: "string \<Rightarrow> string \<Rightarrow> cmd_crash set" where
  "command_errors name line =
     (if name \<in> {''continue'', ''done'', ''pause'', ''play'', ''stop''} then UNIV
      else if name = ''put'' then insert NullString (range SpoolCrash)
      else if name = ''modify'' then range SpoolCrash
      else if name = ''skip'' then insert PastEnd (range SpoolCrash)
      else if name = ''set'' then {PastEnd, DivideByValue, FreedText} \<union> range SpoolCrash
      else if name = ''list'' then {Unlisted}
      else if name = ''application'' \<and> CHR ''%'' \<in> set line then {PercentText}
      else {})"

lemma put_fails:
  assumes "insert NullString (range SpoolCrash) \<subseteq> E" "2 < length argv"
  shows "fails_in E (command_put ce argv buf st)"
proof -
  have s: "fails_in E (of_spool r)" for r :: "'a result" using assms(1) by (auto intro: fails_of_spool)
  have f: "fails_in E (put_flow ce i k d st)" for i k d
    by (simp add: put_flow_def Let_def fails_simps s split: option.split)
  have "fails_in E (put_file ce pairs sn k d st)" for pairs sn k d
    using assms(1) by (simp add: put_file_def Let_def fails_simps split: option.split)
  then show ?thesis
    using f assms(2) by (simp add: command_put_def Let_def fails_simps fails_arg split: option.split)
qed

lemma fails_foldE:
  assumes "\<And>x s. x \<in> set xs \<Longrightarrow> fails_in E (f x s)"
  shows "fails_in E (foldE f xs s)"
  using assms by (induction xs arbitrary: s) (simp_all add: fails_simps)

lemma modify_fails: "range SpoolCrash \<subseteq> E \<Longrightarrow> fails_in E (command_modify ce buf st)"
  by (auto simp: command_modify_def modify_one_def Let_def fails_simps split_def
      intro!: fails_foldE fails_of_spool split: option.split list.split)

lemma skip_fails: "insert PastEnd (range SpoolCrash) \<subseteq> E \<Longrightarrow> fails_in E (command_skip ce buf st)"
  by (auto simp: command_skip_def id_number_def Let_def fails_simps
      intro!: fails_of_spool split: option.split list.split)

lemma set_fails:
  assumes "{PastEnd, DivideByValue, FreedText} \<union> range SpoolCrash \<subseteq> E"
  shows "fails_in E (command_set ce c buf st)"
proof -
  have t: "fails_in E (add_text x r)" for x r using assms by (simp add: add_text_def Let_def fails_simps)
  have v: "fails_in E (new_volume k v)" for k v using assms by (simp add: new_volume_def fails_simps split: list.split)
  have s: "fails_in E (of_spool r)" for r :: "'a result" using assms by (auto intro: fails_of_spool)
  have s': "fails_in E (of_spool r)" for r :: "'b result" using assms by (auto intro: fails_of_spool)
  have p: "fails_in E (set_pair ce nv r)" for nv r
    by (simp add: set_pair_def set_application_def set_notify_def set_volume_pair_def set_threshold_def set_rate_def
        set_port_def set_info_def set_timeout_def fails_simps Let_def t v split_def s)
  have u: "fails_in E (use_data d)" for d using assms by (simp add: use_data_def fails_simps split: option.split)
  show ?thesis
    by (simp add: command_set_def set_result_def subscribe_ops_def fails_simps Let_def t u s' fails_foldE p)
qed

lemma run_fails:
  assumes "map_of commands name = Some (lo, hi, usage)" "arity_ok lo hi args" "client_conn ce n = Inr c"
    and "list_all (\<lambda>w. set w \<subseteq> set line) args"
  shows "fails_in (command_errors name line) (run_command ce n (name # args) buf st)"
proof -
  have n: "1 < length (name # args)" if "name \<in> {''find'', ''get'', ''info''}"
    using assms(1,2) that by (auto simp: commands_def arity_ok_def)
  have p: "2 < length (name # args)" if "name = ''put''"
    using assms(1,2) that by (auto simp: commands_def arity_ok_def)
  define argv where "argv = name # args"
  define E where "E = command_errors name line"
  have exec: "fails_in E (command_execute ce argv buf st)" if "name \<in> {''continue'', ''done'', ''pause'', ''play'', ''stop''}"
  proof -
    have "E = UNIV" using that by (simp add: E_def command_errors_def)
    then show ?thesis by (cases "command_execute ce argv buf st") (simp_all add: fails_in_def)
  qed
  have appl: "fails_in E (joined args)" if "name = ''application''"
    using assms(4) that by (auto simp: E_def command_errors_def joined_def fails_simps list_ex_iff list_all_iff)
  have lst: "fails_in E (command_list ce n argv buf st)" if "name = ''list''"
    using list_fails that by (simp add: E_def command_errors_def)
  have put: "fails_in E (command_put ce argv buf st)" if "name = ''put''"
    by (rule put_fails) (use p that in \<open>simp_all add: E_def command_errors_def argv_def\<close>)
  have modify: "fails_in E (command_modify ce buf st)" if "name = ''modify''"
    by (rule modify_fails) (use that in \<open>simp add: E_def command_errors_def\<close>)
  have skip: "fails_in E (command_skip ce buf st)" if "name = ''skip''"
    by (rule skip_fails) (use that in \<open>simp add: E_def command_errors_def\<close>)
  have "set": "fails_in E (command_set ce c buf st)" if "name = ''set''"
    by (rule set_fails) (use that in \<open>simp add: E_def command_errors_def\<close>)
  have named: "fails_in E (command_find ce argv buf st)" "fails_in E (command_get ce argv buf st)"
    "fails_in E (command_info ce argv buf st)" if "name \<in> {''find'', ''get'', ''info''}"
    using n that by (simp_all add: named_commands argv_def)
  have h: "hd argv = name" "tl argv = args" by (simp_all add: argv_def)
  have "fails_in E (run_command ce n argv buf st)"
    unfolding run_command_def Let_def h
  proof (intro fails_if)
    show "fails_in E (command_application ce argv st)" if "name = ''application''"
      using appl [OF that] by (simp add: command_application_def fails_simps h)
    show "fails_in E (bindE (client_conn ce n) (\<lambda>c. command_set ce c buf st))" if "name = ''set''"
      using "set" [OF that] by (simp add: assms(3))
  qed (simp_all only: exec lst put modify skip named sure_commands fails_basic insertI1 insert_iff simp_thms)
  then show ?thesis by (simp add: E_def argv_def)
qed

lemma once_or_fails:
  "once r \<Longrightarrow> fails_in E r \<Longrightarrow> case r of Inr (st', ops, keep) \<Rightarrow> total_answers ops = 1 | Inl e \<Rightarrow> e \<in> E"
  by (cases r) (auto simp: once_def fails_in_def)



text \<open>When the volume cannot be read, \<open>volume +n\<close> is answered twice.\<close>

lemma volume_answers_twice:
  assumes "may ce CHR ''x''" "ce_get_volume ce (cm_volume st) < 0" "v = CHR ''+'' # cs"
    "command_volume ce [''volume'', v] st = Inr (st', ops, keep)"
  shows "total_answers ops = 2"
  using assms by (auto simp: command_volume_def set_volume_def Let_def answered_def once_simps split: if_splits)

section \<open>Access\<close>


definition guest :: cmd_env where
  "guest = (case demo_hosts of Inl _ \<Rightarrow> demo_client | Inr h \<Rightarrow> demo_ce h ''10.9.9.9'' 50)"


end
