(* ===== verification/PlayRequest.thy ===== *)
theory PlayRequest
  imports Clients
begin

text \<open>
  What a client asks for: the pairs of a line name sounds, and the values given before a sound
  are those it is played with.  The linked list that \<open>do_execute\<close> builds with the calls of the
  library is that list of sounds, and nothing else reaches the daemon.
\<close>

section \<open>The sounds of a line\<close>

definition names_sound :: "string \<Rightarrow> string \<Rightarrow> bool" where
  "names_sound cmd n \<longleftrightarrow> n = ''sound'' \<or> (cmd \<noteq> ''play'' \<and> n = ''id'')"

definition data_text :: "play_opts \<Rightarrow> string" where
  "data_text po = (case po_data po of None \<Rightarrow> [] | Some d \<Rightarrow> d)"

text \<open>A sound with the values in force.\<close>

definition sound_values :: "set_env \<Rightarrow> play_opts \<Rightarrow> string \<Rightarrow> rplay_attrs \<Rightarrow> rplay_attrs" where
  "sound_values env po v a = a\<lparr>a_sound := bytes_of v, a_volume_l := to_int (po_left po),
     a_volume_r := to_int (po_right po), a_count := to_int (po_count po),
     a_sample_rate := to_ulong (e_abi env) (po_rate po), a_rptp_search := (if po_search po then 1 else 0),
     a_client_data := bytes_of (data_text po)\<rparr>"

definition asked_sound :: "set_env \<Rightarrow> play_opts \<Rightarrow> string \<Rightarrow> rplay_attrs" where
  "asked_sound env po v = sound_values env po v rplay_attrs_create"

fun asked :: "set_env \<Rightarrow> string \<Rightarrow> (string \<times> string) list \<Rightarrow> play_opts \<Rightarrow> rplay_attrs list" where
  "asked env cmd [] po = []"
| "asked env cmd ((n, v) # ps) po =
     (if v = [] then asked env cmd ps po
      else if names_sound cmd n then asked_sound env po v # asked env cmd ps po
      else asked env cmd ps (pair_option n v po))"

fun final_opts :: "string \<Rightarrow> (string \<times> string) list \<Rightarrow> play_opts \<Rightarrow> play_opts" where
  "final_opts cmd [] po = po"
| "final_opts cmd ((n, v) # ps) po =
     final_opts cmd ps (if v = [] \<or> names_sound cmd n then po else pair_option n v po)"

text \<open>The client's data is used while it points to freed text: for a sound, or for the answer.\<close>

fun uses_freed :: "string \<Rightarrow> (string \<times> string) list \<Rightarrow> play_opts \<Rightarrow> bool" where
  "uses_freed cmd [] po = (po_data po = None)"
| "uses_freed cmd ((n, v) # ps) po =
     (if v = [] then uses_freed cmd ps po
      else if names_sound cmd n then po_data po = None \<or> uses_freed cmd ps po
      else uses_freed cmd ps (pair_option n v po))"

lemma used_data: "po_data po \<noteq> None \<Longrightarrow> use_data (po_data po) = Inr (data_text po)"
  by (auto simp: use_data_def data_text_def)

lemma final_data: "\<not> uses_freed cmd ps po \<Longrightarrow> po_data (final_opts cmd ps po) \<noteq> None"
  by (induction cmd ps po rule: uses_freed.induct) (auto split: if_splits)

section \<open>The object that is built\<close>

lemma upd_attrs_twice: "upd_attrs p f (upd_attrs p g rp) = upd_attrs p (\<lambda>a. f (g a)) rp"
  by (auto simp: upd_attrs_def fun_eq_iff option.map_comp comp_def split_def)

lemma set_loop_step:
  "set_loop env (VLong k # args) p rp =
     (if to_int k = 0 then (rp, None)
      else case set_attribute env (to_int k) args p rp of
        Inl e \<Rightarrow> (rp, Some e) | Inr (rp', args') \<Rightarrow> set_loop env args' p rp')"
  by (subst set_loop.simps) simp

lemma sound_args_loop:
  "set_loop env (tl (sound_args po (Some (data_text po)) v)) p rp = (upd_attrs p (sound_values env po v) rp, None)"
proof -
  have i: "to_int 5 = 5" "to_int 32 = 32" "to_int 33 = 33" "to_int 13 = 13" "to_int 22 = 22" "to_int 20 = 20"
    "to_int 25 = 25" "to_int 0 = 0" "to_int 1 = 1" by (simp_all add: to_int_def)
  show ?thesis
    by (simp add: sound_args_def set_loop_step i set_attribute_def with_long_def with_str_def upd_attrs_twice
        sound_values_def [abs_def])
qed

text \<open>The nodes and the attributes in them after one more sound.\<close>

definition holds :: "rplay_obj \<Rightarrow> nat list \<Rightarrow> rplay_attrs list \<Rightarrow> bool" where
  "holds obj ps as \<longleftrightarrow> rep obj ps \<and> map (node_attrs (o_nodes obj)) ps = as"

lemma holds_pack:
  "holds obj ps as \<Longrightarrow> holds (fst (pack_obj abi obj)) ps as"
  using same_links_rep [OF pack_obj_same_links]
  by (auto simp: holds_def pack_obj_def rplay_pack_def Let_def split: option.splits prod.splits)

lemma holds_upd:
  assumes "holds obj (ps @ [p]) (as @ [x])"
  shows "holds (upd_attrs p f obj) (ps @ [p]) (as @ [f x])"
proof -
  have r: "rep obj (ps @ [p])" and m: "map (node_attrs (o_nodes obj)) ps = as" "node_attrs (o_nodes obj) p = x"
    using assms by (auto simp: holds_def)
  have "rep (upd_attrs p f obj) (ps @ [p])" by (rule same_links_rep [OF same_links_upd_attrs r])
  moreover have "p \<notin> set ps" "p \<in> dom (o_nodes obj)" using r rep_dom [OF r] by (auto simp: rep_def)
  ultimately show ?thesis using m by (auto simp: holds_def upd_attrs_def node_attrs_def split: option.splits prod.splits)
qed

lemma pack_header:
  "r_command (fst (pack_obj abi obj)) = r_command obj" "r_count (fst (pack_obj abi obj)) = r_count obj"
  "r_priority (fst (pack_obj abi obj)) = r_priority obj" "r_list_name (fst (pack_obj abi obj)) = r_list_name obj"
  "r_nsounds (fst (pack_obj abi obj)) = r_nsounds obj"
  by (auto simp: pack_obj_def rplay_pack_def Let_def split: option.splits prod.splits)

lemma write_slot_header: "r_list_name (write_slot q p obj) = r_list_name obj"
  by (cases q) simp_all

lemma edit_Some: "edit env args obj = Inr (Some obj') \<longleftrightarrow> rplay_set env args obj = (obj', None)"
  by (auto simp: edit_def split: prod.splits option.splits perror.splits)

section \<open>The rest of the object\<close>

definition edited :: "rplay_obj \<Rightarrow> nat list \<Rightarrow> rplay_attrs list \<Rightarrow> int \<Rightarrow> int \<Rightarrow> cstring \<Rightarrow> bool" where
  "edited obj ps as c k l \<longleftrightarrow> holds obj ps as \<and> r_count obj = c \<and> r_priority obj = k \<and> r_list_name obj = l"

lemma edited_pack: "edited obj ps as c k l \<Longrightarrow> edited (fst (pack_obj abi obj)) ps as c k l"
  by (simp add: edited_def holds_pack pack_header)

lemma holds_header: "same_links obj obj' \<Longrightarrow> o_nodes obj' = o_nodes obj \<Longrightarrow> holds obj ps as \<Longrightarrow> holds obj' ps as"
  using same_links_rep by (simp add: holds_def)

lemma set_header_edits:
  "rplay_set env [VLong 14, VLong v, VLong 0] obj = pack_obj (e_abi env) (obj\<lparr>r_count := to_int v\<rparr>)"
  "rplay_set env [VLong 15, VLong v, VLong 0] obj = pack_obj (e_abi env) (obj\<lparr>r_priority := to_int v\<rparr>)"
  "rplay_set env [VLong 26, VStr s, VLong 0] obj = pack_obj (e_abi env) (obj\<lparr>r_list_name := s\<rparr>)"
  "rplay_set env [VLong 16, VLong 0] obj = (if r_nsounds obj = 0 then (obj, Some (Undef DivideByZero))
     else pack_obj (e_abi env) (obj\<lparr>r_random_sound := int (e_random env) mod r_nsounds obj\<rparr>))"
  by (simp_all add: rplay_set_def set_modifier_def set_header_def to_int_def with_long_def with_str_def)

lemma edited_edits:
  assumes "edited obj ps as c k l"
  shows "rplay_set env [VLong 14, VLong v, VLong 0] obj = (obj', None) \<Longrightarrow> edited obj' ps as (to_int v) k l"
    "rplay_set env [VLong 15, VLong v, VLong 0] obj = (obj', None) \<Longrightarrow> edited obj' ps as c (to_int v) l"
    "rplay_set env [VLong 26, VStr s, VLong 0] obj = (obj', None) \<Longrightarrow> edited obj' ps as c k s"
    "rplay_set env [VLong 16, VLong 0] obj = (obj', None) \<Longrightarrow> edited obj' ps as c k l"
proof -
  have h: "edited (obj\<lparr>r_count := to_int v\<rparr>) ps as (to_int v) k l" "edited (obj\<lparr>r_priority := to_int v\<rparr>) ps as c (to_int v) l"
    "edited (obj\<lparr>r_list_name := s\<rparr>) ps as c k s" "edited (obj\<lparr>r_random_sound := r\<rparr>) ps as c k l" for v s r
    using assms by (auto simp: edited_def intro!: holds_header [of obj] same_links_header_updates)
  show "rplay_set env [VLong 14, VLong v, VLong 0] obj = (obj', None) \<Longrightarrow> edited obj' ps as (to_int v) k l"
    "rplay_set env [VLong 15, VLong v, VLong 0] obj = (obj', None) \<Longrightarrow> edited obj' ps as c (to_int v) l"
    "rplay_set env [VLong 26, VStr s, VLong 0] obj = (obj', None) \<Longrightarrow> edited obj' ps as c k s"
    "rplay_set env [VLong 16, VLong 0] obj = (obj', None) \<Longrightarrow> edited obj' ps as c k l"
    using edited_pack [OF h(1)] edited_pack [OF h(2)] edited_pack [OF h(3)] edited_pack [OF h(4)]
    by (metis fst_conv set_header_edits option.distinct(1) prod.inject)+
qed

definition list_name_of :: "play_opts \<Rightarrow> cstring" where
  "list_name_of po = (case po_list_name po of None \<Rightarrow> [] | Some s \<Rightarrow> bytes_of s)"

lemma edit_all_edited:
  assumes "edit_all env (edits_of po) obj = Inr (Some obj')" "holds obj ps as" "r_list_name obj = []"
  shows "edited obj' ps as (to_int (po_list_count po)) (to_int (po_priority po)) (list_name_of po)"
proof -
  have 0: "edited obj ps as (r_count obj) (r_priority obj) []" using assms(2,3) by (simp add: edited_def)
  obtain o1 o2 o3 where e: "rplay_set env [VLong 14, VLong (po_list_count po), VLong 0] obj = (o1, None)"
    "rplay_set env [VLong 15, VLong (po_priority po), VLong 0] o1 = (o2, None)"
    "if po_random po then rplay_set env [VLong 16, VLong 0] o2 = (o3, None) else o3 = o2"
    "case po_list_name po of None \<Rightarrow> obj' = o3 | Some s \<Rightarrow> rplay_set env [VLong 26, VStr (bytes_of s), VLong 0] o3 = (obj', None)"
    using assms(1) by (auto simp: edits_of_def edit_Some split: option.splits if_splits)
  note 1 = edited_edits(1) [OF 0 e(1)]
  note 2 = edited_edits(2) [OF 1 e(2)]
  have 3: "edited o3 ps as (to_int (po_list_count po)) (to_int (po_priority po)) []"
    using 2 edited_edits(4) [OF 2] e(3) by (auto split: if_splits)
  show ?thesis using 3 edited_edits(3) [OF 3] e(4) by (auto simp: list_name_of_def split: option.splits)
qed
section \<open>A request that fits its packet\<close>

text \<open>Every edit packs the object, so it fails when the packet gets too long.  This bounds the
  packet of a request.\<close>

definition sound_size :: "host_abi \<Rightarrow> rplay_attrs \<Rightarrow> nat" where
  "sound_size abi a = length (a_sound a) + length (a_client_data a) + 15 + long_size abi"

definition request_size :: "host_abi \<Rightarrow> rplay_attrs list \<Rightarrow> cstring \<Rightarrow> nat" where
  "request_size abi as l = 10 + length l + sum_list (map (sound_size abi) as)"

definition usual :: "rplay_attrs \<Rightarrow> bool" where
  "usual a \<longleftrightarrow> a_rptp_server a = None \<and> a_rptp_server_port a = RPTP_PORT"

lemma pack_attrs_size:
  assumes "usual a" "abi_ok abi"
  shows "chunks_size (pack_attrs abi a) \<le> sound_size abi a"
  using assms
  by (simp add: pack_attrs_def usual_def sound_size_def enc_cstr_def enc_uchar_def enc_ulong_def enc_long_length)

lemma pack_list_size:
  assumes "list_all usual as" "abi_ok abi"
  shows "chunks_size (pack_list abi r i as) \<le> sum_list (map (sound_size abi) as)"
  using assms
proof (induction "as" arbitrary: i)
  case (Cons a "as")
  have "chunks_size (pack_attrs abi a) \<le> sound_size abi a"
    "chunks_size (pack_list abi r (i + 1) as) \<le> sum_list (map (sound_size abi) as)"
    using Cons.prems Cons.IH pack_attrs_size by simp_all
  then show ?case by simp
qed simp

text \<open>An object as \<open>rplay_create\<close> and the edits of a request leave it.\<close>

definition packs :: "rplay_obj \<Rightarrow> host_abi \<Rightarrow> nat list \<Rightarrow> rplay_attrs list \<Rightarrow> bool" where
  "packs obj abi ps as \<longleftrightarrow> holds obj ps as \<and> pbuf_ok (r_pbuf obj) \<and> r_sequence obj = ulong_max abi
     \<and> r_id obj = 0 \<and> r_data obj = None \<and> list_all usual as"

lemma pack_obj_fits:
  assumes p: "packs obj abi ps as" and a: "abi_ok abi" and s: "request_size abi as (r_list_name obj) \<le> MAX_PACKET"
  shows "\<exists>obj'. pack_obj abi obj = (obj', None) \<and> packs obj' abi ps as"
proof -
  have h: "chunks_size (Packet.pack_header abi obj) \<le> 8 + length (r_list_name obj)"
    using p by (simp add: Packet.pack_header_def packs_def enc_uchar_def enc_cstr_def)
  have "chunks_size (pack_chunks abi obj as) \<le> MAX_PACKET"
    using h s pack_list_size [of "as" abi "r_random_sound obj" 0] p a
    by (simp add: pack_chunks_def packs_def request_size_def)
  moreover have ok: "pbuf_ok ((r_pbuf obj)\<lparr>pb_buf := []\<rparr>)" using p by (simp add: packs_def pbuf_ok_def pb_len_def)
  ultimately obtain b where b: "copy_chunks (pack_chunks abi obj as) ((r_pbuf obj)\<lparr>pb_buf := []\<rparr>) = (b, None)" "pbuf_ok b"
    using copy_chunks_fits [OF ok, of "pack_chunks abi obj as"] by (auto simp: pb_len_def)
  have "obj_list obj = Some as" using p rep_obj_list by (auto simp: packs_def holds_def)
  then have "pack_obj abi obj = (obj\<lparr>r_pbuf := b\<rparr>, None)"
    by (simp add: pack_obj_def rplay_pack_def b Let_def)
  moreover have "packs (obj\<lparr>r_pbuf := b\<rparr>) abi ps as"
    using p b(2) holds_header [of obj "obj\<lparr>r_pbuf := b\<rparr>"] same_links_header_updates
    by (simp add: packs_def)
  ultimately show ?thesis by blast
qed
lemma request_size_prefix: "request_size abi as l \<le> request_size abi (as @ bs) l"
  by (simp add: request_size_def)

lemma usual_asked: "usual (asked_sound env po v)"
  by (simp add: usual_def asked_sound_def sound_values_def rplay_attrs_create_def)

lemma write_slot_fields:
  "r_pbuf (write_slot q p obj) = r_pbuf obj" "r_sequence (write_slot q p obj) = r_sequence obj"
  "r_id (write_slot q p obj) = r_id obj" "r_data (write_slot q p obj) = r_data obj"
  by (cases q; simp)+

lemma packs_sound:
  assumes p: "packs obj (e_abi env) ps as" and a: "abi_ok (e_abi env)"
    and s: "request_size (e_abi env) (as @ [asked_sound env po v]) (r_list_name obj) \<le> MAX_PACKET"
  shows "\<exists>obj' p. edit env (sound_args po (Some (data_text po)) v) obj = Inr (Some obj') \<and> r_list_name obj' = r_list_name obj
    \<and> packs obj' (e_abi env) (ps @ [p]) (as @ [asked_sound env po v])"
proof -
  obtain obj1 p where ap: "set_append obj = (obj1, p)" by fastforce
  let ?obj2 = "upd_attrs p (sound_values env po v) obj1"
  let ?args = "sound_args po (Some (data_text po)) v"
  have m: "set_modifier env 9 (tl ?args) obj = Inr (obj1, Some (p, tl ?args))"
    by (simp add: set_modifier_def ap)
  have l: "va_long ?args = Inr (9, tl ?args)" by (simp add: sound_args_def)
  have e: "rplay_set env ?args obj = pack_obj (e_abi env) ?obj2"
    by (simp add: rplay_set_def l m to_int_def sound_args_loop)
  have h: "holds obj1 (ps @ [p]) (as @ [rplay_attrs_create])"
    using rep_append [of obj ps] p ap by (auto simp: packs_def holds_def set_append_def Let_def)
  have f: "r_pbuf ?obj2 = r_pbuf obj" "r_sequence ?obj2 = r_sequence obj" "r_id ?obj2 = r_id obj" "r_data ?obj2 = r_data obj"
    "r_list_name ?obj2 = r_list_name obj"
    using ap by (auto simp: set_append_def RplaySet.new_node_def Let_def upd_attrs_def write_slot_fields write_slot_header)
  have "packs ?obj2 (e_abi env) (ps @ [p]) (as @ [asked_sound env po v])"
    using holds_upd [OF h, of "sound_values env po v"] p usual_asked unfolding packs_def f asked_sound_def by simp
  from pack_obj_fits [OF this a] s f(5) obtain obj' where
    o': "pack_obj (e_abi env) ?obj2 = (obj', None)" "packs obj' (e_abi env) (ps @ [p]) (as @ [asked_sound env po v])" by auto
  moreover have "r_list_name obj' = r_list_name obj"
    using pack_header(4) [of "e_abi env" ?obj2] o'(1) f(5) by simp
  ultimately show ?thesis by (auto simp: edit_Some e)
qed

lemma read_pairs_fits:
  assumes "packs obj (e_abi env) qs as" "abi_ok (e_abi env)"
    "request_size (e_abi env) (as @ asked env cmd ps po) (r_list_name obj) \<le> MAX_PACKET" "\<not> uses_freed cmd ps po"
  shows "\<exists>obj' qs'. read_pairs env cmd ps po obj = Inr (Inr (final_opts cmd ps po, obj'))
    \<and> packs obj' (e_abi env) qs' (as @ asked env cmd ps po) \<and> r_list_name obj' = r_list_name obj"
  using assms
proof (induction env cmd ps po arbitrary: obj qs as rule: asked.induct)
  case (1 env cmd po)
  then show ?case by auto
next
  case (2 env cmd n v ps po)
  consider (empty) "v = []" | (sound) "v \<noteq> []" "names_sound cmd n" | (opt) "v \<noteq> []" "\<not> names_sound cmd n" by blast
  then show ?case
  proof cases
    case sound
    then have s: "request_size (e_abi env) ((as @ [asked_sound env po v]) @ asked env cmd ps po) (r_list_name obj) \<le> MAX_PACKET"
      using "2.prems"(3) by simp
    from packs_sound [OF "2.prems"(1,2) order_trans [OF request_size_prefix s]] obtain obj1 p where
      e: "edit env (sound_args po (Some (data_text po)) v) obj = Inr (Some obj1)" "r_list_name obj1 = r_list_name obj"
        "packs obj1 (e_abi env) (qs @ [p]) (as @ [asked_sound env po v])" by blast
    have u: "po_data po \<noteq> None" "\<not> uses_freed cmd ps po" using "2.prems"(4) sound by auto
    from "2.IH"(2) [OF sound e(3) "2.prems"(2)] s e(2) u(2) obtain obj' qs' where
      "read_pairs env cmd ps po obj1 = Inr (Inr (final_opts cmd ps po, obj'))"
      "packs obj' (e_abi env) qs' ((as @ [asked_sound env po v]) @ asked env cmd ps po)" "r_list_name obj' = r_list_name obj"
      by auto
    then show ?thesis using sound e(1) used_data [OF u(1)] by (auto simp: names_sound_def)
  qed (use 2 in \<open>auto simp: names_sound_def\<close>)
qed

subsection \<open>The edits after the sounds\<close>

lemma edit_fits:
  assumes "packs obj abi ps as" "abi_ok abi" "request_size abi as (r_list_name obj') \<le> MAX_PACKET"
    and "holds obj' ps as" "r_pbuf obj' = r_pbuf obj" "r_sequence obj' = r_sequence obj" "r_id obj' = r_id obj" "r_data obj' = r_data obj"
  shows "\<exists>o1. pack_obj abi obj' = (o1, None) \<and> packs o1 abi ps as \<and> r_list_name o1 = r_list_name obj'
    \<and> r_nsounds o1 = r_nsounds obj'"
proof -
  have "packs obj' abi ps as" using assms(1,4-8) by (simp add: packs_def)
  from pack_obj_fits [OF this assms(2,3)] show ?thesis using pack_header(4,5) [of abi obj'] by auto
qed

lemma holds_count: "holds obj ps as \<Longrightarrow> r_nsounds obj = int (length as)"
  by (auto simp: holds_def rep_def)

lemma edit_all_fits:
  assumes "packs obj (e_abi env) ps as" "abi_ok (e_abi env)" "r_list_name obj = []"
    and "request_size (e_abi env) as (list_name_of po) \<le> MAX_PACKET" "po_random po \<Longrightarrow> as \<noteq> []"
  shows "\<exists>obj'. edit_all env (edits_of po) obj = Inr (Some obj')"
proof -
  let ?abi = "e_abi env"
  have s0: "request_size ?abi as [] \<le> MAX_PACKET" using assms(4) by (simp add: request_size_def)
  have h: "holds o' ps as" if "packs ob ?abi ps as" "same_links ob o'" "o_nodes o' = o_nodes ob" for ob o'
    using holds_header [OF that(2,3)] that(1) by (simp add: packs_def)
  have "\<exists>o1. rplay_set env [VLong 14, VLong (po_list_count po), VLong 0] obj = (o1, None) \<and> packs o1 ?abi ps as \<and> r_list_name o1 = []"
    unfolding set_header_edits
    using edit_fits [OF assms(1,2) _ h [OF assms(1) same_links_header_updates(1)]] s0 assms(3) by simp blast
  then obtain o1 where o1: "rplay_set env [VLong 14, VLong (po_list_count po), VLong 0] obj = (o1, None)" "packs o1 ?abi ps as"
    "r_list_name o1 = []" by blast
  have "\<exists>o2. rplay_set env [VLong 15, VLong (po_priority po), VLong 0] o1 = (o2, None) \<and> packs o2 ?abi ps as \<and> r_list_name o2 = []"
    unfolding set_header_edits
    using edit_fits [OF o1(2) assms(2) _ h [OF o1(2) same_links_header_updates(3)]] s0 o1(3) by simp blast
  then obtain o2 where o2: "rplay_set env [VLong 15, VLong (po_priority po), VLong 0] o1 = (o2, None)" "packs o2 ?abi ps as"
    "r_list_name o2 = []" by blast
  have n: "r_nsounds o2 = int (length as)" using o2(2) holds_count by (auto simp: packs_def)
  have "\<exists>o3. (if po_random po then rplay_set env [VLong 16, VLong 0] o2 = (o3, None) else o3 = o2) \<and> packs o3 ?abi ps as"
  proof (cases "po_random po")
    case True
    then have "rplay_set env [VLong 16, VLong 0] o2
        = pack_obj ?abi (o2\<lparr>r_random_sound := int (e_random env) mod r_nsounds o2\<rparr>)"
      using n assms(5) by (simp add: set_header_edits)
    then show ?thesis
      using True edit_fits [OF o2(2) assms(2) _ h [OF o2(2) same_links_header_updates(4)]] s0 o2(3) by simp blast
  qed (use o2 in simp)
  then obtain o3 where o3: "if po_random po then rplay_set env [VLong 16, VLong 0] o2 = (o3, None) else o3 = o2"
    "packs o3 ?abi ps as" by blast
  have "\<exists>o4. case po_list_name po of None \<Rightarrow> o4 = o3 | Some s \<Rightarrow> rplay_set env [VLong 26, VStr (bytes_of s), VLong 0] o3 = (o4, None)"
  proof (cases "po_list_name po")
    case (Some s)
    then show ?thesis
      using edit_fits [OF o3(2) assms(2) _ h [OF o3(2) same_links_header_updates(2)]] assms(4)
      by (simp add: set_header_edits list_name_of_def) blast
  qed simp
  then obtain o4 where "case po_list_name po of None \<Rightarrow> o4 = o3 | Some s \<Rightarrow> rplay_set env [VLong 26, VStr (bytes_of s), VLong 0] o3 = (o4, None)"
    by blast
  then show ?thesis
    using o1(1) o2(1) o3(1) by (cases "po_random po"; cases "po_list_name po") (auto simp: edits_of_def edit_Some [symmetric])
qed
section \<open>What the daemon is asked\<close>

text \<open>What \<open>do_execute\<close> makes of the daemon's result.\<close>

definition reported :: "cmd_env \<Rightarrow> string \<Rightarrow> string \<Rightarrow> cmd_state \<Rightarrow> (int \<times> server) result \<Rightarrow> outcome" where
  "reported ce cmd d st r = bindE (of_spool r) (\<lambda>(val, sv).
     Inr (val, if val = 0 then [reply_op ce (message_text cmd (cmd @ '' successful'') d)]
               else if val < 0 then [reply_op ce (failed cmd d)] else [], st\<lparr>cm_server := sv\<rparr>))"

text \<open>A line whose client's data comes after a sound: the pointer to it is used when the text it
  points to has been freed.\<close>

lemma created:
  "\<exists>hdr. rplay_create abi (command_code cmd) = Inr hdr \<and> r_nsounds hdr = 0 \<and> r_list_name hdr = []
     \<and> r_pbuf hdr = new_packet_buf \<and> r_sequence hdr = ulong_max abi \<and> r_id hdr = 0 \<and> r_data hdr = None"
proof -
  have "command_code cmd \<in> set rplay_commands" by (simp add: command_code_def rplay_commands_def)
  then show ?thesis by (auto simp: rplay_create_def Let_def)
qed

lemma late_data_freed:
  "do_execute demo_client [''play''] ''play sound=a client-data=me'' demo_start = Inl FreedText"
proof -
  let ?line = "''play sound=a client-data=me''"
  have p: "pairs_of ?line = [(''play'', []), (''sound'', ''a''), (''client-data'', ''me'')]" by code_simp
  have d: "kept_data ?line = None" "new_style ?line" "may demo_client CHR ''x''" by code_simp+
  obtain hdr where "rplay_create (e_abi (ce_set demo_client)) (command_code ''play'') = Inr hdr" using created by blast
  then show ?thesis
    by (simp add: do_execute_def Let_def d read_request_def p use_data_def default_opts_def)
qed


definition asked_line :: string where
  "asked_line = ''play client-data=me volume=5 sound=a count=3 sound=a priority=9''"


end
