(* ===== verification/Async.thy ===== *)
theory Async
  imports Rptp
begin

text \<open>
  The asynchronous part of the client library, \<open>src/librplay/async.c\<close>: per descriptor a queue
  of data to write and blocks that were read, the lines made of the blocks, the callbacks of the
  client and the main loop around \<open>select\<close>.

  A callback is a number; what its code does to the library is an argument \<open>react\<close> of the model.
  The queues of blocks and the line that is being put together are not reached by callbacks
  (\<open>rptp_async_process\<close> is not to be called by them).  \<open>lib_trace\<close> is a ghost: what was handed
  to \<open>rptp_async_write\<close>, what \<open>write\<close> took, and every call of a callback.
\<close>

unbundle bit_operations_syntax

section \<open>State\<close>

abbreviation "FD_SETSIZE \<equiv> (1024 :: int)"
abbreviation "RPTP_ASYNC_READ \<equiv> (1 :: int)"
abbreviation "RPTP_ASYNC_WRITE \<equiv> (2 :: int)"
abbreviation "RPTP_ASYNC_RAW \<equiv> (4 :: int)"
abbreviation "RPTP_ASYNC_ENABLE \<equiv> (1 :: int)"
abbreviation "RPTP_ASYNC_DISABLE \<equiv> (2 :: int)"

abbreviation "RPTP_EVENT_OK \<equiv> (0x1 :: 32 word)"
abbreviation "RPTP_EVENT_ERROR \<equiv> (0x2 :: 32 word)"
abbreviation "RPTP_EVENT_TIMEOUT \<equiv> (0x4 :: 32 word)"
abbreviation "RPTP_EVENT_OTHER \<equiv> (0x8 :: 32 word)"
abbreviation "RPTP_EVENT_CLOSE \<equiv> (0x1000 :: 32 word)"

text \<open>The table \<open>events\<close>.\<close>

definition async_events :: "(string \<times> 32 word) list" where
  "async_events = [(''continue'', 0x10), (''done'', 0x20), (''pause'', 0x40), (''play'', 0x80),
     (''skip'', 0x100), (''state'', 0x200), (''stop'', 0x400), (''volume'', 0x800),
     (''flow'', 0x2000), (''modify'', 0x4000), (''level'', 0x8000), (''position'', 0x10000)]"

text \<open>Data waiting to be written; \<open>None\<close> is NULL.  \<open>ob_length\<close> is the count the client gave.\<close>

record obuf =
  ob_current :: "string option"
  ob_length :: int
  ob_callback :: "nat option"

record grp =
  olist :: "obuf list"
  writing :: bool
  notify_mask :: "32 word"
  rcallback :: "nat option"
  rraw :: bool
  wcallback :: "nat option"
  wraw :: bool

definition empty_grp :: grp where
  "empty_grp = \<lparr>olist = [], writing = False, notify_mask = 0, rcallback = None, rraw = False,
     wcallback = None, wraw = False\<rparr>"

text \<open>The arguments of a callback after the descriptor.\<close>

datatype call_args = Plain | Event "32 word" string | Action int

datatype async_event = Asked int string | Sent int string | Called nat int call_args

record lib =
  lib_group :: "int \<Rightarrow> grp"
  looping :: bool
  loop_value :: int
  lib_errno :: rptp_error
  lib_parse :: parse_state
  lib_trace :: "async_event list"

datatype async_crash = PastLine | OutsideGroup | NullOutput | NullEventName

type_synonym callbacks = "nat \<Rightarrow> int \<Rightarrow> call_args \<Rightarrow> lib \<Rightarrow> lib"

definition fd_ok :: "int \<Rightarrow> bool" where
  "fd_ok fd \<longleftrightarrow> 0 \<le> fd \<and> fd < FD_SETSIZE"

definition upd_grp :: "int \<Rightarrow> (grp \<Rightarrow> grp) \<Rightarrow> lib \<Rightarrow> lib" where
  "upd_grp fd f l = l\<lparr>lib_group := (lib_group l)(fd := f (lib_group l fd))\<rparr>"

definition log_event :: "async_event \<Rightarrow> lib \<Rightarrow> lib" where
  "log_event x l = l\<lparr>lib_trace := lib_trace l @ [x]\<rparr>"

definition call_back :: "callbacks \<Rightarrow> nat option \<Rightarrow> int \<Rightarrow> call_args \<Rightarrow> lib \<Rightarrow> lib" where
  "call_back react f fd args l =
     (case f of None \<Rightarrow> l | Some g \<Rightarrow> react g fd args (log_event (Called g fd args) l))"

section \<open>Writing\<close>

definition do_register :: "callbacks \<Rightarrow> int \<Rightarrow> lib \<Rightarrow> lib" where
  "do_register react fd l =
     upd_grp fd (\<lambda>g. g\<lparr>writing := True\<rparr>)
       (call_back react (wcallback (lib_group l fd)) fd (Action RPTP_ASYNC_ENABLE) l)"

definition do_unregister :: "callbacks \<Rightarrow> int \<Rightarrow> lib \<Rightarrow> lib" where
  "do_unregister react fd l =
     upd_grp fd (\<lambda>g. g\<lparr>writing := False\<rparr>)
       (call_back react (wcallback (lib_group l fd)) fd (Action RPTP_ASYNC_DISABLE) l)"

text \<open>\<open>ptr\<close> holds at least \<open>nbytes\<close> bytes when it is not NULL.\<close>

definition new_obuf :: "nat option \<Rightarrow> string option \<Rightarrow> int \<Rightarrow> obuf" where
  "new_obuf cb ptr nbytes =
     \<lparr>ob_current = (if nbytes > 0 then map_option (take (nat nbytes)) ptr else None),
      ob_length = nbytes, ob_callback = cb\<rparr>"

definition data_of :: "obuf \<Rightarrow> string" where
  "data_of b = (case ob_current b of None \<Rightarrow> [] | Some d \<Rightarrow> d)"

definition rptp_async_write :: "callbacks \<Rightarrow> int \<Rightarrow> nat option \<Rightarrow> string option \<Rightarrow> int \<Rightarrow> lib \<Rightarrow> int \<times> lib" where
  "rptp_async_write react fd cb ptr nbytes l =
     (if \<not> fd_ok fd then (-1, l\<lparr>lib_errno := RPTP_ERROR_SOCKET\<rparr>)
      else
        let b = new_obuf cb ptr nbytes;
            l1 = upd_grp fd (\<lambda>g. g\<lparr>olist := olist g @ [b]\<rparr>) (log_event (Asked fd (data_of b)) l)
        in (0, if writing (lib_group l1 fd) then l1 else do_register react fd l1))"

text \<open>\<open>txt\<close> is what \<open>vsprintf\<close> makes of the format.  The value of \<open>rptp_async_write\<close> is compared
  with the length of the line.\<close>

definition rptp_async_putline :: "callbacks \<Rightarrow> int \<Rightarrow> nat option \<Rightarrow> string \<Rightarrow> lib \<Rightarrow> async_crash + (int \<times> lib)" where
  "rptp_async_putline react fd cb txt l =
     (if \<not> fd_ok fd then Inr (-1, l\<lparr>lib_errno := RPTP_ERROR_SOCKET\<rparr>)
      else if length txt + 3 > RPTP_MAX_LINE then Inl PastLine
      else let line = txt @ [CR, LF];
               (n, l1) = rptp_async_write react fd cb (Some line) (int (length line)) (l\<lparr>lib_errno := RPTP_ERROR_NONE\<rparr>)
           in Inr (if n \<noteq> int (length line) then -1 else 0, l1))"

text \<open>\<open>taken\<close> is the value of \<open>write\<close>: -1, or the bytes it is ready to take.\<close>

definition write_proc :: "callbacks \<Rightarrow> int \<Rightarrow> int \<Rightarrow> lib \<Rightarrow> async_crash + lib" where
  "write_proc react taken fd l =
     (let l0 = (if olist (lib_group l fd) = [] then do_unregister react fd l else l)
      in case olist (lib_group l0 fd) of
           [] \<Rightarrow> Inl NullOutput
         | b # _ \<Rightarrow>
             if ob_current b \<noteq> None \<and> taken < 0 then Inr l0
             else
               let d = take (nat (min taken (ob_length b))) (data_of b);
                   b1 = b\<lparr>ob_length := ob_length b - int (length d),
                          ob_current := map_option (drop (length d)) (ob_current b)\<rparr>;
                   l1 = upd_grp fd (\<lambda>g. g\<lparr>olist := b1 # tl (olist g)\<rparr>)
                          (if ob_current b = None then l0 else log_event (Sent fd d) l0)
               in if ob_length b1 > 0 then Inr l1
                  else
                    let l2 = upd_grp fd (\<lambda>g. g\<lparr>olist := tl (olist g)\<rparr>)
                               (call_back react (ob_callback b) fd Plain l1)
                    in Inr (if olist (lib_group l2 fd) = [] then do_unregister react fd l2 else l2))"

section \<open>Callbacks that are registered\<close>

definition rptp_async_register :: "int \<Rightarrow> int \<Rightarrow> nat option \<Rightarrow> lib \<Rightarrow> lib" where
  "rptp_async_register fd what cb l =
     (if \<not> fd_ok fd then l\<lparr>lib_errno := RPTP_ERROR_SOCKET\<rparr>
      else if what = RPTP_ASYNC_WRITE then upd_grp fd (\<lambda>g. g\<lparr>wcallback := cb, wraw := False\<rparr>) l
      else if what = 6 then upd_grp fd (\<lambda>g. g\<lparr>wcallback := cb, wraw := True\<rparr>) l
      else if what = RPTP_ASYNC_READ then upd_grp fd (\<lambda>g. g\<lparr>rcallback := cb, rraw := True\<rparr>) l
      else l)"

text \<open>The command of \<open>rptp_async_notify\<close>: the names of the wanted events with commas between them.\<close>

definition notify_names :: "32 word \<Rightarrow> string list" where
  "notify_names m = map fst (filter (\<lambda>(n, b). m AND b \<noteq> 0) async_events)"

fun join_commas :: "string list \<Rightarrow> string" where
  "join_commas [] = []"
| "join_commas [x] = x"
| "join_commas (x # y # xs) = x @ '','' @ join_commas (y # xs)"

definition notify_command :: "32 word \<Rightarrow> string" where
  "notify_command m = ''set notify='' @
     (if notify_names m = [] then ''none'' else join_commas (notify_names m))"

text \<open>The group is indexed without a check of the descriptor.\<close>

definition rptp_async_notify :: "callbacks \<Rightarrow> int \<Rightarrow> 32 word \<Rightarrow> nat option \<Rightarrow> lib \<Rightarrow> async_crash + lib" where
  "rptp_async_notify react fd m cb l =
     bindE (rptp_async_putline react fd None (notify_command m) l) (\<lambda>(_, l1).
       if \<not> fd_ok fd then Inl OutsideGroup
       else Inr (upd_grp fd (\<lambda>g. g\<lparr>rcallback := cb, notify_mask := m, rraw := False\<rparr>) l1))"

section \<open>Reading\<close>

definition event_code :: "string \<Rightarrow> lib \<Rightarrow> async_crash + (32 word \<times> lib)" where
  "event_code line l =
     (case line of [] \<Rightarrow> Inr (RPTP_EVENT_OTHER, l) | c # _ \<Rightarrow>
        if c = CHR ''+'' then Inr (RPTP_EVENT_OK, l)
        else if c = CHR ''-'' then Inr (RPTP_EVENT_ERROR, l)
        else if c = CHR ''!'' then Inr (RPTP_EVENT_TIMEOUT, l)
        else if c = CHR ''@'' then
          (let (ps, event) = rptp_parse (Some line) (Some ''event'') (lib_parse l)
           in case event of None \<Rightarrow> Inl NullEventName
              | Some ev \<Rightarrow> Inr (case map_of async_events ev of None \<Rightarrow> RPTP_EVENT_OTHER | Some m \<Rightarrow> m,
                               l\<lparr>lib_parse := ps\<rparr>))
        else Inr (RPTP_EVENT_OTHER, l))"

definition notify_line :: "callbacks \<Rightarrow> int \<Rightarrow> string \<Rightarrow> lib \<Rightarrow> async_crash + lib" where
  "notify_line react fd line l =
     (if rcallback (lib_group l fd) = None then Inr l
      else bindE (event_code (c_string line) l) (\<lambda>(what, l1).
        Inr (if what AND notify_mask (lib_group l1 fd) \<noteq> 0
             then call_back react (rcallback (lib_group l1 fd)) fd (Event what (c_string line)) l1
             else l1)))"

text \<open>The loop of \<open>process_input\<close> over the blocks of a descriptor; \<open>line\<close> is the static line, of
  2048 bytes.  After a carriage return one more byte is skipped, also where the block has none.\<close>

function process_input :: "callbacks \<Rightarrow> int \<Rightarrow> string \<Rightarrow> string list \<Rightarrow> lib \<Rightarrow> async_crash + (string \<times> lib)" where
  "process_input react fd line [] l = Inr (line, l)"
| "process_input react fd line (b # bs) l =
     (if CR \<in> set b then
        let u = takeWhile (\<lambda>c. c \<noteq> CR) b; rest = drop (length u + 2) b
        in if length line + length u \<ge> 2 * RPTP_MAX_LINE then Inl PastLine
           else bindE (notify_line react fd (line @ u) l) (\<lambda>l1.
             process_input react fd [] (if rest \<noteq> [] then rest # bs else bs) l1)
      else if length line + length b > 2 * RPTP_MAX_LINE then Inl PastLine
      else process_input react fd (line @ b) bs l)"
  by pat_completeness auto
termination
  by (relation "measure (\<lambda>(_, _, _, bs, _). sum_list (map (\<lambda>b. Suc (length b)) bs))") auto

record async =
  as_lib :: lib
  as_blocks :: "int \<Rightarrow> string list"
  as_line :: string

text \<open>\<open>got\<close> is what \<open>read\<close> gives, empty when its value is 0 or -1.\<close>

definition read_proc :: "callbacks \<Rightarrow> string \<Rightarrow> int \<Rightarrow> async \<Rightarrow> async_crash + async" where
  "read_proc react got fd a =
     (let l = as_lib a; g = lib_group l fd
      in if got = [] then
           Inr (if notify_mask g AND RPTP_EVENT_CLOSE \<noteq> 0 \<and> rcallback g \<noteq> None
                then a\<lparr>as_lib := upd_grp fd (\<lambda>g. g\<lparr>rcallback := None\<rparr>)
                        (call_back react (rcallback g) fd (Event RPTP_EVENT_CLOSE []) l)\<rparr>
                else a)
         else bindE (process_input react fd (as_line a) (as_blocks a fd @ [got]) l) (\<lambda>(line, l1).
           Inr (a\<lparr>as_lib := l1, as_line := line, as_blocks := (as_blocks a)(fd := [])\<rparr>)))"

definition on_lib :: "(lib \<Rightarrow> async_crash + lib) \<Rightarrow> async \<Rightarrow> async_crash + async" where
  "on_lib f a = bindE (f (as_lib a)) (\<lambda>l. Inr (a\<lparr>as_lib := l\<rparr>))"

text \<open>\<open>got\<close> and \<open>taken\<close> are what \<open>read\<close> and \<open>write\<close> give if they are called.\<close>

definition rptp_async_process :: "callbacks \<Rightarrow> string \<Rightarrow> int \<Rightarrow> int \<Rightarrow> int \<Rightarrow> async \<Rightarrow> async_crash + async" where
  "rptp_async_process react got taken fd what a =
     (let g = lib_group (as_lib a) fd
      in if \<not> fd_ok fd then Inr (a\<lparr>as_lib := (as_lib a)\<lparr>lib_errno := RPTP_ERROR_SOCKET\<rparr>\<rparr>)
         else if what = RPTP_ASYNC_READ then
           (if rraw g \<and> rcallback g \<noteq> None
            then on_lib (\<lambda>l. Inr (call_back react (rcallback g) fd Plain l)) a
            else read_proc react got fd a)
         else if what = RPTP_ASYNC_WRITE then
           (if wraw g \<and> wcallback g \<noteq> None
            then on_lib (\<lambda>l. Inr (call_back react (wcallback g) fd Plain l)) a
            else on_lib (write_proc react taken fd) a)
         else Inr a)"

section \<open>The main loop\<close>

definition rptp_stop_main_loop :: "int \<Rightarrow> lib \<Rightarrow> lib" where
  "rptp_stop_main_loop v l = l\<lparr>looping := False, loop_value := v\<rparr>"

text \<open>What \<open>select\<close> gives: an interruption, another error, or the descriptors that are ready, with
  what reading and writing them gives.\<close>

datatype selected = SelEintr | SelFailed | Ready "(int \<times> string) list" "(int \<times> int) list"

definition want_read :: "lib \<Rightarrow> int \<Rightarrow> bool" where
  "want_read l fd \<longleftrightarrow> rcallback (lib_group l fd) \<noteq> None"

definition want_write :: "lib \<Rightarrow> int \<Rightarrow> bool" where
  "want_write l fd \<longleftrightarrow> olist (lib_group l fd) \<noteq> []"

text \<open>The scan of the descriptors; \<open>n\<close> counts the ready ones that are left.\<close>

fun serve_fds :: "callbacks \<Rightarrow> (int \<times> string) list \<Rightarrow> (int \<times> int) list \<Rightarrow> int list \<Rightarrow> int \<Rightarrow> async \<Rightarrow> async_crash + async" where
  "serve_fds react rs ws [] n a = Inr a"
| "serve_fds react rs ws (i # fds) n a =
     (if n = 0 then Inr a
      else bindE (case map_of rs i of None \<Rightarrow> Inr (n, a)
                  | Some got \<Rightarrow>
                      if rcallback (lib_group (as_lib a) i) = None then Inr (n - 1, a)
                      else bindE (rptp_async_process react got 0 i RPTP_ASYNC_READ a) (\<lambda>a1. Inr (n - 1, a1)))
             (\<lambda>(n1, a1).
           bindE (case map_of ws i of None \<Rightarrow> Inr (n1, a1)
                  | Some taken \<Rightarrow>
                      if \<not> writing (lib_group (as_lib a1) i) then Inr (n1 - 1, a1)
                      else bindE (rptp_async_process react [] taken i RPTP_ASYNC_WRITE a1) (\<lambda>a2. Inr (n1 - 1, a2)))
             (\<lambda>(n2, a2). serve_fds react rs ws fds n2 a2)))"

text \<open>The rounds of the loop: the value returned, \<open>None\<close> while it still waits.  A descriptor is
  reported once for each direction and only when it was asked for.\<close>

fun loop_rounds :: "callbacks \<Rightarrow> selected list \<Rightarrow> async \<Rightarrow> async_crash + (int option \<times> async)" where
  "loop_rounds react sels a =
     (if \<not> looping (as_lib a) then Inr (Some (loop_value (as_lib a)), a)
      else case sels of [] \<Rightarrow> Inr (None, a)
         | SelEintr # sels' \<Rightarrow> loop_rounds react sels' a
         | SelFailed # _ \<Rightarrow> Inr (Some (-1), a)
         | Ready rs ws # sels' \<Rightarrow>
             (let rs1 = filter (\<lambda>(i, _). want_read (as_lib a) i) rs;
                  ws1 = filter (\<lambda>(i, _). want_write (as_lib a) i) ws
              in bindE (serve_fds react rs1 ws1 [0..FD_SETSIZE - 1] (int (length rs1 + length ws1)) a)
                   (\<lambda>a1. loop_rounds react sels' a1)))"

definition rptp_main_loop :: "callbacks \<Rightarrow> selected list \<Rightarrow> async \<Rightarrow> async_crash + (int option \<times> async)" where
  "rptp_main_loop react sels a =
     loop_rounds react sels (a\<lparr>as_lib := (as_lib a)\<lparr>looping := True, loop_value := 0\<rparr>\<rparr>)"

declare loop_rounds.simps [simp del]
section \<open>What is written\<close>

fun asked_to :: "int \<Rightarrow> async_event list \<Rightarrow> string" where
  "asked_to fd [] = []"
| "asked_to fd (Asked i s # xs) = (if i = fd then s else []) @ asked_to fd xs"
| "asked_to fd (x # xs) = asked_to fd xs"

fun sent_to :: "int \<Rightarrow> async_event list \<Rightarrow> string" where
  "sent_to fd [] = []"
| "sent_to fd (Sent i s # xs) = (if i = fd then s else []) @ sent_to fd xs"
| "sent_to fd (x # xs) = sent_to fd xs"

lemma asked_to_append [simp]: "asked_to fd (xs @ ys) = asked_to fd xs @ asked_to fd ys"
  by (induction fd xs rule: asked_to.induct) auto

lemma sent_to_append [simp]: "sent_to fd (xs @ ys) = sent_to fd xs @ sent_to fd ys"
  by (induction fd xs rule: sent_to.induct) auto

definition waiting :: "int \<Rightarrow> lib \<Rightarrow> string" where
  "waiting fd l = concat (map data_of (olist (lib_group l fd)))"

definition sized :: "obuf \<Rightarrow> bool" where
  "sized b \<longleftrightarrow> int (length (data_of b)) \<le> max 0 (ob_length b)"

text \<open>The queues hold what was asked for and not yet sent.\<close>

definition in_order :: "lib \<Rightarrow> bool" where
  "in_order l \<longleftrightarrow> (\<forall>fd. asked_to fd (lib_trace l) = sent_to fd (lib_trace l) @ waiting fd l
     \<and> list_all sized (olist (lib_group l fd)))"

text \<open>What a callback may do with the queues: append to them, as the functions of the library do.\<close>

definition grows :: "lib \<Rightarrow> lib \<Rightarrow> bool" where
  "grows l l' \<longleftrightarrow> (\<forall>fd. \<exists>ys. olist (lib_group l' fd) = olist (lib_group l fd) @ ys \<and> list_all sized ys
     \<and> sent_to fd (lib_trace l') = sent_to fd (lib_trace l)
     \<and> asked_to fd (lib_trace l') = asked_to fd (lib_trace l) @ concat (map data_of ys))"

definition polite :: "callbacks \<Rightarrow> bool" where
  "polite react \<longleftrightarrow> (\<forall>f fd args l. grows l (react f fd args l))"

lemma grows_refl [simp]: "grows l l"
  by (auto simp: grows_def)

lemma grows_trans [trans]:
  assumes "grows l l'" "grows l' l''"
  shows "grows l l''"
  unfolding grows_def
proof
  fix fd
  obtain ys zs where "olist (lib_group l' fd) = olist (lib_group l fd) @ ys" "list_all sized ys"
    "sent_to fd (lib_trace l') = sent_to fd (lib_trace l)"
    "asked_to fd (lib_trace l') = asked_to fd (lib_trace l) @ concat (map data_of ys)"
    "olist (lib_group l'' fd) = olist (lib_group l' fd) @ zs" "list_all sized zs"
    "sent_to fd (lib_trace l'') = sent_to fd (lib_trace l')"
    "asked_to fd (lib_trace l'') = asked_to fd (lib_trace l') @ concat (map data_of zs)"
    using assms unfolding grows_def by meson
  then show "\<exists>ys. olist (lib_group l'' fd) = olist (lib_group l fd) @ ys \<and> list_all sized ys
     \<and> sent_to fd (lib_trace l'') = sent_to fd (lib_trace l)
     \<and> asked_to fd (lib_trace l'') = asked_to fd (lib_trace l) @ concat (map data_of ys)"
    by (intro exI [of _ "ys @ zs"]) simp
qed

lemma grows_in_order:
  assumes "in_order l" "grows l l'"
  shows "in_order l'"
  unfolding in_order_def
proof
  fix fd
  obtain ys where "olist (lib_group l' fd) = olist (lib_group l fd) @ ys" "list_all sized ys"
    "sent_to fd (lib_trace l') = sent_to fd (lib_trace l)"
    "asked_to fd (lib_trace l') = asked_to fd (lib_trace l) @ concat (map data_of ys)"
    using assms(2) unfolding grows_def by meson
  moreover have "asked_to fd (lib_trace l) = sent_to fd (lib_trace l) @ concat (map data_of (olist (lib_group l fd)))"
    "list_all sized (olist (lib_group l fd))"
    using assms(1) by (simp_all add: in_order_def waiting_def)
  ultimately show "asked_to fd (lib_trace l') = sent_to fd (lib_trace l') @ waiting fd l' \<and> list_all sized (olist (lib_group l' fd))"
    by (simp add: waiting_def)
qed

text \<open>Steps that leave the queues and what was asked and sent alone.\<close>

definition same_queues :: "lib \<Rightarrow> lib \<Rightarrow> bool" where
  "same_queues l l' \<longleftrightarrow> (\<forall>fd. olist (lib_group l' fd) = olist (lib_group l fd)
     \<and> sent_to fd (lib_trace l') = sent_to fd (lib_trace l) \<and> asked_to fd (lib_trace l') = asked_to fd (lib_trace l))"

lemma same_queues_grows: "same_queues l l' \<Longrightarrow> grows l l'"
  by (auto simp: same_queues_def grows_def)

lemma same_queues_upd:
  assumes "\<And>g. olist (f g) = olist g"
  shows "same_queues l (upd_grp fd f l)"
  using assms by (auto simp: same_queues_def upd_grp_def)

lemma same_queues_log: "same_queues l (log_event (Called g fd args) l)"
  by (auto simp: same_queues_def log_event_def)

lemmas same_queues_simps = same_queues_def upd_grp_def log_event_def

lemma call_back_grows:
  assumes "polite react"
  shows "grows l (call_back react f fd args l)"
proof (cases f)
  case (Some g)
  have "grows l (log_event (Called g fd args) l)" by (rule same_queues_grows [OF same_queues_log])
  also have "grows (log_event (Called g fd args) l) (react g fd args (log_event (Called g fd args) l))"
    using assms by (auto simp: polite_def)
  finally show ?thesis using Some by (simp add: call_back_def)
qed (simp add: call_back_def)

lemma do_register_grows: "polite react \<Longrightarrow> grows l (do_register react fd l)"
  unfolding do_register_def
  by (rule grows_trans [OF call_back_grows same_queues_grows [OF same_queues_upd]]) simp_all

lemma do_unregister_grows: "polite react \<Longrightarrow> grows l (do_unregister react fd l)"
  unfolding do_unregister_def
  by (rule grows_trans [OF call_back_grows same_queues_grows [OF same_queues_upd]]) simp_all

lemma sized_new_obuf: "sized (new_obuf cb ptr n)"
  by (auto simp: sized_def new_obuf_def data_of_def split: option.splits)

lemma async_write_grows:
  assumes "polite react"
  shows "grows l (snd (rptp_async_write react fd cb ptr n l))"
proof -
  let ?b = "new_obuf cb ptr n"
  let ?l = "upd_grp fd (\<lambda>g. g\<lparr>olist := olist g @ [?b]\<rparr>) (log_event (Asked fd (data_of ?b)) l)"
  have g: "grows l ?l"
    using sized_new_obuf by (auto simp: grows_def upd_grp_def log_event_def)
  have e: "grows l (l\<lparr>lib_errno := RPTP_ERROR_SOCKET\<rparr>)" by (rule same_queues_grows) (simp add: same_queues_def)
  show ?thesis
    using g e grows_trans [OF g do_register_grows [OF assms]] by (simp add: rptp_async_write_def Let_def)
qed

lemma async_putline_grows:
  assumes "polite react" "rptp_async_putline react fd cb txt l = Inr (n, l')"
  shows "grows l l'"
proof -
  have e: "grows l (l\<lparr>lib_errno := x\<rparr>)" for x by (rule same_queues_grows) (simp add: same_queues_def)
  show ?thesis
    using assms(2) e grows_trans [OF e async_write_grows [OF assms(1)]]
    by (auto simp: rptp_async_putline_def Let_def case_prod_beta split: if_splits)
qed

lemma async_register_grows: "grows l (rptp_async_register fd what cb l)"
  by (rule same_queues_grows) (simp add: same_queues_def rptp_async_register_def upd_grp_def)

lemma async_notify_grows:
  assumes "polite react" "rptp_async_notify react fd m cb l = Inr l'"
  shows "grows l l'"
proof -
  obtain n l1 where "rptp_async_putline react fd None (notify_command m) l = Inr (n, l1)"
    "l' = upd_grp fd (\<lambda>g. g\<lparr>rcallback := cb, notify_mask := m, rraw := False\<rparr>) l1"
    using assms(2) by (auto simp: rptp_async_notify_def split: if_splits)
  then show ?thesis
    using grows_trans [OF async_putline_grows [OF assms(1)] same_queues_grows [OF same_queues_upd]] by simp
qed

lemma stop_grows: "grows l (rptp_stop_main_loop v l)"
  by (rule same_queues_grows) (simp add: same_queues_def rptp_stop_main_loop_def)

subsection \<open>Writing out\<close>

lemma take_then_drop: "take n xs @ drop (length (take n xs)) xs = xs"
  by (cases "n \<le> length xs") auto

lemma write_proc_in_order:
  assumes "polite react" "in_order l" "write_proc react taken fd l = Inr l'"
  shows "in_order l'"
proof -
  define l0 where "l0 = (if olist (lib_group l fd) = [] then do_unregister react fd l else l)"
  have i0: "in_order l0" using assms(1,2) by (simp add: l0_def grows_in_order do_unregister_grows)
  show ?thesis
  proof (cases "olist (lib_group l0 fd)")
    case (Cons b bs)
    define d where "d = take (nat (min taken (ob_length b))) (data_of b)"
    define b1 where "b1 = b\<lparr>ob_length := ob_length b - int (length d), ob_current := map_option (drop (length d)) (ob_current b)\<rparr>"
    define l1 where "l1 = upd_grp fd (\<lambda>g. g\<lparr>olist := b1 # tl (olist g)\<rparr>)
      (if ob_current b = None then l0 else log_event (Sent fd d) l0)"
    have "list_all sized (olist (lib_group l0 fd))" using i0 by (simp add: in_order_def)
    then have s: "sized b" "list_all sized bs" using Cons by simp_all
    have d1: "data_of b = d @ data_of b1"
      by (cases "ob_current b") (simp_all add: d_def b1_def data_of_def take_then_drop del: length_take)
    have s1: "sized b1" using s d1 by (auto simp: sized_def b1_def)
    have i1: "in_order l1"
      using i0 Cons d1 s1 s(2) by (auto simp: in_order_def l1_def upd_grp_def log_event_def waiting_def data_of_def)
    define l2 where "l2 = call_back react (ob_callback b) fd Plain l1"
    define l3 where "l3 = upd_grp fd (\<lambda>g. g\<lparr>olist := tl (olist g)\<rparr>) l2"
    have "write_proc react taken fd l = (if ob_current b \<noteq> None \<and> taken < 0 then Inr l0
        else if ob_length b1 > 0 then Inr l1
        else Inr (if olist (lib_group l3 fd) = [] then do_unregister react fd l3 else l3))"
      unfolding write_proc_def Let_def l0_def [symmetric] Cons list.case d_def [symmetric] b1_def [symmetric]
        l1_def [symmetric] l2_def [symmetric] l3_def [symmetric] ..
    then consider (wait) "l' = l0" | (part) "l' = l1" | (whole) "ob_length b1 \<le> 0"
      "l' = (if olist (lib_group l3 fd) = [] then do_unregister react fd l3 else l3)"
      using assms(3) by (simp split: if_splits)
    then show ?thesis
    proof cases
      case whole
      have g: "grows l1 l2" using call_back_grows [OF assms(1)] by (simp add: l2_def)
      obtain ys where "olist (lib_group l2 fd) = olist (lib_group l1 fd) @ ys" using g unfolding grows_def by meson
      then have o2: "olist (lib_group l2 fd) = b1 # bs @ ys" by (simp add: l1_def upd_grp_def Cons log_event_def)
      have d2: "data_of b1 = []" using s1 whole(1) by (simp add: sized_def)
      have i2: "in_order l2" by (rule grows_in_order [OF i1 g])
      have "asked_to i (lib_trace l3) = sent_to i (lib_trace l3) @ waiting i l3 \<and> list_all sized (olist (lib_group l3 i))" for i
      proof -
        have "asked_to i (lib_trace l2) = sent_to i (lib_trace l2) @ waiting i l2" "list_all sized (olist (lib_group l2 i))"
          using i2 by (simp_all add: in_order_def)
        then show ?thesis using o2 d2 by (cases "i = fd") (simp_all add: l3_def upd_grp_def waiting_def)
      qed
      then have "in_order l3" by (simp add: in_order_def)
      then show ?thesis
        using whole(2) grows_in_order [OF _ do_unregister_grows [OF assms(1)]] by simp
    qed (use i0 i1 in simp_all)
  qed (use assms(3) in \<open>simp add: write_proc_def l0_def [symmetric]\<close>)
qed
subsection \<open>Reading and the main loop\<close>

lemma event_code_grows: "event_code line l = Inr (m, l') \<Longrightarrow> grows l l'"
  by (rule same_queues_grows)
    (auto simp: same_queues_def event_code_def Let_def case_prod_beta split: list.splits if_splits option.splits)

lemma notify_line_grows:
  assumes "polite react" "notify_line react fd line l = Inr l'"
  shows "grows l l'"
proof (cases "rcallback (lib_group l fd) = None")
  case False
  then obtain m l1 where "event_code (c_string line) l = Inr (m, l1)"
    "l' = (if m AND notify_mask (lib_group l1 fd) \<noteq> 0
           then call_back react (rcallback (lib_group l1 fd)) fd (Event m (c_string line)) l1 else l1)"
    using assms(2) by (auto simp: notify_line_def)
  then show ?thesis
    using event_code_grows grows_trans [OF _ call_back_grows [OF assms(1)]] by auto
qed (use assms(2) in \<open>simp add: notify_line_def\<close>)

lemma process_input_grows:
  "process_input react fd line bs l = Inr (line', l') \<Longrightarrow> polite react \<Longrightarrow> grows l l'"
proof (induction react fd line bs l rule: process_input.induct)
  case (2 react fd line b bs l)
  show ?case
  proof (cases "CR \<in> set b")
    case True
    let ?u = "takeWhile (\<lambda>c. c \<noteq> CR) b"
    let ?bs = "if drop (length ?u + 2) b \<noteq> [] then drop (length ?u + 2) b # bs else bs"
    have "process_input react fd line (b # bs) l =
        (if length line + length ?u \<ge> 2 * RPTP_MAX_LINE then Inl PastLine
         else bindE (notify_line react fd (line @ ?u) l) (\<lambda>l1. process_input react fd [] ?bs l1))"
      using True by (simp only: process_input.simps(2) Let_def if_True)
    then have eq: "(if length line + length ?u \<ge> 2 * RPTP_MAX_LINE then Inl PastLine
         else bindE (notify_line react fd (line @ ?u) l) (\<lambda>l1. process_input react fd [] ?bs l1)) = Inr (line', l')"
      using 2(3) by simp
    then have short: "\<not> length line + length ?u \<ge> 2 * RPTP_MAX_LINE" by (metis sum.distinct(1))
    then obtain l1 where l1: "notify_line react fd (line @ ?u) l = Inr l1"
      "process_input react fd [] ?bs l1 = Inr (line', l')"
      using eq unfolding if_not_P [OF short] bindE_Inr by blast
    show ?thesis
      using grows_trans [OF notify_line_grows [OF 2(4) l1(1)] 2(1) [OF True refl refl short l1 2(4)]] .
  next
    case False
    then show ?thesis using 2(2) [OF False] 2(3,4) by (auto split: if_splits)
  qed
qed simp

lemma read_proc_grows:
  assumes "polite react" "read_proc react got fd a = Inr a'"
  shows "grows (as_lib a) (as_lib a')"
proof (cases "got = []")
  case True
  have "grows (as_lib a) (upd_grp fd (\<lambda>g. g\<lparr>rcallback := None\<rparr>) (call_back react f fd x (as_lib a)))" for f x
    by (rule grows_trans [OF call_back_grows [OF assms(1)] same_queues_grows [OF same_queues_upd]]) simp
  then show ?thesis using assms(2) True by (auto simp: read_proc_def Let_def split: if_splits)
next
  case False
  then obtain line l1 where "process_input react fd (as_line a) (as_blocks a fd @ [got]) (as_lib a) = Inr (line, l1)"
    "as_lib a' = l1"
    using assms(2) by (auto simp: read_proc_def Let_def)
  then show ?thesis using process_input_grows assms(1) by blast
qed

lemma process_in_order:
  assumes "polite react" "in_order (as_lib a)" "rptp_async_process react got taken fd what a = Inr a'"
  shows "in_order (as_lib a')"
proof -
  have e: "grows l (l\<lparr>lib_errno := x\<rparr>)" for l x by (rule same_queues_grows) (simp add: same_queues_def)
  show ?thesis
    using assms(3) grows_in_order [OF assms(2)] e call_back_grows [OF assms(1)] read_proc_grows [OF assms(1)]
      write_proc_in_order [OF assms(1,2)] assms(2)
    by (auto simp: rptp_async_process_def on_lib_def Let_def split: if_splits)
qed

lemma serve_fds_in_order:
  assumes "polite react" "in_order (as_lib a)" "serve_fds react rs ws fds n a = Inr a'"
  shows "in_order (as_lib a')"
  using assms
proof (induction fds arbitrary: n a)
  case (Cons i fds)
  show ?case
  proof (cases "n = 0")
    case False
    obtain n1 a1 n2 a2 where s:
      "(case map_of rs i of None \<Rightarrow> Inr (n, a)
        | Some got \<Rightarrow> if rcallback (lib_group (as_lib a) i) = None then Inr (n - 1, a)
            else bindE (rptp_async_process react got 0 i RPTP_ASYNC_READ a) (\<lambda>a1. Inr (n - 1, a1))) = Inr (n1, a1)"
      "(case map_of ws i of None \<Rightarrow> Inr (n1, a1)
        | Some taken \<Rightarrow> if \<not> writing (lib_group (as_lib a1) i) then Inr (n1 - 1, a1)
            else bindE (rptp_async_process react [] taken i RPTP_ASYNC_WRITE a1) (\<lambda>a2. Inr (n1 - 1, a2))) = Inr (n2, a2)"
      "serve_fds react rs ws fds n2 a2 = Inr a'"
      using Cons.prems(3) False unfolding serve_fds.simps by auto
    have "in_order (as_lib a1)"
      using s(1) Cons.prems(1,2) process_in_order [OF Cons.prems(1,2)] by (auto split: option.splits if_splits)
    moreover from this have "in_order (as_lib a2)"
      using s(2) process_in_order [OF Cons.prems(1)] by (auto split: option.splits if_splits)
    ultimately show ?thesis using Cons.IH [OF Cons.prems(1) _ s(3)] by simp
  qed (use Cons.prems in simp)
qed simp

lemma loop_rounds_in_order:
  "loop_rounds react sels a = Inr (r, a') \<Longrightarrow> polite react \<Longrightarrow> in_order (as_lib a) \<Longrightarrow> in_order (as_lib a')"
proof (induction react sels a rule: loop_rounds.induct)
  case (1 react sels a)
  show ?case
  proof (cases "looping (as_lib a)")
    case True
    show ?thesis
    proof (cases sels)
      case (Cons x sels')
      show ?thesis
      proof (cases x)
        case SelEintr
        then show ?thesis using 1 True Cons by (simp add: loop_rounds.simps [of react "SelEintr # sels'" a])

      next
        case SelFailed
        then show ?thesis using 1 True Cons by (simp add: loop_rounds.simps [of react "SelFailed # sels'" a])
      next
        case (Ready rs ws)
        let ?rs = "filter (\<lambda>(i, _). want_read (as_lib a) i) rs" and ?ws = "filter (\<lambda>(i, _). want_write (as_lib a) i) ws"
        obtain a1 where a1: "serve_fds react ?rs ?ws [0..FD_SETSIZE - 1] (int (length ?rs + length ?ws)) a = Inr a1"
          "loop_rounds react sels' a1 = Inr (r, a')"
          using 1(3) True Cons Ready by (auto simp: loop_rounds.simps [of react "Ready rs ws # sels'" a] Let_def)
        have "in_order (as_lib a1)" using serve_fds_in_order [OF 1(4,5) a1(1)] .
        then show ?thesis using 1(2) [OF _ Cons Ready refl refl a1(1)] True a1(2) 1(4) by simp
      qed
    qed (use 1 True in \<open>simp add: loop_rounds.simps [of react "[]" a]\<close>)
  qed (use 1 in \<open>simp add: loop_rounds.simps [of react sels a]\<close>)
qed

text \<open>C16.  Whatever \<open>select\<close> and \<open>write\<close> do and whatever the callbacks queue meanwhile: the main loop
  writes to each descriptor what it was asked to write, in that order and nothing else; what is not
  yet written waits in the queue.\<close>

theorem main_loop_writes_in_order:
  assumes "polite react" "in_order (as_lib a)" "rptp_main_loop react sels a = Inr (r, a')"
  shows "asked_to fd (lib_trace (as_lib a')) = sent_to fd (lib_trace (as_lib a')) @ waiting fd (as_lib a')"
proof -
  have "in_order (as_lib (a\<lparr>as_lib := (as_lib a)\<lparr>looping := True, loop_value := 0\<rparr>\<rparr>))"
    using assms(2) by (simp add: in_order_def waiting_def)
  from loop_rounds_in_order [OF assms(3) [unfolded rptp_main_loop_def] assms(1) this]
  show ?thesis by (simp add: in_order_def)
qed
text \<open>Callbacks of a client: number 7 writes another line, the others do nothing.\<close>

definition demo_callbacks :: callbacks where
  "demo_callbacks f fd args l =
     (if f = 7 then snd (rptp_async_write (\<lambda>_ _ _ l. l) fd None (Some ''next'') 4 l) else l)"

definition fresh_lib :: lib where
  "fresh_lib = \<lparr>lib_group = (\<lambda>_. empty_grp), looping = False, loop_value = 0, lib_errno = RPTP_ERROR_NONE,
     lib_parse = \<lparr>ps_list = [], ps_pos = None, ps_cache = None\<rparr>, lib_trace = []\<rparr>"

definition fresh_async :: "lib \<Rightarrow> async" where
  "fresh_async l = \<lparr>as_lib = l, as_blocks = (\<lambda>_. []), as_line = []\<rparr>"

lemma demo_callbacks_polite: "polite demo_callbacks"
  using async_write_grows [of "\<lambda>_ _ _ l. l"] by (simp add: polite_def demo_callbacks_def)

definition demo_queue :: async where
  "demo_queue = fresh_async (snd (rptp_async_write demo_callbacks 3 (Some 7) (Some ''hello'') 5 fresh_lib))"

definition demo_rounds :: "selected list" where
  "demo_rounds = [Ready [] [(3, 2)], SelEintr, Ready [] [(3, 100)], Ready [] [(3, 100)]]"

lemma main_loop_writes_in_order_witness:
  "\<exists>a'. rptp_main_loop demo_callbacks demo_rounds demo_queue = Inr (None, a')
     \<and> sent_to 3 (lib_trace (as_lib a')) = ''hellonext'' \<and> asked_to 3 (lib_trace (as_lib a')) = ''hellonext'' @ waiting 3 (as_lib a')"
proof -
  let ?r = "rptp_main_loop demo_callbacks demo_rounds demo_queue"
  have e: "(case ?r of Inr (x, a') \<Rightarrow> x = None \<and> sent_to 3 (lib_trace (as_lib a')) = ''hellonext'' | _ \<Rightarrow> False) = True"
    by code_simp
  then obtain a' where a': "?r = Inr (None, a')" "sent_to 3 (lib_trace (as_lib a')) = ''hellonext''"
    by (auto split: sum.splits prod.splits)
  have "in_order (as_lib demo_queue)"
    by (auto simp: in_order_def demo_queue_def fresh_async_def fresh_lib_def rptp_async_write_def fd_ok_def Let_def
        upd_grp_def log_event_def empty_grp_def do_register_def call_back_def waiting_def sized_new_obuf)
  from main_loop_writes_in_order [OF demo_callbacks_polite this a'(1), of 3] a' show ?thesis by auto
qed

section \<open>Lines\<close>

declare process_input.simps(2) [simp del]

lemma process_end_of_line:
  assumes "CR \<in> set b"
  shows "process_input react fd line (b # bs) l =
     (let u = takeWhile (\<lambda>c. c \<noteq> CR) b; r = drop (length u + 2) b
      in if length line + length u \<ge> 2 * RPTP_MAX_LINE then Inl PastLine
         else bindE (notify_line react fd (line @ u) l) (\<lambda>l1. process_input react fd [] (if r \<noteq> [] then r # bs else bs) l1))"
  using assms by (simp only: process_input.simps(2) Let_def if_True)

lemma process_part:
  "CR \<notin> set b \<Longrightarrow> process_input react fd line (b # bs) l =
     (if length line + length b > 2 * RPTP_MAX_LINE then Inl PastLine else process_input react fd (line @ b) bs l)"
  by (simp only: process_input.simps(2) if_False)

lemma process_input_Cons:
  "process_input react fd line (b # bs) l
     = bindE (process_input react fd line [b] l) (\<lambda>(line', l'). process_input react fd line' bs l')"
proof (induction "length b" arbitrary: b line l rule: less_induct)
  case less
  show ?case
  proof (cases "CR \<in> set b")
    case True
    let ?u = "takeWhile (\<lambda>c. c \<noteq> CR) b" and ?r = "drop (length (takeWhile (\<lambda>c. c \<noteq> CR) b) + 2) b"
    have eq: "process_input react fd line (b # xs) l =
        (if length line + length ?u \<ge> 2 * RPTP_MAX_LINE then Inl PastLine
         else bindE (notify_line react fd (line @ ?u) l) (\<lambda>l1. process_input react fd [] (if ?r \<noteq> [] then ?r # xs else xs) l1))"
      for xs unfolding process_end_of_line [OF True] Let_def ..
    have "length ?r < length b" using True by (cases b) auto
    from less [OF this, of "[]"] have ih: "process_input react fd [] (if ?r \<noteq> [] then ?r # bs else bs) l1 =
        bindE (process_input react fd [] (if ?r \<noteq> [] then [?r] else []) l1) (\<lambda>(line', l'). process_input react fd line' bs l')"
      for l1 by auto
    show ?thesis
      unfolding eq ih by (cases "notify_line react fd (line @ ?u) l") auto
  qed (simp add: process_part)
qed

lemma read_blocks:
  assumes "as_blocks a fd = []" "[] \<notin> set bs"
  shows "foldE (\<lambda>got. read_proc react got fd) bs a
    = bindE (process_input react fd (as_line a) bs (as_lib a)) (\<lambda>(line, l). Inr (a\<lparr>as_lib := l, as_line := line\<rparr>))"
  using assms
proof (induction bs arbitrary: a)
  case (Cons b bs)
  have upd: "(as_blocks a)(fd := []) = as_blocks a" and b: "b \<noteq> []" using Cons.prems by auto
  have rp: "read_proc react b fd a = bindE (process_input react fd (as_line a) [b] (as_lib a))
      (\<lambda>(line, l). Inr (a\<lparr>as_lib := l, as_line := line\<rparr>))"
    using b Cons.prems(1) upd by (simp add: read_proc_def Let_def)
  show ?case
    unfolding process_input_Cons [of _ _ _ b bs] foldE.simps(2) rp
    using Cons.IH [of "a\<lparr>as_lib := _, as_line := _\<rparr>"] Cons.prems
    by (cases "process_input react fd (as_line a) [b] (as_lib a)") (auto split: prod.splits)
qed simp

text \<open>What the daemon sends: lines, and the start of one more.\<close>

fun wire :: "string list \<Rightarrow> string \<Rightarrow> string" where
  "wire [] part = part"
| "wire (x # xs) part = x @ CR # LF # wire xs part"

lemma append_at_cr:
  assumes "u @ CR # x = v @ CR # y" "CR \<notin> set u" "CR \<notin> set v"
  shows "u = v \<and> x = y"
  using assms
proof (induction u arbitrary: v)
  case Nil
  then show ?case by (cases v) auto
next
  case (Cons c u)
  then show ?case by (cases v) auto
qed

lemma wire_cases:
  assumes "v @ w = wire xs part" "CR \<notin> set v" "\<forall>x \<in> set (part # xs). length x < n"
  shows "length v < n"
proof (cases xs)
  case Nil
  then have "part = v @ w" using assms(1) by simp
  then show ?thesis using assms(3) by simp
next
  case (Cons x ys)
  then have "v @ w = x @ CR # LF # wire ys part" using assms(1) by simp
  then consider us where "v = x @ us" "us @ w = CR # LF # wire ys part" | us where "x = v @ us"
    by (auto simp: append_eq_append_conv2)
  then show ?thesis
  proof cases
    case 1
    then have "us = []" using assms(2) by (cases us) auto
    then show ?thesis using 1 assms(3) Cons by simp
  qed (use assms(3) Cons in auto)
qed

lemma process_lines:
  assumes "line @ concat bs = wire xs part" "CR \<notin> set line" "\<forall>x \<in> set (part # xs). CR \<notin> set x"
    "\<forall>x \<in> set (part # xs). length x < 2 * RPTP_MAX_LINE" "\<forall>b \<in> set bs. b \<noteq> [] \<and> last b \<noteq> CR"
  shows "process_input react fd line bs l = bindE (foldE (notify_line react fd) xs l) (\<lambda>l'. Inr (part, l'))"
  using assms
proof (induction react fd line bs l arbitrary: xs rule: process_input.induct)
  case (1 react fd line l)
  then show ?case by (cases xs) auto
next
  case (2 react fd line b bs l)
  show ?case
  proof (cases "CR \<in> set b")
    case True
    then obtain u rest where b: "b = u @ CR # rest" "CR \<notin> set u" using split_list_first by metis
    have u: "takeWhile (\<lambda>c. c \<noteq> CR) b = u" using b by (subst b(1), subst takeWhile_append2) auto
    have lu: "CR \<notin> set (line @ u)" using 2(4) b(2) by simp
    have "xs \<noteq> []" using 2(3,5) b(1) by (cases xs) (auto dest!: arg_cong [where f = set])
    then obtain x ys where xs: "xs = x # ys" by (cases xs) auto
    have "(line @ u) @ CR # (rest @ concat bs) = x @ CR # (LF # wire ys part)"
      using 2(3) b(1) xs by simp
    from append_at_cr [OF this lu] have x: "x = line @ u" "rest @ concat bs = LF # wire ys part"
      using 2(5) xs by auto
    have "rest \<noteq> []" using 2(7) b(1) by auto
    then obtain r where r: "rest = LF # r" using x(2) by (cases rest) auto
    have dr: "drop (length u + 2) b = r" using b r by simp
    have eq: "process_input react fd line (b # bs) l = bindE (notify_line react fd x l)
        (\<lambda>l1. process_input react fd [] (if r \<noteq> [] then r # bs else bs) l1)"
      unfolding process_end_of_line [OF True] Let_def u dr using 2(6) xs x(1) by simp
    have short: "\<not> length line + length u \<ge> 2 * RPTP_MAX_LINE" using 2(6) xs x(1) by simp
    have w: "[] @ concat (if r \<noteq> [] then r # bs else bs) = wire ys part" using x(2) r by (cases "r = []") simp_all
    have g: "\<forall>b' \<in> set (if r \<noteq> [] then r # bs else bs). b' \<noteq> [] \<and> last b' \<noteq> CR"
      using 2(7) b(1) r by auto
    have ih: "process_input react fd [] (if r \<noteq> [] then r # bs else bs) l1
        = bindE (foldE (notify_line react fd) ys l1) (\<lambda>l'. Inr (part, l'))"
      if n: "notify_line react fd x l = Inr l1" for l1
      by (rule 2(1) [OF True refl refl, unfolded u dr, OF short n [unfolded x(1)] w _ _ _ g]) (use 2(5,6) xs in auto)
    show ?thesis
      unfolding eq xs by (cases "notify_line react fd x l") (use ih in auto)
  next
    case False
    have "length (line @ b) < 2 * RPTP_MAX_LINE"
      using wire_cases [of "line @ b" "concat bs" xs part] 2(3,4,6) False by simp
    then show ?thesis using 2(2) [OF False, of xs] 2(3-7) False by (auto simp: process_part)
  qed
qed

text \<open>C17.  However \<open>read\<close> cuts the stream of one connection, as long as it never cuts between a
  carriage return and its line feed: the client is notified of exactly the lines that were sent,
  in order, and the start of the next line is kept.\<close>

theorem reads_lines:
  assumes "as_blocks a fd = []" "as_line a = []" "concat bs = wire xs part"
    and "\<forall>b \<in> set bs. b \<noteq> [] \<and> last b \<noteq> CR"
    and "\<forall>x \<in> set (part # xs). CR \<notin> set x \<and> length x < 2 * RPTP_MAX_LINE"
  shows "foldE (\<lambda>got. read_proc react got fd) bs a
    = bindE (foldE (notify_line react fd) xs (as_lib a)) (\<lambda>l. Inr (a\<lparr>as_lib := l, as_line := part\<rparr>))"
proof -
  have p: "process_input react fd (as_line a) bs (as_lib a)
      = bindE (foldE (notify_line react fd) xs (as_lib a)) (\<lambda>l'. Inr (part, l'))"
    by (rule process_lines) (use assms in auto)
  have "[] \<notin> set bs" using assms(4) by auto
  from read_blocks [OF assms(1) this, of react] show ?thesis
    unfolding p by (cases "foldE (notify_line react fd) xs (as_lib a)") auto
qed

text \<open>A client with a callback for answers on descriptor 3.\<close>

definition demo_reader :: async where
  "demo_reader = fresh_async (upd_grp 3 (\<lambda>g. g\<lparr>rcallback := Some 1, notify_mask := 0xFFFF\<rparr>) fresh_lib)"

definition told :: "async_crash + async \<Rightarrow> async_event list" where
  "told r = (case r of Inl _ \<Rightarrow> [] | Inr a \<Rightarrow> lib_trace (as_lib a))"

lemma reads_lines_witness:
  "foldE (\<lambda>got. read_proc demo_callbacks got 3) [''+ok'' @ [CR, LF] @ ''-n'', ''o'' @ [CR, LF] @ ''+''] demo_reader
     = bindE (foldE (notify_line demo_callbacks 3) [''+ok'', ''-no''] (as_lib demo_reader)) (\<lambda>l. Inr (demo_reader\<lparr>as_lib := l, as_line := ''+''\<rparr>))"
  by (rule reads_lines) (simp_all add: demo_reader_def fresh_async_def)

text \<open>A cut between the two, or two connections at once: the line feed becomes the first character of
  the next line, which is then no answer; lines of two servers run together.\<close>

lemma split_line_end:
  "told (foldE (\<lambda>got. read_proc demo_callbacks got 3) [''+ok'' @ [CR], LF # ''-no'' @ [CR, LF]] demo_reader)
     = [Called 1 3 (Event RPTP_EVENT_OK ''+ok''), Called 1 3 (Event RPTP_EVENT_OTHER (LF # ''-no''))]"
  by code_simp

lemma lines_run_together:
  "told (foldE (\<lambda>(fd, got). read_proc demo_callbacks got fd) [(4, ''-n''), (3, ''+ok'' @ [CR, LF])] demo_reader)
     = [Called 1 3 (Event RPTP_EVENT_ERROR ''-n+ok'')]"
  by code_simp

lemma putline_says_failed:
  assumes "fd_ok fd" "length txt + 3 \<le> RPTP_MAX_LINE"
  shows "\<exists>l'. rptp_async_putline react fd cb txt l = Inr (-1, l')"
  using assms by (simp add: rptp_async_putline_def rptp_async_write_def Let_def)

end
