(* ===== verification/AsyncEvents.thy ===== *)
theory AsyncEvents
  imports Async Settings
begin

text \<open>
  The client's request for events meets the daemon: the line that \<open>rptp_async_notify\<close>
  (\<open>src/librplay/async.c\<close>) writes, read by the daemon's \<open>set\<close> command
  (\<open>src/rplayd/command.c\<close>).  The two sides number the events differently
  (\<open>include/rplay.h\<close>, \<open>rplayd/connection.h\<close>) and share only their names.
\<close>

text \<open>\<open>RPTP_EVENT_CONTINUE\<close> and \<open>NOTIFY_CONTINUE\<close>, then done, pause, play, skip, state, stop, volume,
  flow, modify, level and position.\<close>

definition event_pairs :: "(32 word \<times> 32 word) list" where
  "event_pairs = [(0x10, 8), (0x20, 32), (0x40, 4), (0x80, 2), (0x100, 64), (0x200, 128), (0x400, 16),
     (0x800, 1), (0x2000, 256), (0x4000, 512), (0x8000, 1024), (0x10000, 2048)]"

definition add_wanted :: "32 word \<Rightarrow> 32 word \<times> 32 word \<Rightarrow> 32 word \<Rightarrow> 32 word" where
  "add_wanted m p k = (if m AND fst p \<noteq> 0 then k OR snd p else k)"

lemma event_pairs_names: "event_pairs = map (\<lambda>(n, b). (b, event_bit n)) async_events"
  by (simp add: event_pairs_def async_events_def event_bit_def event_bits_def)

lemma fold_names:
  "fold (\<lambda>n k. k OR event_bit n) (map fst (filter (\<lambda>(n, b). m AND b \<noteq> 0) xs)) k
     = fold (add_wanted m) (map (\<lambda>(n, b). (b, event_bit n)) xs) k"
  by (induction xs arbitrary: k) (auto simp: add_wanted_def)

definition plain_event :: "string \<Rightarrow> bool" where
  "plain_event n \<longleftrightarrow> n \<noteq> [] \<and> n \<noteq> ''none'' \<and> hd n \<notin> {CHR ''+'', CHR ''-'', CHR ''#'', CHR 0x22}
     \<and> list_all (\<lambda>c. c \<notin> {CHR '','', CHR ''|'', CHR '' ''} \<and> \<not> value_end c) n"

lemma async_events_plain: "list_all (\<lambda>(n, b). plain_event n) async_events"
  by (simp add: async_events_def plain_event_def value_end_def)

lemma notify_names_plain: "n \<in> set (notify_names m) \<Longrightarrow> plain_event n"
  using async_events_plain by (auto simp: notify_names_def list_all_iff)

lemma event_word_plain: "plain_event n \<Longrightarrow> event_word n (k, 0) = (k OR event_bit n, 0)"
  by (cases n) (auto simp: plain_event_def event_word_def signed_word_def Let_def)

lemma fold_event_words:
  "\<forall>n \<in> set ns. plain_event n \<Longrightarrow> fold event_word ns (k, 0) = (fold (\<lambda>n k. k OR event_bit n) ns k, 0)"
  by (induction ns arbitrary: k) (simp_all add: event_word_plain)

lemma words_word:
  assumes "n \<noteq> []" "\<forall>c \<in> set n. c \<notin> seps" "r = [] \<or> hd r \<in> seps"
  shows "words seps (n @ r) = n # words seps r"
proof -
  obtain c cs where n: "n = c # cs" using assms(1) by (cases n) auto
  have "takeWhile (\<lambda>c. c \<notin> seps) (cs @ r) = cs" "dropWhile (\<lambda>c. c \<notin> seps) (cs @ r) = r"
    using assms(2,3) n by (cases r; auto simp: takeWhile_append dropWhile_append)+
  then show ?thesis using assms(2) n by (subst words.simps) simp
qed

lemma words_separator: "c \<in> seps \<Longrightarrow> words seps (c # r) = words seps r"
  by (subst (1 2) words.simps) simp

lemma words_join:
  assumes "\<forall>n \<in> set ns. plain_event n"
  shows "words {CHR '','', CHR ''|'', CHR '' ''} (join_commas ns) = ns"
  using assms
proof (induction ns rule: join_commas.induct)
  case 1
  show ?case by (subst words.simps) simp
next
  case (2 n)
  have "words {CHR '','', CHR ''|'', CHR '' ''} (n @ []) = n # words {CHR '','', CHR ''|'', CHR '' ''} []"
    by (rule words_word) (use 2 in \<open>auto simp: plain_event_def list_all_iff\<close>)
  then show ?case by (simp add: words.simps)
next
  case (3 n n' ns)
  have "words {CHR '','', CHR ''|'', CHR '' ''} (n @ '','' @ join_commas (n' # ns))
      = n # words {CHR '','', CHR ''|'', CHR '' ''} ('','' @ join_commas (n' # ns))"
    by (rule words_word) (use 3 in \<open>auto simp: plain_event_def list_all_iff\<close>)
  then show ?case using 3 by (simp add: words_separator)
qed

lemma plain_event_chars: "plain_event n \<Longrightarrow> c \<in> set n \<Longrightarrow> \<not> value_end c"
  by (simp add: plain_event_def list_all_iff)

lemma join_commas_chars:
  assumes "\<forall>n \<in> set ns. plain_event n"
  shows "list_all (\<lambda>c. \<not> value_end c) (join_commas ns)"
  using assms
proof (induction ns rule: join_commas.induct)
  case (3 n n' ns)
  have "\<not> value_end (CHR '','')" by (simp add: value_end_def)
  then show ?case using 3 plain_event_chars [of n] by (auto simp: list_all_iff)
qed (auto simp: list_all_iff dest: plain_event_chars)

text \<open>The value in the line.\<close>

definition wanted_value :: "32 word \<Rightarrow> string" where
  "wanted_value m = (if notify_names m = [] then ''none'' else join_commas (notify_names m))"

lemma wanted_value_plain:
  "wanted_value m \<noteq> [] \<and> hd (wanted_value m) \<noteq> CHR 0x22 \<and> list_all (\<lambda>c. \<not> value_end c) (wanted_value m)"
proof (cases "notify_names m")
  case (Cons n ns)
  have "plain_event n" using notify_names_plain [of n m] Cons by simp
  then have "n \<noteq> [] \<and> hd n \<noteq> CHR 0x22" by (simp add: plain_event_def)
  moreover have "list_all (\<lambda>c. \<not> value_end c) (join_commas (notify_names m))"
    using notify_names_plain by (intro join_commas_chars) blast
  ultimately show ?thesis using Cons by (cases ns) (auto simp: wanted_value_def)
qed (simp add: wanted_value_def value_end_def)

lemma parse_value_other:
  "c \<noteq> CHR 0x22 \<Longrightarrow> parse_value (c # cs)
     = (takeWhile (\<lambda>c. \<not> value_end c) (c # cs), tl (dropWhile (\<lambda>c. \<not> value_end c) (c # cs)))"
  by (cases c) (simp only: parse_value_def list.case char.case char.inject split: bool.split, blast)

lemma parse_value_plain:
  assumes "v \<noteq> []" "hd v \<noteq> CHR 0x22" "list_all (\<lambda>c. \<not> value_end c) v"
  shows "parse_value v = (v, [])"
proof -
  have p: "takeWhile (\<lambda>c. \<not> value_end c) v = v" "dropWhile (\<lambda>c. \<not> value_end c) v = []"
    using assms(3) by (auto simp: list_all_iff)
  have "parse_value v = (takeWhile (\<lambda>c. \<not> value_end c) v, tl (dropWhile (\<lambda>c. \<not> value_end c) v))"
    using assms(1,2) parse_value_other by (cases v) auto
  then show ?thesis by (simp only: p list.sel)
qed

lemma notify_command_pairs: "pairs_of (notify_command m) = [(''set'', []), (''notify'', wanted_value m)]"
proof -
  have "notify_command m = ''set notify='' @ wanted_value m" by (simp add: notify_command_def wanted_value_def)
  then show ?thesis
    using wanted_value_plain [of m]
    by (simp add: pairs_of_def skip_reply_char_def is_space_def name_end_def value_end_def parse_value_plain)
qed

lemma do_events_wanted:
  "do_events (wanted_value m) k
     = (if notify_names m = [] then 0 else fold (add_wanted m) event_pairs k, 0)"
proof (cases "notify_names m = []")
  case True
  then show ?thesis by (simp add: wanted_value_def) code_simp
next
  case False
  have "\<forall>n \<in> set (notify_names m). plain_event n" using notify_names_plain by blast
  then show ?thesis
    using False fold_names [of m async_events k]
    by (simp add: do_events_def wanted_value_def words_join fold_event_words event_pairs_names notify_names_def)
qed
section \<open>The request meets the daemon\<close>

lemma join_commas_length: "length (join_commas ns) \<le> sum_list (map (\<lambda>n. Suc (length n)) ns)"
  by (induction ns rule: join_commas.induct) auto

lemma sum_filter_names: "sum_list (map (\<lambda>n. Suc (length n)) (map fst (filter P xs))) \<le> sum_list (map (\<lambda>(n, b). Suc (length n)) xs)"
  by (induction xs) auto

lemma wanted_value_length: "length (wanted_value m) \<le> 100"
proof -
  have "sum_list (map (\<lambda>(n, b). Suc (length n)) async_events) \<le> 100" by (simp add: async_events_def)
  then show ?thesis
    using join_commas_length [of "notify_names m"] sum_filter_names [of "\<lambda>(n, b). m AND b \<noteq> 0" async_events]
    by (simp add: wanted_value_def notify_names_def)
qed

lemma add_text_fits:
  assumes "length (sr_text r) + length s \<le> 1000"
  shows "add_text s r = Inr (r\<lparr>sr_text := sr_text r @ s\<rparr>)"
proof -
  have "take (RPTP_MAX_LINE - 1) s = s" using assms by simp
  then show ?thesis using assms by (simp add: add_text_def Let_def)
qed


text \<open>Both ways: an example, and the bit that \<open>RPTP_EVENT_ALL\<close> leaves out.\<close>

lemma done_and_continue_wanted: "fold (add_wanted 0x30) event_pairs 0 = 8 OR 32"
  by (simp add: event_pairs_def add_wanted_def)

lemma all_without_position: "fold (add_wanted 0xFFFF) event_pairs 0 AND 2048 = 0"
  by (simp add: event_pairs_def add_wanted_def)

end
