(* ===== verification/SoundFill.thy ===== *)
theory SoundFill
  imports Header
begin

text \<open>
  Reading a sound (\<open>src/rplayd/sound.c\<close>): \<open>sound_open\<close>, \<open>sound_fill\<close>, \<open>sound_seek\<close>,
  \<open>sound_pipe_read\<close>, with the decompression of ADPCM and GSM data in place.  The model is of a
  build without helpers and CD drives for \<open>sound_open\<close>.  Buffers are the lists of their bytes, at
  most \<open>BUFFER_SIZE\<close>; \<open>ix_passed\<close> is the number of links of the flow before \<open>flowp\<close>.  What
  \<open>open\<close>, \<open>fstat\<close>, \<open>mmap\<close> and \<open>readv\<close> give are arguments; so are the decoders of the libraries
  gsm and g72x, over a state of type \<open>'d\<close>.  Floating-point values are exact.
\<close>

section \<open>State\<close>

abbreviation "BUFFER_SIZE \<equiv> (8192 :: int)"
abbreviation "UIO_MAXIOV \<equiv> (16 :: nat)"
abbreviation "GSM_FRAME \<equiv> (33 :: nat)"

text \<open>\<open>SINDEX\<close>.\<close>

record 'd index =
  ix_offset :: int
  ix_cached :: bool
  ix_fd :: int
  ix_eof :: bool
  ix_skip :: int
  ix_buffer_offset :: int
  ix_flow :: bool              \<comment> \<open>\<open>is_flow\<close>\<close>
  ix_passed :: nat
  ix_water_mark :: int
  ix_low :: int
  ix_high :: int
  ix_adpcm :: "'d \<times> 'd"
  ix_in_buffer :: "32 word"
  ix_in_bits :: int
  ix_gsm :: 'd
  ix_frame :: bytes            \<comment> \<open>\<open>gsm_bit_frame\<close>, an array of 33 bytes\<close>
  ix_frame_bytes :: nat
  ix_gsm_size :: int

text \<open>The parts of \<open>SOUND\<close> that are read: the fields of the header, the cached data (\<open>None\<close> for
  NULL), the buffers of the flow.\<close>

record loaded =
  ld_header :: header
  ld_cache :: "bytes option"
  ld_flow :: "bytes list"

datatype fill_error = BeforeBuffer | PastCache | NullCache | PastBuffer

record 'd codec =
  cd_adpcm :: "audio_format \<Rightarrow> 32 word \<Rightarrow> 'd \<Rightarrow> 16 word \<times> 'd"
  cd_adpcm_start :: 'd
  cd_gsm :: "bytes \<Rightarrow> 'd \<Rightarrow> 16 word list \<times> 'd"
  cd_gsm_start :: 'd

section \<open>Opening and closing\<close>

definition new_index :: "'d codec \<Rightarrow> 'd index" where
  "new_index cd = \<lparr>ix_offset = 0, ix_cached = False, ix_fd = 0, ix_eof = False, ix_skip = 0,
     ix_buffer_offset = 0, ix_flow = False, ix_passed = 0, ix_water_mark = 0, ix_low = 0, ix_high = 0,
     ix_adpcm = (cd_adpcm_start cd, cd_adpcm_start cd), ix_in_buffer = 0, ix_in_bits = 0,
     ix_gsm = cd_gsm_start cd, ix_frame = replicate GSM_FRAME 0, ix_frame_bytes = 0,
     ix_gsm_size = 0\<rparr>"

text \<open>What the system calls give: the descriptor of \<open>open\<close> (-1 for an error), whether the file is a
  directory and its size (\<open>None\<close>: \<open>fstat\<close> fails), the mapped bytes (\<open>None\<close>: \<open>mmap\<close> fails);
  and \<open>helper_lookup\<close>, the limits of the cache.\<close>

record open_env =
  op_open :: int
  op_stat :: "(bool \<times> int) option"
  op_mmap :: "bytes option"
  op_helper :: bool
  op_max_sound :: int
  op_max :: int

definition may_cache :: "open_env \<Rightarrow> int \<Rightarrow> int \<Rightarrow> bool" where
  "may_cache ev used len \<longleftrightarrow> op_max ev \<noteq> 0 \<and> \<not> op_helper ev
     \<and> (op_max_sound ev = 0 \<or> len \<le> op_max_sound ev) \<and> used + len \<le> op_max ev"

text \<open>The result: the index (\<open>None\<close> for NULL), the sound and \<open>sound_cache_size\<close>.\<close>

definition sound_open :: "'d codec \<Rightarrow> open_env \<Rightarrow> loaded \<Rightarrow> int \<Rightarrow> 'd index option \<times> loaded \<times> int" where
  "sound_open cd ev s used =
     (let ix = new_index cd; h = ld_header s
      in if h_type h = INPUT_FILE then
           (if ld_cache s \<noteq> None then (Some (ix\<lparr>ix_cached := True\<rparr>), s, used)
            else if op_open ev < 0 then (None, s, used)
            else if h_mapped h \<and> h_size h \<noteq> 0 then (Some (ix\<lparr>ix_fd := op_open ev\<rparr>), s, used)
            else case op_stat ev of
                None \<Rightarrow> (None, s, used)
              | Some (dir, len) \<Rightarrow>
                  if dir then (None, s, used)
                  else let s1 = s\<lparr>ld_header := h\<lparr>h_size := len\<rparr>\<rparr>
                       in if may_cache ev used len
                          then (case op_mmap ev of
                                  None \<Rightarrow> (None, s1, used)
                                | Some bs \<Rightarrow> (Some (ix\<lparr>ix_cached := True\<rparr>), s1\<lparr>ld_cache := Some bs\<rparr>, used + len))
                          else (Some (ix\<lparr>ix_fd := op_open ev\<rparr>), s1, used))
         else if h_type h = INPUT_FLOW then (Some (ix\<lparr>ix_flow := True\<rparr>), s, used)
         else (Some ix, s, used))"

definition sound_seek :: "'d index \<Rightarrow> int \<Rightarrow> 'd index" where
  "sound_seek ix n =
     (if ix_flow ix then ix\<lparr>ix_skip := ix_skip ix + n\<rparr>
      else if ix_cached ix then ix\<lparr>ix_offset := ix_offset ix + n\<rparr>
      else ix)"

section \<open>Decompression\<close>

text \<open>\<open>adpcm_unpack\<close> repeated until it returns -1: the codes, what is left of the bytes is none.\<close>

function adpcm_codes :: "nat \<Rightarrow> bytes \<Rightarrow> 32 word \<Rightarrow> int \<Rightarrow> 32 word list \<times> 32 word \<times> int" where
  "adpcm_codes bits bs buf have =
     (if bits = 0 then ([], buf, have)
      else if have < int bits then
        (case bs of [] \<Rightarrow> ([], buf, have)
         | b # bs' \<Rightarrow>
             let buf1 = buf OR push_bit (nat have) (ucast b);
                 (cs, r) = adpcm_codes bits bs' (drop_bit bits buf1) (have + 8 - int bits)
             in (take_bit bits buf1 # cs, r))
      else
        let (cs, r) = adpcm_codes bits bs (drop_bit bits buf) (have - int bits)
        in (take_bit bits buf # cs, r))"
  by pat_completeness auto
termination
  by (relation "measures [\<lambda>(_, bs, _). length bs, \<lambda>(_, _, _, n). nat n]") auto

declare adpcm_codes.simps [simp del]

text \<open>A \<open>short\<close> stored in memory, on a little-endian machine.\<close>

definition short_bytes :: "16 word \<Rightarrow> bytes" where
  "short_bytes w = [ucast w, ucast (drop_bit 8 w)]"

definition to_shorts :: "16 word list \<Rightarrow> bytes" where
  "to_shorts ws = concat (map short_bytes ws)"

text \<open>The codes through the decoders of one or two channels; the flag is the channel that is next.\<close>

fun adpcm_samples :: "(32 word \<Rightarrow> 'd \<Rightarrow> 16 word \<times> 'd) \<Rightarrow> bool \<Rightarrow> bool \<Rightarrow> 32 word list \<Rightarrow> 'd \<times> 'd
     \<Rightarrow> 16 word list \<times> bool \<times> ('d \<times> 'd)" where
  "adpcm_samples f stereo ch [] st = ([], ch, st)"
| "adpcm_samples f stereo ch (c # cs) st =
     (let (w, d) = f c (if ch then snd st else fst st);
          (ws, r) = adpcm_samples f stereo (if stereo then \<not> ch else ch) cs (if ch then (fst st, d) else (d, snd st))
      in (w # ws, r))"

text \<open>\<open>adpcm_decode\<close>: the buffers up to the first empty one.\<close>

fun adpcm_decode :: "(32 word \<Rightarrow> 'd \<Rightarrow> 16 word \<times> 'd) \<Rightarrow> nat \<Rightarrow> bool \<Rightarrow> bool \<Rightarrow> bytes list \<Rightarrow> 'd index
     \<Rightarrow> fill_error + (bytes list \<times> 'd index)" where
  "adpcm_decode f bits stereo ch [] ix = Inr ([], ix)"
| "adpcm_decode f bits stereo ch (b # bs) ix =
     (if b = [] then Inr (b # bs, ix)
      else
        let (cs, buf, n) = adpcm_codes bits b (ix_in_buffer ix) (ix_in_bits ix);
            (ws, ch1, st) = adpcm_samples f stereo ch cs (ix_adpcm ix)
        in if int (length (to_shorts ws)) > BUFFER_SIZE then Inl PastBuffer
           else bindE (adpcm_decode f bits stereo ch1 bs (ix\<lparr>ix_in_buffer := buf, ix_in_bits := n, ix_adpcm := st\<rparr>))
                  (\<lambda>(ds, ix1). Inr (to_shorts ws # ds, ix1)))"

text \<open>The frames of a buffer: the samples, the array of the frame and how many of its bytes count.
  The code copies to the start of the array, also when \<open>k\<close> bytes are there already.\<close>

function gsm_frames :: "(bytes \<Rightarrow> 'd \<Rightarrow> 16 word list \<times> 'd) \<Rightarrow> bytes \<Rightarrow> nat \<Rightarrow> bytes \<Rightarrow> 'd
     \<Rightarrow> 16 word list \<times> bytes \<times> nat \<times> 'd" where
  "gsm_frames f frame k bs d =
     (let n = min (length bs) (GSM_FRAME - k);
          frame1 = take n bs @ drop n frame; bs1 = drop n bs
      in if k + n = GSM_FRAME
         then (let (ws, d1) = f frame1 d
               in if bs1 \<noteq> [] \<and> n > 0
                  then (let (ws1, r) = gsm_frames f frame1 0 bs1 d1 in (ws @ ws1, r))
                  else (ws, frame1, 0, d1))
         else if bs1 \<noteq> [] \<and> n > 0 then gsm_frames f frame1 (k + n) bs1 d
         else ([], frame1, k + n, d))"
  by pat_completeness auto
termination
  by (relation "measure (\<lambda>(_, _, _, bs, _). length bs)") auto

declare gsm_frames.simps [simp del]

fun gsm_uncompress :: "(bytes \<Rightarrow> 'd \<Rightarrow> 16 word list \<times> 'd) \<Rightarrow> bytes list \<Rightarrow> 'd index
     \<Rightarrow> fill_error + (bytes list \<times> 'd index)" where
  "gsm_uncompress f [] ix = Inr ([], ix)"
| "gsm_uncompress f (b # bs) ix =
     (let (ws, frame, k, d) = gsm_frames f (ix_frame ix) (ix_frame_bytes ix) b (ix_gsm ix)
      in if int (length (to_shorts ws)) > BUFFER_SIZE then Inl PastBuffer
         else bindE (gsm_uncompress f bs (ix\<lparr>ix_frame := frame, ix_frame_bytes := k, ix_gsm := d\<rparr>)) (\<lambda>(ds, ix1).
           Inr (to_shorts ws # ds, ix1)))"

definition decode :: "'d codec \<Rightarrow> header \<Rightarrow> bytes list \<Rightarrow> 'd index \<Rightarrow> fill_error + (bytes list \<times> 'd index)" where
  "decode cd h data ix =
     (let f = cd_adpcm cd (h_format h); st = (h_channels h = 2)
      in case h_format h of
           G721 \<Rightarrow> adpcm_decode f 4 st False data ix
         | G723_3 \<Rightarrow> adpcm_decode f 3 st False data ix
         | G723_5 \<Rightarrow> adpcm_decode f 5 st False data ix
         | GSM \<Rightarrow> gsm_uncompress (cd_gsm cd) data ix
         | _ \<Rightarrow> Inr (data, ix))"
section \<open>sound_fill\<close>

definition max_per_buffer :: "header \<Rightarrow> int" where
  "max_per_buffer h =
     trunc (of_int BUFFER_SIZE * (if h_mapped h then h_input_precision h / of_int (h_output_precision h) else 1))"

text \<open>The largest multiple of a GSM frame.\<close>

definition frame_multiple :: "int \<Rightarrow> int" where
  "frame_multiple n = n - n mod int GSM_FRAME"

definition fill_size :: "header \<Rightarrow> 'd index \<Rightarrow> int \<times> 'd index" where
  "fill_size h ix =
     (if h_format h = GSM
      then let n = (if ix_gsm_size ix = 0 then frame_multiple (max_per_buffer h) else ix_gsm_size ix)
           in (n, ix\<lparr>ix_gsm_size := n\<rparr>)
      else (max_per_buffer h, ix))"

text \<open>The copy from the buffers \<open>fs\<close> of a flow into one buffer that holds \<open>b\<close>: where the reading is
  (\<open>bo\<close> is \<open>buffer_offset\<close>, \<open>sk\<close> is \<open>skip\<close>), how many buffers were passed, and the bytes.\<close>

function copy_flow :: "int \<Rightarrow> bytes list \<Rightarrow> int \<Rightarrow> int \<Rightarrow> nat \<Rightarrow> bytes
     \<Rightarrow> fill_error + (bytes list \<times> int \<times> int \<times> nat \<times> bytes)" where
  "copy_flow room [] bo sk k b = Inr ([], bo, sk, k, b)"
| "copy_flow room (f # fs) bo sk k b =
     (if int (length b) \<ge> room then Inr (f # fs, bo, sk, k, b)
      else
        let n = int (length f) - bo - sk
        in if n < 0 then
             copy_flow room fs 0 (sk - int (length f)) (Suc k) b
           else if bo + sk < 0 then Inl BeforeBuffer
           else
             let i = min n (room - int (length b));
                 b1 = b @ take (nat i) (drop (nat (bo + sk)) f)
             in if bo + i \<ge> int (length f) then copy_flow room fs 0 0 (Suc k) b1
                else copy_flow room (f # fs) (bo + i) 0 k b1)"
  by pat_completeness auto
termination
proof (relation "measures [\<lambda>(_, fs, _). length fs, \<lambda>(room, _, _, _, _, b). nat (room - int (length b)),
    \<lambda>(_, _, _, sk, _). if sk = 0 then 0 else 1]", goal_cases)
  case (4 room f fs bo sk k b n i b1)
  have "i = 0 \<Longrightarrow> sk \<noteq> 0" using 4 by auto
  moreover have "length b1 = length b + nat i"
    using 4 by auto
  ultimately show ?case using 4 by auto
qed auto

declare copy_flow.simps [simp del]

fun fill_flow :: "int \<Rightarrow> bytes list \<Rightarrow> int \<Rightarrow> int \<Rightarrow> nat \<Rightarrow> bytes list
     \<Rightarrow> fill_error + (bytes list \<times> int \<times> int \<times> nat \<times> bytes list)" where
  "fill_flow room fs bo sk k [] = Inr (fs, bo, sk, k, [])"
| "fill_flow room fs bo sk k (b # data) =
     (if fs = [] then Inr (fs, bo, sk, k, b # data)
      else bindE (copy_flow room fs bo sk k b) (\<lambda>(fs1, bo1, sk1, k1, b1).
             bindE (fill_flow room fs1 bo1 sk1 k1 data) (\<lambda>(fs2, bo2, sk2, k2, data1).
               Inr (fs2, bo2, sk2, k2, b1 # data1))))"

definition data_size :: "bytes list \<Rightarrow> int" where
  "data_size data = int (length (concat data))"

definition discarded :: "header \<Rightarrow> bool" where
  "discarded h \<longleftrightarrow> h_storage h = STORAGE_NONE \<or> h_storage h = STORAGE_NULL"

definition set_marks :: "header \<Rightarrow> 'd index \<Rightarrow> 'd index" where
  "set_marks h ix =
     (if ix_high ix \<noteq> 0 then ix
      else let n = of_int (h_sample_rate h) * h_input_sample_size h
           in if h_type h = INPUT_CDROM \<and> trunc n \<noteq> 0
              then ix\<lparr>ix_low := trunc (n / 2), ix_high := trunc n\<rparr>
              else ix\<lparr>ix_low := trunc (n / 4), ix_high := trunc (n / 2)\<rparr>)"

definition read_flow :: "int \<Rightarrow> bytes list \<Rightarrow> loaded \<Rightarrow> 'd index \<Rightarrow> fill_error + (int \<times> bytes list \<times> loaded \<times> 'd index)" where
  "read_flow room data s ix =
     (let h = ld_header s; ix0 = set_marks h ix
      in bindE (fill_flow room (drop (ix_passed ix0) (ld_flow s)) (ix_buffer_offset ix0) (ix_skip ix0) (ix_passed ix0) data)
           (\<lambda>(fs, bo, sk, k, data1).
              let total = data_size data1 - data_size data;
                  ix1 = ix0\<lparr>ix_offset := ix_offset ix0 + total, ix_skip := sk, ix_buffer_offset := bo, ix_passed := k\<rparr>;
                  (s2, ix2) = (if discarded h then (s\<lparr>ld_flow := fs\<rparr>, ix1\<lparr>ix_passed := 0\<rparr>) else (s, ix1))
              in Inr (total, data1, s2,
                   if h_tail h \<noteq> 0 \<and> ix_offset ix2 \<ge> h_tail h then ix2\<lparr>ix_eof := True\<rparr> else ix2)))"

text \<open>The cached data; \<open>n\<close> bytes are left of it.\<close>

fun copy_cached :: "int \<Rightarrow> bytes \<Rightarrow> int \<Rightarrow> int \<Rightarrow> nat \<Rightarrow> fill_error + (bytes list \<times> int)" where
  "copy_cached room c off n 0 = Inr ([], off)"
| "copy_cached room c off n (Suc m) =
     (let i = min n room
      in if i > 0 then
           (if off < 0 \<or> off + i > int (length c) then Inl PastCache
            else bindE (copy_cached room c (off + i) (n - i) m) (\<lambda>(ds, off1).
              Inr (take (nat i) (drop (nat off) c) # ds, off1)))
         else bindE (copy_cached room c off (n - i) m) (\<lambda>(ds, off1). Inr ([] # ds, off1)))"

definition read_cached :: "int \<Rightarrow> bytes list \<Rightarrow> loaded \<Rightarrow> 'd index \<Rightarrow> fill_error + (int \<times> bytes list \<times> loaded \<times> 'd index)" where
  "read_cached room data s ix =
     (let size = h_size (ld_header s); n = size - ix_offset ix
      in bindE (case ld_cache s of Some c \<Rightarrow> copy_cached room c (ix_offset ix) n (length data)
                | None \<Rightarrow> if min n room > 0 \<and> data \<noteq> [] then Inl NullCache else Inr (map (\<lambda>_. []) data, ix_offset ix))
           (\<lambda>(data1, off).
              Inr (data_size data1, data1, s, ix\<lparr>ix_offset := off, ix_eof := (ix_eof ix \<or> off \<ge> size)\<rparr>)))"

text \<open>What \<open>readv\<close> gave, spread over the buffers.\<close>

fun spread :: "nat \<Rightarrow> bytes \<Rightarrow> bytes list \<Rightarrow> bytes list" where
  "spread room bs [] = []"
| "spread room bs (_ # data) = take room bs # spread room (drop room bs) data"

definition read_disk :: "int \<Rightarrow> bytes option \<Rightarrow> bytes list \<Rightarrow> loaded \<Rightarrow> 'd index
     \<Rightarrow> fill_error + (int \<times> bytes list \<times> loaded \<times> 'd index)" where
  "read_disk room got data s ix =
     (case got of None \<Rightarrow> Inr (-1, data, s, ix)
      | Some bs \<Rightarrow>
          let bs1 = take (min (length data) UIO_MAXIOV * nat room) bs; n = int (length bs1)
          in if n = 0 then Inr (0, data, s, ix\<lparr>ix_eof := True\<rparr>)
             else Inr (n, spread (nat room) bs1 data, s, ix\<lparr>ix_offset := ix_offset ix + n\<rparr>))"

text \<open>\<open>got\<close> is what \<open>readv\<close> has if it is called, \<open>None\<close> an error.\<close>

definition sound_fill :: "'d codec \<Rightarrow> bytes option \<Rightarrow> bool \<Rightarrow> bytes list \<Rightarrow> loaded \<Rightarrow> 'd index
     \<Rightarrow> fill_error + (int \<times> bytes list \<times> loaded \<times> 'd index)" where
  "sound_fill cd got as_is data s ix =
     (if ix_eof ix \<and> \<not> ix_flow ix then Inr (0, data, s, ix)
      else
        let h = ld_header s; (room, ix1) = fill_size h ix
        in bindE (if ix_flow ix then read_flow room data s ix1
                  else if ix_cached ix then read_cached room data s ix1
                  else read_disk room got data s ix1)
             (\<lambda>(total, data1, s1, ix2).
                if total > 0 \<and> h_mapped h \<and> \<not> as_is
                then bindE (decode cd h data1 ix2) (\<lambda>(data2, ix3). Inr (total, data2, s1, ix3))
                else Inr (total, data1, s1, ix2)))"

section \<open>Pipes\<close>

text \<open>\<open>sound_pipe_read\<close> with the \<open>nbuffers\<close> buffers that \<open>buffer_alloc\<close> gives: the data (\<open>None\<close> for
  NULL), whether the descriptor leaves the read mask, whether the sound is removed from the spool.\<close>

definition sound_pipe_read :: "nat \<Rightarrow> bytes option \<Rightarrow> 'd index \<Rightarrow> bytes list option \<times> bool \<times> bool" where
  "sound_pipe_read nbuffers got ix =
     (if ix_water_mark ix - ix_offset ix > ix_high ix then (None, True, False)
      else case got of None \<Rightarrow> (None, False, True)
           | Some bs \<Rightarrow>
               let bs1 = take (min nbuffers UIO_MAXIOV * nat BUFFER_SIZE) bs
               in if bs1 = [] then (None, False, True)
                  else (Some (spread (nat BUFFER_SIZE) bs1 (replicate nbuffers [])), False, False))"
section \<open>Flows are read in order\<close>

text \<open>The position in the flow, and the bytes after it.\<close>

definition placed :: "bytes list \<Rightarrow> int \<Rightarrow> bool" where
  "placed fs bo \<longleftrightarrow> 0 \<le> bo \<and> (case fs of [] \<Rightarrow> bo = 0 | f # _ \<Rightarrow> bo \<le> int (length f))"

definition unread_from :: "bytes list \<Rightarrow> int \<Rightarrow> bytes" where
  "unread_from fs bo = drop (nat bo) (concat fs)"

lemma placed_next: "placed fs 0"
  by (cases fs) (simp_all add: placed_def)

lemma copy_flow_in_order:
  assumes "placed fs bo" "int (length b) \<le> room"
  shows "\<exists>m bo' b'. copy_flow room fs bo 0 k b = Inr (drop m fs, bo', 0, k + m, b')
    \<and> placed (drop m fs) bo' \<and> b' @ unread_from (drop m fs) bo' = b @ unread_from fs bo
    \<and> int (length b') \<le> room \<and> (int (length b') = room \<or> drop m fs = []) \<and> m \<le> length fs"
  using assms
proof (induction room fs bo "0 :: int" k b rule: copy_flow.induct)
  case (1 room bo k b)
  have "copy_flow room [] bo 0 k b = Inr (drop 0 [], bo, 0, k + 0, b)" by (simp add: copy_flow.simps)
  then show ?case using 1 by (intro exI [of _ 0] exI [of _ bo] exI [of _ b]) simp
next
  case (2 room f fs bo k b)
  have bo: "0 \<le> bo" "bo \<le> int (length f)" using 2(4) by (simp_all add: placed_def)
  show ?case
  proof (cases "int (length b) \<ge> room")
    case True
    have "copy_flow room (f # fs) bo 0 k b = Inr (drop 0 (f # fs), bo, 0, k + 0, b)"
      using True by (simp add: copy_flow.simps)
    then show ?thesis using 2(4,5) True by (intro exI [of _ 0] exI [of _ bo] exI [of _ b]) simp
  next
    case False
    define i where "i = min (int (length f) - bo) (room - int (length b))"
    define b1 where "b1 = b @ take (nat i) (drop (nat bo) f)"
    have i: "0 \<le> i" "bo + i \<le> int (length f)" "i \<le> room - int (length b)" using bo False by (auto simp: i_def)
    have l1: "int (length b1) = int (length b) + i" using bo i by (auto simp: b1_def)
    have u: "b1 @ unread_from (f # fs) (bo + i) = b @ unread_from (f # fs) bo"
    proof -
      have "nat (bo + i) = nat bo + nat i" using bo i by simp
      moreover have "nat bo + nat i \<le> length f" using bo i by linarith
      ultimately show ?thesis
        using bo append_take_drop_id [of "nat i" "drop (nat bo) f"] by (simp add: unread_from_def b1_def add.commute)
    qed
    have eq: "copy_flow room (f # fs) bo 0 k b = (if bo + i \<ge> int (length f) then copy_flow room fs 0 0 (Suc k) b1
        else copy_flow room (f # fs) (bo + i) 0 k b1)"
      using False bo by (simp add: copy_flow.simps(2) Let_def i_def b1_def)
    show ?thesis
    proof (cases "bo + i \<ge> int (length f)")
      case True
      have "unread_from (f # fs) (bo + i) = unread_from fs 0"
        using True i by (simp add: unread_from_def nat_add_distrib)
      then obtain m bo' b' where "copy_flow room fs 0 0 (Suc k) b1 = Inr (drop m fs, bo', 0, Suc k + m, b')"
        "placed (drop m fs) bo'" "b' @ unread_from (drop m fs) bo' = b @ unread_from (f # fs) bo"
        "int (length b') \<le> room" "int (length b') = room \<or> drop m fs = []" "m \<le> length fs"
        using 2(2) [OF False refl _ _ refl refl] True bo i l1 u placed_next by (auto simp: i_def b1_def)
      then show ?thesis using eq True by (intro exI [of _ "Suc m"] exI [of _ bo'] exI [of _ b']) simp
    next
      case le: False
      have "placed (f # fs) (bo + i)" using bo i by (simp add: placed_def)
      then show ?thesis
        using 2(3) [OF False refl _ _ refl refl] le bo i l1 u eq by (auto simp: i_def b1_def)
    qed
  qed
qed
lemma fill_flow_in_order:
  assumes "placed fs bo" "0 \<le> room"
  shows "\<exists>m bo' ds. fill_flow room fs bo 0 k (replicate n []) = Inr (drop m fs, bo', 0, k + m, ds)
    \<and> placed (drop m fs) bo' \<and> concat ds @ unread_from (drop m fs) bo' = unread_from fs bo
    \<and> ((\<forall>d \<in> set ds. int (length d) = room) \<or> drop m fs = []) \<and> m \<le> length fs"
  using assms(1)
proof (induction n arbitrary: fs bo k)
  case 0
  then show ?case by (intro exI [of _ 0] exI [of _ bo] exI [of _ "[]"]) simp
next
  case (Suc n)
  show ?case
  proof (cases "fs = []")
    case True
    then show ?thesis using Suc.prems by (intro exI [of _ 0] exI [of _ bo] exI [of _ "replicate (Suc n) []"]) simp
  next
    case False
    obtain m bo' b' where c: "copy_flow room fs bo 0 k [] = Inr (drop m fs, bo', 0, k + m, b')"
      "placed (drop m fs) bo'" "b' @ unread_from (drop m fs) bo' = unread_from fs bo"
      "int (length b') = room \<or> drop m fs = []" "m \<le> length fs"
      using copy_flow_in_order [OF Suc.prems, of "[]" room k] assms(2) by auto
    obtain m2 bo2 ds where d: "fill_flow room (drop m fs) bo' 0 (k + m) (replicate n []) = Inr (drop m2 (drop m fs), bo2, 0, k + m + m2, ds)"
      "placed (drop m2 (drop m fs)) bo2" "concat ds @ unread_from (drop m2 (drop m fs)) bo2 = unread_from (drop m fs) bo'"
      "(\<forall>d \<in> set ds. int (length d) = room) \<or> drop m2 (drop m fs) = []" "m2 \<le> length (drop m fs)"
      using Suc.IH [OF c(2)] by blast
    have "fill_flow room fs bo 0 k (replicate (Suc n) []) = Inr (drop (m + m2) fs, bo2, 0, k + (m + m2), b' # ds)"
      using False c(1) d(1) by (simp add: add.commute add.left_commute)
    moreover have "concat (b' # ds) @ unread_from (drop (m + m2) fs) bo2 = unread_from fs bo"
      using c(3) d(3) by (simp add: add.commute)
    moreover have "(\<forall>d \<in> set (b' # ds). int (length d) = room) \<or> drop (m + m2) fs = []"
      using c(4) d(4) by (auto simp: add.commute)
    moreover have "m + m2 \<le> length fs" using c(5) d(5) by simp
    ultimately show ?thesis using d(2) by (intro exI [of _ "m + m2"] exI [of _ bo2] exI [of _ "b' # ds"]) (simp add: add.commute)
  qed
qed

text \<open>A reader of a flow, and what it has not read.\<close>

definition unread :: "loaded \<Rightarrow> 'd index \<Rightarrow> bytes" where
  "unread s ix = unread_from (drop (ix_passed ix) (ld_flow s)) (ix_buffer_offset ix)"

definition reader_ok :: "loaded \<Rightarrow> 'd index \<Rightarrow> bool" where
  "reader_ok s ix \<longleftrightarrow> ix_flow ix \<and> ix_skip ix = 0 \<and> placed (drop (ix_passed ix) (ld_flow s)) (ix_buffer_offset ix)
     \<and> ix_passed ix \<le> length (ld_flow s)"

definition compressed :: "header \<Rightarrow> bool" where
  "compressed h \<longleftrightarrow> h_format h \<in> {G721, G723_3, G723_5, GSM}"

lemma set_marks_simps [simp]:
  "ix_flow (set_marks h ix) = ix_flow ix" "ix_skip (set_marks h ix) = ix_skip ix"
  "ix_buffer_offset (set_marks h ix) = ix_buffer_offset ix" "ix_passed (set_marks h ix) = ix_passed ix"
  "ix_offset (set_marks h ix) = ix_offset ix" "ix_eof (set_marks h ix) = ix_eof ix"
  by (simp_all add: set_marks_def Let_def)

lemma data_size_replicate [simp]: "data_size (replicate n []) = 0"
  by (simp add: data_size_def)

lemma fill_reads_flow:
  assumes "reader_ok s ix" "\<not> compressed (ld_header s)" "0 \<le> max_per_buffer (ld_header s)"
  shows "\<exists>ds s' ix'. sound_fill cd got as_is (replicate n []) s ix = Inr (data_size ds, ds, s', ix')
    \<and> concat ds @ unread s' ix' = unread s ix \<and> reader_ok s' ix' \<and> ld_header s' = ld_header s
    \<and> ((\<forall>d \<in> set ds. int (length d) = max_per_buffer (ld_header s)) \<or> unread s' ix' = [])"
proof -
  let ?h = "ld_header s" and ?fs = "drop (ix_passed ix) (ld_flow s)"
  have r: "placed ?fs (ix_buffer_offset ix)" "ix_flow ix" "ix_skip ix = 0" "ix_passed ix \<le> length (ld_flow s)"
    using assms(1) by (simp_all add: reader_ok_def)
  obtain m bo ds where f: "fill_flow (max_per_buffer ?h) ?fs (ix_buffer_offset ix) 0 (ix_passed ix) (replicate n [])
      = Inr (drop m ?fs, bo, 0, ix_passed ix + m, ds)"
    "placed (drop m ?fs) bo" "concat ds @ unread_from (drop m ?fs) bo = unread_from ?fs (ix_buffer_offset ix)"
    "(\<forall>d \<in> set ds. int (length d) = max_per_buffer ?h) \<or> drop m ?fs = []" "m \<le> length ?fs"
    using fill_flow_in_order [OF r(1) assms(3)] by blast
  have size: "fill_size ?h ix = (max_per_buffer ?h, ix)" using assms(2) by (simp add: fill_size_def compressed_def)
  have dec: "decode cd ?h x y = Inr (x, y)" for x y
    using assms(2) by (auto simp: decode_def compressed_def Let_def split: audio_format.splits)
  define ix1 where "ix1 = (set_marks ?h ix)\<lparr>ix_offset := ix_offset ix + data_size ds, ix_skip := 0,
    ix_buffer_offset := bo, ix_passed := (if discarded ?h then 0 else ix_passed ix + m)\<rparr>"
  define ix' where "ix' = (if h_tail ?h \<noteq> 0 \<and> ix_offset ix1 \<ge> h_tail ?h then ix1\<lparr>ix_eof := True\<rparr> else ix1)"
  define s' where "s' = (if discarded ?h then s\<lparr>ld_flow := drop m ?fs\<rparr> else s)"
  have rd: "read_flow (max_per_buffer ?h) (replicate n []) s ix = Inr (data_size ds, ds, s', ix')"
    using f(1) r by (simp add: read_flow_def Let_def ix'_def ix1_def s'_def)
  have "sound_fill cd got as_is (replicate n []) s ix = Inr (data_size ds, ds, s', ix')"
    using r(2) rd by (simp add: sound_fill_def Let_def size dec)
  moreover have "ix_passed ix1 = (if discarded ?h then 0 else ix_passed ix + m)" "ix_buffer_offset ix1 = bo"
    "ix_flow ix1" "ix_skip ix1 = 0" using r(2) by (simp_all add: ix1_def)
  then have i: "ix_passed ix' = (if discarded ?h then 0 else ix_passed ix + m)" "ix_buffer_offset ix' = bo"
    "ix_flow ix'" "ix_skip ix' = 0" by (simp_all add: ix'_def)
  have d: "drop (ix_passed ix') (ld_flow s') = drop m ?fs"
    by (simp add: i(1) s'_def add.commute)
  have u: "unread s' ix' = unread_from (drop m ?fs) bo" by (simp add: unread_def d i(2))
  have le: "drop m ?fs = [] \<Longrightarrow> unread s' ix' = []"
    using f(2) by (simp add: u unread_from_def placed_def)
  have "ix_passed ix' \<le> length (ld_flow s')" using f(5) r(4) by (auto simp: i(1) s'_def)
  then have "reader_ok s' ix'" using f(2) by (simp add: reader_ok_def d i(2-4))
  moreover have "concat ds @ unread s' ix' = unread s ix" using f(3) by (simp add: u) (simp add: unread_def)
  moreover have "ld_header s' = ?h" by (simp add: s'_def)
  ultimately show ?thesis using f(4) le by blast
qed

text \<open>A life of a flow: data arrives at its end, and is read.\<close>

datatype flow_step = Arrives bytes | Reads nat

fun flow_run :: "'d codec \<Rightarrow> flow_step list \<Rightarrow> loaded \<Rightarrow> 'd index \<Rightarrow> fill_error + (bytes \<times> loaded \<times> 'd index)" where
  "flow_run cd [] s ix = Inr ([], s, ix)"
| "flow_run cd (Arrives b # steps) s ix = flow_run cd steps (s\<lparr>ld_flow := ld_flow s @ [b]\<rparr>) ix"
| "flow_run cd (Reads n # steps) s ix =
     bindE (sound_fill cd None False (replicate n []) s ix) (\<lambda>(_, ds, s1, ix1).
       bindE (flow_run cd steps s1 ix1) (\<lambda>(out, r). Inr (concat ds @ out, r)))"

fun arrived :: "flow_step list \<Rightarrow> bytes" where
  "arrived [] = []"
| "arrived (Arrives b # steps) = b @ arrived steps"
| "arrived (Reads n # steps) = arrived steps"

lemma reader_arrives:
  assumes "reader_ok s ix"
  shows "reader_ok (s\<lparr>ld_flow := ld_flow s @ [b]\<rparr>) ix" "unread (s\<lparr>ld_flow := ld_flow s @ [b]\<rparr>) ix = unread s ix @ b"
proof -
  let ?fs = "drop (ix_passed ix) (ld_flow s)"
  have r: "placed ?fs (ix_buffer_offset ix)" "ix_passed ix \<le> length (ld_flow s)" using assms by (simp_all add: reader_ok_def)
  have d: "drop (ix_passed ix) (ld_flow s @ [b]) = ?fs @ [b]" using r(2) by simp
  show "reader_ok (s\<lparr>ld_flow := ld_flow s @ [b]\<rparr>) ix"
    using assms r by (cases ?fs) (auto simp: reader_ok_def placed_def d simp del: drop_append)
  have "nat (ix_buffer_offset ix) \<le> length (concat ?fs)" using r(1) by (cases ?fs) (auto simp: placed_def)
  then show "unread (s\<lparr>ld_flow := ld_flow s @ [b]\<rparr>) ix = unread s ix @ b"
    by (simp add: unread_def unread_from_def d del: drop_append) simp
qed


definition no_codec :: "unit codec" where
  "no_codec = \<lparr>cd_adpcm = (\<lambda>_ c d. (0, d)), cd_adpcm_start = (), cd_gsm = (\<lambda>_ d. (replicate 160 0, d)), cd_gsm_start = ()\<rparr>"

definition demo_flow :: loaded where
  "demo_flow = \<lparr>ld_header = (new_header INPUT_FLOW)\<lparr>h_storage := STORAGE_NONE, h_format := ULAW\<rparr>,
     ld_cache = None, ld_flow = [[1, 2, 3]]\<rparr>"

definition flow_index :: "unit index" where
  "flow_index = (new_index no_codec)\<lparr>ix_flow := True\<rparr>"


text \<open>With a header to skip the code forgets the skipped bytes when it moves on in the buffer: the end
  of the first buffer is played twice.\<close>

lemma skipped_header_repeats:
  assumes "0 < k" "k \<le> length f" "int (length f) \<le> room"
  shows "copy_flow room [f] 0 (int k) 0 [] = Inr ([], 0, 0, 1, drop k f @ drop (length f - k) f)"
proof -
  have n: "nat (int (length f) - int k) = length f - k" by linarith
  have f0: "copy_flow room [f] (int (length f - k)) 0 0 (drop k f) = Inr ([], 0, 0, 1, drop k f @ drop (length f - k) f)"
    using assms n by (simp add: copy_flow.simps Let_def of_nat_diff)
  then show ?thesis using assms by (simp add: copy_flow.simps(2) [of room f "[]" 0 "int k"] Let_def of_nat_diff)
qed

lemma later_skip_reads_before:
  assumes "0 < room"
  shows "copy_flow room [[a, b, c], [d, e, f]] 2 2 0 [] = Inl BeforeBuffer"
  using assms by (simp add: copy_flow.simps)
section \<open>Decompression stays in the buffers\<close>

lemma adpcm_codes_count:
  assumes "0 < bits" "bits \<le> 8" "0 \<le> have"
  shows "int bits * int (length (fst (adpcm_codes bits bs buf have))) + snd (snd (adpcm_codes bits bs buf have))
       = 8 * int (length bs) + have
     \<and> 0 \<le> snd (snd (adpcm_codes bits bs buf have)) \<and> snd (snd (adpcm_codes bits bs buf have)) < int bits"
  using assms
proof (induction bits bs buf "have" rule: adpcm_codes.induct)
  case (1 bits bs buf "have")
  show ?case
  proof (cases "have < int bits")
    case True
    show ?thesis
    proof (cases bs)
      case Nil
      then show ?thesis using True 1(3-5) by (simp add: adpcm_codes.simps)
    next
      case (Cons b bs')
      then show ?thesis
        using 1(1) [OF _ True Cons refl] 1(3-5) True
        by (simp add: adpcm_codes.simps [of bits "b # bs'" buf "have"] Let_def case_prod_beta algebra_simps)
    qed
  next
    case False
    then show ?thesis
      using 1(2) [OF _ False] 1(3-5)
      by (simp add: adpcm_codes.simps [of bits bs buf "have"] case_prod_beta algebra_simps)
  qed
qed

lemma adpcm_codes_limit:
  assumes "0 < bits" "bits \<le> 8" "0 \<le> have" "have < int bits" "length bs \<le> 512 * bits"
  shows "length (fst (adpcm_codes bits bs buf have)) \<le> 4096"
proof -
  let ?n = "length (fst (adpcm_codes bits bs buf have))"
  have "int bits * int ?n \<le> 8 * int (length bs) + have" using adpcm_codes_count [OF assms(1-3), of bs buf] by linarith
  also have "\<dots> < 8 * (512 * int bits) + int bits" using assms(4,5) by linarith
  also have "\<dots> = int bits * 4097" by simp
  finally have "int ?n < 4097" using assms(1) by (simp only: mult_less_cancel_left_pos of_nat_0_less_iff)
  then show ?thesis by simp
qed

text \<open>Where the bytes are cut into buffers does not matter to the codes.\<close>

lemma adpcm_codes_append:
  "adpcm_codes bits (bs @ bs') buf have = (if bits = 0 then ([], buf, have) else
     let (cs, buf1, n1) = adpcm_codes bits bs buf have; (cs', r) = adpcm_codes bits bs' buf1 n1 in (cs @ cs', r))"
proof (induction bits bs buf "have" rule: adpcm_codes.induct)
  case (1 bits bs buf "have")
  show ?case
  proof (cases "bits = 0")
    case True
    then show ?thesis by (simp add: adpcm_codes.simps)
  next
    case b: False
    show ?thesis
    proof (cases "have < int bits")
      case True
      show ?thesis
      proof (cases bs)
        case Nil
        then show ?thesis using b True by (simp add: adpcm_codes.simps [of bits "[]" buf "have"] case_prod_beta)
      next
        case (Cons x xs)
        then show ?thesis
          using 1(1) [OF b True Cons refl] b True
          by (simp add: adpcm_codes.simps [of bits "x # _" buf "have"] Let_def case_prod_beta)
      qed
    next
      case False
      then show ?thesis
        using 1(2) [OF b False] b
        by (simp add: adpcm_codes.simps [of bits "bs @ bs'" buf "have"] adpcm_codes.simps [of bits bs buf "have"] case_prod_beta)
    qed
  qed
qed

lemma adpcm_samples_length [simp]: "length (fst (adpcm_samples f stereo ch cs st)) = length cs"
  by (induction cs arbitrary: ch st) (simp_all add: case_prod_beta Let_def)

lemma to_shorts_length [simp]: "length (to_shorts ws) = 2 * length ws"
  by (induction ws) (simp_all add: to_shorts_def short_bytes_def)

lemma adpcm_decode_fits:
  assumes "bits \<in> {3, 4, 5}" "\<forall>b \<in> set data. length b \<le> 512 * bits" "0 \<le> ix_in_bits ix" "ix_in_bits ix < int bits"
  shows "\<exists>ds ix'. adpcm_decode f bits stereo ch data ix = Inr (ds, ix') \<and> length ds = length data
    \<and> (\<forall>d \<in> set ds. int (length d) \<le> BUFFER_SIZE) \<and> 0 \<le> ix_in_bits ix' \<and> ix_in_bits ix' < int bits"
  using assms
proof (induction data arbitrary: ix ch)
  case (Cons b data)
  show ?case
  proof (cases "b = []")
    case True
    have "int (length d) \<le> BUFFER_SIZE" if "d \<in> set data" for d
      using Cons.prems(1,2) that by (auto dest!: bspec [of _ _ d])
    then show ?thesis using True Cons.prems by auto
  next
    case False
    obtain cs buf n where c: "adpcm_codes bits b (ix_in_buffer ix) (ix_in_bits ix) = (cs, buf, n)"
      by (metis prod_cases3)
    obtain ws ch1 st where w: "adpcm_samples f stereo ch cs (ix_adpcm ix) = (ws, ch1, st)" by (metis prod_cases3)
    have n: "0 \<le> n" "n < int bits"
      using adpcm_codes_count [of bits "ix_in_bits ix" b "ix_in_buffer ix"] Cons.prems c by auto
    have "length cs \<le> 4096"
      using adpcm_codes_limit [of bits "ix_in_bits ix" b "ix_in_buffer ix"] Cons.prems c by auto
    then have l: "2 * length ws \<le> 8192" using adpcm_samples_length [of f stereo ch cs "ix_adpcm ix"] w by simp
    obtain ds ix' where "adpcm_decode f bits stereo ch1 data (ix\<lparr>ix_in_buffer := buf, ix_in_bits := n, ix_adpcm := st\<rparr>) = Inr (ds, ix')"
      "length ds = length data" "\<forall>d \<in> set ds. int (length d) \<le> BUFFER_SIZE" "0 \<le> ix_in_bits ix'" "ix_in_bits ix' < int bits"
      using Cons.IH [of "ix\<lparr>ix_in_buffer := buf, ix_in_bits := n, ix_adpcm := st\<rparr>" ch1] Cons.prems(1,2) n by auto
    then show ?thesis using False c w l by (auto simp: Let_def)
  qed
qed simp

lemma gsm_frames_short:
  "k + length bs < GSM_FRAME \<Longrightarrow> gsm_frames f frame k bs d = ([], bs @ drop (length bs) frame, k + length bs, d)"
  by (subst gsm_frames.simps) (simp add: Let_def)

lemma gsm_frames_long:
  assumes "k < GSM_FRAME" "GSM_FRAME \<le> k + length bs"
  shows "gsm_frames f frame k bs d =
    (let n = GSM_FRAME - k; frame1 = take n bs @ drop n frame; (ws, d1) = f frame1 d
     in if drop n bs = [] then (ws, frame1, 0, d1)
        else let (ws1, r) = gsm_frames f frame1 0 (drop n bs) d1 in (ws @ ws1, r))"
proof -
  have m: "min (length bs) (GSM_FRAME - k) = GSM_FRAME - k" "k + (GSM_FRAME - k) = GSM_FRAME" using assms by simp_all
  show ?thesis
    using assms(1) by (subst gsm_frames.simps) (auto simp: m Let_def split: prod.splits)
qed

lemma gsm_frames_count:
  assumes "k < GSM_FRAME" "\<And>fr d. length (fst (f fr d)) = 160"
  shows "length (fst (gsm_frames f frame k bs d)) = 160 * ((k + length bs) div GSM_FRAME)
    \<and> fst (snd (snd (gsm_frames f frame k bs d))) < GSM_FRAME"
  using assms(1)
proof (induction "length bs" arbitrary: frame k bs d rule: less_induct)
  case less
  let ?n = "GSM_FRAME - k"
  let ?fr = "take ?n bs @ drop ?n frame"
  show ?case
  proof (cases "k + length bs < GSM_FRAME")
    case True
    then show ?thesis by (simp add: gsm_frames_short)
  next
    case False
    obtain ws d1 where w: "f ?fr d = (ws, d1)" "length ws = 160"
      using assms(2) [of ?fr d] by (cases "f ?fr d") auto
    have sum: "k + length bs = length (drop ?n bs) + GSM_FRAME" using False less(2) by simp
    have ge: "GSM_FRAME \<le> k + length bs" using False by simp
    show ?thesis
    proof (cases "drop ?n bs = []")
      case True
      then have e: "k + length bs = GSM_FRAME" using sum by simp
      have "gsm_frames f frame k bs d = (ws, ?fr, 0, d1)"
        unfolding gsm_frames_long [OF less(2) ge] Let_def if_P [OF True] w(1) by simp
      then show ?thesis using e w by simp
    next
      case d: False
      have "length (drop ?n bs) < length bs" using False less(2) by simp
      from less(1) [OF this, of 0 ?fr d1]
      have "length (fst (gsm_frames f ?fr 0 (drop ?n bs) d1)) = 160 * (length (drop ?n bs) div GSM_FRAME)"
        "fst (snd (snd (gsm_frames f ?fr 0 (drop ?n bs) d1))) < GSM_FRAME" by simp_all
      moreover have "gsm_frames f frame k bs d = (ws @ fst (gsm_frames f ?fr 0 (drop ?n bs) d1), snd (gsm_frames f ?fr 0 (drop ?n bs) d1))"
        unfolding gsm_frames_long [OF less(2) ge] Let_def if_not_P [OF d] w(1) by (simp add: case_prod_beta)
      ultimately show ?thesis unfolding sum using w(2) by simp
    qed
  qed
qed

text \<open>A frame that is cut by the end of a buffer is not put together: the bytes of the next buffer
  overwrite its start.\<close>

lemma cut_frame_garbled:
  assumes "k < GSM_FRAME" "length bs = GSM_FRAME - k"
  shows "fst (gsm_frames f frame k bs d) = fst (f (bs @ drop (GSM_FRAME - k) frame) d)"
  using assms gsm_frames_long [OF assms(1), of bs f frame d] by (simp add: Let_def case_prod_beta)

lemma gsm_uncompress_fits:
  assumes "\<forall>b \<in> set data. length b \<le> 825" "ix_frame_bytes ix < GSM_FRAME" "\<And>fr d. length (fst (f fr d)) = 160"
  shows "\<exists>ds ix'. gsm_uncompress f data ix = Inr (ds, ix') \<and> length ds = length data
    \<and> (\<forall>d \<in> set ds. int (length d) \<le> BUFFER_SIZE) \<and> ix_frame_bytes ix' < GSM_FRAME"
  using assms(1,2)
proof (induction data arbitrary: ix)
  case (Cons b data)
  obtain ws frame k d where g: "gsm_frames f (ix_frame ix) (ix_frame_bytes ix) b (ix_gsm ix) = (ws, frame, k, d)"
    by (metis prod_cases4)
  have n: "length ws = 160 * ((ix_frame_bytes ix + length b) div GSM_FRAME)" "k < GSM_FRAME"
    using gsm_frames_count [OF Cons.prems(2), of f "ix_frame ix" b "ix_gsm ix"] assms(3) g by simp_all
  have "(ix_frame_bytes ix + length b) div GSM_FRAME \<le> 25"
    using Cons.prems by (intro div_le_mono [of _ 857 33, simplified]) auto
  then have l: "2 * length ws \<le> 8192" using n(1) by simp
  obtain ds ix' where "gsm_uncompress f data (ix\<lparr>ix_frame := frame, ix_frame_bytes := k, ix_gsm := d\<rparr>) = Inr (ds, ix')"
    "length ds = length data" "\<forall>d \<in> set ds. int (length d) \<le> BUFFER_SIZE" "ix_frame_bytes ix' < GSM_FRAME"
    using Cons.IH [of "ix\<lparr>ix_frame := frame, ix_frame_bytes := k, ix_gsm := d\<rparr>"] Cons.prems(1) n(2) by auto
  then show ?case using g l by (auto simp: Let_def)
qed simp

text \<open>The state of the decoders between two reads.\<close>

definition codec_bits :: "audio_format \<Rightarrow> nat" where
  "codec_bits fmt = (if fmt = G721 then 4 else if fmt = G723_3 then 3 else 5)"

definition codec_ok :: "header \<Rightarrow> 'd index \<Rightarrow> bool" where
  "codec_ok h ix \<longleftrightarrow> (if h_format h = GSM then ix_frame_bytes ix < GSM_FRAME
     else 0 \<le> ix_in_bits ix \<and> ix_in_bits ix < int (codec_bits (h_format h)))"

text \<open>The precision that \<open>sound_map\<close> gives a compressed sound.\<close>

definition codec_precision :: "header \<Rightarrow> bool" where
  "codec_precision h \<longleftrightarrow> h_mapped h \<and> h_output_precision h = 16
     \<and> h_input_precision h = (if h_format h = GSM then 165 / 100 else of_nat (codec_bits (h_format h)))"

lemma floor_gsm: "\<lfloor>4224 / 5 :: rat\<rfloor> = 844"
  by (rule floor_unique) simp_all

lemma fill_size_codec:
  assumes "compressed h" "codec_precision h" "ix_gsm_size ix \<in> {0, 825}"
  shows "fst (fill_size h ix) = (if h_format h = GSM then 825 else 512 * int (codec_bits (h_format h)))"
  using assms
  by (auto simp: compressed_def codec_precision_def fill_size_def max_per_buffer_def codec_bits_def trunc_def frame_multiple_def Let_def floor_gsm)


definition demo_g723 :: header where
  "demo_g723 = (new_header INPUT_FILE)\<lparr>h_format := G723_3, h_mapped := True, h_input_precision := 3, h_output_precision := 16,
     h_channels := 1\<rparr>"


section \<open>Cached sounds\<close>

text \<open>A reader of a cached sound whose cache is gone (\<open>sound_unmap\<close> sets it to NULL) is a crash.\<close>

lemma unmapped_cache_crashes:
  assumes "ix_cached ix" "\<not> ix_flow ix" "\<not> ix_eof ix" "ld_cache s = None" "ix_offset ix < h_size (ld_header s)"
    "h_format (ld_header s) \<noteq> GSM" "0 < max_per_buffer (ld_header s)" "data \<noteq> []"
  shows "sound_fill cd got as_is data s ix = Inl NullCache"
  using assms by (simp add: sound_fill_def fill_size_def read_cached_def Let_def)

end
