(* ===== verification/Cleanup.thy ===== *)
theory Cleanup
  imports SoundTable Events
begin

text \<open>
  Keeping the table of sounds (\<open>src/rplayd/sound.c\<close>): reading the list of sounds,
  \<open>sound_reread\<close>, and \<open>sound_cleanup\<close> with \<open>sound_clean\<close>, which give back cached files and
  finished flows after some seconds without a playing sound.  Paused sounds are still in the spool
  then.  Without CD drives and helpers' processes; the file system and \<open>bad_dir\<close> are inputs.
\<close>

section \<open>Reading the list of sounds\<close>

text \<open>What \<open>stat\<close> says of a path: an error, a file, a directory with its entries (\<open>None\<close>: \<open>opendir\<close>
  fails).\<close>

datatype file_kind = NoFile | PlainFile | Directory "cstring list option"

record files =
  fs_kind :: "cstring \<Rightarrow> file_kind"
  fs_bad :: "cstring \<Rightarrow> bool"

definition insert_file :: "files \<Rightarrow> cstring \<Rightarrow> table \<Rightarrow> table table_result" where
  "insert_file fs path t = bindE (sound_insert (fs_bad fs path) path SOUND_READY INPUT_FILE t) (\<lambda>r. Inr (snd r))"

definition sound_read_directory :: "files \<Rightarrow> cstring \<Rightarrow> cstring list \<Rightarrow> table \<Rightarrow> table table_result" where
  "sound_read_directory fs dir es t =
     foldE (\<lambda>e. insert_file fs (dir @ [47] @ e)) (filter (\<lambda>e. e \<noteq> [46] \<and> e \<noteq> [46, 46]) es) t"

definition skipped_line :: "cstring \<Rightarrow> bool" where
  "skipped_line l \<longleftrightarrow> (case l of c # _ \<Rightarrow> c \<in> {35, 32, 9, 10} | [] \<Rightarrow> False)"

definition sound_line :: "files \<Rightarrow> cstring \<Rightarrow> table \<Rightarrow> table table_result" where
  "sound_line fs l t =
     (if skipped_line l then Inr t
      else let p = takeWhile (\<lambda>c. c \<noteq> 10) l
           in case fs_kind fs p of
                NoFile \<Rightarrow> Inr t
              | Directory None \<Rightarrow> Inr t
              | Directory (Some es) \<Rightarrow> sound_read_directory fs p es t
              | PlainFile \<Rightarrow> insert_file fs p t)"

text \<open>\<open>xhash_init\<close> empties the hash table; \<open>text\<close> are the lines \<open>fgets\<close> gives, \<open>None\<close> when the file
  cannot be opened.\<close>

definition sound_read :: "files \<Rightarrow> cstring list option \<Rightarrow> table \<Rightarrow> table table_result" where
  "sound_read fs lines t =
     (let t1 = t\<lparr>tb_hash := \<lambda>_. None\<rparr>
      in case lines of None \<Rightarrow> Inr t1 | Some ls \<Rightarrow> foldE (sound_line fs) ls t1)"

text \<open>The sounds are freed one after the other; the next pointers are read before.\<close>

definition free_node :: "nat \<Rightarrow> table \<Rightarrow> table table_result" where
  "free_node a t = bindE (get a t) (\<lambda>n.
     let t1 = uncache n t in Inr (t1\<lparr>tb_heap := (tb_heap t1)(a := None)\<rparr>))"

fun walk_chain :: "(nat \<Rightarrow> table \<Rightarrow> table table_result) \<Rightarrow> nat \<Rightarrow> nat option \<Rightarrow> table \<Rightarrow> table table_result" where
  "walk_chain f n None t = Inr t"
| "walk_chain f 0 (Some a) t = Inl Cycle"
| "walk_chain f (Suc n) (Some a) t = bindE (get a t) (\<lambda>nd.
     bindE (f a t) (\<lambda>t1. walk_chain f n (nd_next nd) t1))"

fun walk_sounds :: "(nat \<Rightarrow> table \<Rightarrow> table table_result) \<Rightarrow> nat \<Rightarrow> nat \<Rightarrow> nat option \<Rightarrow> table \<Rightarrow> table table_result" where
  "walk_sounds f m n None t = Inr t"
| "walk_sounds f m 0 (Some a) t = Inl Cycle"
| "walk_sounds f m (Suc n) (Some a) t = bindE (get a t) (\<lambda>nd.
     bindE (walk_chain f m (Some a) t) (\<lambda>t1. walk_sounds f m n (nd_list nd) t1))"

text \<open>All sounds; there are fewer than \<open>tb_fresh\<close>.\<close>

definition each_sound :: "(nat \<Rightarrow> table \<Rightarrow> table table_result) \<Rightarrow> table \<Rightarrow> table table_result" where
  "each_sound f t = walk_sounds f (tb_fresh t) (tb_fresh t) (tb_sounds t) t"

definition sound_reread :: "files \<Rightarrow> cstring list option \<Rightarrow> cstring list \<Rightarrow> table \<Rightarrow> table table_result" where
  "sound_reread fs lines cached t =
     bindE (each_sound free_node t) (\<lambda>t1.
     bindE (sound_read fs lines (t1\<lparr>tb_sounds := None, tb_count := 0\<rparr>)) (\<lambda>t2.
       foldE (insert_file fs) cached t2))"

section \<open>Cleaning up\<close>

text \<open>What the storage of a finished flow on disk comes to: \<open>cache_free\<close>, \<open>cache_create\<close> and the
  writes succeed.\<close>

record disk =
  dk_free :: bool
  dk_create :: bool
  dk_write :: bool

definition forget_flow :: "header \<Rightarrow> header" where
  "forget_flow h = h\<lparr>h_samples := 0, h_offset := 0, h_size := 0\<rparr>"

definition sound_clean :: "disk \<Rightarrow> nat \<Rightarrow> table \<Rightarrow> table table_result" where
  "sound_clean dk a t = bindE (get a t) (\<lambda>n.
     let h = nd_info n
     in if h_needs_helper h \<noteq> 0 then put (\<lambda>n. n\<lparr>nd_info := forget_flow (nd_info n)\<rparr>) a t
        else if h_type h = INPUT_FILE then Inr t
        else case h_storage h of
            STORAGE_NULL \<Rightarrow> Inr t
          | STORAGE_NONE \<Rightarrow> sound_delete a False t
          | STORAGE_MEMORY \<Rightarrow> Inr t
          | STORAGE_DISK \<Rightarrow>
              if \<not> dk_free dk \<or> \<not> dk_create dk then sound_delete a False t
              else if \<not> dk_write dk then sound_delete a True t
              else bindE (sound_unmap a t) (put (\<lambda>n. n\<lparr>nd_info := (nd_info n)\<lparr>h_type := INPUT_FILE\<rparr>\<rparr>) a))"

text \<open>The entries of the spool that now play (or are paused in) a sound.\<close>

definition in_spool :: "spool_entry list \<Rightarrow> nat \<Rightarrow> int" where
  "in_spool sps a = int (length (filter (\<lambda>e. sp_sound e (sp_curr_sound e) = Some a) sps))"

definition uses_sound :: "nat \<Rightarrow> event \<Rightarrow> bool" where
  "uses_sound a e \<longleftrightarrow> ev_type e \<in> {WRITE_FIND, READ_FIND_REPLY, WRITE_GET, READ_GET_REPLY, READ_SOUND, WRITE_SOUND}
     \<and> ev_sound e = Some a"

text \<open>The users of a cached sound: the spool is looked at once for each connection, until a user is
  found.\<close>

fun cached_users :: "spool_entry list \<Rightarrow> nat \<Rightarrow> connection list \<Rightarrow> int \<Rightarrow> int" where
  "cached_users sps a [] n = n"
| "cached_users sps a (c # cs) n =
     (if n \<noteq> 0 then n
      else cached_users sps a cs (n + (if list_ex (uses_sound a) (cn_events c) then 1 else 0) + in_spool sps a))"

definition clean_one :: "disk \<Rightarrow> connection list \<Rightarrow> spool_entry list \<Rightarrow> nat \<Rightarrow> table \<Rightarrow> table table_result" where
  "clean_one dk cs sps a t = bindE (get a t) (\<lambda>n.
     if h_type (nd_info n) = INPUT_FILE \<and> nd_status n = SOUND_READY \<and> nd_cached n
     then (if cached_users sps a cs 0 = 0 then sound_unmap a t else Inr t)
     else if h_type (nd_info n) = INPUT_FLOW \<or> h_type (nd_info n) = INPUT_CDROM
     then (if in_spool sps a \<noteq> 0 then Inr t else sound_clean dk a t)
     else Inr t)"

definition sound_cleanup :: "disk \<Rightarrow> connection list \<Rightarrow> spool_entry list \<Rightarrow> table \<Rightarrow> table table_result" where
  "sound_cleanup dk cs sps t = bindE (each_sound (clean_one dk cs sps) t) (\<lambda>t1. Inr (t1\<lparr>tb_cache_size := 0\<rparr>))"
section \<open>Reading the list again\<close>

definition line_files :: "files \<Rightarrow> cstring \<Rightarrow> cstring list" where
  "line_files fs l =
     (if skipped_line l then []
      else let p = takeWhile (\<lambda>c. c \<noteq> 10) l
           in case fs_kind fs p of
                PlainFile \<Rightarrow> [p]
              | Directory (Some es) \<Rightarrow> map (\<lambda>e. p @ [47] @ e) (filter (\<lambda>e. e \<noteq> [46] \<and> e \<noteq> [46, 46]) es)
              | _ \<Rightarrow> [])"

lemma foldE_map: "foldE f (map g xs) s = foldE (\<lambda>x. f (g x)) xs s"
  by (induction xs arbitrary: s) (simp, (rename_tac x xs s, case_tac "f (g x) s", auto))

lemma sound_line_files: "sound_line fs l t = foldE (insert_file fs) (line_files fs l) t"
proof -
  have single: "insert_file fs p t = bindE (insert_file fs p t) (foldE (insert_file fs) [])" for p
    by (cases "insert_file fs p t") auto
  show ?thesis
    using single by (auto simp: sound_line_def line_files_def Let_def sound_read_directory_def foldE_map
        split: file_kind.splits option.splits)
qed

lemma insert_file_paths:
  assumes "table_ok t"
  shows "\<exists>t'. insert_file fs p t = Inr t' \<and> table_ok t' \<and> paths t' = paths t \<union> {q \<in> {p}. \<not> fs_bad fs q}"
proof (cases "fs_bad fs p")
  case True
  then show ?thesis using assms by (auto simp: insert_file_def sound_insert_def)
next
  case False
  then show ?thesis using sound_insert_refines [OF assms, of p SOUND_READY INPUT_FILE] by (auto simp: insert_file_def)
qed

lemma insert_files_paths:
  "table_ok t \<Longrightarrow> \<exists>t'. foldE (insert_file fs) ps t = Inr t' \<and> table_ok t' \<and> paths t' = paths t \<union> {q \<in> set ps. \<not> fs_bad fs q}"
proof (induction ps arbitrary: t)
  case (Cons p ps)
  obtain t1 where t1: "insert_file fs p t = Inr t1" "table_ok t1" "paths t1 = paths t \<union> {q \<in> {p}. \<not> fs_bad fs q}"
    using insert_file_paths [OF Cons.prems] by blast
  obtain t2 where "foldE (insert_file fs) ps t1 = Inr t2" "table_ok t2" "paths t2 = paths t1 \<union> {q \<in> set ps. \<not> fs_bad fs q}"
    using Cons.IH [OF t1(2)] by blast
  then show ?case using t1 by auto
qed simp

lemma sound_lines_files: "foldE (sound_line fs) ls t = foldE (insert_file fs) (concat (map (line_files fs) ls)) t"
proof (induction ls arbitrary: t)
  case (Cons l ls)
  then have "foldE (sound_line fs) ls = foldE (insert_file fs) (concat (map (line_files fs) ls))" by (intro ext)
  then show ?case by (simp add: sound_line_files [of fs l] foldE_append)
qed simp

text \<open>All nodes of a well-formed table are freed, each once.\<close>

definition without :: "table \<Rightarrow> nat set \<Rightarrow> nat \<Rightarrow> sound_node option" where
  "without t A = (\<lambda>a. if a \<in> A then None else tb_heap t a)"

lemma walk_chain_frees:
  assumes "seg (fld nd_next t0) (fld nd_prev t0) pr g None" "distinct g" "length g \<le> n"
    "\<And>a. a \<in> set g \<Longrightarrow> tb_heap t a = tb_heap t0 a \<and> tb_heap t0 a \<noteq> None"
  shows "\<exists>t'. walk_chain free_node n (head_or g None) t = Inr t' \<and> tb_heap t' = without t (set g) \<and> tb_fresh t' = tb_fresh t"
  using assms
proof (induction g arbitrary: n t pr)
  case Nil
  show ?case by (cases n) (simp_all add: without_def)
next
  case (Cons a g)
  obtain m where m: "n = Suc m" using Cons.prems(3) by (cases n) auto
  obtain nd where nd: "tb_heap t a = Some nd" "tb_heap t0 a = Some nd" using Cons.prems(4) [of a] by auto
  have nx: "nd_next nd = head_or g None" using Cons.prems(1) nd by simp
  define t1 where "t1 = (uncache nd t)\<lparr>tb_heap := (tb_heap t)(a := None)\<rparr>"
  have f: "free_node a t = Inr t1" by (simp add: free_node_def get_def nd t1_def Let_def)
  have "\<exists>t'. walk_chain free_node m (head_or g None) t1 = Inr t' \<and> tb_heap t' = without t1 (set g) \<and> tb_fresh t' = tb_fresh t1"
    using Cons.prems by (intro Cons.IH [where pr = "Some a"]) (auto simp: m t1_def)
  then obtain t' where "walk_chain free_node m (head_or g None) t1 = Inr t'" "tb_heap t' = without t1 (set g)"
    "tb_fresh t' = tb_fresh t1" by blast
  then show ?case
    using m nd(1) nx f by (auto simp: get_def without_def t1_def fun_eq_iff)
qed

lemma walk_sounds_frees:
  assumes "seg (fld nd_list t0) (fld nd_list_prev t0) pr (map hd gs) None" "[] \<notin> set gs" "distinct (concat gs)"
    "\<And>g. g \<in> set gs \<Longrightarrow> seg (fld nd_next t0) (fld nd_prev t0) None g None \<and> length g \<le> m" "length gs \<le> n"
    "\<And>a. a \<in> set (concat gs) \<Longrightarrow> tb_heap t a = tb_heap t0 a \<and> tb_heap t0 a \<noteq> None"
  shows "\<exists>t'. walk_sounds free_node m n (head_or (map hd gs) None) t = Inr t' \<and> tb_heap t' = without t (set (concat gs))
    \<and> tb_fresh t' = tb_fresh t"
  using assms
proof (induction gs arbitrary: n t pr)
  case Nil
  show ?case by (cases n) (simp_all add: without_def)
next
  case (Cons g gs)
  obtain k where k: "n = Suc k" using Cons.prems(5) by (cases n) auto
  have g: "g \<noteq> []" "hd g \<in> set g" using Cons.prems(2) by (auto intro: hd_in_set)
  obtain nd where nd: "tb_heap t (hd g) = Some nd" "tb_heap t0 (hd g) = Some nd" using Cons.prems(6) [of "hd g"] g by auto
  have nx: "nd_list nd = head_or (map hd gs) None" using Cons.prems(1) nd by simp
  have "\<exists>t1. walk_chain free_node m (head_or g None) t = Inr t1 \<and> tb_heap t1 = without t (set g) \<and> tb_fresh t1 = tb_fresh t"
    using Cons.prems(3,4,6) by (intro walk_chain_frees [where pr = None]) auto
  then obtain t1 where t1: "walk_chain free_node m (Some (hd g)) t = Inr t1" "tb_heap t1 = without t (set g)" "tb_fresh t1 = tb_fresh t"
    using g by auto
  have disj: "set g \<inter> set (concat gs) = {}" using Cons.prems(3) by simp
  have "\<exists>t'. walk_sounds free_node m k (head_or (map hd gs) None) t1 = Inr t' \<and> tb_heap t' = without t1 (set (concat gs))
      \<and> tb_fresh t' = tb_fresh t1"
    using Cons.prems disj k by (intro Cons.IH [where pr = "Some (hd g)"]) (auto simp: t1(2) without_def)
  then show ?case
    using k nd(1) nx t1 by (auto simp: get_def without_def fun_eq_iff)
qed

lemma groups_few:
  assumes "table_rep t gs"
  shows "length gs \<le> tb_fresh t"
proof -
  have "distinct (map hd gs)" using heads_distinct table_repD(1,2) [OF assms] by blast
  moreover have "set (map hd gs) \<subseteq> {..<tb_fresh t}"
    using heads_in [OF table_repD(2) [OF assms]] table_repD(4) [OF assms] by auto
  ultimately show ?thesis using card_mono [of "{..<tb_fresh t}" "set (map hd gs)"] distinct_card [of "map hd gs"] by simp
qed

lemma each_sound_frees:
  assumes "table_ok t"
  shows "\<exists>t'. each_sound free_node t = Inr t' \<and> tb_heap t' = (\<lambda>_. None)"
proof -
  obtain gs where rep: "table_rep t gs" using assms by (auto simp: table_ok_def)
  note r = table_repD [OF rep]
  obtain t' where "walk_sounds free_node (tb_fresh t) (tb_fresh t) (head_or (map hd gs) None) t = Inr t'"
    "tb_heap t' = without t (set (concat gs))"
    using walk_sounds_frees [OF r(6) r(2) r(1) _ groups_few [OF rep], of "tb_fresh t" t] r(7) group_length [OF rep] r(3) by blast
  moreover have "without t (set (concat gs)) = (\<lambda>_. None)" using r(3) by (simp add: without_def fun_eq_iff) (metis not_Some_eq)
  ultimately show ?thesis by (simp add: each_sound_def r(5))
qed

text \<open>C20.  Reading the sounds again frees every sound of the table exactly once and leaves the table
  with the files that the lines of the list name (the entries of a directory for a directory) and
  those of the cache, less the ones in forbidden directories, and well formed.\<close>

theorem sound_reread_lists:
  assumes "table_ok t"
  shows "\<exists>t'. sound_reread fs (Some ls) cached t = Inr t' \<and> table_ok t'
    \<and> paths t' = {p \<in> set (concat (map (line_files fs) ls)) \<union> set cached. \<not> fs_bad fs p}"
proof -
  obtain t1 where t1: "each_sound free_node t = Inr t1" "tb_heap t1 = (\<lambda>_. None)" using each_sound_frees [OF assms] by blast
  define t2 where "t2 = t1\<lparr>tb_sounds := None, tb_count := 0, tb_hash := \<lambda>_. None\<rparr>"
  have "table_rep t2 []" using t1(2) by (simp add: t2_def table_rep_def)
  then have ok: "table_ok t2" by (auto simp: table_ok_def)
  have "paths t2 = {}" using t1(2) by (simp add: t2_def paths_def)
  then obtain t3 where t3: "foldE (insert_file fs) (concat (map (line_files fs) ls)) t2 = Inr t3" "table_ok t3"
    "paths t3 = {p \<in> set (concat (map (line_files fs) ls)). \<not> fs_bad fs p}"
    using insert_files_paths [OF ok, of fs "concat (map (line_files fs) ls)"] by auto
  obtain t4 where "foldE (insert_file fs) cached t3 = Inr t4" "table_ok t4"
    "paths t4 = paths t3 \<union> {p \<in> set cached. \<not> fs_bad fs p}"
    using insert_files_paths [OF t3(2)] by blast
  then show ?thesis
    using t1(1) t3 by (auto simp: sound_reread_def sound_read_def sound_lines_files t2_def Let_def)
qed

definition demo_files :: files where
  "demo_files = \<lparr>fs_kind = (\<lambda>p. if p = [47, 100] then Directory (Some [[46], [97], [98]]) else if p = [47, 99] then PlainFile else NoFile),
     fs_bad = (\<lambda>p. p = [47, 100, 47, 98])\<rparr>"

lemma sound_reread_lists_witness:
  "\<exists>t'. sound_reread demo_files (Some [[35, 10], [47, 100, 10], [47, 99]]) [[47, 101]] two_sounds = Inr t' \<and> table_ok t'
     \<and> paths t' = {[47, 100, 47, 97], [47, 99], [47, 101]}"
proof -
  have "{p \<in> set (concat (map (line_files demo_files) [[35, 10], [47, 100, 10], [47, 99]])) \<union> set [[47, 101]]. \<not> fs_bad demo_files p}
      = {[47, 100, 47, 97], [47, 99], [47, 101]}"
    by (auto simp: line_files_def demo_files_def skipped_line_def)
  then show ?thesis
    using sound_reread_lists [OF two_sounds_ok, of demo_files "[[35, 10], [47, 100, 10], [47, 99]]" "[[47, 101]]"] by simp
qed
section \<open>What a cleanup keeps\<close>

text \<open>The node is still there, with everything but its pointers.\<close>

definition same_node :: "sound_node \<Rightarrow> sound_node \<Rightarrow> bool" where
  "same_node n n' \<longleftrightarrow> (nd_path n', nd_status n', nd_info n', nd_cached n') = (nd_path n, nd_status n, nd_info n, nd_cached n)"

definition keeps :: "nat \<Rightarrow> table \<Rightarrow> table \<Rightarrow> bool" where
  "keeps a t t' \<longleftrightarrow> (\<forall>n. tb_heap t a = Some n \<longrightarrow> (\<exists>n'. tb_heap t' a = Some n' \<and> same_node n n'))"

lemma kept_refl [simp]: "keeps a t t"
  by (simp add: keeps_def same_node_def)

lemma kept_trans: "keeps a t t' \<Longrightarrow> keeps a t' t'' \<Longrightarrow> keeps a t t''"
  unfolding keeps_def same_node_def by fastforce

lemma keeps_heap: "tb_heap t' a = tb_heap t a \<Longrightarrow> keeps a t t'"
  by (simp add: keeps_def same_node_def)

lemma put_keeps:
  assumes "put f b t = Inr t'" "a = b \<Longrightarrow> (\<And>n. same_node n (f n))"
  shows "keeps a t t'"
  using assms by (auto simp: put_def get_def keeps_def same_node_def split: option.splits)

lemma put_or_keeps:
  assumes "put_or g f p t = Inr t'" "\<And>t. tb_heap (g t) = tb_heap t" "\<And>n. same_node n (f n)"
  shows "keeps a t t'"
  using assms put_keeps [of f _ t t' a] by (cases p) (auto simp: put_or_def intro: keeps_heap)

lemma unlink_keeps:
  "unlink_single s t = Inr t' \<Longrightarrow> keeps a t t'"
  "unlink_inner p s t = Inr t' \<Longrightarrow> keeps a t t'"
  "unlink_first q s t = Inr t' \<Longrightarrow> keeps a t t'"
proof -
  assume "unlink_single s t = Inr t'"
  then obtain t1 where u: "put_or (\<lambda>t. t\<lparr>tb_sounds := nd_list s\<rparr>) (\<lambda>n. n\<lparr>nd_list := nd_list s\<rparr>) (nd_list_prev s)
      (t\<lparr>tb_hash := (tb_hash t)(nd_key s := None)\<rparr>) = Inr t1"
    "put_or (\<lambda>t. t) (\<lambda>n. n\<lparr>nd_list_prev := nd_list_prev s\<rparr>) (nd_list s) t1 = Inr t'"
    by (auto simp: unlink_single_def)
  have "keeps a (t\<lparr>tb_hash := (tb_hash t)(nd_key s := None)\<rparr>) t'"
    by (rule kept_trans [OF put_or_keeps [OF u(1)] put_or_keeps [OF u(2)]]) (simp_all add: same_node_def)
  then show "keeps a t t'" by (simp add: keeps_def)
next
  assume "unlink_inner p s t = Inr t'"
  then obtain t1 where u: "put (\<lambda>n. n\<lparr>nd_next := nd_next s\<rparr>) p t = Inr t1"
    "put_or (\<lambda>t. t) (\<lambda>n. n\<lparr>nd_prev := nd_prev s\<rparr>) (nd_next s) t1 = Inr t'"
    by (auto simp: unlink_inner_def)
  show "keeps a t t'"
    by (rule kept_trans [OF put_keeps [OF u(1)] put_or_keeps [OF u(2)]]) (simp_all add: same_node_def)
next
  assume "unlink_first q s t = Inr t'"
  then obtain t1 t2 t3 n where u: "put_or (\<lambda>t. t\<lparr>tb_sounds := nd_next s\<rparr>) (\<lambda>n. n\<lparr>nd_list := nd_next s\<rparr>) (nd_list_prev s) t = Inr t1"
    "put_or (\<lambda>t. t) (\<lambda>n. n\<lparr>nd_list_prev := nd_next s\<rparr>) (nd_list s) t1 = Inr t2"
    "put (\<lambda>n. n\<lparr>nd_list := nd_list s, nd_list_prev := nd_list_prev s\<rparr>) q t2 = Inr t3"
    "get q t3 = Inr n" "t3\<lparr>tb_hash := (tb_hash t3)(nd_key n := Some q)\<rparr> = t'"
    unfolding unlink_first_def bindE_Inr sum.inject by blast
  have "keeps a t t3"
    by (rule kept_trans [OF put_or_keeps [OF u(1)] kept_trans [OF put_or_keeps [OF u(2)] put_keeps [OF u(3)]]])
      (simp_all add: same_node_def)
  then show "keeps a t t'" using u(5) by (auto simp: keeps_def)
qed

lemma uncache_heap [simp]: "tb_heap (uncache n t) = tb_heap t"
  by (simp add: uncache_def)

lemma sound_delete_keeps:
  assumes "sound_delete b rm t = Inr t'" "a \<noteq> b"
  shows "keeps a t t'"
proof -
  obtain s t1 s1 where "tb_heap t b = Some s"
    "(case nd_prev s of Some p \<Rightarrow> unlink_inner p s t
      | None \<Rightarrow> (case nd_next s of None \<Rightarrow> unlink_single s t | Some q \<Rightarrow> unlink_first q s t)) = Inr t1"
    "tb_heap t' = (tb_heap t1)(b := None)"
    using assms(1) by (auto simp: sound_delete_def get_def Let_def split: option.splits)
  moreover from this have "keeps a t t1" using unlink_keeps by (auto split: option.splits)
  ultimately show ?thesis using assms(2) by (simp add: keeps_def)
qed

lemma sound_unmap_keeps:
  assumes "sound_unmap b t = Inr t'" "a \<noteq> b"
  shows "keeps a t t'"
proof -
  obtain n f where "put f b (uncache n t) = Inr t'" using assms(1) by (auto simp: sound_unmap_def)
  from put_keeps [OF this, of a] assms(2) show ?thesis by (simp add: keeps_def)
qed

lemma sound_clean_keeps:
  assumes "sound_clean dk b t = Inr t'" "a \<noteq> b"
  shows "keeps a t t'"
proof -
  have p: "put f b x = Inr y \<Longrightarrow> keeps a x y" for f x y using put_keeps assms(2) by blast
  show ?thesis
    using assms(1) p sound_delete_keeps [OF _ assms(2)] kept_trans [OF sound_unmap_keeps [OF _ assms(2)] p]
    by (auto simp: sound_clean_def Let_def split: if_splits storage.splits)
qed

text \<open>A sound that plays or is paused.\<close>

lemma cached_users_stay: "0 < n \<Longrightarrow> cached_users sps a cs n = n"
  by (cases cs) auto

lemma clean_one_keeps:
  assumes "clean_one dk cs sps b t = Inr t'" "in_spool sps a \<noteq> 0" "cs \<noteq> []"
  shows "keeps a t t'"
proof (cases "a = b")
  case True
  have "0 \<le> in_spool sps a" by (simp add: in_spool_def)
  then have "cached_users sps a cs 0 \<noteq> 0"
    using assms(2,3) by (cases cs) (auto simp: cached_users_stay)
  then show ?thesis using assms(1,2) True by (auto simp: clean_one_def split: if_splits)
next
  case False
  then show ?thesis
    using assms(1) sound_unmap_keeps sound_clean_keeps by (auto simp: clean_one_def split: if_splits)
qed

lemma walk_chain_keeps:
  assumes "\<And>b t t'. f b t = Inr t' \<Longrightarrow> keeps a t t'" "walk_chain f n p t = Inr t'"
  shows "keeps a t t'"
  using assms(2)
proof (induction n arbitrary: p t)
  case 0
  then show ?case by (cases p) auto
next
  case (Suc n)
  show ?case
  proof (cases p)
    case (Some b)
    then obtain nd t1 where w: "get b t = Inr nd" "f b t = Inr t1" "walk_chain f n (nd_next nd) t1 = Inr t'"
      using Suc.prems by (auto simp: Some)
    show ?thesis by (rule kept_trans [OF assms(1) [OF w(2)] Suc.IH [OF w(3)]])
  qed (use Suc.prems in simp)
qed

lemma walk_sounds_keeps:
  assumes "\<And>b t t'. f b t = Inr t' \<Longrightarrow> keeps a t t'" "walk_sounds f m n p t = Inr t'"
  shows "keeps a t t'"
  using assms(2)
proof (induction n arbitrary: p t)
  case 0
  then show ?case by (cases p) auto
next
  case (Suc n)
  show ?case
  proof (cases p)
    case (Some b)
    then obtain nd t1 where w: "get b t = Inr nd" "walk_chain f m (Some b) t = Inr t1" "walk_sounds f m n (nd_list nd) t1 = Inr t'"
      using Suc.prems by (auto simp: Some)
    have "keeps a t t1" by (rule walk_chain_keeps [OF _ w(2)]) (rule assms(1))
    then show ?thesis using kept_trans Suc.IH [OF w(3)] by blast
  qed (use Suc.prems in simp)
qed


text \<open>A table with one cached sound, which is paused.\<close>

definition cached_sound :: table where
  "cached_sound = one_sound\<lparr>tb_heap := map_option (\<lambda>n. n\<lparr>nd_cached := True, nd_info := (nd_info n)\<lparr>h_size := 5\<rparr>\<rparr>) \<circ> tb_heap one_sound,
     tb_cache_size := 5\<rparr>"

definition demo_connection :: connection where
  "demo_connection = \<lparr>cn_addr = 1, cn_type = CONNECTION_CLIENT, cn_fd = 4, cn_events = [], cn_server = 0, cn_time = 0,
     cn_application = None, cn_notify_mask = 0, cn_notify_id = 0, cn_level_rate = 0, cn_level_next = 0,
     cn_position_rate = 0, cn_position_next = 0, cn_monitor = False\<rparr>"

definition paused_in :: "nat \<Rightarrow> spool_entry" where
  "paused_in a = \<lparr>sp_addr = 1, sp_id = 1, sp_state = SPOOL_PAUSE, sp_time = 0, sp_curr_sound = 0, sp_curr_count = 1, sp_list_count = 1,
     sp_sound = (\<lambda>_. Some a), sp_si = None, sp_curr_buffer = [], sp_next_buffer = [], sp_offset = 0, sp_rp = None,
     sp_curr_attrs = 0, sp_sin = 0, sp_sample_rate = 8000, sp_sample_index = 0, sp_sample_factor = 1, sp_skip_count = 0,
     sp_auto_pause = 0, sp_notify_position = 0\<rparr>"

definition demo_disk :: disk where
  "demo_disk = \<lparr>dk_free = True, dk_create = True, dk_write = True\<rparr>"

lemmas cached_sound_simps = cached_sound_def one_sound_def sound_insert_def empty_table_def new_node_def xhash_name_def
  base_name_def strip_extension_def bytes_of_def put_or_def put_def get_def Let_def

lemma cached_sound_node:
  "\<exists>n. tb_heap cached_sound 0 = Some n \<and> nd_cached n \<and> h_size (nd_info n) = 5 \<and> h_type (nd_info n) = INPUT_FILE
     \<and> nd_status n = SOUND_READY \<and> nd_next n = None \<and> nd_list n = None"
  "tb_sounds cached_sound = Some 0" "tb_fresh cached_sound = 1"
  by (simp_all add: cached_sound_simps new_header_def)


text \<open>Without a connection (a client of the packet protocol has none) the spool is not looked at: the
  data of a paused sound is given back, and continuing it reads through NULL
  (\<open>unmapped_cache_crashes\<close> of \<open>SoundFill\<close>).  And what is kept is no longer counted.\<close>

lemma cleanup_unmaps_paused:
  "\<exists>t' n'. sound_cleanup demo_disk [] [paused_in 0] cached_sound = Inr t' \<and> tb_heap t' 0 = Some n' \<and> \<not> nd_cached n'"
proof -
  obtain n where n: "tb_heap cached_sound 0 = Some n" "nd_cached n" "h_type (nd_info n) = INPUT_FILE" "nd_status n = SOUND_READY"
    "nd_next n = None" "nd_list n = None"
    using cached_sound_node(1) by blast
  obtain t1 n1 where t1: "clean_one demo_disk [] [paused_in 0] 0 cached_sound = Inr t1" "tb_heap t1 0 = Some n1" "\<not> nd_cached n1"
    using n(1-4) by (simp add: clean_one_def get_def sound_unmap_def put_def)
  then have "sound_cleanup demo_disk [] [paused_in 0] cached_sound = Inr (t1\<lparr>tb_cache_size := 0\<rparr>)"
    using n by (simp add: sound_cleanup_def each_sound_def cached_sound_node(2,3) get_def)
  then show ?thesis using t1(2,3) by simp
qed

lemma cleanup_forgets_kept:
  "\<exists>t' n'. sound_cleanup demo_disk [demo_connection] [paused_in 0] cached_sound = Inr t' \<and> tb_cache_size t' = 0
     \<and> tb_heap t' 0 = Some n' \<and> nd_cached n' \<and> h_size (nd_info n') = 5"
proof -
  obtain n where n: "tb_heap cached_sound 0 = Some n" "nd_cached n" "h_type (nd_info n) = INPUT_FILE" "nd_status n = SOUND_READY"
    "nd_next n = None" "nd_list n = None" "h_size (nd_info n) = 5"
    using cached_sound_node(1) by blast
  have "clean_one demo_disk [demo_connection] [paused_in 0] 0 cached_sound = Inr cached_sound"
    using n(1-4) by (simp add: clean_one_def get_def demo_connection_def in_spool_def paused_in_def)
  then show ?thesis
    using n by (simp add: sound_cleanup_def each_sound_def cached_sound_node(2,3) get_def)
qed

end
