(* ===== verification/Receive.thy ===== *)
theory Receive
  imports RplaySet Daemon Hosts
begin

text \<open>
  \<open>rplayd_read\<close> (\<open>src/rplayd/rplayd.c\<close>): the packets that wait at the UDP socket, at most
  \<open>SPOOL_SIZE\<close> of them, are checked against the hosts file, unpacked and carried out.  The
  receive buffer is static: behind a short packet the bytes of earlier ones are still there.
\<close>

section \<open>Receiving\<close>

text \<open>What \<open>recvfrom\<close> gives: nothing, or the sender (a number for its address, the address as text)
  and the bytes.\<close>

datatype arrival = NoPacket | Packet nat string bytes

record recv_env =
  rc_abi :: host_abi
  rc_forward :: bool
  rc_auth :: bool
  rc_hosts :: hosts
  rc_spool :: spool_env
  rc_find :: lookup
  rc_audio :: bool
  rc_threshold :: int

record recv_state =
  rs_buf :: bytes               \<comment> \<open>\<open>recv_buf\<close>, of \<open>MAX_PACKET\<close> bytes\<close>
  rs_server :: server
  rs_forwarded :: "bytes list"
  rs_resets :: nat              \<comment> \<open>\<open>need_to_reset\<close>\<close>

datatype recv_crash = SpoolFault crash | HostFault host_crash | PacketFault fault

definition of_fault :: "('e \<Rightarrow> recv_crash) \<Rightarrow> 'e + 'a \<Rightarrow> recv_crash + 'a" where
  "of_fault f r = map_sum f id r"

text \<open>The values of the requests are ignored.\<close>

definition carry_out :: "recv_env \<Rightarrow> nat \<Rightarrow> rplay \<Rightarrow> server \<Rightarrow> recv_crash + server" where
  "carry_out ev src rp s =
     (let c = r_command rp; run = (\<lambda>r. bindE (of_fault SpoolFault r) (\<lambda>(_, s1). Inr s1))
      in if c = RPLAY_PLAY then run (rplayd_play (rc_spool ev) (rc_find ev) (rc_audio ev) (rc_threshold ev) rp src s)
         else if c = RPLAY_STOP then run (rplayd_stop (rc_audio ev) rp src s)
         else if c = RPLAY_PAUSE then run (rplayd_pause (rc_audio ev) rp src s)
         else if c = RPLAY_CONTINUE then run (rplayd_continue (rc_spool ev) (rc_audio ev) rp src s)
         else if c = RPLAY_DONE then run (rplayd_done (rc_audio ev) rp src s)
         else if c = RPLAY_PUT then run (rplayd_put (rc_spool ev) (rc_audio ev) rp s)
         else Inr s)"

text \<open>A packet of version 2 starts with its command, 1 to 4.  A packet that cannot be unpacked is
  reported.\<close>

definition handle_packet :: "recv_env \<Rightarrow> nat \<Rightarrow> recv_state \<Rightarrow> recv_crash + recv_state" where
  "handle_packet ev src st =
     (case rs_buf st of [] \<Rightarrow> Inl (PacketFault ReadOverrun)
      | c # _ \<Rightarrow>
          if c \<notin> {1, 2, 3, 4, RPLAY_PACKET_ID} then Inr st
          else
            bindE (if c = RPLAY_PACKET_ID then Inr (rs_buf st)
                   else (case rplay_convert (rs_buf st) of
                           Inr p \<Rightarrow> Inr p | Inl (Undef f) \<Rightarrow> Inl (PacketFault f)
                         | Inl (Errno _) \<Rightarrow> Inl (PacketFault ReadOverrun)))
              (\<lambda>packet. case rplay_unpack (rc_abi ev) packet of
                 Inl (Errno _) \<Rightarrow> Inr st
               | Inl (Undef f) \<Rightarrow> Inl (PacketFault f)
               | Inr rp \<Rightarrow>
                   if r_command rp = RPLAY_RESET then Inr (st\<lparr>rs_resets := Suc (rs_resets st)\<rparr>)
                   else bindE (carry_out ev src rp (rs_server st)) (\<lambda>s1. Inr (st\<lparr>rs_server := s1\<rparr>))))"

definition receive_one :: "recv_env \<Rightarrow> arrival \<Rightarrow> recv_state \<Rightarrow> recv_crash + recv_state" where
  "receive_one ev x st =
     (case x of NoPacket \<Rightarrow> Inr st
      | Packet src addr bs \<Rightarrow>
          let d = take MAX_PACKET bs; st1 = st\<lparr>rs_buf := d @ drop (length d) (rs_buf st)\<rparr>
          in if d = [] then Inr st
             else if rc_forward ev then Inr (st1\<lparr>rs_forwarded := rs_forwarded st @ [d]\<rparr>)
             else bindE (of_fault HostFault (host_access (rc_auth ev) (rc_hosts ev) addr CHR ''x'')) (\<lambda>ok.
                    if ok then handle_packet ev src st1 else Inr st1))"

definition rplayd_read :: "recv_env \<Rightarrow> arrival list \<Rightarrow> recv_state \<Rightarrow> recv_crash + recv_state" where
  "rplayd_read ev xs st = foldE (receive_one ev) (take (nat SPOOL_SIZE) xs) st"
section \<open>From the client's object to the spool\<close>

text \<open>What a client hands to \<open>rplay_pack\<close>, and where it is carried out when its host may execute.\<close>

record sent_object =
  so_src :: nat
  so_addr :: string
  so_rp :: rplay

definition packed :: "host_abi \<Rightarrow> rplay \<Rightarrow> bytes" where
  "packed abi rp = pb_buf (r_pbuf (fst (rplay_pack abi rp (r_attrs rp))))"

definition sendable :: "host_abi \<Rightarrow> rplay \<Rightarrow> bool" where
  "sendable abi rp \<longleftrightarrow> rplay_ok abi rp \<and> (r_id rp = 0 \<or> long_size abi = 4) \<and> snd (rplay_pack abi rp (r_attrs rp)) = None"

definition deliver :: "recv_env \<Rightarrow> sent_object \<Rightarrow> server \<Rightarrow> recv_crash + server" where
  "deliver ev x s =
     bindE (of_fault HostFault (host_access (rc_auth ev) (rc_hosts ev) (so_addr x) CHR ''x'')) (\<lambda>ok.
       if ok then carry_out ev (so_src x) ((so_rp x)\<lparr>r_pbuf := new_packet_buf\<rparr>) s else Inr s)"

definition as_packet :: "host_abi \<Rightarrow> sent_object \<Rightarrow> arrival" where
  "as_packet abi x = Packet (so_src x) (so_addr x) (packed abi (so_rp x))"

lemma packed_starts:
  assumes "sendable abi rp"
  shows "\<exists>rest. packed abi rp = RPLAY_PACKET_ID # rest" "length (packed abi rp) \<le> MAX_PACKET"
proof -
  let ?cs = "pack_chunks abi rp (r_attrs rp)"
  have ok: "pbuf_ok ((r_pbuf rp)\<lparr>pb_buf := []\<rparr>)" using assms by (simp add: sendable_def rplay_ok_def)
  obtain rp' where rp': "rplay_pack abi rp (r_attrs rp) = (rp', None)"
    using assms by (cases "rplay_pack abi rp (r_attrs rp)") (simp add: sendable_def)
  have p: "packed abi rp = concat ?cs" using packed_bytes [OF rp' ok] rp' by (simp add: packed_def)
  show "\<exists>rest. packed abi rp = RPLAY_PACKET_ID # rest"
    by (simp add: p pack_chunks_def pack_header_def)
  have "chunks_size ?cs \<le> MAX_PACKET"
    using copy_chunks_too_big [OF ok, of ?cs] rp' by (cases "chunks_size ?cs \<le> MAX_PACKET") (auto simp: rplay_pack_def pb_len_def)
  then show "length (packed abi rp) \<le> MAX_PACKET" by (simp add: p chunks_size_def)
qed

lemma carry_out_nothing: "r_command rp = RPLAY_RESET \<Longrightarrow> carry_out ev src rp s = Inr s"
  by (simp add: carry_out_def)

lemma receive_sent:
  assumes "abi_ok (rc_abi ev)" "sendable (rc_abi ev) (so_rp x)" "\<not> rc_forward ev"
  shows "map_sum id rs_server (receive_one ev (as_packet (rc_abi ev) x) st) = deliver ev x (rs_server st)"
proof -
  let ?bs = "packed (rc_abi ev) (so_rp x)"
  obtain rest where rest: "?bs = RPLAY_PACKET_ID # rest" and l: "length ?bs \<le> MAX_PACKET"
    using packed_starts [OF assms(2)] by blast
  define st1 where "st1 = st\<lparr>rs_buf := ?bs @ drop (length ?bs) (rs_buf st)\<rparr>"
  obtain rp' where rp': "rplay_pack (rc_abi ev) (so_rp x) (r_attrs (so_rp x)) = (rp', None)"
    using assms(2) by (cases "rplay_pack (rc_abi ev) (so_rp x) (r_attrs (so_rp x))") (simp add: sendable_def)
  have u: "rplay_unpack (rc_abi ev) (rs_buf st1) = Inr ((so_rp x)\<lparr>r_pbuf := new_packet_buf\<rparr>)"
    using unpack_pack [OF assms(1) _ _ rp'] assms(2) rp' by (simp add: st1_def packed_def sendable_def)
  have hd: "rs_buf st1 = RPLAY_PACKET_ID # rest @ drop (length ?bs) (rs_buf st)" by (simp add: st1_def rest)
  have h: "map_sum id rs_server (handle_packet ev (so_src x) st1)
      = carry_out ev (so_src x) ((so_rp x)\<lparr>r_pbuf := new_packet_buf\<rparr>) (rs_server st)"
  proof (cases "r_command (so_rp x) = RPLAY_RESET")
    case True
    then show ?thesis
      using u by (simp add: handle_packet_def hd carry_out_nothing) (simp add: st1_def)
  next
    case False
    have "rs_server st1 = rs_server st" by (simp add: st1_def)
    then show ?thesis
      using False u
      by (cases "carry_out ev (so_src x) ((so_rp x)\<lparr>r_pbuf := new_packet_buf\<rparr>) (rs_server st)")
        (simp_all add: handle_packet_def hd)
  qed
  have t: "take MAX_PACKET ?bs = ?bs" using l by simp
  have r: "receive_one ev (as_packet (rc_abi ev) x) st
      = bindE (of_fault HostFault (host_access (rc_auth ev) (rc_hosts ev) (so_addr x) CHR ''x'')) (\<lambda>ok.
          if ok then handle_packet ev (so_src x) st1 else Inr st1)"
    unfolding receive_one_def as_packet_def arrival.case Let_def t st1_def [symmetric] using rest assms(3) by simp
  have "rs_server st1 = rs_server st" by (simp add: st1_def)
  then show ?thesis
    unfolding r deliver_def using h
    by (cases "of_fault HostFault (host_access (rc_auth ev) (rc_hosts ev) (so_addr x) CHR ''x'')") auto
qed


definition demo_recv :: recv_env where
  "demo_recv = \<lparr>rc_abi = ilp32, rc_forward = False, rc_auth = False, rc_hosts = no_hosts, rc_spool = Daemon.demo_env,
     rc_find = demo_lookup, rc_audio = True, rc_threshold = 0\<rparr>"

definition demo_sent :: sent_object where
  "demo_sent = \<lparr>so_src = 7, so_addr = ''10.0.0.9'', so_rp = demo_rplay ilp32 7\<rparr>"


end
