(* ===== verification/Audio.thy ===== *)
theory Audio
  imports Rplayd
begin

text \<open>
  The audio side of the daemon (\<open>src/rplayd/rplayd.c\<close>): the parameters of the device and of the
  timer (\<open>rplayd_audio_init\<close>, a build without OSS), the sample rate that is chosen for a sound
  (\<open>rplayd_audio_match\<close>), the ring of buffers for monitors (\<open>monitor_alloc\<close>, the copy in
  \<open>rplayd_write\<close>, \<open>monitor_cleanup\<close>), and what the main loop does when nothing happens.  What the
  device makes of the wanted parameters is an input.
\<close>

abbreviation "MAX_SAMPLE_RATE \<equiv> (48000 :: int)"

section \<open>The parameters of the device\<close>

datatype audio_fault = DivideByZero | EndlessCount | PastTable | NoMonitor

record device =
  dv_sample_rate :: int
  dv_precision :: int
  dv_channels :: int

record audio_state =
  au_optional_rate :: int
  au_device :: device
  au_rate :: int              \<comment> \<open>\<open>rplay_audio_rate\<close>, writes per second\<close>
  au_curr_rate :: int
  au_bufsize :: int           \<comment> \<open>\<open>rplay_audio_bufsize\<close>\<close>
  au_curr_bufsize :: int
  au_table :: "int list option"  \<comment> \<open>sample rates of \<open>rplay_audio_table\<close>, to the end of the array\<close>

record audio_env =
  ae_enabled :: bool
  ae_match :: bool
  ae_init :: "int \<Rightarrow> (device \<times> int list option) option"  \<comment> \<open>\<open>rplay_audio_init\<close> for a wanted rate\<close>
  ae_default_rate :: int
  ae_standard :: int          \<comment> \<open>\<open>RPLAY_AUDIO_RATE\<close>\<close>

text \<open>\<open>while (rate % r) r--\<close>.  The sign of the remainder does not matter here; below \<open>-|rate|\<close> no
  divisor comes any more.\<close>

function slow_down :: "int \<Rightarrow> int \<Rightarrow> audio_fault + int" where
  "slow_down rate r =
     (if r = 0 then Inl DivideByZero
      else if rate mod r = 0 then Inr r
      else if r < - abs rate then Inl EndlessCount
      else slow_down rate (r - 1))"
  by auto
termination
  by (relation "measure (\<lambda>(rate, r). nat (r + abs rate + 1))") auto

declare slow_down.simps [simp del]

text \<open>\<open>while (n % k) n++\<close>\<close>

function grow_to :: "int \<Rightarrow> int \<Rightarrow> audio_fault + int" where
  "grow_to k n =
     (if k = 0 then Inl DivideByZero
      else if n mod k = 0 then Inr n else grow_to k (n + 1))"
  by auto
termination
proof (relation "measure (\<lambda>(k, n). nat ((- n) mod abs k))", goal_cases)
  case (2 k n)
  have p: "0 < abs k" using 2(1) by simp
  have nz: "(- n) mod abs k \<noteq> 0" using 2 by (simp add: mod_eq_0_iff_dvd)
  have "(- (n + 1)) mod abs k = ((- n) mod abs k - 1) mod abs k" by (simp add: mod_diff_left_eq)
  also have "\<dots> = (- n) mod abs k - 1" using nz pos_mod_bound [OF p, of "- n"] pos_mod_sign [OF p, of "- n"]
    by (intro mod_pos_pos_trivial) linarith+
  finally show ?case using nz pos_mod_sign [OF p, of "- n"] by simp
qed simp

declare grow_to.simps [simp del]

definition c_div :: "int \<Rightarrow> int \<Rightarrow> int" where
  "c_div a b = sgn a * sgn b * (abs a div abs b)"

text \<open>\<open>(precision >> 3) * channels\<close>\<close>

definition sample_size :: "device \<Rightarrow> int" where
  "sample_size d = dv_precision d div 8 * dv_channels d"

definition set_timer :: "audio_env \<Rightarrow> audio_state \<Rightarrow> audio_fault + audio_state" where
  "set_timer ae au =
     (let rate0 = (if ae_match ae \<or> au_rate au = 0 then ae_standard ae else au_rate au); d = au_device au
      in bindE (slow_down (dv_sample_rate d) rate0) (\<lambda>r.
         let size0 = (if ae_match ae \<or> au_bufsize au = 0 then c_div (dv_sample_rate d) r * sample_size d else au_bufsize au)
         in bindE (grow_to (sample_size d) size0) (\<lambda>b.
              Inr (au\<lparr>au_optional_rate := dv_sample_rate d, au_rate := rate0, au_curr_rate := r,
                      au_bufsize := size0, au_curr_bufsize := b\<rparr>))))"

text \<open>\<open>False\<close> stands for -1.\<close>

definition rplayd_audio_init :: "audio_env \<Rightarrow> audio_state \<Rightarrow> audio_fault + (bool \<times> audio_state)" where
  "rplayd_audio_init ae au =
     (if \<not> ae_enabled ae then Inr (False, au)
      else
        let want = (if au_optional_rate au > MAX_SAMPLE_RATE then MAX_SAMPLE_RATE else au_optional_rate au);
            au1 = au\<lparr>au_optional_rate := want, au_table := None\<rparr>
        in case ae_init ae want of
             None \<Rightarrow> Inr (False, au1)
           | Some (d, tbl) \<Rightarrow> bindE (set_timer ae (au1\<lparr>au_device := d, au_table := tbl\<rparr>)) (\<lambda>au2. Inr (True, au2)))"

section \<open>Matching the rate of a sound\<close>

text \<open>The walk through the table, whose end has rate 0.\<close>

fun match_rate :: "int list \<Rightarrow> int \<Rightarrow> int \<Rightarrow> audio_fault + int" where
  "match_rate [] prv want = Inl PastTable"
| "match_rate (t # ts) prv want =
     (if t = 0 \<or> want < prv then Inr prv
      else if want \<ge> prv \<and> want \<le> t
           then Inr (if t - want > want - prv then prv else t)
      else match_rate ts t want)"

definition closest_rate :: "int list option \<Rightarrow> int \<Rightarrow> audio_fault + int" where
  "closest_rate tbl want =
     (case tbl of None \<Rightarrow> Inr want
      | Some ts \<Rightarrow> (case ts of [] \<Rightarrow> Inl PastTable | t # _ \<Rightarrow> match_rate ts t want))"

text \<open>The new state and the spool with the factors of the new rate.\<close>

definition rplayd_audio_match :: "audio_env \<Rightarrow> int \<Rightarrow> audio_state \<Rightarrow> server \<Rightarrow> audio_fault + (audio_state \<times> server)" where
  "rplayd_audio_match ae rate au s =
     (if ae_match ae \<and> spool_nplaying s = 0 \<and> rate \<noteq> dv_sample_rate (au_device au)
      then
        bindE (closest_rate (au_table au) rate) (\<lambda>want.
        bindE (rplayd_audio_init ae (au\<lparr>au_optional_rate := want\<rparr>)) (\<lambda>(ok, au1).
        bindE (if ok then Inr au1
               else bindE (rplayd_audio_init ae (au1\<lparr>au_optional_rate := ae_default_rate ae\<rparr>)) (\<lambda>(_, au2). Inr au2)) (\<lambda>au2.
          Inr (au2, s\<lparr>sv_spool := map (\<lambda>e. e\<lparr>sp_sample_factor := of_int (sp_sample_rate e) / of_int (dv_sample_rate (au_device au2))\<rparr>)
                        (sv_spool s)\<rparr>))))
      else Inr (au, s))"

section \<open>Monitors\<close>

text \<open>The ring: its buffers in the order of the links from the current one, and the offset in that
  one.  A buffer is the bytes of its 8192 places.\<close>

record ring =
  rg_bufs :: "string list"
  rg_offset :: nat
  rg_update :: nat            \<comment> \<open>\<open>monitor_update\<close>\<close>

abbreviation "BUFFER_BYTES \<equiv> (8192 :: nat)"

text \<open>Fresh buffers have the bytes \<open>olds\<close>, whatever they were.\<close>

definition monitor_alloc :: "string list \<Rightarrow> ring option \<Rightarrow> ring" where
  "monitor_alloc olds rg =
     (case rg of None \<Rightarrow> \<lparr>rg_bufs = olds, rg_offset = 0, rg_update = 0\<rparr>
      | Some r \<Rightarrow> r\<lparr>rg_update := 0\<rparr>)"

definition store :: "nat \<Rightarrow> string \<Rightarrow> string \<Rightarrow> string" where
  "store off d b = take off b @ d @ drop (off + length d) b"

text \<open>The loop over the bytes of the audio buffer.\<close>

function monitor_write :: "string \<Rightarrow> ring \<Rightarrow> audio_fault + ring" where
  "monitor_write d rg =
     (if d = [] then Inr rg
      else case rg_bufs rg of [] \<Rightarrow> Inl NoMonitor
         | b # bs \<Rightarrow>
             let n = min (BUFFER_BYTES - rg_offset rg) (length d);
                 b1 = store (rg_offset rg) (take n d) b; off = rg_offset rg + n
             in if n = 0 then Inl EndlessCount
                else if off = BUFFER_BYTES
                then monitor_write (drop n d) (rg\<lparr>rg_bufs := bs @ [b1], rg_offset := 0, rg_update := Suc (rg_update rg)\<rparr>)
                else monitor_write (drop n d) (rg\<lparr>rg_bufs := b1 # bs, rg_offset := off\<rparr>))"
  by auto
termination by (relation "measure (\<lambda>(d, _). length d)") auto

declare monitor_write.simps [simp del]

section \<open>The timer and the size of its buffer\<close>

lemma slow_down_largest:
  assumes "0 < r"
  shows "\<exists>q. slow_down rate r = Inr q \<and> 1 \<le> q \<and> q \<le> r \<and> q dvd rate \<and> (\<forall>p. p dvd rate \<and> p \<le> r \<longrightarrow> p \<le> q)"
  using assms
proof (induction rate r rule: slow_down.induct)
  case (1 rate r)
  show ?case
  proof (cases "rate mod r = 0")
    case True
    then show ?thesis using 1(2) by (simp add: slow_down.simps [of rate r] mod_eq_0_iff_dvd)
  next
    case False
    then have "r \<noteq> 1" and "\<not> r dvd rate" by (auto simp: mod_eq_0_iff_dvd)
    moreover have ge: "\<not> r < - abs rate" using 1(2) by simp
    moreover obtain q where q: "slow_down rate (r - 1) = Inr q" "1 \<le> q" "q \<le> r - 1" "q dvd rate"
      and m: "\<forall>p. p dvd rate \<and> p \<le> r - 1 \<longrightarrow> p \<le> q"
      using 1(1) 1(2) False \<open>r \<noteq> 1\<close> ge by auto
    have "p \<le> q" if "p dvd rate" "p \<le> r" for p
      using m that \<open>\<not> r dvd rate\<close> by (cases "p = r") auto
    ultimately show ?thesis using q 1(2) False by (auto simp: slow_down.simps [of rate r])
  qed
qed

lemma grow_to_next:
  assumes "k \<noteq> 0"
  shows "\<exists>m. grow_to k n = Inr m \<and> k dvd m \<and> n \<le> m \<and> (\<forall>p. k dvd p \<and> n \<le> p \<longrightarrow> m \<le> p)"
  using assms
proof (induction k n rule: grow_to.induct)
  case (1 k n)
  show ?case
  proof (cases "n mod k = 0")
    case True
    then show ?thesis using 1(2) by (simp add: grow_to.simps [of k n] mod_eq_0_iff_dvd)
  next
    case False
    then have nd: "\<not> k dvd n" by (simp add: mod_eq_0_iff_dvd)
    obtain m where m: "grow_to k (n + 1) = Inr m" "k dvd m" "n + 1 \<le> m" "\<forall>p. k dvd p \<and> n + 1 \<le> p \<longrightarrow> m \<le> p"
      using 1(1) 1(2) False by auto
    have "m \<le> p" if "k dvd p" "n \<le> p" for p
      using m(4) that nd by (cases "p = n") auto
    then show ?thesis using m 1(2) False by (auto simp: grow_to.simps [of k n])
  qed
qed

lemma grow_to_multiple [simp]: "k \<noteq> 0 \<Longrightarrow> k dvd n \<Longrightarrow> grow_to k n = Inr n"
  by (simp add: grow_to.simps mod_eq_0_iff_dvd)

text \<open>The parameters that \<open>rplayd_audio_init\<close> has settled when it succeeds.\<close>

definition timer_settled :: "int \<Rightarrow> int \<Rightarrow> audio_state \<Rightarrow> bool" where
  "timer_settled rate0 size0 au \<longleftrightarrow>
     (let r = au_curr_rate au; sr = dv_sample_rate (au_device au); k = sample_size (au_device au); b = au_curr_bufsize au
      in 1 \<le> r \<and> r \<le> rate0 \<and> r dvd sr \<and> (\<forall>p. p dvd sr \<and> p \<le> rate0 \<longrightarrow> p \<le> r)
         \<and> k dvd b \<and> size0 \<le> b \<and> (\<forall>p. k dvd p \<and> size0 \<le> p \<longrightarrow> b \<le> p))"

lemma set_timer_settles:
  assumes "sample_size (au_device au) \<noteq> 0" "0 < (if ae_match ae \<or> au_rate au = 0 then ae_standard ae else au_rate au)"
  shows "\<exists>au1 size0. set_timer ae au = Inr au1 \<and> au_device au1 = au_device au \<and> au_bufsize au1 = size0
     \<and> timer_settled (if ae_match ae \<or> au_rate au = 0 then ae_standard ae else au_rate au) size0 au1
     \<and> size0 = (if ae_match ae \<or> au_bufsize au = 0
                then c_div (dv_sample_rate (au_device au)) (au_curr_rate au1) * sample_size (au_device au) else au_bufsize au)"
proof -
  obtain r where r: "slow_down (dv_sample_rate (au_device au)) (if ae_match ae \<or> au_rate au = 0 then ae_standard ae else au_rate au) = Inr r"
    "1 \<le> r" "r \<le> (if ae_match ae \<or> au_rate au = 0 then ae_standard ae else au_rate au)" "r dvd dv_sample_rate (au_device au)"
    "\<forall>p. p dvd dv_sample_rate (au_device au) \<and> p \<le> (if ae_match ae \<or> au_rate au = 0 then ae_standard ae else au_rate au) \<longrightarrow> p \<le> r"
    using slow_down_largest [OF assms(2)] by blast
  let ?size0 = "if ae_match ae \<or> au_bufsize au = 0 then c_div (dv_sample_rate (au_device au)) r * sample_size (au_device au) else au_bufsize au"
  obtain b where b: "grow_to (sample_size (au_device au)) ?size0 = Inr b" "sample_size (au_device au) dvd b" "?size0 \<le> b"
    "\<forall>p. sample_size (au_device au) dvd p \<and> ?size0 \<le> p \<longrightarrow> b \<le> p"
    using grow_to_next [OF assms(1)] by blast
  show ?thesis
    unfolding set_timer_def Let_def r(1) bindE.simps b(1) timer_settled_def using r(2-) b(2-) by simp
qed

lemma c_div_exact: "0 < r \<Longrightarrow> 0 \<le> a \<Longrightarrow> r dvd a \<Longrightarrow> c_div a r * r = a"
  by (cases "a = 0") (auto simp: c_div_def)


definition demo_audio_env :: audio_env where
  "demo_audio_env = \<lparr>ae_enabled = True, ae_match = False,
     ae_init = (\<lambda>want. Some (\<lparr>dv_sample_rate = 11025, dv_precision = 16, dv_channels = 2\<rparr>, Some [8000, 11025, 44100, 0])),
     ae_default_rate = 0, ae_standard = 10\<rparr>"

definition demo_audio :: audio_state where
  "demo_audio = \<lparr>au_optional_rate = 0, au_device = \<lparr>dv_sample_rate = 0, dv_precision = 0, dv_channels = 0\<rparr>, au_rate = 0,
     au_curr_rate = 0, au_bufsize = 0, au_curr_bufsize = 0, au_table = None\<rparr>"


section \<open>The nearest rate of the table\<close>

lemma match_rate_nearest:
  assumes "sorted (prv # rs)" "0 < prv" "prv \<le> want"
  shows "\<exists>r \<in> set (prv # rs). match_rate (rs @ 0 # rest) prv want = Inr r \<and> (\<forall>q \<in> set (prv # rs). abs (want - r) \<le> abs (want - q))"
  using assms
proof (induction rs arbitrary: prv)
  case (Cons t ts)
  have t: "t \<noteq> 0" "prv \<le> t" "\<forall>q \<in> set ts. t \<le> q" "sorted (t # ts)" using Cons.prems by auto
  show ?case
  proof (cases "want \<le> t")
    case True
    then show ?thesis using t(1,2,3) Cons.prems(3) by fastforce
  next
    case False
    then have m: "match_rate ((t # ts) @ 0 # rest) prv want = match_rate (ts @ 0 # rest) t want"
      using t(1) Cons.prems(3) by simp
    obtain r where r: "r \<in> set (t # ts)" "match_rate (ts @ 0 # rest) t want = Inr r"
      "\<forall>q \<in> set (t # ts). abs (want - r) \<le> abs (want - q)"
      using Cons.IH [of t] t False Cons.prems(2) by auto
    have "abs (want - t) \<le> abs (want - prv)" using t(2) False by simp
    then have "abs (want - r) \<le> abs (want - prv)" using r(3) by force
    then show ?thesis using r m by auto
  qed
qed simp

text \<open>\<open>rplayd_audio_match\<close> asks the device for the rate of its table that is nearest to the rate
  of the sound: with an ascending table, whose last entry is 0, the choice is in the table and no entry
  is nearer, and the walk stops in the table.\<close>

theorem closest_rate_nearest:
  assumes "sorted rs" "rs \<noteq> []" "\<forall>r \<in> set rs. 0 < r"
  shows "\<exists>r \<in> set rs. closest_rate (Some (rs @ 0 # rest)) want = Inr r \<and> (\<forall>q \<in> set rs. abs (want - r) \<le> abs (want - q))"
proof -
  obtain t ts where rs: "rs = t # ts" using assms(2) by (cases rs) auto
  show ?thesis
  proof (cases "want < t")
    case True
    then have "closest_rate (Some (rs @ 0 # rest)) want = Inr t" by (simp add: closest_rate_def rs)
    moreover have "abs (want - t) \<le> abs (want - q)" if "q \<in> set rs" for q
      using that True assms(1) by (auto simp: rs)
    ultimately show ?thesis by (auto simp: rs)
  next
    case False
    have "match_rate (rs @ 0 # rest) t want = match_rate (ts @ 0 # rest) t want \<or> (want = t \<and> match_rate (rs @ 0 # rest) t want = Inr t)"
      using False assms(3) by (auto simp: rs)
    then show ?thesis
    proof (elim disjE conjE)
      assume m: "match_rate (rs @ 0 # rest) t want = match_rate (ts @ 0 # rest) t want"
      have "sorted (t # ts)" "0 < t" "t \<le> want" using assms(1,3) False by (simp_all add: rs)
      from match_rate_nearest [OF this, of rest] m show ?thesis
        by (simp only: closest_rate_def rs append_Cons list.case option.case)
    next
      assume "want = t" "match_rate (rs @ 0 # rest) t want = Inr t"
      then show ?thesis by (simp add: closest_rate_def rs)
    qed
  qed
qed

lemma closest_rate_nearest_witness:
  "\<exists>r \<in> set [8000, 11025, 16000, 44100 :: int]. closest_rate (Some ([8000, 11025, 16000, 44100] @ 0 # [])) 22050 = Inr r
     \<and> (\<forall>q \<in> set [8000, 11025, 16000, 44100]. abs (22050 - r) \<le> abs (22050 - q))"
  by (rule closest_rate_nearest) simp_all

section \<open>What monitors hear\<close>

text \<open>The bytes of the ring, the oldest first.\<close>

definition ring_ok :: "ring \<Rightarrow> bool" where
  "ring_ok rg \<longleftrightarrow> rg_bufs rg \<noteq> [] \<and> (\<forall>b \<in> set (rg_bufs rg). length b = BUFFER_BYTES) \<and> rg_offset rg < BUFFER_BYTES"

definition history :: "ring \<Rightarrow> string" where
  "history rg = drop (rg_offset rg) (hd (rg_bufs rg)) @ concat (tl (rg_bufs rg)) @ take (rg_offset rg) (hd (rg_bufs rg))"

lemma length_store [simp]: "off + length d \<le> length b \<Longrightarrow> length (store off d b) = length b"
  by (simp add: store_def)

lemma store_parts:
  assumes "off + length d \<le> length b"
  shows "take (off + length d) (store off d b) = take off b @ d" "drop (off + length d) (store off d b) = drop (off + length d) b"
  using assms by (simp_all add: store_def)

lemma monitor_write_history:
  assumes "ring_ok rg"
  shows "\<exists>rg1. monitor_write d rg = Inr rg1 \<and> ring_ok rg1 \<and> length (rg_bufs rg1) = length (rg_bufs rg)
     \<and> history rg1 = drop (length d) (history rg @ d)
     \<and> BUFFER_BYTES * rg_update rg1 + rg_offset rg1 = BUFFER_BYTES * rg_update rg + rg_offset rg + length d"
  using assms
proof (induction d rg rule: monitor_write.induct)
  case (1 d rg)
  show ?case
  proof (cases "d = []")
    case False
    obtain b bs where b: "rg_bufs rg = b # bs" using 1(3) by (cases "rg_bufs rg") (auto simp: ring_ok_def)
    define off n where "off = rg_offset rg" and "n = min (BUFFER_BYTES - off) (length d)"
    have l: "length b = BUFFER_BYTES" "off < BUFFER_BYTES" "\<forall>c \<in> set bs. length c = BUFFER_BYTES"
      using 1(3) by (auto simp: ring_ok_def b off_def)
    have n: "0 < n" "n \<le> length d" "off + n \<le> BUFFER_BYTES" using l(2) False by (auto simp: n_def)
    define b1 where "b1 = store off (take n d) b"
    have lb: "length b1 = BUFFER_BYTES" using n l(1) by (simp add: b1_def)
    have parts: "take (off + n) b1 = take off b @ take n d" "drop (off + n) b1 = drop (off + n) b"
      using store_parts [of off "take n d" b] n l(1) by (simp_all add: b1_def)
    have rest: "drop n (history rg @ take n d) = drop (off + n) b @ concat bs @ take off b @ take n d"
      using n l(1) by (simp add: history_def b off_def add.commute)
    have nh: "n \<le> length (history rg)" using n l by (simp add: history_def b off_def)
    have final: "drop (length (drop n d)) (drop n (history rg @ take n d) @ drop n d) = drop (length d) (history rg @ d)"
    proof -
      have e: "drop n (history rg @ take n d) @ drop n d = drop n (history rg @ d)"
        using nh by (simp add: append_assoc [of _ "take n d" "drop n d"])
      have "drop (length (drop n d)) (drop n (history rg @ d)) = drop (length d) (history rg @ d)"
        using n(2) by (simp only: drop_drop length_drop) simp
      then show ?thesis unfolding e .
    qed
    show ?thesis
    proof (cases "off + n = BUFFER_BYTES")
      case full: True
      define rg0 where "rg0 = rg\<lparr>rg_bufs := bs @ [b1], rg_offset := 0, rg_update := Suc (rg_update rg)\<rparr>"
      have ok: "ring_ok rg0" using l(3) lb by (auto simp: ring_ok_def rg0_def)
      have b1: "b1 = take off b @ take n d" using parts(1) full lb by simp
      have "history rg0 = concat (bs @ [b1])" by (cases bs) (simp_all add: history_def rg0_def)
      then have h: "history rg0 = drop n (history rg @ take n d)" unfolding rest using full l(1) by (simp add: b1)
      have w: "monitor_write d rg = monitor_write (drop n d) rg0"
        using False n full by (simp add: monitor_write.simps [of d rg] b n_def off_def b1_def rg0_def Let_def)
      have "\<exists>rg1. monitor_write (drop n d) rg0 = Inr rg1 \<and> ring_ok rg1 \<and> length (rg_bufs rg1) = length (rg_bufs rg0)
         \<and> history rg1 = drop (length (drop n d)) (history rg0 @ drop n d)
         \<and> BUFFER_BYTES * rg_update rg1 + rg_offset rg1 = BUFFER_BYTES * rg_update rg0 + rg_offset rg0 + length (drop n d)"
        using 1(1) [OF False b refl refl refl] False n full ok by (simp add: n_def off_def b1_def rg0_def)
      moreover have "BUFFER_BYTES * rg_update rg0 + rg_offset rg0 + length (drop n d) = BUFFER_BYTES * rg_update rg + rg_offset rg + length d"
        using n full by (simp add: rg0_def off_def)
      moreover have "length (rg_bufs rg0) = length (rg_bufs rg)" by (simp add: rg0_def b)
      ultimately show ?thesis unfolding w h final by metis
    next
      case part: False
      define rg0 where "rg0 = rg\<lparr>rg_bufs := b1 # bs, rg_offset := off + n\<rparr>"
      have ok: "ring_ok rg0" using l(3) lb n(3) part by (auto simp: ring_ok_def rg0_def)
      have h: "history rg0 = drop n (history rg @ take n d)" unfolding rest by (simp add: history_def rg0_def parts)
      have w: "monitor_write d rg = monitor_write (drop n d) rg0"
        unfolding monitor_write.simps [of d rg] b Let_def list.case off_def [symmetric] n_def [symmetric] b1_def [symmetric]
        using False n(1) part by (simp add: rg0_def)
      have "\<exists>rg1. monitor_write (drop n d) rg0 = Inr rg1 \<and> ring_ok rg1 \<and> length (rg_bufs rg1) = length (rg_bufs rg0)
         \<and> history rg1 = drop (length (drop n d)) (history rg0 @ drop n d)
         \<and> BUFFER_BYTES * rg_update rg1 + rg_offset rg1 = BUFFER_BYTES * rg_update rg0 + rg_offset rg0 + length (drop n d)"
        using 1(2) [OF False b refl refl refl] False n part ok by (simp add: n_def off_def b1_def rg0_def)
      moreover have "BUFFER_BYTES * rg_update rg0 + rg_offset rg0 + length (drop n d) = BUFFER_BYTES * rg_update rg + rg_offset rg + length d"
        using n by (simp add: rg0_def off_def)
      moreover have "length (rg_bufs rg0) = length (rg_bufs rg)" by (simp add: rg0_def b)
      ultimately show ?thesis unfolding w h final by metis
    qed
  qed (use 1(3) in \<open>simp add: monitor_write.simps\<close>)
qed

lemma monitor_writes_history:
  assumes "ring_ok rg"
  shows "\<exists>rg1. foldE monitor_write ds rg = Inr rg1 \<and> ring_ok rg1 \<and> length (rg_bufs rg1) = length (rg_bufs rg)
     \<and> history rg1 = drop (length (concat ds)) (history rg @ concat ds)
     \<and> BUFFER_BYTES * rg_update rg1 + rg_offset rg1 = BUFFER_BYTES * rg_update rg + rg_offset rg + length (concat ds)"
  using assms
proof (induction ds arbitrary: rg)
  case (Cons d ds)
  obtain rg1 where 1: "monitor_write d rg = Inr rg1" "ring_ok rg1" "length (rg_bufs rg1) = length (rg_bufs rg)"
    "history rg1 = drop (length d) (history rg @ d)"
    "BUFFER_BYTES * rg_update rg1 + rg_offset rg1 = BUFFER_BYTES * rg_update rg + rg_offset rg + length d"
    using monitor_write_history [OF Cons.prems, of d] by blast
  obtain rg2 where 2: "foldE monitor_write ds rg1 = Inr rg2" "ring_ok rg2" "length (rg_bufs rg2) = length (rg_bufs rg1)"
    "history rg2 = drop (length (concat ds)) (history rg1 @ concat ds)"
    "BUFFER_BYTES * rg_update rg2 + rg_offset rg2 = BUFFER_BYTES * rg_update rg1 + rg_offset rg1 + length (concat ds)"
    using Cons.IH [OF 1(2)] by blast
  have "drop (length d) (history rg @ d) @ concat ds = drop (length d) (history rg @ concat (d # ds))" by simp
  then have "history rg2 = drop (length (concat (d # ds))) (history rg @ concat (d # ds))"
    unfolding 2(4) 1(4) by (simp only: drop_drop concat.simps length_append add.commute)
  then show ?case using 1 2 by simp
qed simp

lemma monitor_alloc_ok:
  assumes "olds \<noteq> []" "\<forall>b \<in> set olds. length b = BUFFER_BYTES"
  shows "ring_ok (monitor_alloc olds None)" "history (monitor_alloc olds None) = concat olds"
  using assms by (cases olds; simp add: monitor_alloc_def ring_ok_def history_def)+

text \<open>C33.  The ring of the monitors holds the latest audio data: after \<open>monitor_alloc\<close> the writes of any
  sizes succeed, and the ring, read from the place of the next write once around, gives the last bytes
  that were written in their order, as many as the ring has room for; \<open>monitor_update\<close> counts the
  buffers that were filled.\<close>

theorem monitor_ring_holds_latest:
  assumes "olds \<noteq> []" "\<forall>b \<in> set olds. length b = BUFFER_BYTES" "BUFFER_BYTES * length olds \<le> length (concat ds)"
  shows "\<exists>rg. foldE monitor_write ds (monitor_alloc olds None) = Inr rg
     \<and> history rg = drop (length (concat ds) - BUFFER_BYTES * length olds) (concat ds)
     \<and> rg_update rg = length (concat ds) div BUFFER_BYTES"
proof -
  obtain rg where rg: "foldE monitor_write ds (monitor_alloc olds None) = Inr rg" "ring_ok rg"
    "history rg = drop (length (concat ds)) (concat olds @ concat ds)"
    "BUFFER_BYTES * rg_update rg + rg_offset rg = BUFFER_BYTES * rg_update (monitor_alloc olds None) + rg_offset (monitor_alloc olds None) + length (concat ds)"
    using monitor_writes_history [OF monitor_alloc_ok(1) [OF assms(1,2)], of ds] monitor_alloc_ok [OF assms(1,2)] by metis
  have lc: "length (concat olds) = BUFFER_BYTES * length olds"
    using assms(2) by (induction olds) auto
  have c: "length (concat ds) = BUFFER_BYTES * rg_update rg + rg_offset rg" and o: "rg_offset rg < BUFFER_BYTES"
    using rg(2,4) by (simp_all add: monitor_alloc_def ring_ok_def)
  have "rg_update rg = length (concat ds) div BUFFER_BYTES" unfolding c using o by simp
  moreover have "history rg = drop (length (concat ds) - BUFFER_BYTES * length olds) (concat ds)"
    unfolding rg(3) drop_append lc using assms(3) lc by (simp del: length_concat)
  ultimately show ?thesis using rg(1) by blast
qed

lemma monitor_ring_holds_latest_witness:
  "\<exists>rg. foldE monitor_write [replicate 5000 CHR ''a'', replicate 5000 CHR ''b''] (monitor_alloc [replicate BUFFER_BYTES CHR '' ''] None) = Inr rg
     \<and> rg_update rg = 1"
proof -
  have l: "length (concat [replicate 5000 CHR ''a'', replicate 5000 CHR ''b'']) = 10000" by simp
  have "length (replicate BUFFER_BYTES CHR '' '') = BUFFER_BYTES" by (rule length_replicate)
  with monitor_ring_holds_latest [of "[replicate BUFFER_BYTES CHR '' '']" "[replicate 5000 CHR ''a'', replicate 5000 CHR ''b'']", unfolded l]
  show ?thesis by auto
qed

text \<open>A buffer size that was computed for one rate of the device is kept for the next one, unless the
  daemon matches rates: with 44100 instead of 8000 samples a second the writes of a second carry less
  than a second of samples.\<close>

lemma stale_bufsize:
  "bindE (set_timer demo_audio_env (demo_audio\<lparr>au_device := \<lparr>dv_sample_rate = 8000, dv_precision = 16, dv_channels = 2\<rparr>\<rparr>)) (\<lambda>au1.
     bindE (set_timer demo_audio_env (au1\<lparr>au_device := \<lparr>dv_sample_rate = 44100, dv_precision = 16, dv_channels = 2\<rparr>\<rparr>)) (\<lambda>au2.
       Inr (au_curr_rate au1 * au_curr_bufsize au1, au_curr_rate au2 * au_curr_bufsize au2))) = Inr (8000 * 4, 8000 * 4)"
  by code_simp

end
