(* ===== verification/Spec2Isabelle.thy ===== *)
theory Spec2Isabelle
  imports RplaySet Rptp Daemon Native SoundTable Traffic Hosts Cache Command PlayRequest AsyncEvents SoundFill Cleanup Receive Audio
begin

text \<open>
  A model of rplay 3.3, a network audio system in C: the daemon \<open>rplayd\<close>
  (\<open>src/rplayd/\<close>) plays sounds for clients that send UDP packets or speak the line
  protocol RPTP over TCP; \<open>src/librplay/\<close> is the client library.

  \<^bold>\<open>How the parts interact.\<close>  A client sets up an object (\<open>RplaySet\<close>), packs it (\<open>Packet\<close>) and
  sends it; \<open>Receive\<close> checks the sender against the hosts file (\<open>Hosts\<close>), unpacks the object and
  calls the requests on the spool (\<open>Rplayd\<close>).  Or it sends lines (\<open>Rptp\<close>, \<open>Async\<close>), which the
  daemon reads and answers through the event queues of its connections (\<open>Events\<close>, \<open>Traffic\<close>,
  \<open>Update\<close>), running the commands of \<open>Command\<close> on the same spool.  A sound is found in a table
  (\<open>SoundTable\<close>), its header is mapped (\<open>Header\<close>), its data are read (\<open>SoundFill\<close>), converted and
  mixed (\<open>Native\<close>).  Sounds of other servers come through connections (\<open>Requests\<close>) into the
  cache (\<open>Cache\<close>), and the table is kept up to date (\<open>Cleanup\<close>).

  \<^bold>\<open>The library and the packets.\<close>
  \<^item> \<open>Prelude\<close>: bytes and C strings, the error monad (\<open>bindE\<close>, \<open>foldE\<close>), big-endian
    numbers, the interface \<open>field_codec\<close> of an encoded field.
  \<^item> \<open>Packet\<close> (\<open>librplay/rplay.c\<close>, \<open>include/rplay.h\<close>): \<open>rplay_pack\<close> with its growing
    buffer, \<open>rplay_unpack\<close>, the codecs of the fields (interpretations of \<open>field_codec\<close>).  What is
    packed is unpacked again; the buffer never overflows.
  \<^item> \<open>RplaySet\<close> (\<open>librplay/rplay.c\<close>): \<open>rplay_set\<close>, \<open>rplay_get\<close>, \<open>rplay_convert\<close> over an
    explicit store of list nodes with head, next and tail pointers; they refine operations on lists.
  \<^item> \<open>Receive\<close> (\<open>rplayd/rplayd.c\<close>): \<open>rplayd_read\<close>; the composition from the client's object to
    the spool.

  \<^bold>\<open>The protocol at the client.\<close>
  \<^item> \<open>Rptp\<close> (\<open>librplay/rptp.c\<close>): reading and writing lines over a stream socket whose
    segmentation is arbitrary, commands, the parser of replies.
  \<^item> \<open>Async\<close> (\<open>librplay/async.c\<close>): the table of descriptors, queued writes, callbacks and the main
    loop; \<open>AsyncEvents\<close>: the mask of events a client asks for is the one the daemon sets.

  \<^bold>\<open>The spool.\<close>
  \<^item> \<open>Buffers\<close> (\<open>rplayd/buffer.c\<close>): the buffer pool; the interface \<open>resource_pool\<close>.
  \<^item> \<open>Spool\<close> (\<open>rplayd/spool.c\<close>): the entries, their state machine and counters;
    \<open>SpoolInv\<close>: every operation keeps the counters; \<open>SpoolSteps\<close>: what each operation
    leaves alone, the interfaces \<open>spool_action\<close> and \<open>spool_remover\<close> of the actions of
    \<open>spool_match\<close>.
  \<^item> \<open>Rplayd\<close> (\<open>rplayd/rplayd.c\<close>): the requests on the spool, allocation of entries and
    ids, the step relation \<open>daemon_step\<close>; \<open>Daemon\<close>: the properties over reachable states.

  \<^bold>\<open>Sounds.\<close>
  \<^item> \<open>Ulaw\<close> (\<open>rplayd/ulaw.c\<close>, \<open>ulaw.h\<close>): the mu-law tables; \<open>Native\<close> (\<open>rplayd/native.c\<close>):
    mixing of a sound's samples into the audio buffer, levels, output formats; \<open>Misc\<close>
    (\<open>rplayd/misc.c\<close>): names of formats and orders, times, volumes.
  \<^item> \<open>Header\<close> (\<open>rplayd/sound.c\<close>): \<open>sound_map\<close> and the headers it knows; \<open>SoundTable\<close>: the hash
    table of chains, which refines a finite map of paths; \<open>SoundFill\<close>: opening, seeking, reading
    from files, memory and flows, the expansion of compressed data; \<open>Cleanup\<close>: \<open>sound_read\<close>,
    \<open>sound_reread\<close>, \<open>sound_cleanup\<close>; \<open>Cache\<close> (\<open>rplayd/cache.c\<close>): the cache directory.
  \<^item> \<open>Audio\<close> (\<open>rplayd/rplayd.c\<close>): the timer and the buffer size, the rate chosen for a sound, the
    ring of the monitors.

  \<^bold>\<open>Connections.\<close>
  \<^item> \<open>Events\<close> (\<open>rplayd/connection.c\<close>): connections and their queues of events; \<open>Notify\<close>: the
    texts of notifications and who gets them; \<open>Update\<close>: \<open>connection_update\<close>, one function per
    kind of event; \<open>Requests\<close>: no update loses a request for a sound; \<open>Traffic\<close>: commands,
    flows and output in the order of the bytes; \<open>Replies\<close>: lists in chains of buffers.
  \<^item> \<open>Hosts\<close> (\<open>rplayd/host.c\<close>, \<open>rplayd/server.c\<close>): the hosts file, its regular expressions and what
    they match, which is what the lines grant; the list of other servers.
  \<^item> \<open>CommandBase\<close>, \<open>Execute\<close>, \<open>Settings\<close>, \<open>Command\<close> (\<open>rplayd/command.c\<close>): words and parameters
    of a line, the commands and their answers; \<open>PlayRequest\<close>: what a line of play asks for is
    what the spool gets; \<open>Clients\<close>: concrete clients for the examples.

  \<^bold>\<open>Conventions.\<close>  A pointer is an address (\<open>nat\<close>); a list of the C code that is only
  walked is a HOL list; a list whose pointers matter is a store of nodes.  Undefined
  behaviour of C (use after free, NULL, a write outside an array) is a value of an
  error type, \<open>Inl\<close>, and ends the run.  \<open>int\<close> values that stay far from their bounds are
  unbounded integers; bytes, ports and sizes that wrap are words; floating-point numbers are
  exact rationals, and where they are printed the text is an input.  What the environment does
  is an argument: segments and results of the socket, what \<open>stat\<close> and \<open>opendir\<close> say, the time
  (records \<open>net_env\<close>, \<open>step_env\<close>, \<open>cmd_env\<close>, \<open>recv_env\<close>, \<open>audio_env\<close>, \<open>disk\<close>).  Callbacks of the client
  are a function \<open>react\<close> that sees what happened and gives the operations to run.  Calls from
  connections to the rest of the daemon are recorded in their order (\<open>nt_calls\<close>, \<open>sv_trace\<close>), those of the client library as well (\<open>lib_trace\<close>).

  \<^bold>\<open>Bounds.\<close>  Loops end by structure or a measure: the loops over the table of sounds count the
  addresses below \<open>tb_fresh\<close>, the loop of \<open>connection_update\<close> over descriptors those not yet seen,
  fewer than \<open>FD_SETSIZE\<close>.  The endless loop of \<open>spool_id\<close> has a fuel of 999 rounds, the number of
  ids, and returns whenever fewer than 999 entries are active; \<open>unique_name\<close> of the commands has
  one more round than there are sounds, so that some name is free.

  \<^bold>\<open>Not modelled.\<close>  Drivers of audio devices, CD drives and helper programs (system calls and
  other processes); the timer signal; options and the main loop of the daemon; the
  regular expression library beyond the
  expressions the hosts file gives; the codecs gsm and g72x, which are parameters of
  \<open>SoundFill\<close>; the command-line clients, ports and contributed programs.
\<close>

end
